(* ===== verification/Prelude.thy ===== *)
theory Prelude
  imports
    Main
    "HOL-Library.Monad_Syntax"
    "HOL-Library.Product_Lexorder"
begin

text \<open>
  What every component of the CGRA compiler model shares.

  The compiler keeps its data in the C++ containers \<open>std::map\<close> and \<open>std::set\<close> and its
  behaviour depends on their iteration order (keys ascending). A \<open>std::map\<close> is modelled as
  an association list whose keys are strictly increasing (\<open>omap\<close>), a \<open>std::set\<close> as a
  strictly increasing list (\<open>oset\<close>); a range-based \<open>for\<close> over the container is then a
  recursion over the list. The interfaces the components use are the locales \<open>map_api\<close>,
  extended by \<open>ordered_map_api\<close>, and \<open>set_api\<close>, interpreted on the lists. Loops over containers are
  folds with invariant rules; the contracts of a loop body with \<open>break\<close> and of a step relation
  are the locales \<open>loop_body\<close> and \<open>step_system\<close>.

  A function of the code that can fail (a failed \<open>assert\<close>, \<open>exit(1)\<close>, an exception
  nobody catches, a null pointer that is dereferenced, an index out of range) returns an
  \<open>option\<close>; \<open>None\<close> stands for all of these, so that a theorem concluding \<open>Some\<close>
  excludes them.
\<close>

named_theorems omap_simps "look-ups after updates of ordered maps and sets"
named_theorems fold_intros "invariant rules for the loops over containers"

section \<open>Ordered maps\<close>

type_synonym ('k, 'v) omap = "('k \<times> 'v) list"
type_synonym 'k oset = "'k list"

abbreviation om_get :: "('k, 'v) omap \<Rightarrow> 'k \<Rightarrow> 'v option" where
  "om_get \<equiv> map_of"

definition om_has :: "('k, 'v) omap \<Rightarrow> 'k \<Rightarrow> bool" where
  "om_has m k = (case om_get m k of None \<Rightarrow> False | Some _ \<Rightarrow> True)"

text \<open>\<open>m[k]\<close> of C++, which default-constructs a missing entry; only the value read.\<close>

definition om_at :: "'v \<Rightarrow> ('k, 'v) omap \<Rightarrow> 'k \<Rightarrow> 'v" where
  "om_at d m k = (case om_get m k of None \<Rightarrow> d | Some v \<Rightarrow> v)"

fun om_put :: "('k::linorder, 'v) omap \<Rightarrow> 'k \<Rightarrow> 'v \<Rightarrow> ('k, 'v) omap" where
  "om_put [] k v = [(k, v)]"
| "om_put ((k', v') # m) k v =
     (if k < k' then (k, v) # (k', v') # m
      else if k = k' then (k, v) # m
      else (k', v') # om_put m k v)"

definition om_del :: "('k, 'v) omap \<Rightarrow> 'k \<Rightarrow> ('k, 'v) omap" where
  "om_del m k = filter (\<lambda>p. fst p \<noteq> k) m"

definition om_wf :: "('k::linorder, 'v) omap \<Rightarrow> bool" where
  "om_wf m = sorted_wrt (<) (map fst m)"

text \<open>The last entry, as \<open>rbegin()\<close> reads it.\<close>

definition om_last :: "('k, 'v) omap \<Rightarrow> ('k \<times> 'v) option" where
  "om_last m = (if m = [] then None else Some (last m))"

lemma om_get_put [simp, omap_simps]: "om_get (om_put m k v) = (om_get m)(k \<mapsto> v)"
  by (induction m k v rule: om_put.induct) (auto simp: fun_eq_iff)

lemma om_get_del [simp, omap_simps]: "om_get (om_del m k) = (om_get m)(k := None)"
  by (induction m) (auto simp: om_del_def fun_eq_iff)

lemma om_at_put [simp, omap_simps]: "om_at d (om_put m k v) j = (if j = k then v else om_at d m j)"
  by (simp add: om_at_def)

lemma om_has_put [simp, omap_simps]: "om_has (om_put m k v) j = (j = k \<or> om_has m j)"
  by (auto simp: om_has_def split: option.splits)

lemma om_has_del [simp, omap_simps]: "om_has (om_del m k) j = (j \<noteq> k \<and> om_has m j)"
  by (auto simp: om_has_def split: option.splits)

lemma om_has_iff: "om_has m k \<longleftrightarrow> (\<exists>v. om_get m k = Some v)"
  by (auto simp: om_has_def split: option.splits)

lemma om_has_set: "om_has m k \<longleftrightarrow> k \<in> fst ` set m"
  by (metis map_of_eq_None_iff not_None_eq om_has_iff)

lemma set_keys_put [simp, omap_simps]: "fst ` set (om_put m k v) = insert k (fst ` set m)"
  by (induction m k v rule: om_put.induct) auto

lemma om_wf_Nil [simp]: "om_wf []"
  by (simp add: om_wf_def)

lemma om_wf_Cons [simp]: "om_wf (p # m) \<longleftrightarrow> (\<forall>q \<in> set m. fst p < fst q) \<and> om_wf m"
  by (auto simp: om_wf_def)

lemma set_put_subset: "set (om_put m k v) \<subseteq> insert (k, v) (set m)"
  by (induction m k v rule: om_put.induct) auto

lemma om_wf_put [simp, intro]: "om_wf m \<Longrightarrow> om_wf (om_put m k v)"
proof (induction m k v rule: om_put.induct)
  case (1 k v)
  then show ?case by simp
next
  case (2 k' v' m k v)
  show ?case
  proof (cases "k < k' \<or> k = k'")
    case True
    with 2 show ?thesis by auto
  next
    case False
    with 2 have "om_wf (om_put m k v)" "k' < k" by auto
    moreover have "\<forall>q \<in> set (om_put m k v). k' < fst q"
      using 2(2) set_put_subset[of m k v] \<open>k' < k\<close> by auto
    ultimately show ?thesis using False by auto
  qed
qed

lemma om_wf_del [simp, intro]: "om_wf m \<Longrightarrow> om_wf (om_del m k)"
  by (induction m) (auto simp: om_del_def)

lemma om_get_mem: "om_wf m \<Longrightarrow> (k, v) \<in> set m \<longleftrightarrow> om_get m k = Some v"
proof (induction m)
  case (Cons p m)
  then show ?case by (cases p) (force dest: map_of_SomeD)
qed simp

lemma om_wf_distinct: "om_wf m \<Longrightarrow> distinct (map fst m)"
  unfolding om_wf_def by (simp add: strict_sorted_iff)

lemma om_get_above: "om_wf (p # m) \<Longrightarrow> k \<le> fst p \<Longrightarrow> om_get m k = None"
  by (force simp: map_of_eq_None_iff)

lemma om_ext: "om_wf m \<Longrightarrow> om_wf m' \<Longrightarrow> om_get m = om_get m' \<Longrightarrow> m = m'"
proof (induction m arbitrary: m')
  case Nil
  then show ?case by (cases m') (auto simp: fun_eq_iff split: if_splits)
next
  case (Cons p m)
  obtain k v where p: "p = (k, v)" by fastforce
  have gk: "om_get m' k = Some v" using Cons.prems(3) p by (metis map_of_Cons_code(2))
  then obtain q n where m': "m' = q # n" by (cases m') auto
  obtain k' v' where q: "q = (k', v')" by fastforce
  have gk': "om_get (p # m) k' = Some v'"
    unfolding Cons.prems(3) using m' q by simp
  have "k = k'"
  proof (rule ccontr)
    assume "k \<noteq> k'"
    then have "om_get n k = Some v" "om_get m k' = Some v'"
      using gk gk' p q m' by auto
    then have "k' < k" "k < k'"
      using Cons.prems(1,2) p q m' by (auto dest!: map_of_SomeD)
    then show False by simp
  qed
  moreover have "v = v'" using gk q m' \<open>k = k'\<close> by simp
  moreover have "om_get m = om_get n"
  proof
    fix j
    have N: "om_get m k = None" "om_get n k = None"
      using Cons.prems(1,2) p q m' \<open>k = k'\<close>
      by (metis fst_conv om_get_above order_refl)+
    show "om_get m j = om_get n j"
      using fun_cong[OF Cons.prems(3), of j] p q m' \<open>k = k'\<close> N by (cases "j = k") auto
  qed
  ultimately show ?case using Cons p q m' by auto
qed

lemma ex_upd_fresh:
  "f k0 = None \<Longrightarrow> (\<exists>k x. (f(k0 \<mapsto> e)) k = Some x \<and> P x) \<longleftrightarrow> P e \<or> (\<exists>k x. f k = Some x \<and> P x)"
  by (metis fun_upd_apply option.distinct(1) option.inject)

lemma ex_del_other:
  "(\<exists>k x. (f(k0 := None)) k = Some x \<and> P x) \<longleftrightarrow> (\<exists>k x. k \<noteq> k0 \<and> f k = Some x \<and> P x)"
  by (metis fun_upd_apply option.distinct(1))

section \<open>The interface the components use\<close>

locale map_api =
  fixes get :: "'m \<Rightarrow> 'k::linorder \<Rightarrow> 'v option"
    and put :: "'m \<Rightarrow> 'k \<Rightarrow> 'v \<Rightarrow> 'm"
    and del :: "'m \<Rightarrow> 'k \<Rightarrow> 'm"
    and inv :: "'m \<Rightarrow> bool"
  assumes get_put: "get (put m k v) = (get m)(k \<mapsto> v)"
    and get_del: "get (del m k) = (get m)(k := None)"
    and inv_put: "inv m \<Longrightarrow> inv (put m k v)"
    and inv_del: "inv m \<Longrightarrow> inv (del m k)"
begin

lemma get_put_other: "j \<noteq> k \<Longrightarrow> get (put m k v) j = get m j"
  by (simp add: get_put)

lemma get_del_put: "get (del (put m k v) k) = (get m)(k := None)"
  by (simp add: get_put get_del)

end

locale ordered_map_api = map_api +
  assumes ext_eq: "inv m \<Longrightarrow> inv m' \<Longrightarrow> get m = get m' \<Longrightarrow> m = m'"
begin

lemma del_put_fresh: "inv m \<Longrightarrow> get m k = None \<Longrightarrow> del (put m k v) k = m"
  by (rule ext_eq) (auto simp: get_put get_del inv_put inv_del)

lemma put_put: "inv m \<Longrightarrow> put (put m k v) k w = put m k w"
  by (rule ext_eq) (auto simp: get_put inv_put)

lemma put_same: "inv m \<Longrightarrow> get m k = Some v \<Longrightarrow> put m k v = m"
  by (rule ext_eq) (auto simp: get_put inv_put)

lemma del_absent: "inv m \<Longrightarrow> get m k = None \<Longrightarrow> del m k = m"
  by (rule ext_eq) (auto simp: get_del inv_del)

end

interpretation om: ordered_map_api om_get om_put om_del om_wf
  by unfold_locales (auto intro: om_ext)

section \<open>Ordered sets\<close>

definition os_ins :: "'k::linorder oset \<Rightarrow> 'k \<Rightarrow> 'k oset" where
  "os_ins s k = insort_insert k s"

definition os_del :: "'k oset \<Rightarrow> 'k \<Rightarrow> 'k oset" where
  "os_del s k = filter (\<lambda>x. x \<noteq> k) s"

definition os_wf :: "'k::linorder oset \<Rightarrow> bool" where
  "os_wf s = sorted_wrt (<) s"

lemma set_os_ins [simp, omap_simps]: "set (os_ins s k) = insert k (set s)"
  by (simp add: os_ins_def set_insort_insert)

lemma set_os_del [simp, omap_simps]: "set (os_del s k) = set s - {k}"
  by (auto simp: os_del_def)

lemma os_wf_ins [simp, intro]: "os_wf s \<Longrightarrow> os_wf (os_ins s k)"
  by (simp add: os_ins_def os_wf_def strict_sorted_iff sorted_insort_insert distinct_insort_insert)

lemma os_wf_del [simp, intro]: "os_wf s \<Longrightarrow> os_wf (os_del s k)"
  by (simp add: os_del_def os_wf_def sorted_wrt_filter)

lemma os_wf_Nil [simp]: "os_wf []"
  by (simp add: os_wf_def)

lemma os_ext: "os_wf s \<Longrightarrow> os_wf t \<Longrightarrow> set s = set t \<Longrightarrow> s = t"
  unfolding os_wf_def by (rule strict_sorted_equal)

locale set_api =
  fixes elems :: "'s \<Rightarrow> 'k::linorder set"
    and add :: "'s \<Rightarrow> 'k \<Rightarrow> 's"
    and del :: "'s \<Rightarrow> 'k \<Rightarrow> 's"
    and inv :: "'s \<Rightarrow> bool"
  assumes elems_add: "elems (add s k) = insert k (elems s)"
    and elems_del: "elems (del s k) = elems s - {k}"
    and inv_add: "inv s \<Longrightarrow> inv (add s k)"
    and inv_del: "inv s \<Longrightarrow> inv (del s k)"
    and ext_eq: "inv s \<Longrightarrow> inv t \<Longrightarrow> elems s = elems t \<Longrightarrow> s = t"
begin

lemma del_add_fresh: "inv s \<Longrightarrow> k \<notin> elems s \<Longrightarrow> del (add s k) k = s"
  by (rule ext_eq) (auto simp: elems_add elems_del inv_add inv_del)

lemma add_same: "inv s \<Longrightarrow> k \<in> elems s \<Longrightarrow> add s k = s"
  by (rule ext_eq) (auto simp: elems_add inv_add)

lemma del_missing: "inv s \<Longrightarrow> k \<notin> elems s \<Longrightarrow> del s k = s"
  by (rule ext_eq) (auto simp: elems_del inv_del)

end

interpretation os: set_api set os_ins os_del os_wf
  by unfold_locales (auto intro: os_ext)

section \<open>Positions\<close>

text \<open>Where a list has an element first.\<close>

definition index_of :: "int list \<Rightarrow> int \<Rightarrow> nat" where
  "index_of xs n = length (takeWhile (\<lambda>x. x \<noteq> n) xs)"

lemma idx_nth: "distinct xs \<Longrightarrow> i < length xs \<Longrightarrow> index_of xs (xs ! i) = i"
proof (induction xs arbitrary: i)
  case (Cons x xs)
  then show ?case by (cases i) (auto simp: index_of_def)
qed simp

lemma idx_less: "n \<in> set xs \<Longrightarrow> index_of xs n < length xs"
  by (induction xs) (auto simp: index_of_def)

lemma nth_idx: "n \<in> set xs \<Longrightarrow> xs ! index_of xs n = n"
  by (induction xs) (auto simp: index_of_def)

section \<open>Loops that can fail\<close>

text \<open>
  \<open>mfold f s xs\<close> runs the loop body \<open>f\<close> over \<open>xs\<close> from state \<open>s\<close>; it fails when one
  iteration fails.
\<close>

fun mfold :: "('s \<Rightarrow> 'a \<Rightarrow> 's option) \<Rightarrow> 's \<Rightarrow> 'a list \<Rightarrow> 's option" where
  "mfold f s [] = Some s"
| "mfold f s (x # xs) = Option.bind (f s x) (\<lambda>s'. mfold f s' xs)"

lemma mfold_cong [fundef_cong]:
  "s = s' \<Longrightarrow> xs = xs' \<Longrightarrow> (\<And>t x. x \<in> set xs' \<Longrightarrow> f t x = g t x) \<Longrightarrow> mfold f s xs = mfold g s' xs'"
proof (induction xs arbitrary: s s' xs')
  case (Cons x xs)
  then show ?case by (cases "g s' x") auto
qed simp

lemma mfold_append: "mfold f s (xs @ ys) = Option.bind (mfold f s xs) (\<lambda>t. mfold f t ys)"
  by (induction xs arbitrary: s) (auto split: bind_splits)

lemma mfold_inv [fold_intros]:
  assumes "mfold f s xs = Some t" and "P s"
    and "\<And>x u v. x \<in> set xs \<Longrightarrow> P u \<Longrightarrow> f u x = Some v \<Longrightarrow> P v"
  shows "P t"
  using assms
proof (induction xs arbitrary: s)
  case (Cons x xs)
  from Cons.prems(1) obtain u where u: "f s x = Some u" "mfold f u xs = Some t"
    by (auto split: bind_splits)
  then have "P u" using Cons.prems(3)[OF _ Cons.prems(2) u(1)] by simp
  with u(2) show ?case using Cons.IH Cons.prems(3) by (metis list.set_intros(2))
qed simp

lemma mfold_each: "mfold f s xs = Some t \<Longrightarrow> x \<in> set xs \<Longrightarrow> \<exists>u v. f u x = Some v"
  by (induction xs arbitrary: s) (auto split: bind_splits)

lemma mfold_total [fold_intros]:
  assumes "P s"
    and "\<And>x u. x \<in> set xs \<Longrightarrow> P u \<Longrightarrow> \<exists>v. f u x = Some v \<and> P v"
  shows "\<exists>t. mfold f s xs = Some t \<and> P t"
  using assms
proof (induction xs arbitrary: s)
  case (Cons x xs)
  from Cons.prems obtain v where "f s x = Some v" "P v" by fastforce
  with Cons show ?case by auto
qed auto

text \<open>A loop with the set of keys it has dealt with as a ghost variable.\<close>

lemma mfold_ghost:
  assumes "distinct (map key xs)" "\<And>x. x \<in> set xs \<Longrightarrow> key x \<notin> P" "J P s"
    and "\<And>x P s. x \<in> set xs \<Longrightarrow> key x \<notin> P \<Longrightarrow> J P s \<Longrightarrow> \<exists>s'. f s x = Some s' \<and> J (insert (key x) P) s'"
  shows "\<exists>s'. mfold f s xs = Some s' \<and> J (P \<union> key ` set xs) s'"
  using assms
proof (induction xs arbitrary: P s)
  case (Cons x xs)
  obtain s1 where s1: "f s x = Some s1" "J (insert (key x) P) s1"
    using Cons.prems(4)[of x P s] Cons.prems(2)[of x] Cons.prems(3) by auto
  have "\<exists>s'. mfold f s1 xs = Some s' \<and> J (insert (key x) P \<union> key ` set xs) s'"
  proof (rule Cons.IH[OF _ _ s1(2)])
    show "distinct (map key xs)" using Cons.prems(1) by simp
    show "key y \<notin> insert (key x) P" if "y \<in> set xs" for y
      using that Cons.prems(1,2) by (metis distinct.simps(2) image_eqI insert_iff list.set_intros(2) list.simps(9) set_map)
    show "\<exists>s'. f s y = Some s' \<and> J (insert (key y) P) s'" if "y \<in> set xs" "key y \<notin> P" "J P s" for y P s
      using that Cons.prems(4) by simp
  qed
  then show ?case using s1(1) by auto
qed auto

text \<open>A loop whose invariant is about the elements already seen, in order.\<close>

lemma mfold_prefix:
  assumes "J [] s" and "\<And>us x vs s. xs = us @ x # vs \<Longrightarrow> J us s \<Longrightarrow> \<exists>s'. f s x = Some s' \<and> J (us @ [x]) s'"
  shows "\<exists>s'. mfold f s xs = Some s' \<and> J xs s'"
proof -
  have "xs = us @ vs \<Longrightarrow> J us s \<Longrightarrow> \<exists>s'. mfold f s vs = Some s' \<and> J xs s'" for us vs s
  proof (induction vs arbitrary: us s)
    case (Cons x vs)
    obtain s1 where s1: "f s x = Some s1" "J (us @ [x]) s1" using assms(2)[OF Cons.prems] by blast
    have "xs = (us @ [x]) @ vs" using Cons.prems(1) by simp
    from Cons.IH[OF this s1(2)] show ?case using s1(1) by simp
  qed simp
  from this[of "[]" xs s] show ?thesis using assms(1) by simp
qed

text \<open>
  A loop with \<open>break\<close>: an iteration says whether to stop. The contract of a loop body, from which
  the loop is total: an iteration from a state that satisfies the invariant returns, and the
  state it leaves satisfies the invariant, or what is wanted at the end if it stops there.
\<close>

datatype flow = Brk | Cont

fun for_break :: "('i \<Rightarrow> 's \<Rightarrow> (flow \<times> 's) option) \<Rightarrow> 'i list \<Rightarrow> 's \<Rightarrow> 's option" where
  "for_break step [] s = Some s"
| "for_break step (i # is) s = do {
     (f, s') \<leftarrow> step i s;
     (case f of Brk \<Rightarrow> Some s' | Cont \<Rightarrow> for_break step is s') }"

lemma for_break_inv [fold_intros]:
  assumes "\<And>i u f v. P u \<Longrightarrow> step i u = Some (f, v) \<Longrightarrow> P v"
  shows "for_break step is s = Some t \<Longrightarrow> P s \<Longrightarrow> P t"
proof (induction "is" arbitrary: s)
  case (Cons i ks)
  then show ?case using assms by (auto split: bind_splits flow.splits)
qed simp

locale loop_body =
  fixes step :: "'i \<Rightarrow> 's \<Rightarrow> (flow \<times> 's) option"
    and inv :: "'s \<Rightarrow> bool"
    and post :: "'s \<Rightarrow> bool"
  assumes step_ok: "inv s \<Longrightarrow> \<exists>f s'. step i s = Some (f, s') \<and> (if f = Cont then inv s' else post s')"
    and inv_post: "inv s \<Longrightarrow> post s"
begin

lemma loop_returns: "inv s \<Longrightarrow> \<exists>s'. for_break step is s = Some s' \<and> post s'"
proof (induction "is" arbitrary: s)
  case Nil
  then show ?case by (simp add: inv_post)
next
  case (Cons i ks)
  obtain f s' where "step i s = Some (f, s')" "if f = Cont then inv s' else post s'" using step_ok[OF Cons.prems] by blast
  then show ?case using Cons.IH[of s'] by (cases f) auto
qed

end

section \<open>Sequences of steps\<close>

text \<open>A system that starts in a good state and whose steps lead from good states to good states.\<close>

locale step_system =
  fixes init :: "'s \<Rightarrow> bool"
    and step :: "'s \<Rightarrow> 's \<Rightarrow> bool"
    and inv :: "'s \<Rightarrow> bool"
  assumes init_ok: "init s \<Longrightarrow> inv s"
    and step_keeps: "inv s \<Longrightarrow> step s s' \<Longrightarrow> inv s'"
begin

lemma steps_keep: "step\<^sup>*\<^sup>* s s' \<Longrightarrow> inv s \<Longrightarrow> inv s'"
  by (induction rule: rtranclp_induct) (auto intro: step_keeps)

lemma reachable_ok: "init s \<Longrightarrow> step\<^sup>*\<^sup>* s s' \<Longrightarrow> inv s'"
  by (rule steps_keep) (auto intro: init_ok)

end

section \<open>Loops without failure\<close>

lemma mfold_Some_foldl: "mfold (\<lambda>s x. Some (f s x)) s xs = Some (foldl f s xs)"
  by (induction xs arbitrary: s) auto

lemma foldl_inv [fold_intros]:
  assumes "P s" and "\<And>x u. x \<in> set xs \<Longrightarrow> P u \<Longrightarrow> P (f u x)"
  shows "P (foldl f s xs)"
  using assms by (induction xs arbitrary: s) auto

end
