(* ===== verification/Graph.thy ===== *)
theory Graph
  imports Prelude "HOL-Library.List_Lexorder" "HOL-Library.Char_ord"
begin

text \<open>
  The graph base classes of the CGRA compiler (\<open>include/graph\<close>, \<open>src/graph\<close>): a node with
  its per-port connections (\<open>GraphNode\<close>), an edge (\<open>GraphEdge\<close>) and the ports of a whole
  graph (\<open>Graph\<close>). An input port has at most one driver; an output port drives a set of
  ports. The DFG and ADG classes inherit from these; records with extension play the part of
  inheritance, so the operations below work on the derived nodes and graphs as they are.
  Printing is not modelled. Members that a constructor leaves indeterminate are given by
  whoever builds the record.
\<close>

section \<open>Edges\<close>

record gedge =
  ge_id :: int
  ge_srcPortIdx :: int
  ge_dstPortIdx :: int
  ge_srcId :: int
  ge_dstId :: int

definition gedge_setEdge :: "int \<Rightarrow> int \<Rightarrow> int \<Rightarrow> int \<Rightarrow> gedge \<Rightarrow> gedge" where
  "gedge_setEdge srcId srcPort dstId dstPort e =
     e\<lparr>ge_srcId := srcId, ge_srcPortIdx := srcPort, ge_dstId := dstId, ge_dstPortIdx := dstPort\<rparr>"

section \<open>Nodes\<close>

record gnode =
  gn_id :: int
  gn_name :: string
  gn_type :: string
  gn_bitWidth :: int
  gn_inputs :: "(int, int \<times> int) omap"
  gn_outputs :: "(int, (int \<times> int) oset) omap"
  gn_inputEdges :: "(int, int) omap"
  gn_outputEdges :: "(int, int oset) omap"

text \<open>Decimal digits, as \<open>std::to_string\<close> prints an \<open>int\<close>.\<close>

fun nat_digits :: "nat \<Rightarrow> string" where
  "nat_digits n =
     (if n < 10 then [char_of (48 + n)] else nat_digits (n div 10) @ [char_of (48 + n mod 10)])"

declare nat_digits.simps [simp del]

definition int_to_string :: "int \<Rightarrow> string" where
  "int_to_string i = (if i < 0 then CHR ''-'' # nat_digits (nat (- i)) else nat_digits (nat i))"

definition gnode_name :: "'a gnode_scheme \<Rightarrow> string" where
  "gnode_name n = (if gn_name n \<noteq> [] then gn_name n else gn_type n @ int_to_string (gn_id n))"

definition gnode_numInputs :: "'a gnode_scheme \<Rightarrow> int" where
  "gnode_numInputs n = int (length (gn_inputs n))"

definition gnode_numOutputs :: "'a gnode_scheme \<Rightarrow> int" where
  "gnode_numOutputs n = int (length (gn_outputs n))"

definition gnode_input :: "'a gnode_scheme \<Rightarrow> int \<Rightarrow> int \<times> int" where
  "gnode_input n index = om_at (0, 0) (gn_inputs n) index"

definition gnode_output :: "'a gnode_scheme \<Rightarrow> int \<Rightarrow> (int \<times> int) oset" where
  "gnode_output n index = om_at [] (gn_outputs n) index"

definition gnode_addInput :: "int \<Rightarrow> int \<times> int \<Rightarrow> 'a gnode_scheme \<Rightarrow> 'a gnode_scheme" where
  "gnode_addInput index node n = n\<lparr>gn_inputs := om_put (gn_inputs n) index node\<rparr>"

definition gnode_addOutput :: "int \<Rightarrow> int \<times> int \<Rightarrow> 'a gnode_scheme \<Rightarrow> 'a gnode_scheme" where
  "gnode_addOutput index node n =
     n\<lparr>gn_outputs := om_put (gn_outputs n) index (os_ins (om_at [] (gn_outputs n) index) node)\<rparr>"

definition gnode_delInput :: "int \<Rightarrow> 'a gnode_scheme \<Rightarrow> 'a gnode_scheme" where
  "gnode_delInput index n = n\<lparr>gn_inputs := om_del (gn_inputs n) index\<rparr>"

text \<open>\<open>_outputs[index].erase(node)\<close> default-constructs an empty set for an unknown port.\<close>

definition gnode_delOutput :: "int \<Rightarrow> int \<times> int \<Rightarrow> 'a gnode_scheme \<Rightarrow> 'a gnode_scheme" where
  "gnode_delOutput index node n =
     n\<lparr>gn_outputs := om_put (gn_outputs n) index (os_del (om_at [] (gn_outputs n) index) node)\<rparr>"

definition gnode_delOutputPort :: "int \<Rightarrow> 'a gnode_scheme \<Rightarrow> 'a gnode_scheme" where
  "gnode_delOutputPort index n = n\<lparr>gn_outputs := om_del (gn_outputs n) index\<rparr>"

definition gnode_inputEdge :: "'a gnode_scheme \<Rightarrow> int \<Rightarrow> int" where
  "gnode_inputEdge n index = om_at (-1) (gn_inputEdges n) index"

definition gnode_outputEdge :: "'a gnode_scheme \<Rightarrow> int \<Rightarrow> int oset" where
  "gnode_outputEdge n index = om_at [] (gn_outputEdges n) index"

definition gnode_addInputEdge :: "int \<Rightarrow> int \<Rightarrow> 'a gnode_scheme \<Rightarrow> 'a gnode_scheme" where
  "gnode_addInputEdge index edgeId n = n\<lparr>gn_inputEdges := om_put (gn_inputEdges n) index edgeId\<rparr>"

definition gnode_addOutputEdge :: "int \<Rightarrow> int \<Rightarrow> 'a gnode_scheme \<Rightarrow> 'a gnode_scheme" where
  "gnode_addOutputEdge index edgeId n =
     n\<lparr>gn_outputEdges :=
        om_put (gn_outputEdges n) index (os_ins (om_at [] (gn_outputEdges n) index) edgeId)\<rparr>"

definition gnode_delInputEdge :: "int \<Rightarrow> 'a gnode_scheme \<Rightarrow> 'a gnode_scheme" where
  "gnode_delInputEdge index n = n\<lparr>gn_inputEdges := om_del (gn_inputEdges n) index\<rparr>"

definition gnode_delOutputEdge :: "int \<Rightarrow> int \<Rightarrow> 'a gnode_scheme \<Rightarrow> 'a gnode_scheme option" where
  "gnode_delOutputEdge index edgeId n =
     (case om_get (gn_outputEdges n) index of
        None \<Rightarrow> None
      | Some s \<Rightarrow> Some (n\<lparr>gn_outputEdges := om_put (gn_outputEdges n) index (os_del s edgeId)\<rparr>))"

definition gnode_delOutputEdgePort :: "int \<Rightarrow> 'a gnode_scheme \<Rightarrow> 'a gnode_scheme" where
  "gnode_delOutputEdgePort index n = n\<lparr>gn_outputEdges := om_del (gn_outputEdges n) index\<rparr>"

section \<open>Graph ports\<close>

record graph =
  g_id :: int
  g_bitWidth :: int
  g_inputNames :: "(int, string) omap"
  g_outputNames :: "(int, string) omap"
  g_inputs :: "(int, (int \<times> int) oset) omap"
  g_outputs :: "(int, int \<times> int) omap"
  g_inputEdges :: "(int, int oset) omap"
  g_outputEdges :: "(int, int) omap"

definition graph_numInputs :: "'a graph_scheme \<Rightarrow> int" where
  "graph_numInputs g = int (length (g_inputs g))"

definition graph_numOutputs :: "'a graph_scheme \<Rightarrow> int" where
  "graph_numOutputs g = int (length (g_outputs g))"

definition graph_setInputName :: "int \<Rightarrow> string \<Rightarrow> 'a graph_scheme \<Rightarrow> 'a graph_scheme" where
  "graph_setInputName index name g = g\<lparr>g_inputNames := om_put (g_inputNames g) index name\<rparr>"

definition graph_inputName :: "'a graph_scheme \<Rightarrow> int \<Rightarrow> string" where
  "graph_inputName g index = om_at [] (g_inputNames g) index"

definition graph_setOutputName :: "int \<Rightarrow> string \<Rightarrow> 'a graph_scheme \<Rightarrow> 'a graph_scheme" where
  "graph_setOutputName index name g = g\<lparr>g_outputNames := om_put (g_outputNames g) index name\<rparr>"

definition graph_outputName :: "'a graph_scheme \<Rightarrow> int \<Rightarrow> string" where
  "graph_outputName g index = om_at [] (g_outputNames g) index"

definition graph_input :: "'a graph_scheme \<Rightarrow> int \<Rightarrow> (int \<times> int) oset" where
  "graph_input g index = om_at [] (g_inputs g) index"

definition graph_output :: "'a graph_scheme \<Rightarrow> int \<Rightarrow> int \<times> int" where
  "graph_output g index = om_at (0, 0) (g_outputs g) index"

definition graph_addInput :: "int \<Rightarrow> int \<times> int \<Rightarrow> 'a graph_scheme \<Rightarrow> 'a graph_scheme" where
  "graph_addInput index node g =
     g\<lparr>g_inputs := om_put (g_inputs g) index (os_ins (om_at [] (g_inputs g) index) node)\<rparr>"

definition graph_addOutput :: "int \<Rightarrow> int \<times> int \<Rightarrow> 'a graph_scheme \<Rightarrow> 'a graph_scheme" where
  "graph_addOutput index node g = g\<lparr>g_outputs := om_put (g_outputs g) index node\<rparr>"

definition graph_delInput :: "int \<Rightarrow> int \<times> int \<Rightarrow> 'a graph_scheme \<Rightarrow> 'a graph_scheme" where
  "graph_delInput index node g =
     g\<lparr>g_inputs := om_put (g_inputs g) index (os_del (om_at [] (g_inputs g) index) node)\<rparr>"

definition graph_delInputPort :: "int \<Rightarrow> 'a graph_scheme \<Rightarrow> 'a graph_scheme" where
  "graph_delInputPort index g = g\<lparr>g_inputs := om_del (g_inputs g) index\<rparr>"

definition graph_delOutput :: "int \<Rightarrow> 'a graph_scheme \<Rightarrow> 'a graph_scheme" where
  "graph_delOutput index g = g\<lparr>g_outputs := om_del (g_outputs g) index\<rparr>"

definition graph_inputEdge :: "'a graph_scheme \<Rightarrow> int \<Rightarrow> int oset" where
  "graph_inputEdge g index = om_at [] (g_inputEdges g) index"

definition graph_outputEdge :: "'a graph_scheme \<Rightarrow> int \<Rightarrow> int" where
  "graph_outputEdge g index = om_at (-1) (g_outputEdges g) index"

definition graph_addInputEdge :: "int \<Rightarrow> int \<Rightarrow> 'a graph_scheme \<Rightarrow> 'a graph_scheme" where
  "graph_addInputEdge index edgeId g =
     g\<lparr>g_inputEdges := om_put (g_inputEdges g) index (os_ins (om_at [] (g_inputEdges g) index) edgeId)\<rparr>"

definition graph_addOutputEdge :: "int \<Rightarrow> int \<Rightarrow> 'a graph_scheme \<Rightarrow> 'a graph_scheme" where
  "graph_addOutputEdge index edgeId g = g\<lparr>g_outputEdges := om_put (g_outputEdges g) index edgeId\<rparr>"

definition graph_delInputEdge :: "int \<Rightarrow> int \<Rightarrow> 'a graph_scheme \<Rightarrow> 'a graph_scheme" where
  "graph_delInputEdge index edgeId g =
     g\<lparr>g_inputEdges := om_put (g_inputEdges g) index (os_del (om_at [] (g_inputEdges g) index) edgeId)\<rparr>"

definition graph_delInputEdgePort :: "int \<Rightarrow> 'a graph_scheme \<Rightarrow> 'a graph_scheme" where
  "graph_delInputEdgePort index g = g\<lparr>g_inputEdges := om_del (g_inputEdges g) index\<rparr>"

definition graph_delOutputEdge :: "int \<Rightarrow> 'a graph_scheme \<Rightarrow> 'a graph_scheme" where
  "graph_delOutputEdge index g = g\<lparr>g_outputEdges := om_del (g_outputEdges g) index\<rparr>"

lemmas gnode_ops =
  gnode_addInput_def gnode_addOutput_def gnode_delInput_def gnode_delOutput_def
  gnode_delOutputPort_def gnode_addInputEdge_def gnode_addOutputEdge_def
  gnode_delInputEdge_def gnode_delOutputEdge_def gnode_delOutputEdgePort_def

lemmas gnode_reads =
  gnode_input_def gnode_output_def gnode_inputEdge_def gnode_outputEdge_def

lemmas graph_ops =
  graph_addInput_def graph_addOutput_def graph_delInput_def graph_delInputPort_def
  graph_delOutput_def graph_addInputEdge_def graph_addOutputEdge_def graph_delInputEdge_def
  graph_delInputEdgePort_def graph_delOutputEdge_def

section \<open>Connecting and disconnecting a port of one node\<close>

text \<open>
  An input port forgets its driver completely. An output port keeps an empty entry, so the
  number of output ports (\<open>_outputs.size()\<close>) does not go back.
\<close>

lemma delInput_addInput:
  "om_wf (gn_inputs n) \<Longrightarrow> om_get (gn_inputs n) p = None \<Longrightarrow>
   gnode_delInput p (gnode_addInput p d n) = n"
  by (simp add: gnode_ops om.del_put_fresh)

lemma delOutput_addOutput_sets:
  assumes "\<And>q. os_wf (gnode_output n q)" and "d \<notin> set (gnode_output n p)"
  shows "gnode_output (gnode_delOutput p d (gnode_addOutput p d n)) q = gnode_output n q"
  using assms by (simp add: gnode_ops gnode_reads os.del_add_fresh)

lemma delOutput_addOutput_numOutputs:
  assumes "gn_outputs n = []"
  shows "gnode_numOutputs (gnode_delOutput p d (gnode_addOutput p d n)) = 1"
  using assms by (simp add: gnode_ops gnode_numOutputs_def)

end
