(* ===== verification/OpInfo.thy ===== *)
theory OpInfo
  imports Graph
begin

text \<open>
  JSON values as the parsers of the compiler see them, and the operation table
  (\<open>include/op/operations.h\<close>, \<open>src/op/operations.cpp\<close>).

  The text-to-value step of the vendored JSON library is not modelled; a value is. The
  accessors follow \<open>nlohmann::json\<close>: \<open>operator[]\<close> with a key on an object yields null for a
  missing key and fails on a value that is neither an object nor null; \<open>get<int>\<close> accepts
  integers and booleans; \<open>get<std::string>\<close> accepts strings only; anything else throws,
  which nobody catches (\<open>None\<close>). Numbers with a fraction do not occur in these files and
  are left out. Objects list their members by key, ascending.
\<close>

datatype json =
    JNull
  | JBool bool
  | JInt int
  | JStr string
  | JArr "json list"
  | JObj "(string \<times> json) list"

fun j_at :: "json \<Rightarrow> string \<Rightarrow> json option" where
  "j_at (JObj ms) k = Some (om_at JNull ms k)"
| "j_at JNull k = Some JNull"
| "j_at _ k = None"

fun j_contains :: "json \<Rightarrow> string \<Rightarrow> bool" where
  "j_contains (JObj ms) k = om_has ms k"
| "j_contains _ k = False"

fun j_int :: "json \<Rightarrow> int option" where
  "j_int (JInt i) = Some i"
| "j_int (JBool b) = Some (if b then 1 else 0)"
| "j_int _ = None"

fun j_bool :: "json \<Rightarrow> bool option" where
  "j_bool (JBool b) = Some b"
| "j_bool _ = None"

fun j_str :: "json \<Rightarrow> string option" where
  "j_str (JStr s) = Some s"
| "j_str _ = None"

text \<open>\<open>for(auto& e : j)\<close>: the elements of an array, the values of an object, nothing for null.\<close>

fun j_elems :: "json \<Rightarrow> json list" where
  "j_elems (JArr es) = es"
| "j_elems (JObj ms) = map snd ms"
| "j_elems JNull = []"
| "j_elems v = [v]"

text \<open>\<open>j.items()\<close> of an object; the keys of an array are its indices.\<close>

fun j_items :: "json \<Rightarrow> (string \<times> json) list" where
  "j_items (JObj ms) = ms"
| "j_items (JArr es) = zip (map (\<lambda>i. int_to_string (int i)) [0..<length es]) es"
| "j_items JNull = []"
| "j_items v = [([], v)]"

text \<open>\<open>j[i]\<close> of an array; an index past the end is undefined behaviour for a const array and
  fills with null otherwise.\<close>

fun j_nth :: "json \<Rightarrow> nat \<Rightarrow> json option" where
  "j_nth (JArr es) i = Some (if i < length es then es ! i else JNull)"
| "j_nth JNull i = Some JNull"
| "j_nth _ i = None"

definition j_int_at :: "json \<Rightarrow> string \<Rightarrow> int option" where
  "j_int_at j k = Option.bind (j_at j k) j_int"

definition j_str_at :: "json \<Rightarrow> string \<Rightarrow> string option" where
  "j_str_at j k = Option.bind (j_at j k) j_str"

section \<open>The operation table\<close>

record opInfo =
  oi_OPC :: int
  oi_numOperands :: int
  oi_numRes :: int
  oi_latency :: int
  oi_bitWidth :: int
  oi_commutative :: bool
  oi_accumulative :: bool

type_synonym op_table = "(string, opInfo) omap"

definition opt_int_at :: "json \<Rightarrow> string \<Rightarrow> int \<Rightarrow> int option" where
  "opt_int_at j k d = (if j_contains j k then j_int_at j k else Some d)"

definition parse_opInfo :: "json \<Rightarrow> (string \<times> opInfo) option" where
  "parse_opInfo elem = do {
     name \<leftarrow> j_str_at elem ''name'';
     opc \<leftarrow> j_int_at elem ''OPC'';
     numOperands \<leftarrow> opt_int_at elem ''numOperands'' (-1);
     numRes \<leftarrow> opt_int_at elem ''numRes'' (-1);
     latency \<leftarrow> opt_int_at elem ''latency'' (-1);
     commutative \<leftarrow> opt_int_at elem ''commutative'' 0;
     accumulative \<leftarrow> opt_int_at elem ''accumulative'' 0;
     bitWidth \<leftarrow> opt_int_at elem ''bitWidth'' (-1);
     Some (name, \<lparr>oi_OPC = opc, oi_numOperands = numOperands, oi_numRes = numRes,
       oi_latency = latency, oi_bitWidth = bitWidth,
       oi_commutative = (commutative = 1), oi_accumulative = (accumulative = 1)\<rparr>) }"

definition parse_operations :: "json \<Rightarrow> op_table option" where
  "parse_operations ops_info = do {
     ops \<leftarrow> j_at ops_info ''Operations'';
     mfold (\<lambda>t elem. do { (name, info) \<leftarrow> parse_opInfo elem; Some (om_put t name info) })
       [] (j_elems ops) }"

definition op_numOps :: "op_table \<Rightarrow> int" where
  "op_numOps t = int (length t)"

definition op_OPC :: "op_table \<Rightarrow> string \<Rightarrow> int" where
  "op_OPC t op = (case om_get t op of Some i \<Rightarrow> oi_OPC i | None \<Rightarrow> -1)"

definition op_numOperands :: "op_table \<Rightarrow> string \<Rightarrow> int" where
  "op_numOperands t op = (case om_get t op of Some i \<Rightarrow> oi_numOperands i | None \<Rightarrow> -1)"

definition op_numRes :: "op_table \<Rightarrow> string \<Rightarrow> int" where
  "op_numRes t op = (case om_get t op of Some i \<Rightarrow> oi_numRes i | None \<Rightarrow> -1)"

definition op_latency :: "op_table \<Rightarrow> string \<Rightarrow> int" where
  "op_latency t op = (case om_get t op of Some i \<Rightarrow> oi_latency i | None \<Rightarrow> -1)"

definition op_bitWidth :: "op_table \<Rightarrow> string \<Rightarrow> int" where
  "op_bitWidth t op = (case om_get t op of Some i \<Rightarrow> oi_bitWidth i | None \<Rightarrow> -1)"

definition op_isCommutative :: "op_table \<Rightarrow> string \<Rightarrow> bool" where
  "op_isCommutative t op = (case om_get t op of Some i \<Rightarrow> oi_commutative i | None \<Rightarrow> False)"

definition op_isAccumulative :: "op_table \<Rightarrow> string \<Rightarrow> bool" where
  "op_isAccumulative t op = (case om_get t op of Some i \<Rightarrow> oi_accumulative i | None \<Rightarrow> False)"

definition op_opCapable :: "op_table \<Rightarrow> string \<Rightarrow> bool" where
  "op_opCapable t op = om_has t op"

section \<open>The table built from a file\<close>

lemma parse_operations_wf: "parse_operations j = Some t \<Longrightarrow> om_wf t"
  by (auto simp: parse_operations_def split: bind_splits elim!: mfold_inv[where P = om_wf])

lemma mfold_put_has:
  assumes "mfold (\<lambda>t x. do { (k, v) \<leftarrow> f x; Some (om_put t k v) }) t xs = Some t'"
  shows "om_has t' k \<longleftrightarrow> om_has t k \<or> (\<exists>x \<in> set xs. \<exists>v. f x = Some (k, v))"
  using assms
proof (induction xs arbitrary: t)
  case (Cons x xs)
  then obtain k1 v1 where x: "f x = Some (k1, v1)"
      "mfold (\<lambda>t x. do { (k, v) \<leftarrow> f x; Some (om_put t k v) }) (om_put t k1 v1) xs = Some t'"
    by (auto split: bind_splits prod.splits)
  then show ?case using Cons.IH[OF x(2)] by auto
qed simp

lemma parse_opInfo_name: "parse_opInfo e = Some (k, v) \<Longrightarrow> j_str_at e ''name'' = Some k"
  by (auto simp: parse_opInfo_def split: bind_splits)

text \<open>C25: After the operation file is read, exactly the operations named in it are
  supported.\<close>

theorem parse_operations_capable:
  assumes "parse_operations j = Some t" "j_at j ''Operations'' = Some ops"
  shows "op_opCapable t op \<longleftrightarrow> (\<exists>e \<in> set (j_elems ops). j_str_at e ''name'' = Some op)"
proof -
  from assms have run: "mfold (\<lambda>t elem. do { (name, info) \<leftarrow> parse_opInfo elem;
      Some (om_put t name info) }) [] (j_elems ops) = Some t"
    by (simp add: parse_operations_def)
  have "\<exists>k v. parse_opInfo e = Some (k, v)" if "e \<in> set (j_elems ops)" for e
    using mfold_each[OF run that] by (auto split: bind_splits)
  then show ?thesis
    using mfold_put_has[OF run, of op] parse_opInfo_name
    by (auto simp: op_opCapable_def om_has_def) (metis option.inject)+
qed

end
