(* ===== verification/Dfg.thy ===== *)
theory Dfg
  imports OpInfo "HOL-Library.Word"
begin

text \<open>
  Data-flow graphs (\<open>include/dfg\<close>, \<open>src/dfg\<close>): nodes with their operation, immediate and
  accumulator parameters, the I/O nodes with their memory reference, the graph with its edge
  operations, and the depth-first topological sort.

  Nodes and edges are heap objects owned by one graph; a pointer to one is modelled by its
  id, and an object is updated in the map of the graph. The well-formedness invariant
  \<open>dfg_wf\<close> says what the four adjacency structures of every node have to do with the edge
  map; under it a DFG is just its set of edges (\<open>dfg_abs\<close>), and adding and deleting an edge
  are insertion and removal.
\<close>

section \<open>Nodes\<close>

record ioAttr =
  io_memRefName :: string
  io_memOffset :: int
  io_reducedMemOffset :: int
  io_memSize :: int
  io_pattern :: "(int \<times> int) list"

text \<open>\<open>dn_io\<close> is the part a \<open>DFGIONode\<close> adds; \<open>dynamic_cast<DFGIONode*>\<close> is null where it is
  \<open>None\<close>.\<close>

record dnode = gnode +
  dn_operation :: string
  dn_opLatency :: int
  dn_commutative :: bool
  dn_imm :: "64 word"
  dn_immIdx :: int
  dn_accumulative :: bool
  dn_isAccFirst :: bool
  dn_initVal :: "64 word"
  dn_cycles :: int
  dn_interval :: int
  dn_repeats :: int
  dn_io :: "ioAttr option"

text \<open>\<open>new DFGNode()\<close>, \<open>new DFGIONode()\<close>. The members C++ leaves indeterminate are zero or
  empty here; no theorem depends on their value.\<close>

definition new_DFGNode :: dnode where
  "new_DFGNode = \<lparr>gn_id = 0, gn_name = [], gn_type = [], gn_bitWidth = 0, gn_inputs = [],
     gn_outputs = [], gn_inputEdges = [], gn_outputEdges = [],
     dn_operation = [], dn_opLatency = 1, dn_commutative = False, dn_imm = 0, dn_immIdx = -1,
     dn_accumulative = False, dn_isAccFirst = False, dn_initVal = 0, dn_cycles = 0,
     dn_interval = 0, dn_repeats = 0, dn_io = None\<rparr>"

definition new_ioAttr :: ioAttr where
  "new_ioAttr = \<lparr>io_memRefName = [], io_memOffset = 0, io_reducedMemOffset = 0,
     io_memSize = 0, io_pattern = []\<rparr>"

definition new_DFGIONode :: dnode where
  "new_DFGIONode = new_DFGNode\<lparr>dn_io := Some new_ioAttr\<rparr>"

definition io_addPatternLevel :: "int \<Rightarrow> int \<Rightarrow> ioAttr \<Rightarrow> ioAttr" where
  "io_addPatternLevel stride cycles a = a\<lparr>io_pattern := io_pattern a @ [(stride, cycles)]\<rparr>"

definition dnode_hasImm :: "dnode \<Rightarrow> bool" where
  "dnode_hasImm n = (dn_immIdx n \<ge> 0)"

definition dnode_setOperation :: "op_table \<Rightarrow> string \<Rightarrow> dnode \<Rightarrow> dnode option" where
  "dnode_setOperation t op n =
     (if \<not> op_opCapable t op then None
      else Some (n\<lparr>dn_operation := op, dn_opLatency := op_latency t op,
                   dn_commutative := op_isCommutative t op,
                   dn_accumulative := op_isAccumulative t op\<rparr>))"

definition dnode_numInputs :: "dnode \<Rightarrow> int" where
  "dnode_numInputs n =
     (if dnode_hasImm n then int (length (gn_inputs n)) + 1 else int (length (gn_inputs n)))"

section \<open>Graphs\<close>

record dfg = graph +
  df_nodes :: "(int, dnode) omap"
  df_edges :: "(int, gedge) omap"
  df_ioNodes :: "int oset"
  df_topoNodes :: "int list"

definition new_DFG :: dfg where
  "new_DFG = \<lparr>g_id = 0, g_bitWidth = 0, g_inputNames = [], g_outputNames = [], g_inputs = [],
     g_outputs = [], g_inputEdges = [], g_outputEdges = [],
     df_nodes = [], df_edges = [], df_ioNodes = [], df_topoNodes = []\<rparr>"

definition dfg_node :: "dfg \<Rightarrow> int \<Rightarrow> dnode option" where
  "dfg_node g nid = om_get (df_nodes g) nid"

definition dfg_edge :: "dfg \<Rightarrow> int \<Rightarrow> gedge option" where
  "dfg_edge g eid = om_get (df_edges g) eid"

definition dfg_addNode :: "dnode \<Rightarrow> dfg \<Rightarrow> dfg" where
  "dfg_addNode n g = g\<lparr>df_nodes := om_put (df_nodes g) (gn_id n) n\<rparr>"

text \<open>Calling a method on the node behind a pointer; a null pointer fails.\<close>

definition dfg_updNode :: "int \<Rightarrow> (dnode \<Rightarrow> dnode) \<Rightarrow> dfg \<Rightarrow> dfg option" where
  "dfg_updNode nid f g =
     (case om_get (df_nodes g) nid of
        None \<Rightarrow> None
      | Some n \<Rightarrow> Some (g\<lparr>df_nodes := om_put (df_nodes g) nid (f n)\<rparr>))"

text \<open>The two halves of \<open>addEdge\<close>: the source side, then the destination side.\<close>

definition dfg_addEdge_src :: "gedge \<Rightarrow> dfg \<Rightarrow> dfg option" where
  "dfg_addEdge_src e g =
     (let srcPort = ge_srcPortIdx e; d = (ge_dstId e, ge_dstPortIdx e) in
      if ge_srcId e = g_id g
      then Some (graph_addInputEdge srcPort (ge_id e) (graph_addInput srcPort d g))
      else dfg_updNode (ge_srcId e)
             (\<lambda>src. gnode_addOutputEdge srcPort (ge_id e) (gnode_addOutput srcPort d src)) g)"

definition dfg_addEdge_dst :: "gedge \<Rightarrow> dfg \<Rightarrow> dfg option" where
  "dfg_addEdge_dst e g =
     (let dstPort = ge_dstPortIdx e; s = (ge_srcId e, ge_srcPortIdx e) in
      if ge_dstId e = g_id g
      then Some (graph_addOutputEdge dstPort (ge_id e) (graph_addOutput dstPort s g))
      else dfg_updNode (ge_dstId e)
             (\<lambda>dst. gnode_addInputEdge dstPort (ge_id e) (gnode_addInput dstPort s dst)) g)"

definition dfg_addEdge :: "gedge \<Rightarrow> dfg \<Rightarrow> dfg option" where
  "dfg_addEdge e g = do {
     g1 \<leftarrow> dfg_addEdge_src e (g\<lparr>df_edges := om_put (df_edges g) (ge_id e) e\<rparr>);
     dfg_addEdge_dst e g1 }"

text \<open>The two halves of \<open>delEdge\<close>; \<open>srcNode->delOutputEdge(...)\<close> asserts that the port has an
  entry.\<close>

definition dfg_delEdge_src :: "gedge \<Rightarrow> int \<Rightarrow> dfg \<Rightarrow> dfg option" where
  "dfg_delEdge_src e eid g =
     (let srcPort = ge_srcPortIdx e; d = (ge_dstId e, ge_dstPortIdx e) in
      if ge_srcId e = g_id g
      then Some (graph_delInput srcPort d (graph_delInputEdge srcPort eid g))
      else do {
        srcNode \<leftarrow> dfg_node g (ge_srcId e);
        srcNode' \<leftarrow> gnode_delOutputEdge srcPort eid srcNode;
        Some (g\<lparr>df_nodes := om_put (df_nodes g) (ge_srcId e) (gnode_delOutput srcPort d srcNode')\<rparr>) })"

definition dfg_delEdge_dst :: "gedge \<Rightarrow> dfg \<Rightarrow> dfg option" where
  "dfg_delEdge_dst e g =
     (let dstPort = ge_dstPortIdx e in
      if ge_dstId e = g_id g
      then Some (graph_delOutput dstPort (graph_delOutputEdge dstPort g))
      else dfg_updNode (ge_dstId e) (\<lambda>n. gnode_delInput dstPort (gnode_delInputEdge dstPort n)) g)"

definition dfg_delEdge :: "int \<Rightarrow> dfg \<Rightarrow> dfg option" where
  "dfg_delEdge eid g = do {
     e \<leftarrow> dfg_edge g eid;
     g1 \<leftarrow> dfg_delEdge_src e eid g;
     g2 \<leftarrow> dfg_delEdge_dst e g1;
     Some (g2\<lparr>df_edges := om_del (df_edges g2) eid\<rparr>) }"

text \<open>
  \<open>delNode\<close> walks the node's own edge maps while \<open>delEdge\<close> erases the entry it stands on,
  which invalidates the iterator: defined only for a node without edges.
\<close>

definition dfg_delNode :: "int \<Rightarrow> dfg \<Rightarrow> dfg option" where
  "dfg_delNode nid g = do {
     n \<leftarrow> dfg_node g nid;
     (if gn_inputEdges n = [] \<and> (\<forall>(_, es) \<in> set (gn_outputEdges n). es = [])
      then Some (g\<lparr>df_nodes := om_del (df_nodes g) nid\<rparr>)
      else None) }"

definition dfg_addIONode :: "int \<Rightarrow> dfg \<Rightarrow> dfg" where
  "dfg_addIONode nid g = g\<lparr>df_ioNodes := os_ins (df_ioNodes g) nid\<rparr>"

definition dfg_delIONode :: "int \<Rightarrow> dfg \<Rightarrow> dfg" where
  "dfg_delIONode nid g = g\<lparr>df_ioNodes := os_del (df_ioNodes g) nid\<rparr>"

definition dfg_isIONode :: "dfg \<Rightarrow> int \<Rightarrow> bool" where
  "dfg_isIONode g nid = (nid \<in> set (df_ioNodes g))"

definition dfg_getInNodes :: "dfg \<Rightarrow> int oset option" where
  "dfg_getInNodes g =
     mfold (\<lambda>inNodes ioNodeId. do {
        ioNode \<leftarrow> dfg_node g ioNodeId;
        let opName = dn_operation ioNode;
        Some (if opName = ''INPUT'' \<or> opName = ''LOAD'' then os_ins inNodes ioNodeId else inNodes) })
       [] (df_ioNodes g)"

definition dfg_getOutNodes :: "dfg \<Rightarrow> int oset option" where
  "dfg_getOutNodes g =
     mfold (\<lambda>outNodes ioNodeId. do {
        ioNode \<leftarrow> dfg_node g ioNodeId;
        let opName = dn_operation ioNode;
        Some (if opName = ''OUTPUT'' \<or> opName = ''STORE'' then os_ins outNodes ioNodeId else outNodes) })
       [] (df_ioNodes g)"

section \<open>Topological sort\<close>

text \<open>
  The recursion of \<open>DFG::dfs\<close> is bounded by fuel; every call that goes deeper has marked one
  more node, so one more than the number of nodes is enough (\<open>dfs_enough\<close>).
\<close>

type_synonym dfs_state = "(int, bool) omap \<times> int list"

primrec dfg_dfs :: "nat \<Rightarrow> dfg \<Rightarrow> int \<Rightarrow> dfs_state \<Rightarrow> dfs_state option" where
  "dfg_dfs 0 g n s = None"
| "dfg_dfs (Suc fuel) g n s = do {
     node \<leftarrow> dfg_node g n;
     let nodeId = gn_id node;
     (if om_get (fst s) nodeId = Some True then Some s
      else do {
        (visited, topo) \<leftarrow>
          mfold (\<lambda>s i. if fst (snd i) = g_id g then Some s else dfg_dfs fuel g (fst (snd i)) s)
            (om_put (fst s) nodeId True, snd s) (gn_inputs node);
        Some (visited, topo @ [nodeId]) }) }"

definition dfg_topoSortNodes :: "dfg \<Rightarrow> dfg option" where
  "dfg_topoSortNodes g = do {
     outs \<leftarrow> dfg_getOutNodes g;
     (_, topo) \<leftarrow> mfold (\<lambda>s outNodeId. dfg_dfs (Suc (length (df_nodes g))) g outNodeId s) ([], []) outs;
     Some (g\<lparr>df_topoNodes := topo\<rparr>) }"

section \<open>Copy\<close>

text \<open>
  \<open>DFG::operator=\<close>: nodes and edges are copied one by one into the maps of \<open>this\<close>; a node
  listed as I/O node must be one, any other is sliced to a plain node.
\<close>

definition dfg_assign :: "dfg \<Rightarrow> dfg \<Rightarrow> dfg option" where
  "dfg_assign this that = do {
     nodes \<leftarrow> mfold (\<lambda>m (nid, n).
        if nid \<in> set (df_ioNodes that)
        then (case dn_io n of None \<Rightarrow> None | Some _ \<Rightarrow> Some (om_put m nid n))
        else Some (om_put m nid (n\<lparr>dn_io := None\<rparr>))) (df_nodes this) (df_nodes that);
     let edges = foldl (\<lambda>m (eid, e). om_put m eid e) (df_edges this) (df_edges that);
     Some (that\<lparr>df_nodes := nodes, df_edges := edges\<rparr>) }"

section \<open>Views and well-formedness\<close>

text \<open>
  What a port of the graph or of a node is connected to. The input ports of the graph itself
  are driven from outside and drive nodes, so seen from the edges they are output ports of
  the pseudo node \<open>g_id\<close>, and its output ports are input ports of that node.
\<close>

definition in_edge :: "dfg \<Rightarrow> int \<Rightarrow> int \<Rightarrow> int option" where
  "in_edge g n p =
     (if n = g_id g then om_get (g_outputEdges g) p
      else Option.bind (om_get (df_nodes g) n) (\<lambda>nd. om_get (gn_inputEdges nd) p))"

definition in_src :: "dfg \<Rightarrow> int \<Rightarrow> int \<Rightarrow> (int \<times> int) option" where
  "in_src g n p =
     (if n = g_id g then om_get (g_outputs g) p
      else Option.bind (om_get (df_nodes g) n) (\<lambda>nd. om_get (gn_inputs nd) p))"

definition out_edges :: "dfg \<Rightarrow> int \<Rightarrow> int \<Rightarrow> int set" where
  "out_edges g n p =
     (if n = g_id g then set (om_at [] (g_inputEdges g) p)
      else case om_get (df_nodes g) n of None \<Rightarrow> {} | Some nd \<Rightarrow> set (om_at [] (gn_outputEdges nd) p))"

definition out_dsts :: "dfg \<Rightarrow> int \<Rightarrow> int \<Rightarrow> (int \<times> int) set" where
  "out_dsts g n p =
     (if n = g_id g then set (om_at [] (g_inputs g) p)
      else case om_get (df_nodes g) n of None \<Rightarrow> {} | Some nd \<Rightarrow> set (om_at [] (gn_outputs nd) p))"

definition has_node :: "dfg \<Rightarrow> int \<Rightarrow> bool" where
  "has_node g n = (n = g_id g \<or> om_has (df_nodes g) n)"

text \<open>The abstract value of a DFG: its edges, by id.\<close>

definition dfg_abs :: "dfg \<Rightarrow> int \<Rightarrow> gedge option" where
  "dfg_abs g = om_get (df_edges g)"

definition dfg_wf :: "dfg \<Rightarrow> bool" where
  "dfg_wf g \<longleftrightarrow>
     om_wf (df_nodes g) \<and> om_wf (df_edges g) \<and>
     (\<forall>k n. om_get (df_nodes g) k = Some n \<longrightarrow> gn_id n = k) \<and>
     (\<forall>k e. dfg_abs g k = Some e \<longrightarrow> ge_id e = k \<and> has_node g (ge_srcId e) \<and> has_node g (ge_dstId e)) \<and>
     (\<forall>n p k. in_edge g n p = Some k \<longleftrightarrow> (\<exists>e. dfg_abs g k = Some e \<and> ge_dstId e = n \<and> ge_dstPortIdx e = p)) \<and>
     (\<forall>n p s. in_src g n p = Some s \<longleftrightarrow>
        (\<exists>k e. dfg_abs g k = Some e \<and> ge_dstId e = n \<and> ge_dstPortIdx e = p \<and> s = (ge_srcId e, ge_srcPortIdx e))) \<and>
     (\<forall>n p k. k \<in> out_edges g n p \<longleftrightarrow> (\<exists>e. dfg_abs g k = Some e \<and> ge_srcId e = n \<and> ge_srcPortIdx e = p)) \<and>
     (\<forall>n p d. d \<in> out_dsts g n p \<longleftrightarrow>
        (\<exists>k e. dfg_abs g k = Some e \<and> ge_srcId e = n \<and> ge_srcPortIdx e = p \<and> d = (ge_dstId e, ge_dstPortIdx e)))"

lemmas dfg_views = in_edge_def in_src_def out_edges_def out_dsts_def has_node_def dfg_abs_def

lemma dfg_wf_reads:
  assumes "dfg_wf g"
  shows "in_edge g n p = Some k \<longleftrightarrow> (\<exists>e. dfg_abs g k = Some e \<and> ge_dstId e = n \<and> ge_dstPortIdx e = p)"
    and "in_src g n p = Some s \<longleftrightarrow>
        (\<exists>k e. dfg_abs g k = Some e \<and> ge_dstId e = n \<and> ge_dstPortIdx e = p \<and> s = (ge_srcId e, ge_srcPortIdx e))"
    and "k \<in> out_edges g n p \<longleftrightarrow> (\<exists>e. dfg_abs g k = Some e \<and> ge_srcId e = n \<and> ge_srcPortIdx e = p)"
    and "d \<in> out_dsts g n p \<longleftrightarrow>
        (\<exists>k e. dfg_abs g k = Some e \<and> ge_srcId e = n \<and> ge_srcPortIdx e = p \<and> d = (ge_dstId e, ge_dstPortIdx e))"
  using assms unfolding dfg_wf_def by blast+

lemma dfg_wf_edge:
  "dfg_wf g \<Longrightarrow> dfg_abs g k = Some e \<Longrightarrow> ge_id e = k \<and> has_node g (ge_srcId e) \<and> has_node g (ge_dstId e)"
  unfolding dfg_wf_def by blast

lemma dfg_wf_unique_in:
  assumes "dfg_wf g" "dfg_abs g k = Some e" "dfg_abs g k' = Some e'"
    and "ge_dstId e' = ge_dstId e" "ge_dstPortIdx e' = ge_dstPortIdx e"
  shows "k' = k"
proof -
  have "in_edge g (ge_dstId e) (ge_dstPortIdx e) = Some k"
    and "in_edge g (ge_dstId e) (ge_dstPortIdx e) = Some k'"
    using assms unfolding dfg_wf_def by metis+
  then show ?thesis by simp
qed

text \<open>What all four halves leave alone.\<close>

definition same_frame :: "dfg \<Rightarrow> dfg \<Rightarrow> bool" where
  "same_frame g g' \<longleftrightarrow> g_id g' = g_id g \<and> has_node g' = has_node g \<and>
     df_ioNodes g' = df_ioNodes g \<and> df_topoNodes g' = df_topoNodes g \<and>
     (om_wf (df_nodes g) \<longrightarrow> om_wf (df_nodes g')) \<and>
     ((\<forall>k n. om_get (df_nodes g) k = Some n \<longrightarrow> gn_id n = k) \<longrightarrow>
      (\<forall>k n. om_get (df_nodes g') k = Some n \<longrightarrow> gn_id n = k))"

lemma same_frame_has: "same_frame g g' \<Longrightarrow> has_node g' = has_node g"
  by (simp add: same_frame_def)

lemma addEdge_src_views:
  assumes "has_node g (ge_srcId e)"
  obtains g1 where "dfg_addEdge_src e g = Some g1" "same_frame g g1" "df_edges g1 = df_edges g"
    "in_edge g1 = in_edge g" "in_src g1 = in_src g"
    "\<And>n p. out_edges g1 n p = (if n = ge_srcId e \<and> p = ge_srcPortIdx e
        then insert (ge_id e) (out_edges g n p) else out_edges g n p)"
    "\<And>n p. out_dsts g1 n p = (if n = ge_srcId e \<and> p = ge_srcPortIdx e
        then insert (ge_dstId e, ge_dstPortIdx e) (out_dsts g n p) else out_dsts g n p)"
proof (cases "ge_srcId e = g_id g")
  case True
  then show ?thesis
    by (intro that[of "graph_addInputEdge (ge_srcPortIdx e) (ge_id e)
          (graph_addInput (ge_srcPortIdx e) (ge_dstId e, ge_dstPortIdx e) g)"])
      (auto simp: dfg_addEdge_src_def graph_ops dfg_views same_frame_def fun_eq_iff Let_def)
next
  case False
  with assms obtain nd where nd: "om_get (df_nodes g) (ge_srcId e) = Some nd"
    by (auto simp: has_node_def om_has_iff)
  with False show ?thesis
    by (intro that[of "g\<lparr>df_nodes := om_put (df_nodes g) (ge_srcId e)
          (gnode_addOutputEdge (ge_srcPortIdx e) (ge_id e)
            (gnode_addOutput (ge_srcPortIdx e) (ge_dstId e, ge_dstPortIdx e) nd))\<rparr>"])
      (auto simp: dfg_addEdge_src_def dfg_updNode_def gnode_ops dfg_views same_frame_def
         fun_eq_iff Let_def om_has_def)
qed

lemma addEdge_dst_views:
  assumes "has_node g (ge_dstId e)"
  obtains g1 where "dfg_addEdge_dst e g = Some g1" "same_frame g g1" "df_edges g1 = df_edges g"
    "out_edges g1 = out_edges g" "out_dsts g1 = out_dsts g"
    "\<And>n p. in_edge g1 n p = (if n = ge_dstId e \<and> p = ge_dstPortIdx e then Some (ge_id e) else in_edge g n p)"
    "\<And>n p. in_src g1 n p = (if n = ge_dstId e \<and> p = ge_dstPortIdx e
        then Some (ge_srcId e, ge_srcPortIdx e) else in_src g n p)"
proof (cases "ge_dstId e = g_id g")
  case True
  then show ?thesis
    by (intro that[of "graph_addOutputEdge (ge_dstPortIdx e) (ge_id e)
          (graph_addOutput (ge_dstPortIdx e) (ge_srcId e, ge_srcPortIdx e) g)"])
      (auto simp: dfg_addEdge_dst_def graph_ops dfg_views same_frame_def fun_eq_iff Let_def)
next
  case False
  with assms obtain nd where nd: "om_get (df_nodes g) (ge_dstId e) = Some nd"
    by (auto simp: has_node_def om_has_iff)
  with False show ?thesis
    by (intro that[of "g\<lparr>df_nodes := om_put (df_nodes g) (ge_dstId e)
          (gnode_addInputEdge (ge_dstPortIdx e) (ge_id e)
            (gnode_addInput (ge_dstPortIdx e) (ge_srcId e, ge_srcPortIdx e) nd))\<rparr>"])
      (auto simp: dfg_addEdge_dst_def dfg_updNode_def gnode_ops dfg_views same_frame_def
         fun_eq_iff Let_def om_has_def)
qed

lemma delEdge_src_views:
  assumes "has_node g (ge_srcId e)" and "eid \<in> out_edges g (ge_srcId e) (ge_srcPortIdx e)"
  obtains g1 where "dfg_delEdge_src e eid g = Some g1" "same_frame g g1" "df_edges g1 = df_edges g"
    "in_edge g1 = in_edge g" "in_src g1 = in_src g"
    "\<And>n p. out_edges g1 n p = (if n = ge_srcId e \<and> p = ge_srcPortIdx e
        then out_edges g n p - {eid} else out_edges g n p)"
    "\<And>n p. out_dsts g1 n p = (if n = ge_srcId e \<and> p = ge_srcPortIdx e
        then out_dsts g n p - {(ge_dstId e, ge_dstPortIdx e)} else out_dsts g n p)"
proof (cases "ge_srcId e = g_id g")
  case True
  then show ?thesis
    by (intro that[of "graph_delInput (ge_srcPortIdx e) (ge_dstId e, ge_dstPortIdx e)
          (graph_delInputEdge (ge_srcPortIdx e) eid g)"])
      (auto simp: dfg_delEdge_src_def graph_ops dfg_views same_frame_def fun_eq_iff Let_def)
next
  case False
  with assms obtain nd where nd: "om_get (df_nodes g) (ge_srcId e) = Some nd"
    by (auto simp: has_node_def om_has_iff)
  from assms(2) False nd obtain es where es: "om_get (gn_outputEdges nd) (ge_srcPortIdx e) = Some es"
    by (cases "om_get (gn_outputEdges nd) (ge_srcPortIdx e)") (auto simp: out_edges_def om_at_def)
  from False nd es show ?thesis
    by (intro that[of "g\<lparr>df_nodes := om_put (df_nodes g) (ge_srcId e)
          (gnode_delOutput (ge_srcPortIdx e) (ge_dstId e, ge_dstPortIdx e)
            (nd\<lparr>gn_outputEdges := om_put (gn_outputEdges nd) (ge_srcPortIdx e) (os_del es eid)\<rparr>))\<rparr>"])
      (auto simp: dfg_delEdge_src_def dfg_node_def gnode_ops dfg_views same_frame_def
         fun_eq_iff Let_def om_has_def om_at_def)
qed

lemma delEdge_dst_views:
  assumes "has_node g (ge_dstId e)"
  obtains g1 where "dfg_delEdge_dst e g = Some g1" "same_frame g g1" "df_edges g1 = df_edges g"
    "out_edges g1 = out_edges g" "out_dsts g1 = out_dsts g"
    "\<And>n p. in_edge g1 n p = (if n = ge_dstId e \<and> p = ge_dstPortIdx e then None else in_edge g n p)"
    "\<And>n p. in_src g1 n p = (if n = ge_dstId e \<and> p = ge_dstPortIdx e then None else in_src g n p)"
proof (cases "ge_dstId e = g_id g")
  case True
  then show ?thesis
    by (intro that[of "graph_delOutput (ge_dstPortIdx e) (graph_delOutputEdge (ge_dstPortIdx e) g)"])
      (auto simp: dfg_delEdge_dst_def graph_ops dfg_views same_frame_def fun_eq_iff Let_def)
next
  case False
  with assms obtain nd where nd: "om_get (df_nodes g) (ge_dstId e) = Some nd"
    by (auto simp: has_node_def om_has_iff)
  with False show ?thesis
    by (intro that[of "g\<lparr>df_nodes := om_put (df_nodes g) (ge_dstId e)
          (gnode_delInput (ge_dstPortIdx e) (gnode_delInputEdge (ge_dstPortIdx e) nd))\<rparr>"])
      (auto simp: dfg_delEdge_dst_def dfg_updNode_def gnode_ops dfg_views same_frame_def
         fun_eq_iff Let_def om_has_def)
qed

lemma view_edges_upd [simp]:
  "in_edge (g\<lparr>df_edges := m\<rparr>) = in_edge g" "in_src (g\<lparr>df_edges := m\<rparr>) = in_src g"
  "out_edges (g\<lparr>df_edges := m\<rparr>) = out_edges g" "out_dsts (g\<lparr>df_edges := m\<rparr>) = out_dsts g"
  "has_node (g\<lparr>df_edges := m\<rparr>) = has_node g" "dfg_abs (g\<lparr>df_edges := m\<rparr>) = om_get m"
  by (auto simp: dfg_views fun_eq_iff)

lemma dfg_wf_edgeless:
  assumes "om_wf (df_nodes g)" "df_edges g = []" and nodes: "\<forall>k n. om_get (df_nodes g) k = Some n \<longrightarrow>
      gn_id n = k \<and> gn_inputs n = [] \<and> gn_outputs n = [] \<and> gn_inputEdges n = [] \<and> gn_outputEdges n = []"
    and "g_inputs g = []" "g_outputs g = []" "g_inputEdges g = []" "g_outputEdges g = []"
  shows "dfg_wf g"
proof -
  have "in_edge g n p = None" "in_src g n p = None" "out_edges g n p = {}" "out_dsts g n p = {}" for n p
    using assms by (cases "om_get (df_nodes g) n"; simp add: dfg_views om_at_def)+
  moreover have "dfg_abs g k = None" for k using assms(2) by (simp add: dfg_abs_def)
  moreover have "\<forall>k n. om_get (df_nodes g) k = Some n \<longrightarrow> gn_id n = k" using nodes by blast
  ultimately show ?thesis using assms(1,2) by (simp add: dfg_wf_def)
qed

section \<open>Adding and deleting edges refines insertion and removal\<close>

lemma addEdge_ok:
  assumes wf: "dfg_wf g" and fresh: "dfg_abs g (ge_id e) = None"
    and nodes: "has_node g (ge_srcId e)" "has_node g (ge_dstId e)"
    and free: "in_edge g (ge_dstId e) (ge_dstPortIdx e) = None"
  shows "\<exists>g'. dfg_addEdge e g = Some g' \<and> dfg_wf g' \<and> dfg_abs g' = (dfg_abs g)(ge_id e \<mapsto> e) \<and>
    has_node g' = has_node g"
proof -
  let ?g0 = "g\<lparr>df_edges := om_put (df_edges g) (ge_id e) e\<rparr>"
  obtain g1 where g1: "dfg_addEdge_src e ?g0 = Some g1" "same_frame ?g0 g1" "df_edges g1 = df_edges ?g0"
    "in_edge g1 = in_edge ?g0" "in_src g1 = in_src ?g0"
    "\<And>n p. out_edges g1 n p = (if n = ge_srcId e \<and> p = ge_srcPortIdx e
        then insert (ge_id e) (out_edges ?g0 n p) else out_edges ?g0 n p)"
    "\<And>n p. out_dsts g1 n p = (if n = ge_srcId e \<and> p = ge_srcPortIdx e
        then insert (ge_dstId e, ge_dstPortIdx e) (out_dsts ?g0 n p) else out_dsts ?g0 n p)"
    using addEdge_src_views[of ?g0 e] nodes(1) by auto
  have "has_node g1 (ge_dstId e)" using g1(2) nodes(2) by (simp add: same_frame_def)
  then obtain g2 where g2: "dfg_addEdge_dst e g1 = Some g2" "same_frame g1 g2" "df_edges g2 = df_edges g1"
    "out_edges g2 = out_edges g1" "out_dsts g2 = out_dsts g1"
    "\<And>n p. in_edge g2 n p = (if n = ge_dstId e \<and> p = ge_dstPortIdx e then Some (ge_id e) else in_edge g1 n p)"
    "\<And>n p. in_src g2 n p = (if n = ge_dstId e \<and> p = ge_dstPortIdx e
        then Some (ge_srcId e, ge_srcPortIdx e) else in_src g1 n p)"
    using addEdge_dst_views[of g1 e] by metis
  have abs: "dfg_abs g2 = (dfg_abs g)(ge_id e \<mapsto> e)"
    using g2(3) g1(3) by (simp add: dfg_abs_def)
  have noin: "\<not> (dfg_abs g k = Some x \<and> ge_dstId x = ge_dstId e \<and> ge_dstPortIdx x = ge_dstPortIdx e)" for k x
    using wf free unfolding dfg_wf_def by (metis option.distinct(1))
  have frame: "has_node g2 = has_node g"
    using same_frame_has[OF g1(2)] same_frame_has[OF g2(2)] by simp
  have keys: "om_wf (df_nodes g2)" "om_wf (df_edges g2)"
      "\<forall>k n. om_get (df_nodes g2) k = Some n \<longrightarrow> gn_id n = k"
    using wf g1(2,3) g2(2,3) by (auto simp: dfg_wf_def same_frame_def)
  have "dfg_wf g2"
    unfolding dfg_wf_def
  proof (intro conjI)
    show "\<forall>k x. dfg_abs g2 k = Some x \<longrightarrow> ge_id x = k \<and> has_node g2 (ge_srcId x) \<and> has_node g2 (ge_dstId x)"
      unfolding abs frame using dfg_wf_edge[OF wf] nodes by (auto split: if_splits)
    show "\<forall>n p k. in_edge g2 n p = Some k \<longleftrightarrow>
        (\<exists>x. dfg_abs g2 k = Some x \<and> ge_dstId x = n \<and> ge_dstPortIdx x = p)"
    proof (intro allI)
      fix n p k
      show "in_edge g2 n p = Some k \<longleftrightarrow> (\<exists>x. dfg_abs g2 k = Some x \<and> ge_dstId x = n \<and> ge_dstPortIdx x = p)"
      proof (cases "n = ge_dstId e \<and> p = ge_dstPortIdx e")
        case True
        then show ?thesis unfolding abs g2(6) using noin[of k] by auto
      next
        case False
        then show ?thesis
          unfolding abs g2(6) g1(4) using fresh by (auto simp: dfg_wf_reads(1)[OF wf])
      qed
    qed
    show "\<forall>n p s. in_src g2 n p = Some s \<longleftrightarrow>
        (\<exists>k x. dfg_abs g2 k = Some x \<and> ge_dstId x = n \<and> ge_dstPortIdx x = p \<and> s = (ge_srcId x, ge_srcPortIdx x))"
    proof (intro allI)
      fix n p s
      show "in_src g2 n p = Some s \<longleftrightarrow>
        (\<exists>k x. dfg_abs g2 k = Some x \<and> ge_dstId x = n \<and> ge_dstPortIdx x = p \<and> s = (ge_srcId x, ge_srcPortIdx x))"
      proof (cases "n = ge_dstId e \<and> p = ge_dstPortIdx e")
        case True
        then show ?thesis
          unfolding abs g2(7) ex_upd_fresh[of "dfg_abs g", OF fresh] using noin by auto
      next
        case False
        then show ?thesis
          unfolding abs g2(7) g1(5) ex_upd_fresh[of "dfg_abs g", OF fresh]
          by (auto simp: dfg_wf_reads(2)[OF wf])
      qed
    qed
    show "\<forall>n p k. k \<in> out_edges g2 n p \<longleftrightarrow>
        (\<exists>x. dfg_abs g2 k = Some x \<and> ge_srcId x = n \<and> ge_srcPortIdx x = p)"
      using fresh by (auto simp: abs g2(4) g1(6) dfg_wf_reads[OF wf])
    show "\<forall>n p d. d \<in> out_dsts g2 n p \<longleftrightarrow>
        (\<exists>k x. dfg_abs g2 k = Some x \<and> ge_srcId x = n \<and> ge_srcPortIdx x = p \<and> d = (ge_dstId x, ge_dstPortIdx x))"
      unfolding abs ex_upd_fresh[of "dfg_abs g", OF fresh]
      by (auto simp: g2(5) g1(7) dfg_wf_reads[OF wf])
  qed (use keys in auto)
  moreover have "dfg_addEdge e g = Some g2" using g1(1) g2(1) by (simp add: dfg_addEdge_def)
  ultimately show ?thesis using abs frame by blast
qed

lemma delEdge_ok:
  assumes wf: "dfg_wf g" and e: "dfg_abs g eid = Some e"
  shows "\<exists>g'. dfg_delEdge eid g = Some g' \<and> dfg_wf g' \<and> dfg_abs g' = (dfg_abs g)(eid := None) \<and>
    has_node g' = has_node g"
proof -
  have nodes: "has_node g (ge_srcId e)" "has_node g (ge_dstId e)" using wf e by (auto simp: dfg_wf_def)
  have "eid \<in> out_edges g (ge_srcId e) (ge_srcPortIdx e)" using wf e unfolding dfg_wf_def by metis
  then obtain g1 where g1: "dfg_delEdge_src e eid g = Some g1" "same_frame g g1" "df_edges g1 = df_edges g"
    "in_edge g1 = in_edge g" "in_src g1 = in_src g"
    "\<And>n p. out_edges g1 n p = (if n = ge_srcId e \<and> p = ge_srcPortIdx e
        then out_edges g n p - {eid} else out_edges g n p)"
    "\<And>n p. out_dsts g1 n p = (if n = ge_srcId e \<and> p = ge_srcPortIdx e
        then out_dsts g n p - {(ge_dstId e, ge_dstPortIdx e)} else out_dsts g n p)"
    using delEdge_src_views[of g e eid] nodes(1) by metis
  have "has_node g1 (ge_dstId e)" using g1(2) nodes(2) by (simp add: same_frame_def)
  then obtain g2 where g2: "dfg_delEdge_dst e g1 = Some g2" "same_frame g1 g2" "df_edges g2 = df_edges g1"
    "out_edges g2 = out_edges g1" "out_dsts g2 = out_dsts g1"
    "\<And>n p. in_edge g2 n p = (if n = ge_dstId e \<and> p = ge_dstPortIdx e then None else in_edge g1 n p)"
    "\<And>n p. in_src g2 n p = (if n = ge_dstId e \<and> p = ge_dstPortIdx e then None else in_src g1 n p)"
    using delEdge_dst_views[of g1 e] by metis
  let ?g = "g2\<lparr>df_edges := om_del (df_edges g2) eid\<rparr>"
  have abs: "dfg_abs ?g = (dfg_abs g)(eid := None)"
    using g2(3) g1(3) by (simp add: dfg_abs_def)
  have uniq: "dfg_abs g k = Some x \<Longrightarrow> ge_dstId x = ge_dstId e \<Longrightarrow> ge_dstPortIdx x = ge_dstPortIdx e \<Longrightarrow> k = eid" for k x
    using dfg_wf_unique_in[OF wf e] by blast
  have frame: "has_node ?g = has_node g"
    using same_frame_has[OF g1(2)] same_frame_has[OF g2(2)] by simp
  have keys: "om_wf (df_nodes ?g)" "om_wf (df_edges ?g)"
      "\<forall>k n. om_get (df_nodes ?g) k = Some n \<longrightarrow> gn_id n = k"
    using wf g1(2,3) g2(2,3) by (auto simp: dfg_wf_def same_frame_def)
  have "dfg_wf ?g"
    unfolding dfg_wf_def
  proof (intro conjI)
    show "\<forall>k x. dfg_abs ?g k = Some x \<longrightarrow> ge_id x = k \<and> has_node ?g (ge_srcId x) \<and> has_node ?g (ge_dstId x)"
      unfolding abs frame using dfg_wf_edge[OF wf] by (auto split: if_splits)
    show "\<forall>n p k. in_edge ?g n p = Some k \<longleftrightarrow>
        (\<exists>x. dfg_abs ?g k = Some x \<and> ge_dstId x = n \<and> ge_dstPortIdx x = p)"
    proof (intro allI)
      fix n p k
      show "in_edge ?g n p = Some k \<longleftrightarrow> (\<exists>x. dfg_abs ?g k = Some x \<and> ge_dstId x = n \<and> ge_dstPortIdx x = p)"
      proof (cases "n = ge_dstId e \<and> p = ge_dstPortIdx e")
        case True
        then show ?thesis unfolding abs using uniq[of k] by (auto simp: g2(6))
      next
        case False
        then show ?thesis
          unfolding abs using e by (auto simp: g2(6) g1(4) dfg_wf_reads(1)[OF wf])
      qed
    qed
    show "\<forall>n p s. in_src ?g n p = Some s \<longleftrightarrow>
        (\<exists>k x. dfg_abs ?g k = Some x \<and> ge_dstId x = n \<and> ge_dstPortIdx x = p \<and> s = (ge_srcId x, ge_srcPortIdx x))"
    proof (intro allI)
      fix n p s
      show "in_src ?g n p = Some s \<longleftrightarrow>
        (\<exists>k x. dfg_abs ?g k = Some x \<and> ge_dstId x = n \<and> ge_dstPortIdx x = p \<and> s = (ge_srcId x, ge_srcPortIdx x))"
      proof (cases "n = ge_dstId e \<and> p = ge_dstPortIdx e")
        case True
        then show ?thesis
          unfolding abs ex_del_other using uniq by (auto simp: g2(7))
      next
        case False
        then show ?thesis
          unfolding abs ex_del_other using e
          by (auto simp: g2(7) g1(5) dfg_wf_reads(2)[OF wf]) (metis option.inject)+
      qed
    qed
    show "\<forall>n p k. k \<in> out_edges ?g n p \<longleftrightarrow>
        (\<exists>x. dfg_abs ?g k = Some x \<and> ge_srcId x = n \<and> ge_srcPortIdx x = p)"
      unfolding abs using e by (auto simp: g2(4) g1(6) dfg_wf_reads[OF wf])
    show "\<forall>n p d. d \<in> out_dsts ?g n p \<longleftrightarrow>
        (\<exists>k x. dfg_abs ?g k = Some x \<and> ge_srcId x = n \<and> ge_srcPortIdx x = p \<and> d = (ge_dstId x, ge_dstPortIdx x))"
    proof (intro allI)
      fix n p d
      show "d \<in> out_dsts ?g n p \<longleftrightarrow>
        (\<exists>k x. dfg_abs ?g k = Some x \<and> ge_srcId x = n \<and> ge_srcPortIdx x = p \<and> d = (ge_dstId x, ge_dstPortIdx x))"
      proof (cases "n = ge_srcId e \<and> p = ge_srcPortIdx e")
        case True
        have U: "dfg_abs g k = Some x \<Longrightarrow>
            (k \<noteq> eid) = ((ge_dstId x, ge_dstPortIdx x) \<noteq> (ge_dstId e, ge_dstPortIdx e))" for k x
          using uniq[of k x] e by (cases "k = eid") auto
        have "d \<in> out_dsts ?g n p \<longleftrightarrow> d \<in> out_dsts g n p \<and> d \<noteq> (ge_dstId e, ge_dstPortIdx e)"
          using True by (simp add: g2(5) g1(7))
        also have "\<dots> \<longleftrightarrow> (\<exists>k x. k \<noteq> eid \<and> dfg_abs g k = Some x \<and> ge_srcId x = n \<and>
            ge_srcPortIdx x = p \<and> d = (ge_dstId x, ge_dstPortIdx x))"
          unfolding dfg_wf_reads(4)[OF wf] using U by metis
        finally show ?thesis unfolding abs ex_del_other .
      next
        case False
        have "d \<in> out_dsts ?g n p \<longleftrightarrow> d \<in> out_dsts g n p"
          using False by (auto simp: g2(5) g1(7))
        also have "\<dots> \<longleftrightarrow> (\<exists>k x. k \<noteq> eid \<and> dfg_abs g k = Some x \<and> ge_srcId x = n \<and>
            ge_srcPortIdx x = p \<and> d = (ge_dstId x, ge_dstPortIdx x))"
          unfolding dfg_wf_reads(4)[OF wf] using False e by (metis option.inject)
        finally show ?thesis unfolding abs ex_del_other .
      qed
    qed
  qed (use keys in auto)
  moreover have "dfg_delEdge eid g = Some ?g"
    using g1(1) g2(1) e by (simp add: dfg_delEdge_def dfg_edge_def dfg_abs_def)
  ultimately show ?thesis using abs frame by blast
qed

text \<open>C17: In a well-formed DFG, deleting an existing edge succeeds, keeps the DFG well-formed, and
  removes exactly that edge from its set of edges.\<close>

theorem delEdge_refines:
  assumes wf: "dfg_wf g" and e: "dfg_abs g eid = Some e"
  shows "\<exists>g'. dfg_delEdge eid g = Some g' \<and> dfg_wf g' \<and> dfg_abs g' = (dfg_abs g)(eid := None) \<and>
    has_node g' = has_node g"
  by (rule delEdge_ok[OF assms])

text \<open>C16: In a well-formed DFG, adding an edge with a fresh id between existing nodes to a free
  input port succeeds (no assertion fails), the DFG stays well-formed (every adjacency
  structure of every node agrees with the edge map), and its set of edges has grown by exactly
  that edge.\<close>

theorem addEdge_refines:
  assumes "dfg_wf g" "dfg_abs g (ge_id e) = None" "has_node g (ge_srcId e)" "has_node g (ge_dstId e)"
    and "in_edge g (ge_dstId e) (ge_dstPortIdx e) = None"
  shows "\<exists>g'. dfg_addEdge e g = Some g' \<and> dfg_wf g' \<and> dfg_abs g' = (dfg_abs g)(ge_id e \<mapsto> e) \<and>
    has_node g' = has_node g"
  using assms by (rule addEdge_ok)

end
