(* ===== verification/Adg.thy ===== *)
theory Adg
  imports OpInfo
begin

text \<open>
  Architecture description graphs (\<open>include/adg\<close>, \<open>src/adg\<close>): the functional-unit nodes (GPE
  and IOB) with their operand ports, the interconnect nodes (GIB) with their internal
  crossbar, and the graph that holds them.

  The C++ class hierarchy is flattened into one record with the members of all classes; the
  class of an object is the one its type tag names, so \<open>dynamic_cast<GIBNode*>\<close> is null
  unless the tag is GIB. The sub-ADG of a node holds plain \<open>ADGNode\<close>s (ALU, Muxn, RDU,
  Const, IOController), hence the type parameter of \<open>adg\<close>. A pointer to a node is modelled by
  its id.
\<close>

record 'n adg = graph +
  ag_numGpeNodes :: int
  ag_numIobNodes :: int
  ag_cfgDataWidth :: int
  ag_cfgAddrWidth :: int
  ag_cfgBlkOffset :: int
  ag_cfgSpadDataWidth :: int
  ag_cfgSpadSize :: int
  ag_iobAgNestLevels :: int
  ag_iobSpadBankSize :: int
  ag_iobToSpadBanks :: "(int, int list) omap"
  ag_nodes :: "(int, 'n) omap"
  ag_edges :: "(int, gedge) omap"

type_synonym sub_adg = "gnode adg"

record cfgDataLoc =
  cl_low :: int
  cl_high :: int

record anode = gnode +
  an_cfgBlkIdx :: int
  an_x :: int
  an_y :: int
  an_configInfo :: "(int, cfgDataLoc) omap"
  an_subADG :: "sub_adg option"
  an_maxDelay :: int
  an_numOperands :: int
  an_operations :: "string oset"
  an_operandInputs :: "int oset list"
  an_cfgIdMap :: "(string, int) omap"
  an_index :: int
  an_trackReged :: bool
  an_outReged :: "(int, bool) omap"
  an_out2ins :: "(int, int oset) omap"
  an_in2outs :: "(int, int oset) omap"

type_synonym top_adg = "anode adg"

definition is_gib :: "'a gnode_scheme \<Rightarrow> bool" where
  "is_gib n = (gn_type n = ''GIB'')"

definition is_fu :: "'a gnode_scheme \<Rightarrow> bool" where
  "is_fu n = (gn_type n = ''GPE'' \<or> gn_type n = ''IOB'')"

section \<open>Configuration locations\<close>

definition anode_configInfo :: "anode \<Rightarrow> int \<Rightarrow> cfgDataLoc option" where
  "anode_configInfo n cid = om_get (an_configInfo n) cid"

definition anode_addConfigInfo :: "int \<Rightarrow> cfgDataLoc \<Rightarrow> anode \<Rightarrow> anode" where
  "anode_addConfigInfo cid loc n = n\<lparr>an_configInfo := om_put (an_configInfo n) cid loc\<rparr>"

section \<open>Functional units\<close>

definition fu_addOperation :: "string \<Rightarrow> anode \<Rightarrow> anode" where
  "fu_addOperation op n = n\<lparr>an_operations := os_ins (an_operations n) op\<rparr>"

definition fu_delOperation :: "string \<Rightarrow> anode \<Rightarrow> anode" where
  "fu_delOperation op n = n\<lparr>an_operations := os_del (an_operations n) op\<rparr>"

definition fu_opCapable :: "anode \<Rightarrow> string \<Rightarrow> bool" where
  "fu_opCapable n op = (op \<in> set (an_operations n))"

text \<open>\<open>_operandInputs.resize(numOperands)\<close>; a negative size becomes a huge one and throws.\<close>

definition fu_setNumOperands :: "int \<Rightarrow> anode \<Rightarrow> anode option" where
  "fu_setNumOperands k n =
     (if k < 0 then None
      else Some (n\<lparr>an_numOperands := k,
                   an_operandInputs := take (nat k) (an_operandInputs n) @
                      replicate (nat k - length (an_operandInputs n)) []\<rparr>))"

text \<open>The assertion compares a \<open>size_t\<close> with an \<open>int\<close>: a negative index is converted to a huge
  one and fails it.\<close>

definition fu_operandInputs :: "anode \<Rightarrow> int \<Rightarrow> int oset option" where
  "fu_operandInputs n opeIdx =
     (if 0 \<le> opeIdx \<and> opeIdx < int (length (an_operandInputs n))
      then Some (an_operandInputs n ! nat opeIdx) else None)"

definition fu_addOperandInput :: "int \<Rightarrow> int \<Rightarrow> anode \<Rightarrow> anode option" where
  "fu_addOperandInput opeIdx inputIdx n = do {
     s \<leftarrow> fu_operandInputs n opeIdx;
     Some (if om_has (gn_inputs n) inputIdx
           then n\<lparr>an_operandInputs := (an_operandInputs n)[nat opeIdx := os_ins s inputIdx]\<rparr>
           else n) }"

definition fu_delOperandInput :: "int \<Rightarrow> int \<Rightarrow> anode \<Rightarrow> anode option" where
  "fu_delOperandInput opeIdx inputIdx n = do {
     s \<leftarrow> fu_operandInputs n opeIdx;
     Some (if om_has (gn_inputs n) inputIdx
           then n\<lparr>an_operandInputs := (an_operandInputs n)[nat opeIdx := os_del s inputIdx]\<rparr>
           else n) }"

definition fu_setOperandInputs :: "int \<Rightarrow> int oset \<Rightarrow> anode \<Rightarrow> anode option" where
  "fu_setOperandInputs opeIdx inputIdxs n = do {
     s \<leftarrow> fu_operandInputs n opeIdx;
     Some (n\<lparr>an_operandInputs := (an_operandInputs n)[nat opeIdx := inputIdxs]\<rparr>) }"

text \<open>The first operand below \<open>_numOperands\<close> that has the input among its ports, or -1.\<close>

fun operand_search :: "int oset list \<Rightarrow> int \<Rightarrow> int \<Rightarrow> int" where
  "operand_search [] inputIdx i = -1"
| "operand_search (s # ss) inputIdx i =
     (if inputIdx \<in> set s then i else operand_search ss inputIdx (i + 1))"

definition fu_getOperandIdx :: "anode \<Rightarrow> int \<Rightarrow> int option" where
  "fu_getOperandIdx n inputIdx =
     (if int (length (an_operandInputs n)) < an_numOperands n then None
      else Some (operand_search (take (nat (an_numOperands n)) (an_operandInputs n)) inputIdx 0))"

section \<open>Interconnect blocks\<close>

text \<open>\<open>_outReged[idx]\<close> inserts \<open>false\<close> for an unknown port; only the value is modelled.\<close>

definition gib_outReged :: "anode \<Rightarrow> int \<Rightarrow> bool" where
  "gib_outReged n idx = om_at False (an_outReged n) idx"

definition gib_setOutReged :: "int \<Rightarrow> bool \<Rightarrow> anode \<Rightarrow> anode" where
  "gib_setOutReged idx reged n = n\<lparr>an_outReged := om_put (an_outReged n) idx reged\<rparr>"

definition gib_out2ins :: "anode \<Rightarrow> int \<Rightarrow> int oset" where
  "gib_out2ins n outPort = om_at [] (an_out2ins n) outPort"

definition gib_in2outs :: "anode \<Rightarrow> int \<Rightarrow> int oset" where
  "gib_in2outs n inPort = om_at [] (an_in2outs n) inPort"

definition gib_addOut2ins :: "int \<Rightarrow> int \<Rightarrow> anode \<Rightarrow> anode" where
  "gib_addOut2ins outPort inPort n =
     (if om_has (gn_inputs n) inPort \<and> om_has (gn_outputs n) outPort
      then n\<lparr>an_out2ins := om_put (an_out2ins n) outPort (os_ins (om_at [] (an_out2ins n) outPort) inPort)\<rparr>
      else n)"

definition gib_addIn2outs :: "int \<Rightarrow> int \<Rightarrow> anode \<Rightarrow> anode" where
  "gib_addIn2outs inPort outPort n =
     (if om_has (gn_inputs n) inPort \<and> om_has (gn_outputs n) outPort
      then n\<lparr>an_in2outs := om_put (an_in2outs n) inPort (os_ins (om_at [] (an_in2outs n) inPort) outPort)\<rparr>
      else n)"

definition gib_isInOutConnected :: "anode \<Rightarrow> int \<Rightarrow> int \<Rightarrow> bool" where
  "gib_isInOutConnected n inPort outPort =
     (case om_get (an_out2ins n) outPort of
        None \<Rightarrow> False
      | Some ins \<Rightarrow> list_ex (\<lambda>i. i = inPort) ins)"

text \<open>The two crossbar maps of a GIB describe one relation.\<close>

definition gib_consistent :: "anode \<Rightarrow> bool" where
  "gib_consistent n \<longleftrightarrow> (\<forall>i p. i \<in> set (gib_out2ins n p) \<longleftrightarrow> p \<in> set (gib_in2outs n i))"

lemma isInOutConnected_iff: "gib_isInOutConnected n i p \<longleftrightarrow> i \<in> set (gib_out2ins n p)"
  by (auto simp: gib_isInOutConnected_def gib_out2ins_def om_at_def list_ex_iff split: option.splits)

lemma gib_connect_consistent:
  assumes "gib_consistent n"
  shows "gib_consistent (gib_addOut2ins p i (gib_addIn2outs i p n))"
proof (cases "om_has (gn_inputs n) i \<and> om_has (gn_outputs n) p")
  case True
  with assms show ?thesis
    by (auto simp: gib_consistent_def gib_addOut2ins_def gib_addIn2outs_def gib_out2ins_def gib_in2outs_def)
next
  case False
  with assms show ?thesis by (auto simp: gib_addOut2ins_def gib_addIn2outs_def)
qed

section \<open>Graphs\<close>

definition adg_node :: "'n adg \<Rightarrow> int \<Rightarrow> 'n option" where
  "adg_node a nid = om_get (ag_nodes a) nid"

definition adg_edge :: "'n adg \<Rightarrow> int \<Rightarrow> gedge option" where
  "adg_edge a eid = om_get (ag_edges a) eid"

definition adg_addNode :: "int \<Rightarrow> 'n \<Rightarrow> 'n adg \<Rightarrow> 'n adg" where
  "adg_addNode nid n a = a\<lparr>ag_nodes := om_put (ag_nodes a) nid n\<rparr>"

definition adg_updNode :: "int \<Rightarrow> ('n \<Rightarrow> 'n) \<Rightarrow> 'n adg \<Rightarrow> 'n adg option" where
  "adg_updNode nid f a =
     (case om_get (ag_nodes a) nid of
        None \<Rightarrow> None
      | Some n \<Rightarrow> Some (a\<lparr>ag_nodes := om_put (ag_nodes a) nid (f n)\<rparr>))"

definition adg_addEdge :: "int \<Rightarrow> gedge \<Rightarrow> ('b gnode_scheme) adg \<Rightarrow> ('b gnode_scheme) adg option" where
  "adg_addEdge eid e a = do {
     let a = a\<lparr>ag_edges := om_put (ag_edges a) eid e\<rparr>;
     let srcId = ge_srcId e; let dstId = ge_dstId e;
     let srcPort = ge_srcPortIdx e; let dstPort = ge_dstPortIdx e;
     a1 \<leftarrow> (if srcId = g_id a then Some (graph_addInput srcPort (dstId, dstPort) a)
            else adg_updNode srcId (gnode_addOutput srcPort (dstId, dstPort)) a);
     (if dstId = g_id a then Some (graph_addOutput dstPort (srcId, srcPort) a1)
      else adg_updNode dstId (gnode_addInput dstPort (srcId, srcPort)) a1) }"

text \<open>\<open>delNode\<close> and \<open>delEdge\<close> only drop the object (deleting null is harmless); the connections
  other nodes keep to it stay.\<close>

definition adg_delNode :: "int \<Rightarrow> 'n adg \<Rightarrow> 'n adg" where
  "adg_delNode nid a = a\<lparr>ag_nodes := om_del (ag_nodes a) nid\<rparr>"

definition adg_delEdge :: "int \<Rightarrow> 'n adg \<Rightarrow> 'n adg" where
  "adg_delEdge eid a = a\<lparr>ag_edges := om_del (ag_edges a) eid\<rparr>"

text \<open>\<open>ADG::operator=\<close> (used for sub-ADGs): the members it lists are copied, those it does not
  (\<open>_cfgSpadDataWidth\<close>, the port names) keep the value of \<open>this\<close>.\<close>

definition adg_assign :: "'n adg \<Rightarrow> 'n adg \<Rightarrow> 'n adg" where
  "adg_assign this that =
     this\<lparr>g_id := g_id that, g_bitWidth := g_bitWidth that, g_inputs := g_inputs that,
       g_outputs := g_outputs that,
       ag_numGpeNodes := ag_numGpeNodes that, ag_numIobNodes := ag_numIobNodes that,
       ag_cfgDataWidth := ag_cfgDataWidth that, ag_cfgAddrWidth := ag_cfgAddrWidth that,
       ag_cfgBlkOffset := ag_cfgBlkOffset that, ag_cfgSpadSize := ag_cfgSpadSize that,
       ag_iobAgNestLevels := ag_iobAgNestLevels that, ag_iobSpadBankSize := ag_iobSpadBankSize that,
       ag_iobToSpadBanks := ag_iobToSpadBanks that,
       ag_nodes := foldl (\<lambda>m (k, n). om_put m k n) (ag_nodes this) (ag_nodes that),
       ag_edges := foldl (\<lambda>m (k, e). om_put m k e) (ag_edges this) (ag_edges that)\<rparr>"

end
