(* ===== verification/MapState.thy ===== *)
theory MapState
  imports Dfg Adg
begin

text \<open>
  The state of a mapping (\<open>include/mapper/mapping.h\<close>) and the operations that place DFG nodes
  on ADG nodes without routing (first part of \<open>src/mapper/mapping.cpp\<close>).

  The DFG and the ADG are not changed by a mapping; they are arguments. An \<open>ADGNode*\<close> or
  \<open>DFGNode*\<close> is the node's id, null is \<open>None\<close>. A \<open>DFGEdge*\<close> kept in a pass list is the edge
  itself: edges of a DFG are never updated, and equal edges of a well-formed DFG have equal
  ids. Reading \<open>map[key]\<close> for a missing key yields the default member values; the entry it
  inserts is modelled where the code goes on to write into it.
\<close>

record edgeLink =
  el_srcPort :: int
  el_dstPort :: int
  el_adgNode :: int

record edgePass =
  ep_srcPort :: int
  ep_dstPort :: int
  ep_edge :: gedge

record dfgNodeAttr =
  na_minLat :: int
  na_maxLat :: int
  na_lat :: int
  na_adgNode :: "int option"

record dfgEdgeAttr =
  ea_lat :: int
  ea_delay :: int
  ea_vio :: int
  ea_edgeLinks :: "edgeLink list"

record adgNodeAttr =
  aa_dfgNode :: "int option"
  aa_dfgEdgePass :: "edgePass list"
  aa_inPortUsed :: "(int, bool) omap"
  aa_outPortUsed :: "(int, bool) omap"

record fuDelayAttr =
  fd_totalDelayUsed :: int
  fd_delayUsed :: "(int, int) omap"

record mapping =
  mp_totalViolation :: int
  mp_maxViolation :: int
  mp_maxLat :: int
  mp_maxLatNodeId :: int
  mp_numNodeMapped :: int
  mp_dfgNodeAttr :: "(int, dfgNodeAttr) omap"
  mp_dfgEdgeAttr :: "(int, dfgEdgeAttr) omap"
  mp_adgNodeAttr :: "(int, adgNodeAttr) omap"
  mp_fuDelayAttr :: "(int, fuDelayAttr) omap"
  mp_vioDfgEdges :: "int list"

definition no_node :: dfgNodeAttr where
  "no_node = \<lparr>na_minLat = 0, na_maxLat = 0, na_lat = 0, na_adgNode = None\<rparr>"

definition no_edge :: dfgEdgeAttr where
  "no_edge = \<lparr>ea_lat = 0, ea_delay = 0, ea_vio = 0, ea_edgeLinks = []\<rparr>"

definition no_adg :: adgNodeAttr where
  "no_adg = \<lparr>aa_dfgNode = None, aa_dfgEdgePass = [], aa_inPortUsed = [], aa_outPortUsed = []\<rparr>"

definition no_delay :: fuDelayAttr where
  "no_delay = \<lparr>fd_totalDelayUsed = 0, fd_delayUsed = []\<rparr>"

abbreviation dnattr :: "mapping \<Rightarrow> int \<Rightarrow> dfgNodeAttr" where
  "dnattr m n \<equiv> om_at no_node (mp_dfgNodeAttr m) n"

abbreviation deattr :: "mapping \<Rightarrow> int \<Rightarrow> dfgEdgeAttr" where
  "deattr m k \<equiv> om_at no_edge (mp_dfgEdgeAttr m) k"

abbreviation anattr :: "mapping \<Rightarrow> int \<Rightarrow> adgNodeAttr" where
  "anattr m k \<equiv> om_at no_adg (mp_adgNodeAttr m) k"

abbreviation fdattr :: "mapping \<Rightarrow> int \<Rightarrow> fuDelayAttr" where
  "fdattr m k \<equiv> om_at no_delay (mp_fuDelayAttr m) k"

text \<open>\<open>_dfgNodeAttr[n].x = ...\<close> and its three siblings: update in place, inserting the default.\<close>

definition upd_dn :: "int \<Rightarrow> (dfgNodeAttr \<Rightarrow> dfgNodeAttr) \<Rightarrow> mapping \<Rightarrow> mapping" where
  "upd_dn n f m = m\<lparr>mp_dfgNodeAttr := om_put (mp_dfgNodeAttr m) n (f (dnattr m n))\<rparr>"

definition upd_de :: "int \<Rightarrow> (dfgEdgeAttr \<Rightarrow> dfgEdgeAttr) \<Rightarrow> mapping \<Rightarrow> mapping" where
  "upd_de k f m = m\<lparr>mp_dfgEdgeAttr := om_put (mp_dfgEdgeAttr m) k (f (deattr m k))\<rparr>"

definition upd_an :: "int \<Rightarrow> (adgNodeAttr \<Rightarrow> adgNodeAttr) \<Rightarrow> mapping \<Rightarrow> mapping" where
  "upd_an k f m = m\<lparr>mp_adgNodeAttr := om_put (mp_adgNodeAttr m) k (f (anattr m k))\<rparr>"

definition upd_fd :: "int \<Rightarrow> (fuDelayAttr \<Rightarrow> fuDelayAttr) \<Rightarrow> mapping \<Rightarrow> mapping" where
  "upd_fd k f m = m\<lparr>mp_fuDelayAttr := om_put (mp_fuDelayAttr m) k (f (fdattr m k))\<rparr>"

text \<open>\<open>new Mapping(adg, dfg)\<close>; the violation and latency members are indeterminate until
  \<open>latencySchedule\<close> has run.\<close>

definition new_Mapping :: mapping where
  "new_Mapping = \<lparr>mp_totalViolation = 0, mp_maxViolation = 0, mp_maxLat = 0, mp_maxLatNodeId = 0,
     mp_numNodeMapped = 0, mp_dfgNodeAttr = [], mp_dfgEdgeAttr = [], mp_adgNodeAttr = [],
     mp_fuDelayAttr = [], mp_vioDfgEdges = []\<rparr>"

definition map_reset :: "mapping \<Rightarrow> mapping" where
  "map_reset m = m\<lparr>mp_dfgNodeAttr := [], mp_dfgEdgeAttr := [], mp_adgNodeAttr := [],
     mp_fuDelayAttr := [], mp_vioDfgEdges := [], mp_numNodeMapped := 0\<rparr>"

definition isAdgNodeInPortUsed :: "mapping \<Rightarrow> int \<Rightarrow> int \<Rightarrow> bool" where
  "isAdgNodeInPortUsed m nodeId portIdx =
     (case om_get (mp_adgNodeAttr m) nodeId of
        None \<Rightarrow> False
      | Some a \<Rightarrow> (case om_get (aa_inPortUsed a) portIdx of None \<Rightarrow> False | Some b \<Rightarrow> b))"

definition isAdgNodeOutPortUsed :: "mapping \<Rightarrow> int \<Rightarrow> int \<Rightarrow> bool" where
  "isAdgNodeOutPortUsed m nodeId portIdx =
     (case om_get (mp_adgNodeAttr m) nodeId of
        None \<Rightarrow> False
      | Some a \<Rightarrow> (case om_get (aa_outPortUsed a) portIdx of None \<Rightarrow> False | Some b \<Rightarrow> b))"

definition mappedAdg :: "mapping \<Rightarrow> int \<Rightarrow> int option" where
  "mappedAdg m dfgNodeId =
     (case om_get (mp_dfgNodeAttr m) dfgNodeId of None \<Rightarrow> None | Some a \<Rightarrow> na_adgNode a)"

definition mappedDfg :: "mapping \<Rightarrow> int \<Rightarrow> int option" where
  "mappedDfg m adgNodeId =
     (case om_get (mp_adgNodeAttr m) adgNodeId of None \<Rightarrow> None | Some a \<Rightarrow> aa_dfgNode a)"

definition isMappedDfg :: "mapping \<Rightarrow> int \<Rightarrow> bool" where
  "isMappedDfg m dfgNodeId =
     (case om_get (mp_dfgNodeAttr m) dfgNodeId of None \<Rightarrow> False | Some a \<Rightarrow> na_adgNode a \<noteq> None)"

definition isMappedAdg :: "mapping \<Rightarrow> int \<Rightarrow> bool" where
  "isMappedAdg m adgNodeId =
     (case om_get (mp_adgNodeAttr m) adgNodeId of None \<Rightarrow> False | Some a \<Rightarrow> aa_dfgNode a \<noteq> None)"

definition isIOBFree :: "mapping \<Rightarrow> int \<Rightarrow> bool" where
  "isIOBFree m adgNodeId = (\<not> isMappedAdg m adgNodeId)"

definition mapDfgNodeNoRoute :: "int \<Rightarrow> int \<Rightarrow> mapping \<Rightarrow> mapping" where
  "mapDfgNodeNoRoute dfgNodeId adgNodeId m =
     (let m1 = upd_dn dfgNodeId (\<lambda>a. a\<lparr>na_adgNode := Some adgNodeId\<rparr>) m;
          m2 = upd_an adgNodeId (\<lambda>a. a\<lparr>aa_dfgNode := Some dfgNodeId\<rparr>) m1
      in m2\<lparr>mp_numNodeMapped := mp_numNodeMapped m2 + 1\<rparr>)"

definition unmapDfgNodeNoUnroute :: "int \<Rightarrow> mapping \<Rightarrow> mapping" where
  "unmapDfgNodeNoUnroute dfgNodeId m =
     (case mappedAdg m dfgNodeId of
        None \<Rightarrow> m
      | Some adgNodeId \<Rightarrow>
          m\<lparr>mp_adgNodeAttr := om_del (mp_adgNodeAttr m) adgNodeId,
            mp_dfgNodeAttr := om_del (mp_dfgNodeAttr m) dfgNodeId,
            mp_numNodeMapped := mp_numNodeMapped m - 1\<rparr>)"

definition isRouted :: "mapping \<Rightarrow> int \<Rightarrow> bool" where
  "isRouted m edgeId =
     (case om_get (mp_dfgEdgeAttr m) edgeId of None \<Rightarrow> False | Some a \<Rightarrow> ea_edgeLinks a \<noteq> [])"

definition routedEdgeLinks :: "mapping \<Rightarrow> gedge \<Rightarrow> edgeLink list option" where
  "routedEdgeLinks m e =
     (case om_get (mp_dfgEdgeAttr m) (ge_id e) of None \<Rightarrow> None | Some a \<Rightarrow> Some (ea_edgeLinks a))"

text \<open>\<open>_dfg->nodes().size() == _numNodeMapped\<close>: the counter is converted to an unsigned 64-bit
  value, so a negative one differs from every size.\<close>

definition map_success :: "dfg \<Rightarrow> mapping \<Rightarrow> bool" where
  "map_success g m = (int (length (df_nodes g)) = mp_numNodeMapped m)"

definition getEdgeLen :: "mapping \<Rightarrow> int \<times> int" where
  "getEdgeLen m =
     foldl (\<lambda>(total, mx) (k, a). let num = int (length (ea_edgeLinks a)) in (total + num, max mx num))
       (0, 0) (mp_dfgEdgeAttr m)"

definition getMappedAdgNodeNum :: "mapping \<Rightarrow> int" where
  "getMappedAdgNodeNum m = int (length (mp_adgNodeAttr m))"

section \<open>Placement\<close>

lemmas upd_defs = upd_dn_def upd_de_def upd_an_def upd_fd_def

lemma mappedAdg_attr: "mappedAdg m n = na_adgNode (dnattr m n)"
  by (simp add: mappedAdg_def om_at_def no_node_def split: option.splits)

lemma mappedDfg_attr: "mappedDfg m k = aa_dfgNode (anattr m k)"
  by (simp add: mappedDfg_def om_at_def no_adg_def split: option.splits)

lemma isMappedDfg_iff: "isMappedDfg m n \<longleftrightarrow> mappedAdg m n \<noteq> None"
  by (simp add: isMappedDfg_def mappedAdg_def split: option.splits)

lemma isMappedAdg_iff: "isMappedAdg m k \<longleftrightarrow> mappedDfg m k \<noteq> None"
  by (simp add: isMappedAdg_def mappedDfg_def split: option.splits)

text \<open>
  The placement invariant: the two directions of the placement agree, and the counter is the
  number of placed DFG nodes.
\<close>

definition placed :: "mapping \<Rightarrow> int set" where
  "placed m = {n. mappedAdg m n \<noteq> None}"

definition place_inv :: "mapping \<Rightarrow> bool" where
  "place_inv m \<longleftrightarrow> (\<forall>n k. mappedAdg m n = Some k \<longleftrightarrow> mappedDfg m k = Some n) \<and>
     mp_numNodeMapped m = int (card (placed m))"

lemma placed_subset: "placed m \<subseteq> fst ` set (mp_dfgNodeAttr m)"
  by (force simp: placed_def mappedAdg_def split: option.splits dest: map_of_SomeD)

lemma finite_placed [simp]: "finite (placed m)"
  by (rule finite_subset[OF placed_subset]) simp

lemma mapped_mapNoRoute [simp]:
  "mappedAdg (mapDfgNodeNoRoute n k m) = (mappedAdg m)(n \<mapsto> k)"
  "mappedDfg (mapDfgNodeNoRoute n k m) = (mappedDfg m)(k \<mapsto> n)"
  by (auto simp: mapDfgNodeNoRoute_def mappedAdg_def mappedDfg_def upd_defs Let_def fun_eq_iff)

lemma mapped_unmapNoUnroute:
  assumes "mappedAdg m n = Some k"
  shows "mappedAdg (unmapDfgNodeNoUnroute n m) = (mappedAdg m)(n := None)"
    and "mappedDfg (unmapDfgNodeNoUnroute n m) = (mappedDfg m)(k := None)"
  using assms by (auto simp: unmapDfgNodeNoUnroute_def mappedAdg_def mappedDfg_def fun_eq_iff)

lemma place_inv_new: "place_inv new_Mapping"
  by (simp add: place_inv_def placed_def new_Mapping_def mappedAdg_def mappedDfg_def)

lemma place_inv_reset: "place_inv (map_reset m)"
  by (simp add: place_inv_def placed_def map_reset_def mappedAdg_def mappedDfg_def)

lemma place_inv_map:
  assumes inv: "place_inv m" and n: "mappedAdg m n = None" and k: "mappedDfg m k = None"
  shows "place_inv (mapDfgNodeNoRoute n k m)"
proof -
  have "placed (mapDfgNodeNoRoute n k m) = insert n (placed m)" by (auto simp: placed_def)
  moreover have "n \<notin> placed m" using n by (simp add: placed_def)
  moreover have "mp_numNodeMapped (mapDfgNodeNoRoute n k m) = mp_numNodeMapped m + 1"
    by (simp add: mapDfgNodeNoRoute_def upd_defs Let_def)
  moreover have "mappedDfg m j \<noteq> Some n" for j using inv n unfolding place_inv_def by (metis option.distinct(1))
  ultimately show ?thesis using assms by (auto simp: place_inv_def)
qed

lemma place_inv_unmap:
  assumes inv: "place_inv m"
  shows "place_inv (unmapDfgNodeNoUnroute n m)"
proof (cases "mappedAdg m n")
  case None
  then show ?thesis using inv by (simp add: unmapDfgNodeNoUnroute_def)
next
  case (Some k)
  have "placed (unmapDfgNodeNoUnroute n m) = placed m - {n}"
    using mapped_unmapNoUnroute(1)[OF Some] by (auto simp: placed_def)
  moreover have n: "n \<in> placed m" using Some by (simp add: placed_def)
  moreover have "mp_numNodeMapped (unmapDfgNodeNoUnroute n m) = mp_numNodeMapped m - 1"
    using Some by (simp add: unmapDfgNodeNoUnroute_def)
  moreover have "int (card (placed m - {n})) = int (card (placed m)) - 1"
    using n card_Suc_Diff1[OF finite_placed n] by simp
  ultimately show ?thesis
    using inv mapped_unmapNoUnroute[OF Some] Some unfolding place_inv_def
    by (metis (no_types, lifting) fun_upd_apply option.distinct(1) option.inject)
qed

section \<open>The contract of placing and removing nodes\<close>

text \<open>
  What the mapping algorithms need: placing a node puts it on the unit or changes no placement,
  removing it takes it off, nothing else moves, and neither leaves the invariant. It holds of the
  placement alone (here), of placement with routing, and of what the annealing loop keeps.
\<close>

locale placer =
  fixes inv :: "'m \<Rightarrow> bool"
    and loc :: "'m \<Rightarrow> 'n \<Rightarrow> 'k option"
    and known :: "'n \<Rightarrow> bool"
    and may :: "'m \<Rightarrow> 'n \<Rightarrow> 'k \<Rightarrow> bool"
    and place :: "'n \<Rightarrow> 'k \<Rightarrow> 'm \<Rightarrow> (bool \<times> 'm) option"
    and remove :: "'n \<Rightarrow> 'm \<Rightarrow> 'm option"
  assumes place_ok: "inv m \<Longrightarrow> may m n k \<Longrightarrow>
      \<exists>ok m'. place n k m = Some (ok, m') \<and> inv m' \<and> loc m' = (if ok then (loc m)(n \<mapsto> k) else loc m)"
    and may_free: "may m n k \<Longrightarrow> loc m n = None"
    and remove_ok: "inv m \<Longrightarrow> known n \<Longrightarrow> \<exists>m'. remove n m = Some m' \<and> inv m' \<and> loc m' = (loc m)(n := None)"
begin

lemma place_grows:
  assumes "inv m" "may m n k"
  shows "\<exists>ok m'. place n k m = Some (ok, m') \<and> inv m' \<and> loc m' = (if ok then (loc m)(n \<mapsto> k) else loc m) \<and> loc m \<subseteq>\<^sub>m loc m'"
  using place_ok[OF assms] may_free[OF assms(2)] by (auto simp: map_le_def dom_def)

lemma place_undone:
  assumes "inv m" "may m n k" "known n" "place n k m = Some (ok, m')"
  shows "\<exists>m''. remove n m' = Some m'' \<and> inv m'' \<and> loc m'' = loc m"
proof -
  have m': "inv m'" "loc m' = (if ok then (loc m)(n \<mapsto> k) else loc m)" using place_ok[OF assms(1,2)] assms(4) by auto
  moreover have "(loc m')(n := None) = loc m" using m'(2) may_free[OF assms(2)] by (auto simp: fun_eq_iff)
  ultimately show ?thesis using remove_ok[OF m'(1) assms(3)] by auto
qed

lemma remove_all:
  assumes "inv m" "\<forall>n \<in> set ns. known n"
  shows "\<exists>m'. mfold (\<lambda>m n. remove n m) m ns = Some m' \<and> inv m' \<and> loc m' = loc m |` (- set ns)"
proof -
  let ?J = "\<lambda>us m'. inv m' \<and> loc m' = loc m |` (- set us)"
  have "\<exists>m'. mfold (\<lambda>m n. remove n m) m ns = Some m' \<and> ?J ns m'"
  proof (rule mfold_prefix)
    fix us x vs m1 assume "ns = us @ x # vs" "?J us m1"
    then show "\<exists>m'. remove x m1 = Some m' \<and> ?J (us @ [x]) m'"
      using remove_ok[of m1 x] assms(2) by (auto simp: restrict_map_def fun_eq_iff)
  qed (simp add: assms(1))
  then show ?thesis by blast
qed

end

interpretation spots: placer place_inv mappedAdg "\<lambda>_. True" "\<lambda>m n k. mappedAdg m n = None \<and> mappedDfg m k = None"
  "\<lambda>n k m. Some (True, mapDfgNodeNoRoute n k m)" "\<lambda>n m. Some (unmapDfgNodeNoUnroute n m)"
proof unfold_locales
  fix m n assume "place_inv m"
  moreover have "mappedAdg (unmapDfgNodeNoUnroute n m) = (mappedAdg m)(n := None)"
  proof (cases "mappedAdg m n")
    case None
    then show ?thesis by (simp add: unmapDfgNodeNoUnroute_def fun_upd_idem)
  qed (rule mapped_unmapNoUnroute(1))
  ultimately show "\<exists>m'. Some (unmapDfgNodeNoUnroute n m) = Some m' \<and> place_inv m' \<and> mappedAdg m' = (mappedAdg m)(n := None)"
    by (simp add: place_inv_unmap)
qed (auto intro: place_inv_map)

section \<open>Success\<close>

text \<open>What the placement says about success: with the invariant, and only nodes of the DFG
  placed, the counter test is true exactly when every node of the DFG is placed.\<close>

lemma map_success_iff:
  assumes inv: "place_inv m" and wf: "om_wf (df_nodes g)" and sub: "placed m \<subseteq> fst ` set (df_nodes g)"
  shows "map_success g m \<longleftrightarrow> (\<forall>n. om_has (df_nodes g) n \<longrightarrow> isMappedDfg m n)"
proof -
  have len: "length (df_nodes g) = card (fst ` set (df_nodes g))"
    using om_wf_distinct[OF wf] by (metis distinct_card length_map set_map)
  have "map_success g m \<longleftrightarrow> card (placed m) = card (fst ` set (df_nodes g))"
    using inv len by (auto simp: map_success_def place_inv_def)
  also have "\<dots> \<longleftrightarrow> placed m = fst ` set (df_nodes g)"
    using sub by (metis card_subset_eq finite_imageI finite_set)
  also have "\<dots> \<longleftrightarrow> (\<forall>n. om_has (df_nodes g) n \<longrightarrow> isMappedDfg m n)"
    using sub by (auto simp: om_has_set isMappedDfg_iff placed_def)
  finally show ?thesis .
qed

end
