(* ===== verification/Latency.thy ===== *)
theory Latency
  imports MapState "HOL-Library.Signed_Division"
begin

text \<open>
  Data synchronisation (second half of \<open>src/mapper/mapping.cpp\<close>): the latency each route adds,
  the latency bound of every DFG node, the schedule that shares the delay units of the
  functional units among the operands, the violations that remain, and the DFG with PASS nodes
  put into the violating edges. \<open>None\<close> is a failed assertion, a null pointer, or the use of an
  indeterminate value.
\<close>

section \<open>Route latency and latency bound\<close>

text \<open>C++ division truncates toward zero, hence \<open>sdiv\<close>.\<close>

definition getAvailDelay :: "anode \<Rightarrow> dnode \<Rightarrow> mapping \<Rightarrow> int" where
  "getAvailDelay fuNode dfgNode m =
     (if an_numOperands fuNode < 2 then 0
      else let maxDelay = an_maxDelay fuNode; numOp = int (length (gn_inputs dfgNode)) in
        if numOp = 0 then 0
        else (case om_get (mp_fuDelayAttr m) (gn_id fuNode) of
                Some attr \<Rightarrow> (let leftOps = numOp - int (length (fd_delayUsed attr))
                             in (maxDelay - fd_totalDelayUsed attr) sdiv (max leftOps 1))
              | None \<Rightarrow> maxDelay sdiv numOp))"

text \<open>A registered output port of a GIB costs one cycle, any other link none.\<close>

definition link_lat :: "top_adg \<Rightarrow> edgeLink \<Rightarrow> int option" where
  "link_lat a l = do {
     n \<leftarrow> adg_node a (el_adgNode l);
     Some (if is_gib n then (if gib_outReged n (el_dstPort l) then 1 else 0) else 0) }"

definition links_lat :: "top_adg \<Rightarrow> edgeLink list \<Rightarrow> int option" where
  "links_lat a ls = mfold (\<lambda>lat l. do { x \<leftarrow> link_lat a l; Some (lat + x) }) 0 ls"

definition calEdgeRouteLat :: "top_adg \<Rightarrow> mapping \<Rightarrow> mapping option" where
  "calEdgeRouteLat a m = do {
     es \<leftarrow> mfold (\<lambda>es (k, attr). do {
             lat \<leftarrow> links_lat a (ea_edgeLinks attr);
             Some (om_put es k (attr\<lparr>ea_lat := lat\<rparr>)) }) (mp_dfgEdgeAttr m) (mp_dfgEdgeAttr m);
     Some (m\<lparr>mp_dfgEdgeAttr := es\<rparr>) }"

definition node_inLat :: "dfg \<Rightarrow> mapping \<Rightarrow> dnode \<Rightarrow> int option" where
  "node_inLat g m node =
     mfold (\<lambda>maxLat (port, eid). do {
        e \<leftarrow> dfg_edge g eid;
        let inPortLat = na_lat (dnattr m (ge_srcId e)) + ea_lat (deattr m eid);
        Some (max maxLat inPortLat) }) 0 (gn_inputEdges node)"

definition set_lat :: "int \<Rightarrow> int \<Rightarrow> mapping \<Rightarrow> mapping" where
  "set_lat n x = upd_dn n (\<lambda>a. a\<lparr>na_lat := x\<rparr>)"

definition set_maxLat :: "int \<Rightarrow> int \<Rightarrow> mapping \<Rightarrow> mapping" where
  "set_maxLat n x = upd_dn n (\<lambda>a. a\<lparr>na_maxLat := x\<rparr>)"

definition set_minLat :: "int \<Rightarrow> int \<Rightarrow> mapping \<Rightarrow> mapping" where
  "set_minLat n x = upd_dn n (\<lambda>a. a\<lparr>na_minLat := x\<rparr>)"

text \<open>The state is the mapping, the greatest latency so far and the node that has it; the node is
  indeterminate until a node with a latency of at least 0 is met.\<close>

type_synonym bound_state = "mapping \<times> int \<times> int option"

definition bound_step :: "dfg \<Rightarrow> bound_state \<Rightarrow> int \<Rightarrow> bound_state option" where
  "bound_step g s nodeId = (case s of (m, maxLatDfg, maxLatNodeId) \<Rightarrow> do {
     node \<leftarrow> dfg_node g nodeId;
     maxLat \<leftarrow> node_inLat g m node;
     let lat = maxLat + dn_opLatency node;
     let m' = set_lat nodeId lat m;
     Some (if maxLatDfg \<le> lat then (m', lat, Some nodeId) else (m', maxLatDfg, maxLatNodeId)) })"

definition latencyBound :: "dfg \<Rightarrow> mapping \<Rightarrow> mapping option" where
  "latencyBound g m = do {
     (m', maxLatDfg, maxLatNodeId) \<leftarrow> mfold (bound_step g) (m, 0, None) (df_topoNodes g);
     i \<leftarrow> maxLatNodeId;
     Some (m'\<lparr>mp_maxLat := maxLatDfg, mp_maxLatNodeId := i\<rparr>) }"

section \<open>Scheduling\<close>

text \<open>The functional unit the node is mapped to; \<open>dynamic_cast\<close> of anything else is null.\<close>

definition mapped_fu :: "top_adg \<Rightarrow> mapping \<Rightarrow> int \<Rightarrow> anode option" where
  "mapped_fu a m n = do {
     k \<leftarrow> mappedAdg m n;
     fu \<leftarrow> adg_node a k;
     (if is_fu fu then Some fu else None) }"

definition set_delayUsed :: "int \<Rightarrow> int \<Rightarrow> int \<Rightarrow> mapping \<Rightarrow> mapping" where
  "set_delayUsed fu port d = upd_fd fu (\<lambda>f. f\<lparr>fd_delayUsed := om_put (fd_delayUsed f) port d\<rparr>)"

definition add_delayUsed :: "int \<Rightarrow> int \<Rightarrow> int \<Rightarrow> mapping \<Rightarrow> mapping" where
  "add_delayUsed fu port d =
     upd_fd fu (\<lambda>f. f\<lparr>fd_delayUsed := om_put (fd_delayUsed f) port d, fd_totalDelayUsed := fd_totalDelayUsed f + d\<rparr>)"

text \<open>The input port on the critical path and the node that drives it: the first edge that accounts
  for the latency at the input. Without a match the port is the last one seen; before any edge
  it is the indeterminate value of \<open>int inPort\<close>, the argument \<open>inPort\<close> here.\<close>

fun crit_scan :: "dfg \<Rightarrow> mapping \<Rightarrow> int \<Rightarrow> int \<Rightarrow> (int \<times> int) list \<Rightarrow> (int \<times> int option) option" where
  "crit_scan g m inPortLat inPort [] = Some (inPort, None)"
| "crit_scan g m inPortLat inPort ((port, eid) # es) = do {
     e \<leftarrow> dfg_edge g eid;
     (if inPortLat = na_lat (dnattr m (ge_srcId e)) + ea_lat (deattr m eid)
      then Some (port, Some (ge_srcId e))
      else crit_scan g m inPortLat port es) }"

text \<open>The mapping, the scheduled node ids and the list still to schedule.\<close>

type_synonym sched_state = "mapping \<times> int oset \<times> int list"

primrec crit_path :: "nat \<Rightarrow> dfg \<Rightarrow> top_adg \<Rightarrow> int \<Rightarrow> int \<Rightarrow> sched_state \<Rightarrow> sched_state option" where
  "crit_path 0 g a junk nodeId s = None"
| "crit_path (Suc fuel) g a junk nodeId s = (case s of (m, scheduled, unscheduled) \<Rightarrow> do {
     dfgNode \<leftarrow> dfg_node g nodeId;
     let inPortLat = na_lat (dnattr m nodeId) - dn_opLatency dfgNode;
     (inPort, src) \<leftarrow> crit_scan g m inPortLat junk (gn_inputEdges dfgNode);
     fuNode \<leftarrow> mapped_fu a m nodeId;
     let m1 = set_maxLat nodeId inPortLat (set_delayUsed (gn_id fuNode) inPort 0 m);
     let m2 = set_minLat nodeId (max (inPortLat - getAvailDelay fuNode dfgNode m1) 0) m1;
     (case src of
        None \<Rightarrow> Some (m2, scheduled, unscheduled)
      | Some srcNodeId \<Rightarrow>
          (let s' = (m2, os_ins scheduled srcNodeId, filter (\<lambda>n. n \<noteq> srcNodeId) unscheduled)
           in if dfg_node g srcNodeId = None then Some s'
              else crit_path fuel g a junk srcNodeId s')) })"

text \<open>The bounds the scheduled successors give; \<open>Some None\<close> when one is not scheduled yet.\<close>

fun out_scan :: "dfg \<Rightarrow> mapping \<Rightarrow> int oset \<Rightarrow> int list \<Rightarrow> int \<times> int \<times> bool \<Rightarrow> (int \<times> int \<times> bool) option option" where
  "out_scan g m scheduled [] acc = Some (Some acc)"
| "out_scan g m scheduled (eid # es) (maxLat, minLat, updated) = do {
     e \<leftarrow> dfg_edge g eid;
     let routeLat = ea_lat (deattr m eid); dst = ge_dstId e in
     if dst \<in> set scheduled
     then out_scan g m scheduled es
            (min maxLat (na_maxLat (dnattr m dst) - routeLat),
             max minLat (na_minLat (dnattr m dst) - routeLat), True)
     else Some None }"

definition in_assign ::
    "dfg \<Rightarrow> anode \<Rightarrow> dnode \<Rightarrow> int oset \<Rightarrow> int \<Rightarrow> mapping \<Rightarrow> int \<times> int \<Rightarrow> mapping option" where
  "in_assign g fuNode dfgNode scheduled maxInportLat m elem = do {
     e \<leftarrow> dfg_edge g (snd elem);
     Some (if ge_srcId e \<in> set scheduled
           then let delayRequired = maxInportLat - ea_lat (deattr m (snd elem)) - na_lat (dnattr m (ge_srcId e));
                    delayUsed = min delayRequired (getAvailDelay fuNode dfgNode m)
                in add_delayUsed (gn_id fuNode) (fst elem) delayUsed m
           else m) }"

definition out_assign :: "dfg \<Rightarrow> top_adg \<Rightarrow> int \<Rightarrow> mapping \<Rightarrow> int \<Rightarrow> mapping option" where
  "out_assign g a targetLat m eid = do {
     e \<leftarrow> dfg_edge g eid;
     let dstNodeId = ge_dstId e;
     dstNode \<leftarrow> dfg_node g dstNodeId;
     let dstMaxLat = na_maxLat (dnattr m dstNodeId);
     let delayRequired = dstMaxLat - ea_lat (deattr m eid) - targetLat;
     dstFuNode \<leftarrow> mapped_fu a m dstNodeId;
     let delayUsed = min delayRequired (getAvailDelay dstFuNode dstNode m);
     let m1 = add_delayUsed (gn_id dstFuNode) (ge_dstPortIdx e) delayUsed m;
     Some (set_minLat dstNodeId (max (dstMaxLat - getAvailDelay dstFuNode dstNode m1) 0) m1) }"

text \<open>One node of the loop: \<open>Some None\<close> when it cannot be scheduled yet.\<close>

definition sched_node ::
    "dfg \<Rightarrow> top_adg \<Rightarrow> int \<Rightarrow> mapping \<times> int oset \<Rightarrow> (mapping \<times> int oset) option option" where
  "sched_node g a nodeId s = (case s of (m, scheduled) \<Rightarrow> do {
     dfgNode \<leftarrow> dfg_node g nodeId;
     let outs = concat (map snd (gn_outputEdges dfgNode));
     bounds \<leftarrow> out_scan g m scheduled outs (0x3fffffff, 0, False);
     (case bounds of
        None \<Rightarrow> Some None
      | Some (maxLat, minLat, updated) \<Rightarrow> do {
          let lat = na_lat (dnattr m nodeId);
          let targetLat = (if updated then max lat (min maxLat minLat) else lat);
          let m1 = (if updated then set_lat nodeId targetLat m else m);
          let maxInportLat = targetLat - dn_opLatency dfgNode;
          let m2 = set_maxLat nodeId maxInportLat m1;
          let scheduled' = os_ins scheduled nodeId;
          fuNode \<leftarrow> mapped_fu a m2 nodeId;
          m3 \<leftarrow> mfold (in_assign g fuNode dfgNode scheduled' maxInportLat) m2 (gn_inputEdges dfgNode);
          let m4 = set_minLat nodeId (max (maxInportLat - getAvailDelay fuNode dfgNode m3) 0) m3;
          m5 \<leftarrow> mfold (out_assign g a targetLat) m4 outs;
          Some (Some (m5, scheduled')) }) })"

fun sched_pass :: "dfg \<Rightarrow> top_adg \<Rightarrow> int list \<Rightarrow> mapping \<times> int oset \<Rightarrow> (int list \<times> mapping \<times> int oset) option" where
  "sched_pass g a [] s = Some ([], s)"
| "sched_pass g a (n # ns) s = do {
     r \<leftarrow> sched_node g a n s;
     (case r of
        None \<Rightarrow> do { (rest, s') \<leftarrow> sched_pass g a ns s; Some (n # rest, s') }
      | Some s' \<Rightarrow> sched_pass g a ns s') }"

text \<open>The loop until nothing is left. It does not end when a pass schedules nothing.\<close>

primrec sched_loop :: "nat \<Rightarrow> dfg \<Rightarrow> top_adg \<Rightarrow> int list \<Rightarrow> mapping \<times> int oset \<Rightarrow> mapping option" where
  "sched_loop 0 g a ns s = (if ns = [] then Some (fst s) else None)"
| "sched_loop (Suc fuel) g a ns s =
     (if ns = [] then Some (fst s)
      else do { (ns', s') \<leftarrow> sched_pass g a ns s; sched_loop fuel g a ns' s' })"

section \<open>Violations\<close>

text \<open>The state is the mapping with its list of violating edges, the sum and the maximum.\<close>

type_synonym vio_state = "mapping \<times> int \<times> int"

definition vio_edge :: "dfg \<Rightarrow> anode \<Rightarrow> dnode \<Rightarrow> int \<Rightarrow> int \<Rightarrow> vio_state \<Rightarrow> int \<times> int \<Rightarrow> vio_state option" where
  "vio_edge g fuNode node nodeId maxLat s elem = (case s of (m, sumVio, maxVio) \<Rightarrow> do {
     let port = fst elem;
     let eid = snd elem;
     let fuId = gn_id fuNode;
     e \<leftarrow> dfg_edge g eid;
     let requiredDelay = maxLat - na_lat (dnattr m (ge_srcId e)) - ea_lat (deattr m eid);
     let m1 = upd_de eid (\<lambda>a. a\<lparr>ea_delay := requiredDelay\<rparr>) m;
     let (assignedDelay, m2) =
       (case om_get (fd_delayUsed (fdattr m1 fuId)) port of
          Some d \<Rightarrow> (d, m1)
        | None \<Rightarrow>
            let d = min (getAvailDelay fuNode node m1) requiredDelay;
                m' = add_delayUsed fuId port d m1
            in (d, set_minLat nodeId (max (na_maxLat (dnattr m' nodeId) - getAvailDelay fuNode node m') 0) m'));
     (if \<not> (assignedDelay \<le> requiredDelay \<and> assignedDelay \<ge> 0) then None
      else let vio = requiredDelay - assignedDelay in
        Some (if assignedDelay < requiredDelay
              then ((upd_de eid (\<lambda>a. a\<lparr>ea_vio := vio\<rparr>) m2)\<lparr>mp_vioDfgEdges := mp_vioDfgEdges m2 @ [eid]\<rparr>,
                    sumVio + vio, max maxVio vio)
              else (upd_de eid (\<lambda>a. a\<lparr>ea_vio := 0\<rparr>) m2, sumVio, maxVio))) })"

definition vio_node :: "dfg \<Rightarrow> top_adg \<Rightarrow> vio_state \<Rightarrow> int \<Rightarrow> vio_state option" where
  "vio_node g a s nodeId = (case s of (m, sumVio, maxVio) \<Rightarrow> do {
     node \<leftarrow> dfg_node g nodeId;
     let maxLat = na_maxLat (dnattr m nodeId);
     fuNode \<leftarrow> mapped_fu a m nodeId;
     mfold (vio_edge g fuNode node nodeId maxLat) (upd_fd (gn_id fuNode) (\<lambda>f. f) m, sumVio, maxVio)
       (gn_inputEdges node) })"

definition calEdgeLatVio :: "dfg \<Rightarrow> top_adg \<Rightarrow> mapping \<Rightarrow> mapping option" where
  "calEdgeLatVio g a m = do {
     (m', sumVio, maxVio) \<leftarrow> mfold (vio_node g a) (m\<lparr>mp_vioDfgEdges := []\<rparr>, 0, 0) (df_topoNodes g);
     Some (m'\<lparr>mp_totalViolation := sumVio, mp_maxViolation := maxVio\<rparr>) }"

definition numVioEdges :: "mapping \<Rightarrow> int" where
  "numVioEdges m = int (length (mp_vioDfgEdges m))"

text \<open>\<open>latencySchedule\<close>; every step along the critical path goes to an earlier node, and one pass
  schedules everything when it can be scheduled at all.\<close>

definition latencySchedule :: "dfg \<Rightarrow> top_adg \<Rightarrow> int \<Rightarrow> mapping \<Rightarrow> mapping option" where
  "latencySchedule g a junk m = do {
     m1 \<leftarrow> calEdgeRouteLat a (m\<lparr>mp_fuDelayAttr := []\<rparr>);
     m2 \<leftarrow> latencyBound g m1;
     let top = mp_maxLatNodeId m2;
     (m3, scheduled, unscheduled) \<leftarrow>
        crit_path (Suc (length (df_topoNodes g))) g a junk top
          (m2, [top], filter (\<lambda>n. n \<noteq> top) (rev (df_topoNodes g)));
     m4 \<leftarrow> sched_loop (Suc (length unscheduled)) g a unscheduled (m3, scheduled);
     calEdgeLatVio g a m4 }"

section \<open>Inserting PASS nodes\<close>

text \<open>\<open>std::sort\<close> by falling violation is the parameter \<open>sort_vio\<close>, given the edges with their
  violations.\<close>

definition pass_node :: "op_table \<Rightarrow> int \<Rightarrow> dnode option" where
  "pass_node t i = dnode_setOperation t ''PASS'' (new_DFGNode\<lparr>gn_id := i, gn_name := ''pass'' @ int_to_string i\<rparr>)"

definition insert_pass :: "op_table \<Rightarrow> dfg \<times> int \<times> int \<Rightarrow> int \<Rightarrow> (dfg \<times> int \<times> int) option" where
  "insert_pass t s eid = (case s of (g, maxNodeId, maxEdgeId) \<Rightarrow> do {
     e \<leftarrow> dfg_edge g eid;
     g1 \<leftarrow> dfg_delEdge eid g;
     let newId = maxNodeId + 1;
     newNode \<leftarrow> pass_node t newId;
     let g2 = dfg_addNode newNode g1;
     g3 \<leftarrow> dfg_addEdge \<lparr>ge_id = maxEdgeId + 1, ge_srcPortIdx = ge_srcPortIdx e, ge_dstPortIdx = 0,
              ge_srcId = ge_srcId e, ge_dstId = newId\<rparr> g2;
     g4 \<leftarrow> dfg_addEdge \<lparr>ge_id = maxEdgeId + 2, ge_srcPortIdx = 0, ge_dstPortIdx = ge_dstPortIdx e,
              ge_srcId = newId, ge_dstId = ge_dstId e\<rparr> g3;
     Some (g4, newId, maxEdgeId + 2) })"

definition insertPassDfgNodes ::
    "((int \<times> int) list \<Rightarrow> int list) \<Rightarrow> op_table \<Rightarrow> dfg \<Rightarrow> top_adg \<Rightarrow> dfg \<Rightarrow> mapping \<Rightarrow> (bool \<times> dfg \<times> mapping) option" where
  "insertPassDfgNodes sort_vio t g a newDfg m =
     (let numOpNodes = int (length (df_nodes g)) - int (length (df_ioNodes g));
          numAvail = ag_numGpeNodes a - numOpNodes in
      if numAvail \<le> 0 then Some (False, newDfg, m)
      else do {
        g0 \<leftarrow> dfg_assign newDfg g;
        (maxNodeId, _) \<leftarrow> om_last (df_nodes g0);
        (maxEdgeId, _) \<leftarrow> om_last (df_edges g0);
        let m' = (if numAvail < int (length (mp_vioDfgEdges m))
                  then m\<lparr>mp_vioDfgEdges := sort_vio (map (\<lambda>k. (k, ea_vio (deattr m k))) (mp_vioDfgEdges m))\<rparr>
                  else m);
        (g', _, _) \<leftarrow> mfold (insert_pass t) (g0, maxNodeId, maxEdgeId)
                        (take (nat numAvail) (mp_vioDfgEdges m'));
        Some (True, g', m') })"

end
