(* ===== verification/Mapper.thy ===== *)
theory Mapper
  imports Latency
begin

text \<open>
  The part of the mapper every mapping algorithm shares (\<open>src/mapper/mapper.cpp\<close>): the distances
  between functional units (Floyd's algorithm over the interconnect), how many nodes are left
  for every operation, the order of placement, and the check before mapping.

  The member \<open>_adg\<close> never changes and is an argument. A \<open>Mapping\<close> keeps a pointer to the DFG
  it was made for, which is not always the one the mapper holds now, so a mapping object is a
  pair of that DFG and its tables. Floating-point arithmetic is the parameter \<open>fp\<close>: its rounding
  is the machine's. The clock is not modelled; where it decides something, the outcome is an
  argument.
\<close>

section \<open>Floating-point numbers\<close>

text \<open>\<open>fp_dec n d\<close> is the literal \<open>n / d\<close>, \<open>fp_trunc\<close> the conversion to \<open>int\<close>.\<close>

record 'f fp =
  fp_int :: "int \<Rightarrow> 'f"
  fp_dec :: "int \<Rightarrow> int \<Rightarrow> 'f"
  fp_add :: "'f \<Rightarrow> 'f \<Rightarrow> 'f"
  fp_sub :: "'f \<Rightarrow> 'f \<Rightarrow> 'f"
  fp_mul :: "'f \<Rightarrow> 'f \<Rightarrow> 'f"
  fp_div :: "'f \<Rightarrow> 'f \<Rightarrow> 'f"
  fp_less :: "'f \<Rightarrow> 'f \<Rightarrow> bool"
  fp_exp :: "'f \<Rightarrow> 'f"
  fp_trunc :: "'f \<Rightarrow> int"

section \<open>State\<close>

type_synonym op_left = "(string, int \<times> int) omap"
type_synonym bmap = "dfg \<times> mapping"

record mapper =
  mr_dfg :: dfg
  mr_dfgModified :: "dfg option"
  mr_isDfgModified :: bool
  mr_node2node :: "(int \<times> int, int) omap"
  mr_mapping :: bmap
  mr_placeOrder :: "int list"
  mr_adgOpCnt :: "(string, int) omap"
  mr_opLeft :: op_left

section \<open>Distances\<close>

abbreviation int_inf :: int where
  "int_inf \<equiv> 0x7fffffff"

text \<open>The continuous index of a node; \<open>operator[]\<close> gives 0 for an unknown id.\<close>

definition node_idx :: "top_adg \<Rightarrow> int \<Rightarrow> nat" where
  "node_idx a k = (let ks = map fst (ag_nodes a) in if k \<in> set ks then index_of ks k else 0)"

type_synonym matrix = "nat \<Rightarrow> nat \<Rightarrow> int"

definition mat_set :: "nat \<Rightarrow> nat \<Rightarrow> int \<Rightarrow> matrix \<Rightarrow> matrix" where
  "mat_set i j x M = M(i := (M i)(j := x))"

definition dist_input :: "top_adg \<Rightarrow> anode \<Rightarrow> nat \<Rightarrow> matrix \<Rightarrow> int \<times> (int \<times> int) \<Rightarrow> matrix option" where
  "dist_input a node idx M src = do {
     let srcId = fst (snd src);
     let srcIdx = node_idx a srcId;
     (if M srcIdx idx = int_inf
      then do {
        let srcPort = snd (snd src);
        srcNode \<leftarrow> adg_node a srcId;
        let dist = (if is_gib srcNode \<and> is_gib node \<and> gib_outReged srcNode srcPort then 2 else 1);
        Some (mat_set srcIdx idx dist M) }
      else Some M) }"

definition dist_node :: "top_adg \<Rightarrow> matrix \<Rightarrow> int \<times> anode \<Rightarrow> matrix option" where
  "dist_node a M node = do {
     let idx = node_idx a (fst node);
     mfold (dist_input a (snd node) idx) (mat_set idx idx 0 M) (gn_inputs (snd node)) }"

definition dist_init :: "top_adg \<Rightarrow> matrix option" where
  "dist_init a = mfold (dist_node a) (\<lambda>i j. int_inf) (ag_nodes a)"

definition relax :: "nat \<Rightarrow> nat \<Rightarrow> matrix \<Rightarrow> nat \<Rightarrow> matrix" where
  "relax k i M j =
     (if M i k < int_inf \<and> M k j < int_inf \<and> M i j > M i k + M k j
      then mat_set i j (M i k + M k j) M else M)"

definition floyd_row :: "nat \<Rightarrow> nat \<Rightarrow> matrix \<Rightarrow> nat \<Rightarrow> matrix" where
  "floyd_row n k M i = foldl (relax k i) M [0..<n]"

definition floyd_step :: "nat \<Rightarrow> (nat \<Rightarrow> bool) \<Rightarrow> matrix \<Rightarrow> nat \<Rightarrow> matrix" where
  "floyd_step n gib M k = (if gib k then foldl (floyd_row n k) M [0..<n] else M)"

definition floyd :: "nat \<Rightarrow> (nat \<Rightarrow> bool) \<Rightarrow> matrix \<Rightarrow> matrix" where
  "floyd n gib M = foldl (floyd_step n gib) M [0..<n]"

text \<open>\<open>adgNodeIdx2GIB\<close>.\<close>

definition idx_gib :: "top_adg \<Rightarrow> nat \<Rightarrow> bool" where
  "idx_gib a i = (i < length (ag_nodes a) \<and> is_gib (snd (ag_nodes a ! i)))"

definition node_dists :: "top_adg \<Rightarrow> matrix \<Rightarrow> (int \<times> int, int) omap \<Rightarrow> (int \<times> int, int) omap" where
  "node_dists a M t =
     foldl (\<lambda>t (ik, inode). if is_gib inode then t
       else foldl (\<lambda>t (jk, jnode).
              if is_gib jnode \<or> (gn_type inode = ''IOB'' \<and> gn_type jnode = ''IOB'') then t
              else om_put t (ik, jk) (M (node_idx a ik) (node_idx a jk))) t (ag_nodes a)) t (ag_nodes a)"

definition calAdgNodeDist :: "top_adg \<Rightarrow> 'a mapper_scheme \<Rightarrow> 'a mapper_scheme option" where
  "calAdgNodeDist a s = do {
     M \<leftarrow> dist_init a;
     Some (s\<lparr>mr_node2node := node_dists a (floyd (length (ag_nodes a)) (idx_gib a) M) (mr_node2node s)\<rparr>) }"

definition getAdgNodeDist :: "'a mapper_scheme \<Rightarrow> int \<Rightarrow> int \<Rightarrow> int" where
  "getAdgNodeDist s srcId dstId = om_at 0 (mr_node2node s) (srcId, dstId)"

section \<open>Operation counts\<close>

definition count_op :: "(string, int) omap \<Rightarrow> string \<Rightarrow> (string, int) omap" where
  "count_op t op = (if om_has t op then om_put t op (om_at 0 t op + 1) else om_put t op 1)"

text \<open>\<open>dynamic_cast<FUNode*>\<close> of a node that is not a GIB; null for anything that is no FU.\<close>

definition as_fu :: "anode \<Rightarrow> anode option" where
  "as_fu n = (if is_fu n then Some n else None)"

definition calAdgOpCnt :: "top_adg \<Rightarrow> 'a mapper_scheme \<Rightarrow> 'a mapper_scheme option" where
  "calAdgOpCnt a s = do {
     cnt \<leftarrow> mfold (\<lambda>t (k, n). if is_gib n then Some t
              else do { fu \<leftarrow> as_fu n; Some (foldl count_op t (an_operations fu)) }) (mr_adgOpCnt s) (ag_nodes a);
     Some (s\<lparr>mr_adgOpCnt := cnt\<rparr>) }"

definition calCandidatesCnt :: "top_adg \<Rightarrow> dnode \<Rightarrow> int \<Rightarrow> int option" where
  "calCandidatesCnt a dfgNode maxCandidates = do {
     cnt \<leftarrow> mfold (\<lambda>c (k, n). if is_gib n then Some c
              else do { fu \<leftarrow> as_fu n; Some (if fu_opCapable fu (dn_operation dfgNode) then c + 1 else c) })
            0 (ag_nodes a);
     Some (min cnt maxCandidates) }"

definition left_dfg :: "op_left \<Rightarrow> int \<times> dnode \<Rightarrow> op_left" where
  "left_dfg t elem = (let op = dn_operation (snd elem) in
     case om_get t op of None \<Rightarrow> om_put t op (1, 0) | Some nums \<Rightarrow> om_put t op (fst nums + 1, 0))"

definition left_adg_op :: "int \<Rightarrow> op_left \<Rightarrow> string \<Rightarrow> op_left" where
  "left_adg_op value t op =
     (case om_get t op of None \<Rightarrow> t | Some nums \<Rightarrow> om_put t op (fst nums, snd nums + value))"

definition initOpLeft :: "top_adg \<Rightarrow> dfg \<Rightarrow> op_left option" where
  "initOpLeft a g =
     mfold (\<lambda>t (k, n). if is_gib n then Some t
        else do { fu \<leftarrow> as_fu n; Some (foldl (left_adg_op 1) t (an_operations fu)) })
       (foldl left_dfg [] (df_nodes g)) (ag_nodes a)"

definition initOpLeftDfgAdgNum :: "top_adg \<Rightarrow> 'a mapper_scheme \<Rightarrow> 'a mapper_scheme option" where
  "initOpLeftDfgAdgNum a s = do { t \<leftarrow> initOpLeft a (mr_dfg s); Some (s\<lparr>mr_opLeft := t\<rparr>) }"

definition updateOpLeft :: "dnode \<Rightarrow> anode \<Rightarrow> bool \<Rightarrow> op_left \<Rightarrow> op_left option" where
  "updateOpLeft dfgNode fuNode unmap t = do {
     let op = dn_operation dfgNode;
     let value = (if unmap then 1 else -1);
     nums \<leftarrow> om_get t op;
     Some (foldl (left_adg_op value) (om_put t op (fst nums + value, snd nums)) (an_operations fuNode)) }"

definition richness_op :: "'f fp \<Rightarrow> op_left \<Rightarrow> 'f \<Rightarrow> string \<Rightarrow> 'f" where
  "richness_op F t cost op =
     (case om_get t op of
        None \<Rightarrow> cost
      | Some nums \<Rightarrow> if fst nums = 0 then cost
          else if fst nums \<ge> snd nums then fp_add F cost (fp_dec F 100 1)
          else fp_add F cost (fp_div F (fp_dec F 1 1) (fp_int F (fst nums))))"

definition reducedRichnessToUseAdgNode :: "'f fp \<Rightarrow> op_left \<Rightarrow> anode \<Rightarrow> 'f" where
  "reducedRichnessToUseAdgNode F t fuNode = foldl (richness_op F t) (fp_int F 0) (an_operations fuNode)"

section \<open>Setting up\<close>

text \<open>\<open>dfg->node(nodeId)\<close> of a missing node is null, which nothing reads here.\<close>

definition sortDfgNodeInPlaceOrder :: "'a mapper_scheme \<Rightarrow> 'a mapper_scheme" where
  "sortDfgNodeInPlaceOrder s = s\<lparr>mr_placeOrder := df_topoNodes (mr_dfg s)\<rparr>"

definition initializeAdg :: "top_adg \<Rightarrow> 'a mapper_scheme \<Rightarrow> 'a mapper_scheme option" where
  "initializeAdg a s = do { s1 \<leftarrow> calAdgNodeDist a s; calAdgOpCnt a s1 }"

definition initializeDfg :: "'a mapper_scheme \<Rightarrow> 'a mapper_scheme option" where
  "initializeDfg s = do { g \<leftarrow> dfg_topoSortNodes (mr_dfg s); Some (s\<lparr>mr_dfg := g\<rparr>) }"

definition setDfgModified :: "dfg \<Rightarrow> 'a mapper_scheme \<Rightarrow> 'a mapper_scheme" where
  "setDfgModified g s = s\<lparr>mr_dfgModified := Some g, mr_isDfgModified := True\<rparr>"

text \<open>The modified DFG is the same object as \<open>_dfg\<close>, so it is stored after the sort.\<close>

definition setDFG :: "top_adg \<Rightarrow> dfg \<Rightarrow> bool \<Rightarrow> 'a mapper_scheme \<Rightarrow> 'a mapper_scheme option" where
  "setDFG a g modify s = do {
     s1 \<leftarrow> initializeDfg (s\<lparr>mr_dfg := g\<rparr>);
     let s2 = s1\<lparr>mr_mapping := (mr_dfg s1, new_Mapping)\<rparr>;
     let s3 = (if modify then setDfgModified (mr_dfg s1) s2 else s2\<lparr>mr_isDfgModified := False\<rparr>);
     s4 \<leftarrow> initOpLeftDfgAdgNum a s3;
     Some (sortDfgNodeInPlaceOrder s4) }"

definition empty_mapper :: mapper where
  "empty_mapper = \<lparr>mr_dfg = new_DFG, mr_dfgModified = None, mr_isDfgModified = False, mr_node2node = [],
     mr_mapping = (new_DFG, new_Mapping), mr_placeOrder = [], mr_adgOpCnt = [], mr_opLeft = []\<rparr>"

text \<open>\<open>Mapper(adg, dfg)\<close>.\<close>

definition new_Mapper :: "top_adg \<Rightarrow> dfg \<Rightarrow> mapper option" where
  "new_Mapper a g = do {
     s1 \<leftarrow> initializeAdg a (empty_mapper\<lparr>mr_dfg := g\<rparr>);
     s2 \<leftarrow> initializeDfg s1;
     let s3 = s2\<lparr>mr_mapping := (mr_dfg s2, new_Mapping), mr_isDfgModified := False\<rparr>;
     s4 \<leftarrow> initOpLeftDfgAdgNum a s3;
     Some (sortDfgNodeInPlaceOrder s4) }"

text \<open>\<open>isDfgModified()\<close> tests the pointer, not the flag of the same name.\<close>

definition isDfgModified :: "'a mapper_scheme \<Rightarrow> bool" where
  "isDfgModified s = (mr_dfgModified s \<noteq> None)"

definition getMaxLat :: "'a mapper_scheme \<Rightarrow> int" where
  "getMaxLat s = mp_maxLat (snd (mr_mapping s))"

section \<open>The check before mapping\<close>

text \<open>Counts are compared as \<open>size_t\<close>, 64 bits wide: an \<open>int\<close> operand is converted first.\<close>

definition size_t :: "int \<Rightarrow> int" where
  "size_t x = x mod 2 ^ 64"

definition dfgOpCnt :: "dfg \<Rightarrow> (string, int) omap option" where
  "dfgOpCnt g = mfold (\<lambda>t (k, n). if dn_operation n = [] then None else Some (count_op t (dn_operation n))) [] (df_nodes g)"

definition preMapCheck :: "top_adg \<Rightarrow> dfg \<Rightarrow> 'a mapper_scheme \<Rightarrow> bool option" where
  "preMapCheck a g s =
     (let numIo = int (length (df_ioNodes g)); numNodes = int (length (df_nodes g)) in
      if size_t (ag_numIobNodes a) < size_t numIo then Some False
      else if size_t (ag_numGpeNodes a) < size_t (numNodes - numIo) then Some False
      else do {
        cnt \<leftarrow> dfgOpCnt g;
        Some (list_all (\<lambda>(op, n). \<not> om_at 0 (mr_adgOpCnt s) op < n) cnt) })"

end
