(* ===== verification/Routing.thy ===== *)
theory Routing
  imports MapState
begin

text \<open>
  Routing one DFG edge over the interconnect and taking the route back (the routing part of
  \<open>src/mapper/mapping.cpp\<close>): the check of one crossbar (\<open>routeDfgEdgePass\<close>), the
  breadth-first searches (\<open>routeDfgEdgeFromDst\<close>, which the mapper uses, and
  \<open>routeDfgEdgeFromSrc\<close>), the operand ports still free (\<open>availDstPorts\<close>), and
  \<open>unrouteDfgEdge\<close>.

  A result is \<open>None\<close> when an assertion fails or a null pointer is used, otherwise the flag the
  code returns together with the mapping state it leaves behind. The loops over the queue and
  along the predecessor chain run on fuel; \<open>RouteProps\<close> shows the fuel is never used up.
\<close>

section \<open>Passing through one interconnect block\<close>

definition same_source :: "gedge \<Rightarrow> gedge \<Rightarrow> bool" where
  "same_source x e \<longleftrightarrow> ge_srcId x = ge_srcId e \<and> ge_srcPortIdx x = ge_srcPortIdx e"

text \<open>The scan over the edges that already pass: \<open>None\<close> is the early \<open>return false\<close>, otherwise the
  default link and whether an edge with the same source was met.\<close>

fun pass_scan :: "edgePass list \<Rightarrow> gedge \<Rightarrow> int \<Rightarrow> int \<Rightarrow> int \<times> int \<times> bool \<Rightarrow> (int \<times> int \<times> bool) option" where
  "pass_scan [] e srcPort dstPort acc = Some acc"
| "pass_scan (l # ls) e srcPort dstPort acc =
     (let hit = (ep_srcPort l = srcPort \<or> ep_dstPort l = dstPort) in
      if hit \<and> \<not> same_source (ep_edge l) e then None
      else if hit then pass_scan ls e srcPort dstPort (ep_srcPort l, ep_dstPort l, True)
      else pass_scan ls e srcPort dstPort acc)"

definition pass_both :: "mapping \<Rightarrow> anode \<Rightarrow> int \<Rightarrow> int \<Rightarrow> int \<times> int \<times> bool \<Rightarrow> (int \<times> int) option" where
  "pass_both m gib srcPort dstPort acc =
     (case acc of (routeSrcPort, routeDstPort, hasSame) \<Rightarrow>
        if \<not> gib_isInOutConnected gib srcPort dstPort then None
        else if isAdgNodeOutPortUsed m (gn_id gib) dstPort \<and>
                (\<not> hasSame \<or> routeSrcPort \<noteq> srcPort \<or> routeDstPort \<noteq> dstPort) then None
        else if isAdgNodeInPortUsed m (gn_id gib) srcPort \<and> (\<not> hasSame \<or> routeSrcPort \<noteq> srcPort) then None
        else Some (srcPort, dstPort))"

text \<open>Auto-assigning the other port. The code compares (\<open>routeDstPort == port\<close>) where it means to
  assign, so the port it finds is not used.\<close>

definition pass_src :: "mapping \<Rightarrow> anode \<Rightarrow> int \<Rightarrow> int \<times> int \<times> bool \<Rightarrow> (int \<times> int) option" where
  "pass_src m gib srcPort acc =
     (case acc of (routeSrcPort, routeDstPort, hasSame) \<Rightarrow>
        if isAdgNodeInPortUsed m (gn_id gib) srcPort \<and> (\<not> hasSame \<or> routeSrcPort \<noteq> srcPort) then None
        else if \<not> isAdgNodeInPortUsed m (gn_id gib) srcPort then
          (if list_ex (\<lambda>port. \<not> isAdgNodeOutPortUsed m (gn_id gib) port) (gib_in2outs gib srcPort)
           then Some (srcPort, routeDstPort) else None)
        else Some (routeSrcPort, routeDstPort))"

definition pass_dst :: "mapping \<Rightarrow> anode \<Rightarrow> int \<Rightarrow> int \<times> int \<times> bool \<Rightarrow> (int \<times> int) option" where
  "pass_dst m gib dstPort acc =
     (case acc of (routeSrcPort, routeDstPort, hasSame) \<Rightarrow>
        if isAdgNodeOutPortUsed m (gn_id gib) dstPort \<and> (\<not> hasSame \<or> routeDstPort \<noteq> dstPort) then None
        else if \<not> isAdgNodeOutPortUsed m (gn_id gib) dstPort then
          (if list_ex (\<lambda>port. \<not> isAdgNodeInPortUsed m (gn_id gib) port) (gib_out2ins gib dstPort)
           then Some (routeSrcPort, dstPort) else None)
        else Some (routeSrcPort, routeDstPort))"

text \<open>Neither port given: the first unused output port with an unused input behind it.\<close>

fun pass_auto_search :: "mapping \<Rightarrow> anode \<Rightarrow> int list \<Rightarrow> int option" where
  "pass_auto_search m gib [] = None"
| "pass_auto_search m gib (outPort # ps) =
     (if \<not> isAdgNodeOutPortUsed m (gn_id gib) outPort \<and>
         list_ex (\<lambda>inPort. \<not> isAdgNodeInPortUsed m (gn_id gib) inPort) (gib_out2ins gib outPort)
      then Some outPort else pass_auto_search m gib ps)"

definition pass_none :: "mapping \<Rightarrow> anode \<Rightarrow> int \<times> int \<times> bool \<Rightarrow> (int \<times> int) option" where
  "pass_none m gib acc =
     (case acc of (routeSrcPort, routeDstPort, hasSame) \<Rightarrow>
        if hasSame then Some (routeSrcPort, routeDstPort)
        else (case pass_auto_search m gib (map fst (gn_outputs gib)) of
                None \<Rightarrow> None | Some outPort \<Rightarrow> Some (routeSrcPort, outPort)))"

text \<open>A block no edge has touched yet: the first output port with any input behind it.\<close>

definition pass_fresh :: "anode \<Rightarrow> int \<Rightarrow> (int \<times> int) option" where
  "pass_fresh gib srcPort =
     (case filter (\<lambda>p. gib_out2ins gib p \<noteq> []) (map fst (gn_outputs gib)) of
        [] \<Rightarrow> None | outPort # _ \<Rightarrow> Some (srcPort, outPort))"

text \<open>The decision of \<open>routeDfgEdgePass\<close>: \<open>None\<close> is \<open>return false\<close>, otherwise the ports it would
  route through.\<close>

definition pass_decide :: "mapping \<Rightarrow> gedge \<Rightarrow> anode \<Rightarrow> int \<Rightarrow> int \<Rightarrow> (int \<times> int) option" where
  "pass_decide m e gib srcPort dstPort =
     (case om_get (mp_adgNodeAttr m) (gn_id gib) of
        Some attr \<Rightarrow>
          (case pass_scan (aa_dfgEdgePass attr) e srcPort dstPort (srcPort, dstPort, False) of
             None \<Rightarrow> None
           | Some acc \<Rightarrow>
               if srcPort \<ge> 0 \<and> dstPort \<ge> 0 then pass_both m gib srcPort dstPort acc
               else if srcPort \<ge> 0 then pass_src m gib srcPort acc
               else if dstPort \<ge> 0 then pass_dst m gib dstPort acc
               else pass_none m gib acc)
      | None \<Rightarrow> pass_fresh gib srcPort)"

definition push_link :: "gedge \<Rightarrow> int \<Rightarrow> int \<Rightarrow> int \<Rightarrow> mapping \<Rightarrow> mapping" where
  "push_link e srcPort dstPort nodeId =
     upd_de (ge_id e) (\<lambda>a. a\<lparr>ea_edgeLinks := ea_edgeLinks a @
       [\<lparr>el_srcPort = srcPort, el_dstPort = dstPort, el_adgNode = nodeId\<rparr>]\<rparr>)"

definition push_pass :: "gedge \<Rightarrow> int \<Rightarrow> int \<Rightarrow> int \<Rightarrow> mapping \<Rightarrow> mapping" where
  "push_pass e srcPort dstPort nodeId =
     upd_an nodeId (\<lambda>a. a\<lparr>aa_dfgEdgePass := aa_dfgEdgePass a @
       [\<lparr>ep_srcPort = srcPort, ep_dstPort = dstPort, ep_edge = e\<rparr>]\<rparr>)"

definition set_inPort :: "int \<Rightarrow> int \<Rightarrow> bool \<Rightarrow> mapping \<Rightarrow> mapping" where
  "set_inPort nodeId p b = upd_an nodeId (\<lambda>a. a\<lparr>aa_inPortUsed := om_put (aa_inPortUsed a) p b\<rparr>)"

definition set_outPort :: "int \<Rightarrow> int \<Rightarrow> bool \<Rightarrow> mapping \<Rightarrow> mapping" where
  "set_outPort nodeId p b = upd_an nodeId (\<lambda>a. a\<lparr>aa_outPortUsed := om_put (aa_outPortUsed a) p b\<rparr>)"

definition routeDfgEdgePass ::
    "gedge \<Rightarrow> anode \<Rightarrow> int \<Rightarrow> int \<Rightarrow> bool \<Rightarrow> mapping \<Rightarrow> (bool \<times> mapping) option" where
  "routeDfgEdgePass e passNode srcPort dstPort isTry m =
     (if \<not> is_gib passNode then None
      else case pass_decide m e passNode srcPort dstPort of
        None \<Rightarrow> Some (False, m)
      | Some (routeSrcPort, routeDstPort) \<Rightarrow>
          if isTry then Some (True, m)
          else Some (True,
            push_pass e routeSrcPort routeDstPort (gn_id passNode)
              (set_outPort (gn_id passNode) routeDstPort True
                (set_inPort (gn_id passNode) routeSrcPort True
                  (push_link e routeSrcPort routeDstPort (gn_id passNode) m)))))"

section \<open>Breadth-first search from the destination\<close>

text \<open>
  A search entry is an ADG node with one of its output ports (\<open>-1\<close> at the destination node);
  \<open>sv_visit\<close> remembers for every entry the entry it was found from, as (node id, input port,
  output port). \<open>sv_final\<close> is set when the search succeeds and \<open>sv_same\<close> when it ends on the
  route of an edge with the same source.
\<close>

record search =
  sv_visit :: "(int \<times> int, int \<times> int \<times> int) omap"
  sv_que :: "(int \<times> int) list"
  sv_final :: "(int \<times> int) option"
  sv_same :: "gedge option"

definition sv_push :: "int \<times> int \<Rightarrow> int \<times> int \<times> int \<Rightarrow> search \<Rightarrow> search" where
  "sv_push nextId info s =
     s\<lparr>sv_que := sv_que s @ [nextId], sv_visit := om_put (sv_visit s) nextId info\<rparr>"

datatype reuse = Conflict | Reuse gedge | Unshared

text \<open>The loop over the passing edges of a node whose output port is in use.\<close>

fun out_reuse :: "edgePass list \<Rightarrow> gedge \<Rightarrow> int \<Rightarrow> reuse" where
  "out_reuse [] e port = Unshared"
| "out_reuse (l # ls) e port =
     (if ep_dstPort l = port \<and> \<not> same_source (ep_edge l) e then Conflict
      else if ep_dstPort l = port then Reuse (ep_edge l)
      else out_reuse ls e port)"

text \<open>One input port of the node in hand. Once the search has succeeded the loops break, so the
  remaining ports are skipped.\<close>

definition fromDst_port ::
    "top_adg \<Rightarrow> mapping \<Rightarrow> gedge \<Rightarrow> int option \<Rightarrow> string \<Rightarrow> anode \<Rightarrow> int \<Rightarrow> search \<Rightarrow> int \<Rightarrow> search option" where
  "fromDst_port a m e srcNode srcNodeOp adgNode outPortIdx s inPortIdx =
     (if sv_final s \<noteq> None then Some s
      else let nextId = gnode_input adgNode inPortIdx;
               nextNodeId = fst nextId; nextDstPort = snd nextId;
               info = (gn_id adgNode, inPortIdx, outPortIdx)
           in do {
             nextNode \<leftarrow> adg_node a nextNodeId;
             let ty = gn_type nextNode;
             (if srcNode = Some nextNodeId \<and> ge_srcPortIdx e = nextDstPort
              then Some (sv_push nextId info (s\<lparr>sv_final := Some nextId\<rparr>))
              else if srcNode \<noteq> None \<and> (srcNode = Some nextNodeId \<or> ty = ''GPE'' \<or> ty = ''IOB'' \<or>
                        om_has (sv_visit s) nextId)
              then Some s
              else if srcNode = None \<and> ty = ''IOB'' \<and> isIOBFree m nextNodeId \<and> fu_opCapable nextNode srcNodeOp
              then Some (sv_push nextId info (s\<lparr>sv_final := Some nextId\<rparr>))
              else if srcNode = None \<and> (ty = ''IOB'' \<or> ty = ''GPE'' \<or> om_has (sv_visit s) nextId)
              then Some s
              else if isAdgNodeOutPortUsed m nextNodeId nextDstPort
              then (case out_reuse (aa_dfgEdgePass (anattr m nextNodeId)) e nextDstPort of
                      Conflict \<Rightarrow> Some s
                    | Reuse x \<Rightarrow> Some (sv_push nextId info (s\<lparr>sv_final := Some nextId, sv_same := Some x\<rparr>))
                    | Unshared \<Rightarrow> Some (sv_push nextId info s))
              else Some (sv_push nextId info s)) })"

text \<open>The input ports to follow: the given range at the destination node, at a GIB the inputs the
  crossbar connects to the output port and a trial pass admits.\<close>

definition fromDst_ports ::
    "mapping \<Rightarrow> gedge \<Rightarrow> anode \<Rightarrow> int \<Rightarrow> int oset \<Rightarrow> int list option" where
  "fromDst_ports m e adgNode outPortIdx dstPortRange =
     (if outPortIdx = -1 then Some dstPortRange
      else if \<not> is_gib adgNode then None
      else Some (filter (\<lambda>inPortIdx. pass_decide m e adgNode inPortIdx outPortIdx \<noteq> None)
                   (gib_out2ins adgNode outPortIdx)))"

primrec fromDst_search ::
    "nat \<Rightarrow> top_adg \<Rightarrow> mapping \<Rightarrow> gedge \<Rightarrow> int option \<Rightarrow> string \<Rightarrow> int oset \<Rightarrow> search \<Rightarrow> search option" where
  "fromDst_search 0 a m e srcNode srcNodeOp dstPortRange s = None"
| "fromDst_search (Suc fuel) a m e srcNode srcNodeOp dstPortRange s =
     (case sv_que s of
        [] \<Rightarrow> Some s
      | (nodeId, outPortIdx) # que \<Rightarrow> do {
          adgNode \<leftarrow> adg_node a nodeId;
          inPortIdxs \<leftarrow> fromDst_ports m e adgNode outPortIdx dstPortRange;
          s' \<leftarrow> mfold (fromDst_port a m e srcNode srcNodeOp adgNode outPortIdx) (s\<lparr>sv_que := que\<rparr>) inPortIdxs;
          (if sv_final s' \<noteq> None then Some s'
           else fromDst_search fuel a m e srcNode srcNodeOp dstPortRange s') })"

text \<open>Every entry but the first is the driver of some input port: one step more than the number of
  input ports is enough.\<close>

definition adg_fuel :: "top_adg \<Rightarrow> nat" where
  "adg_fuel a = Suc (Suc (length (concat (map (\<lambda>(_, n). (0, 0) # map snd (gn_inputs n)) (ag_nodes a)))))"

text \<open>Walking the predecessor chain from the source end and committing the links.\<close>

primrec fromDst_trace ::
    "nat \<Rightarrow> gedge \<Rightarrow> int \<Rightarrow> (int \<times> int, int \<times> int \<times> int) omap \<Rightarrow> int \<times> int \<Rightarrow> int \<times> int \<Rightarrow> int \<Rightarrow> mapping \<Rightarrow> mapping option" where
  "fromDst_trace 0 e dstNodeId visit final routeNode srcPort m = None"
| "fromDst_trace (Suc fuel) e dstNodeId visit final routeNode srcPort m =
     (let nodeId = fst routeNode; dstPort = snd routeNode;
          m1 = push_link e srcPort dstPort nodeId m;
          (nn, np, no) = om_at (0, 0, 0) visit routeNode
      in if routeNode = final
         then fromDst_trace fuel e dstNodeId visit final (nn, no) np (set_outPort nodeId dstPort True m1)
         else if nodeId = dstNodeId then Some (set_inPort nodeId srcPort True m1)
         else fromDst_trace fuel e dstNodeId visit final (nn, no) np
                (push_pass e srcPort dstPort nodeId
                  (set_outPort nodeId dstPort True (set_inPort nodeId srcPort True m1))))"

text \<open>Reusing the front part of a route with the same source, up to the port the search ended on.\<close>

fun reuse_links :: "gedge \<Rightarrow> int \<times> int \<Rightarrow> edgeLink list \<Rightarrow> mapping \<Rightarrow> mapping" where
  "reuse_links e final [] m = m"
| "reuse_links e final (l # ls) m =
     (let m' = push_pass e (el_srcPort l) (el_dstPort l) (el_adgNode l)
                 (push_link e (el_srcPort l) (el_dstPort l) (el_adgNode l) m)
      in if el_adgNode l = fst final \<and> el_dstPort l = snd final then m' else reuse_links e final ls m')"

text \<open>Committing the route found. The edge reused must be another one: the code would otherwise append
  to the vector it iterates over.\<close>

definition fromDst_commit ::
    "nat \<Rightarrow> gedge \<Rightarrow> int \<Rightarrow> search \<Rightarrow> int \<times> int \<Rightarrow> mapping \<Rightarrow> mapping option" where
  "fromDst_commit fuel e dstNodeId s final m =
     (case sv_same s of
        None \<Rightarrow> fromDst_trace fuel e dstNodeId (sv_visit s) final final (-1) m
      | Some x \<Rightarrow>
          if ge_id x = ge_id e then None
          else (let (nn, np, no) = om_at (0, 0, 0) (sv_visit s) final
                in fromDst_trace fuel e dstNodeId (sv_visit s) final (nn, no) np
                     (reuse_links e final (ea_edgeLinks (deattr m (ge_id x))) m)))"

definition routeDfgEdgeFromDst ::
    "dfg \<Rightarrow> top_adg \<Rightarrow> gedge \<Rightarrow> int option \<Rightarrow> int \<Rightarrow> int oset \<Rightarrow> mapping \<Rightarrow> (bool \<times> mapping) option" where
  "routeDfgEdgeFromDst g a e srcNode dstNode dstPortRange m = do {
     srcDfgNode \<leftarrow> dfg_node g (ge_srcId e);
     s \<leftarrow> fromDst_search (adg_fuel a) a m e srcNode (dn_operation srcDfgNode) dstPortRange
           \<lparr>sv_visit = [], sv_que = [(dstNode, -1)], sv_final = None, sv_same = None\<rparr>;
     (case sv_final s of
        None \<Rightarrow> Some (False, m)
      | Some final \<Rightarrow> do {
          m' \<leftarrow> fromDst_commit (adg_fuel a) e dstNode s final m;
          Some (True, if srcNode = None then mapDfgNodeNoRoute (ge_srcId e) (fst final) m' else m') }) }"

section \<open>Breadth-first search from the source\<close>

text \<open>
  The mirror image, which no caller uses at present. An entry is an ADG node with one of its
  input ports (\<open>-1\<close> at the source), \<open>sv_visit\<close> remembers where it was found from as (node id,
  input port, output port); no route is reused, so \<open>sv_same\<close> stays empty.
\<close>

definition fromSrc_next ::
    "top_adg \<Rightarrow> mapping \<Rightarrow> gedge \<Rightarrow> int option \<Rightarrow> string \<Rightarrow> int oset \<Rightarrow> anode \<Rightarrow> int \<Rightarrow>
     search \<Rightarrow> int \<times> int \<times> int \<Rightarrow> search option" where
  "fromSrc_next a m e dstNode dstNodeOp dstPortRange adgNode inPortIdx s elem =
     (if sv_final s \<noteq> None then Some s
      else let outPortIdx = fst elem; nextId = snd elem; nextNodeId = fst nextId; nextSrcPort = snd nextId;
               info = (gn_id adgNode, inPortIdx, outPortIdx)
           in do {
             nextNode \<leftarrow> adg_node a nextNodeId;
             let ty = gn_type nextNode;
             Some (if dstNode = Some nextNodeId \<and> nextSrcPort \<in> set dstPortRange
              then sv_push nextId info (s\<lparr>sv_final := Some nextId\<rparr>)
              else if dstNode \<noteq> None \<and> (dstNode = Some nextNodeId \<or> ty = ''GPE'' \<or> ty = ''IOB'' \<or>
                        om_has (sv_visit s) nextId)
              then s
              else if dstNode = None \<and> ty = ''IOB'' \<and> isIOBFree m nextNodeId \<and> fu_opCapable nextNode dstNodeOp
              then sv_push nextId info (s\<lparr>sv_final := Some nextId\<rparr>)
              else if dstNode = None \<and> (ty = ''IOB'' \<or> ty = ''GPE'' \<or> om_has (sv_visit s) nextId)
              then s
              else if isAdgNodeInPortUsed m nextNodeId nextSrcPort \<and>
                      list_ex (\<lambda>l. ep_srcPort l = nextSrcPort \<and> \<not> same_source (ep_edge l) e)
                        (aa_dfgEdgePass (anattr m nextNodeId))
              then s
              else sv_push nextId info s) })"

definition fromSrc_ports :: "mapping \<Rightarrow> gedge \<Rightarrow> anode \<Rightarrow> int \<Rightarrow> int list option" where
  "fromSrc_ports m e adgNode inPortIdx =
     (if inPortIdx = -1 then Some [ge_srcPortIdx e]
      else if \<not> is_gib adgNode then None
      else Some (filter (\<lambda>outPortIdx. pass_decide m e adgNode inPortIdx outPortIdx \<noteq> None)
                   (gib_in2outs adgNode inPortIdx)))"

primrec fromSrc_search ::
    "nat \<Rightarrow> top_adg \<Rightarrow> mapping \<Rightarrow> gedge \<Rightarrow> int option \<Rightarrow> string \<Rightarrow> int oset \<Rightarrow> search \<Rightarrow> search option" where
  "fromSrc_search 0 a m e dstNode dstNodeOp dstPortRange s = None"
| "fromSrc_search (Suc fuel) a m e dstNode dstNodeOp dstPortRange s =
     (case sv_que s of
        [] \<Rightarrow> Some s
      | (nodeId, inPortIdx) # que \<Rightarrow> do {
          adgNode \<leftarrow> adg_node a nodeId;
          outPortIdxs \<leftarrow> fromSrc_ports m e adgNode inPortIdx;
          s' \<leftarrow> mfold (fromSrc_next a m e dstNode dstNodeOp dstPortRange adgNode inPortIdx) (s\<lparr>sv_que := que\<rparr>)
                 (concat (map (\<lambda>p. map (\<lambda>d. (p, d)) (gnode_output adgNode p)) outPortIdxs));
          (if sv_final s' \<noteq> None then Some s'
           else fromSrc_search fuel a m e dstNode dstNodeOp dstPortRange s') })"

primrec fromSrc_trace ::
    "nat \<Rightarrow> gedge \<Rightarrow> int \<Rightarrow> (int \<times> int, int \<times> int \<times> int) omap \<Rightarrow> int \<times> int \<Rightarrow> int \<times> int \<Rightarrow> int \<Rightarrow> mapping \<Rightarrow> mapping option" where
  "fromSrc_trace 0 e srcNodeId visit final routeNode dstPort m = None"
| "fromSrc_trace (Suc fuel) e srcNodeId visit final routeNode dstPort m =
     (let nodeId = fst routeNode; srcPort = snd routeNode;
          m1 = push_link e srcPort dstPort nodeId m;
          (pn, pin, pout) = om_at (0, 0, 0) visit routeNode
      in if routeNode = final
         then fromSrc_trace fuel e srcNodeId visit final (pn, pin) pout (set_inPort nodeId srcPort True m1)
         else if nodeId = srcNodeId then Some (set_outPort nodeId dstPort True m1)
         else fromSrc_trace fuel e srcNodeId visit final (pn, pin) pout
                (push_pass e srcPort dstPort nodeId
                  (set_inPort nodeId srcPort True (set_outPort nodeId dstPort True m1))))"

text \<open>Every entry but the first is the target of some output port.\<close>

definition adg_out_fuel :: "top_adg \<Rightarrow> nat" where
  "adg_out_fuel a = Suc (Suc (length (concat (map (\<lambda>(_, n). concat (map snd (gn_outputs n))) (ag_nodes a)))))"

definition routeDfgEdgeFromSrc ::
    "dfg \<Rightarrow> top_adg \<Rightarrow> gedge \<Rightarrow> int \<Rightarrow> int option \<Rightarrow> int oset \<Rightarrow> mapping \<Rightarrow> (bool \<times> mapping) option" where
  "routeDfgEdgeFromSrc g a e srcNode dstNode dstPortRange m = do {
     dstDfgNode \<leftarrow> dfg_node g (ge_dstId e);
     s \<leftarrow> fromSrc_search (adg_out_fuel a) a m e dstNode (dn_operation dstDfgNode) dstPortRange
           \<lparr>sv_visit = [], sv_que = [(srcNode, -1)], sv_final = None, sv_same = None\<rparr>;
     (case sv_final s of
        None \<Rightarrow> Some (False, m)
      | Some final \<Rightarrow> do {
          m' \<leftarrow> fromSrc_trace (adg_out_fuel a) e srcNode (sv_visit s) final final (-1) m;
          let m'' = upd_de (ge_id e) (\<lambda>at. at\<lparr>ea_edgeLinks := rev (ea_edgeLinks at)\<rparr>) m';
          Some (True, if dstNode = None then mapDfgNodeNoRoute (ge_dstId e) (fst final) m'' else m'') }) }"

section \<open>Free operand ports and the routing entry point\<close>

text \<open>The ports of the operands none of whose ports is in use. \<open>dynamic_cast<FUNode*>\<close> fails on a
  node that is no functional unit.\<close>

definition operand_free :: "mapping \<Rightarrow> int \<Rightarrow> int oset \<Rightarrow> bool" where
  "operand_free m nodeId inPorts = (\<not> list_ex (\<lambda>inPort. isAdgNodeInPortUsed m nodeId inPort) inPorts)"

definition availDstPorts :: "dfg \<Rightarrow> top_adg \<Rightarrow> gedge \<Rightarrow> int \<Rightarrow> mapping \<Rightarrow> int oset option" where
  "availDstPorts g a e dstNode m = do {
     dstDfgNode \<leftarrow> dfg_node g (ge_dstId e);
     let opIdxs = (if dn_commutative dstDfgNode then map int [0..<nat (dnode_numInputs dstDfgNode)]
                   else [ge_dstPortIdx e]);
     mfold (\<lambda>dstPortRange opIdx. do {
        dstFuNode \<leftarrow> adg_node a dstNode;
        (if \<not> is_fu dstFuNode then None
         else do {
           inPorts \<leftarrow> fu_operandInputs dstFuNode opIdx;
           Some (if operand_free m dstNode inPorts then foldl os_ins dstPortRange inPorts
                 else dstPortRange) }) }) [] opIdxs }"

definition routeDfgEdge ::
    "dfg \<Rightarrow> top_adg \<Rightarrow> gedge \<Rightarrow> int \<Rightarrow> int \<Rightarrow> mapping \<Rightarrow> (bool \<times> mapping) option" where
  "routeDfgEdge g a e srcNode dstNode m = do {
     dstPortRange \<leftarrow> availDstPorts g a e dstNode m;
     (if dstPortRange = [] then Some (False, m)
      else routeDfgEdgeFromDst g a e (Some srcNode) dstNode dstPortRange m) }"

section \<open>Unrouting\<close>

text \<open>Taking the edge out of the pass list of one link's node and freeing the ports no remaining edge
  uses; a node whose attributes are gone is skipped.\<close>

definition unroute_link :: "gedge \<Rightarrow> mapping \<Rightarrow> edgeLink \<Rightarrow> mapping" where
  "unroute_link e m l =
     (case om_get (mp_adgNodeAttr m) (el_adgNode l) of
        None \<Rightarrow> m
      | Some nodeAttr \<Rightarrow>
          (let nodeEdges = filter (\<lambda>x. ep_edge x \<noteq> e) (aa_dfgEdgePass nodeAttr);
               setInPortUnused = (el_srcPort l \<noteq> -1 \<and> \<not> list_ex (\<lambda>x. ep_srcPort x = el_srcPort l) nodeEdges);
               setOutPortUnused = (el_dstPort l \<noteq> -1 \<and> \<not> list_ex (\<lambda>x. ep_dstPort x = el_dstPort l) nodeEdges);
               a1 = nodeAttr\<lparr>aa_dfgEdgePass := nodeEdges\<rparr>;
               a2 = (if setInPortUnused
                     then a1\<lparr>aa_inPortUsed := om_put (aa_inPortUsed a1) (el_srcPort l) False\<rparr> else a1);
               a3 = (if setOutPortUnused
                     then a2\<lparr>aa_outPortUsed := om_put (aa_outPortUsed a2) (el_dstPort l) False\<rparr> else a2)
           in m\<lparr>mp_adgNodeAttr := om_put (mp_adgNodeAttr m) (el_adgNode l) a3\<rparr>))"

definition unrouteDfgEdge :: "gedge \<Rightarrow> mapping \<Rightarrow> mapping" where
  "unrouteDfgEdge e m =
     (case om_get (mp_dfgEdgeAttr m) (ge_id e) of
        None \<Rightarrow> m
      | Some edgeAttr \<Rightarrow>
          (let m1 = foldl (unroute_link e) m (ea_edgeLinks edgeAttr)
           in m1\<lparr>mp_dfgEdgeAttr := om_del (mp_dfgEdgeAttr m1) (ge_id e)\<rparr>))"

section \<open>Placing a node with its routes\<close>

text \<open>Routing the edges of a node whose other end is placed. The state is the mapping, the edges
  routed so far and whether everything succeeded; after a failure the loops break.\<close>

type_synonym route_state = "mapping \<times> gedge list \<times> bool"

definition map_inEdge ::
    "dfg \<Rightarrow> top_adg \<Rightarrow> int \<Rightarrow> route_state \<Rightarrow> int \<Rightarrow> route_state option" where
  "map_inEdge g a target s eid =
     (case s of (m, routed, succeed) \<Rightarrow>
        if \<not> succeed then Some s
        else do {
          e \<leftarrow> dfg_edge g eid;
          inNode \<leftarrow> dfg_node g (ge_srcId e);
          (case mappedAdg m (gn_id inNode) of
             None \<Rightarrow> Some s
           | Some adgNode \<Rightarrow> do {
               (ok, m') \<leftarrow> routeDfgEdge g a e adgNode target m;
               Some (m', if ok then routed @ [e] else routed, ok) }) })"

definition map_outEdge ::
    "dfg \<Rightarrow> top_adg \<Rightarrow> int \<Rightarrow> route_state \<Rightarrow> int \<Rightarrow> route_state option" where
  "map_outEdge g a target s eid =
     (case s of (m, routed, succeed) \<Rightarrow>
        if \<not> succeed then Some s
        else do {
          e \<leftarrow> dfg_edge g eid;
          outNode \<leftarrow> dfg_node g (ge_dstId e);
          (case mappedAdg m (gn_id outNode) of
             None \<Rightarrow> Some s
           | Some adgNode \<Rightarrow> do {
               (ok, m') \<leftarrow> routeDfgEdge g a e target adgNode m;
               Some (m', if ok then routed @ [e] else routed, ok) }) })"

definition mapDfgNode :: "dfg \<Rightarrow> top_adg \<Rightarrow> int \<Rightarrow> int \<Rightarrow> mapping \<Rightarrow> (bool \<times> mapping) option" where
  "mapDfgNode g a dfgNodeId target m = do {
     dfgNode \<leftarrow> dfg_node g dfgNodeId;
     s1 \<leftarrow> mfold (map_inEdge g a target) (m, [], True) (map snd (gn_inputEdges dfgNode));
     (m2, routed, succeed) \<leftarrow>
        mfold (map_outEdge g a target) s1 (concat (map snd (gn_outputEdges dfgNode)));
     Some (if \<not> succeed then (False, foldl (\<lambda>m re. unrouteDfgEdge re m) m2 routed)
           else (True, mapDfgNodeNoRoute dfgNodeId target m2)) }"

definition unmapDfgNode :: "dfg \<Rightarrow> int \<Rightarrow> mapping \<Rightarrow> mapping option" where
  "unmapDfgNode g dfgNodeId m = do {
     dfgNode \<leftarrow> dfg_node g dfgNodeId;
     m1 \<leftarrow> mfold (\<lambda>m eid. do { e \<leftarrow> dfg_edge g eid; Some (unrouteDfgEdge e m) }) m
            (map snd (gn_inputEdges dfgNode));
     m2 \<leftarrow> mfold (\<lambda>m eid. do { e \<leftarrow> dfg_edge g eid; Some (unrouteDfgEdge e m) }) m1
            (concat (map snd (gn_outputEdges dfgNode)));
     Some (unmapDfgNodeNoUnroute dfgNodeId m2) }"

end
