(* ===== verification/MapperSa.thy ===== *)
theory MapperSa
  imports Mapper Routing
begin

text \<open>
  The simulated-annealing mapper (\<open>src/mapper/mapper_sa.cpp\<close>): placement and routing of the
  nodes that are left, the loop \<open>pnrSync\<close> that repeats it with data synchronisation until no
  latency violation is left, restarts and inserts PASS nodes, and the objective optimisation
  around it.

  What the environment decides is a field of \<open>sa_env\<close>, read with a counter that every use
  advances: the values of \<open>rand()\<close> (also after \<open>srand\<close>), whether the timeout has passed, the
  result of \<open>std::random_shuffle\<close>, and the order \<open>std::sort\<close> leaves equivalent elements in. Log
  output is left out.
\<close>

record 'f sa_env =
  en_fp :: "'f fp"
  en_rand :: "nat \<Rightarrow> int"
  en_late :: "nat \<Rightarrow> bool"
  en_junk :: "nat \<Rightarrow> int"
  en_shuffle :: "nat \<Rightarrow> anode list \<Rightarrow> anode list"
  en_sort :: "(nat \<Rightarrow> nat \<Rightarrow> bool) \<Rightarrow> nat list \<Rightarrow> nat list"
  en_sort_vio :: "(int \<times> int) list \<Rightarrow> int list"
  en_ops :: op_table

record mapperSA = mapper +
  sa_maxIters :: int
  sa_objOpt :: bool
  sa_dfgLat :: int
  sa_mappedAdgNodeNum :: int
  sa_ioDeps :: int
  sa_tick :: nat

definition MAX_TEMP :: int where
  "MAX_TEMP = 10000"

section \<open>Candidates\<close>

definition getAdgNode2IODist :: "top_adg \<Rightarrow> 'a mapper_scheme \<Rightarrow> mapping \<Rightarrow> int \<Rightarrow> int" where
  "getAdgNode2IODist a s m k =
     foldl (\<lambda>minDist (jk, jnode). if gn_type jnode = ''IOB'' \<and> isIOBFree m jk
              then min minDist (getAdgNodeDist s jk k) else minDist) int_inf (ag_nodes a)"

text \<open>The placed producers of the node; \<open>mappedNode\<close> of a null node is a null dereference.\<close>

definition src_ids :: "dfg \<Rightarrow> mapping \<Rightarrow> dnode \<Rightarrow> int list option" where
  "src_ids g m dfgNode =
     mfold (\<lambda>ids (port, (inNodeId, q)). do {
        inNode \<leftarrow> dfg_node g inNodeId;
        Some (case mappedAdg m (gn_id inNode) of None \<Rightarrow> ids | Some k \<Rightarrow> ids @ [k]) }) [] (gn_inputs dfgNode)"

definition dst_ids :: "dfg \<Rightarrow> mapping \<Rightarrow> dnode \<Rightarrow> int list option" where
  "dst_ids g m dfgNode =
     mfold (\<lambda>ids (outNodeId, q). do {
        outNode \<leftarrow> dfg_node g outNodeId;
        Some (case mappedAdg m (gn_id outNode) of None \<Rightarrow> ids | Some k \<Rightarrow> ids @ [k]) })
       [] (concat (map snd (gn_outputs dfgNode)))"

definition sum_dist :: "'a mapper_scheme \<Rightarrow> int list \<Rightarrow> int list \<Rightarrow> int \<Rightarrow> int" where
  "sum_dist s srcs dsts cdtId =
     (\<Sum>k \<leftarrow> srcs. getAdgNodeDist s k cdtId) + (\<Sum>k \<leftarrow> dsts. getAdgNodeDist s cdtId k)"

text \<open>Groups of four, each sorted again.\<close>

fun sort_groups :: "(nat list \<Rightarrow> nat list) \<Rightarrow> nat list \<Rightarrow> nat list" where
  "sort_groups srt [] = []"
| "sort_groups srt (x # xs) = srt (take 4 (x # xs)) @ sort_groups srt (drop 3 xs)"

definition sortCandidates ::
    "'f sa_env \<Rightarrow> dfg \<Rightarrow> 'a mapper_scheme \<Rightarrow> mapping \<Rightarrow> dnode \<Rightarrow> anode list \<Rightarrow> nat list option" where
  "sortCandidates E g s m dfgNode candidates = do {
     srcs \<leftarrow> src_ids g m dfgNode;
     dsts \<leftarrow> dst_ids g m dfgNode;
     let sumDist = map (\<lambda>c. sum_dist s srcs dsts (gn_id c)) candidates;
     let reduced = map (reducedRichnessToUseAdgNode (en_fp E) (mr_opLeft s)) candidates;
     let sortedIdx = en_sort E (\<lambda>x y. sumDist ! x < sumDist ! y) [0..<length candidates];
     Some (sort_groups (en_sort E (\<lambda>x y. fp_less (en_fp E) (reduced ! x) (reduced ! y))) sortedIdx) }"

definition cand_ok :: "dnode \<Rightarrow> mapping \<Rightarrow> anode \<Rightarrow> bool" where
  "cand_ok dfgNode m fu = (fu_opCapable fu (dn_operation dfgNode) \<and> \<not> isMappedAdg m (gn_id fu))"

definition all_candidates :: "top_adg \<Rightarrow> mapping \<Rightarrow> dnode \<Rightarrow> anode list option" where
  "all_candidates a m dfgNode =
     mfold (\<lambda>cs (k, n). if is_gib n then Some cs
        else do { fu \<leftarrow> as_fu n; Some (if cand_ok dfgNode m fu then cs @ [fu] else cs) }) [] (ag_nodes a)"

definition findCandidates ::
    "'f sa_env \<Rightarrow> top_adg \<Rightarrow> dfg \<Rightarrow> mapperSA \<Rightarrow> mapping \<Rightarrow> dnode \<Rightarrow> nat \<Rightarrow> nat \<Rightarrow> (anode list \<times> mapperSA) option" where
  "findCandidates E a g s m dfgNode rng maxCandidates = do {
     cs \<leftarrow> all_candidates a m dfgNode;
     let shuffled = en_shuffle E (sa_tick s) cs;
     let s' = s\<lparr>sa_tick := Suc (sa_tick s)\<rparr>;
     let num = min (length shuffled) rng;
     let candidates = take num shuffled;
     sortedIdx \<leftarrow> sortCandidates E g s' m dfgNode candidates;
     let cdtNum = min num maxCandidates;
     Some (map (\<lambda>i. candidates ! (sortedIdx ! i)) [0..<cdtNum], s') }"

section \<open>Placement and routing\<close>

text \<open>The index of the candidate that worked, or -1.\<close>

fun try_from ::
    "top_adg \<Rightarrow> dfg \<Rightarrow> dnode \<Rightarrow> int \<Rightarrow> anode list \<Rightarrow> mapperSA \<times> mapping \<Rightarrow> (int \<times> mapperSA \<times> mapping) option" where
  "try_from a g dfgNode i [] (s, m) = Some (-1, s, m)"
| "try_from a g dfgNode i (c # cs) (s, m) = do {
     (ok, m') \<leftarrow> mapDfgNode g a (gn_id dfgNode) (gn_id c) m;
     (if ok then do {
        left \<leftarrow> updateOpLeft dfgNode c False (mr_opLeft s);
        Some (i, s\<lparr>mr_opLeft := left\<rparr>, m') }
      else try_from a g dfgNode (i + 1) cs (s, m')) }"

definition tryCandidates ::
    "top_adg \<Rightarrow> dfg \<Rightarrow> dnode \<Rightarrow> anode list \<Rightarrow> mapperSA \<times> mapping \<Rightarrow> (int \<times> mapperSA \<times> mapping) option" where
  "tryCandidates a g dfgNode candidates sm = try_from a g dfgNode 0 candidates sm"

fun incr_from ::
    "'f sa_env \<Rightarrow> top_adg \<Rightarrow> dfg \<Rightarrow> int list \<Rightarrow> mapperSA \<times> mapping \<Rightarrow> (bool \<times> mapperSA \<times> mapping) option" where
  "incr_from E a g [] sm = Some (True, sm)"
| "incr_from E a g (n # ns) (s, m) = do {
     dfgNode \<leftarrow> dfg_node g n;
     (if isMappedDfg m (gn_id dfgNode) then incr_from E a g ns (s, m)
      else do {
        (cs, s1) \<leftarrow> findCandidates E a g s m dfgNode 30 10;
        (if cs = [] then Some (False, s1, m)
         else do {
           (i, s2, m2) \<leftarrow> tryCandidates a g dfgNode cs (s1, m);
           (if i = -1 then Some (False, s2, m2) else incr_from E a g ns (s2, m2)) }) }) }"

definition incrPnR ::
    "'f sa_env \<Rightarrow> top_adg \<Rightarrow> dfg \<Rightarrow> mapperSA \<times> mapping \<Rightarrow> (bool \<times> mapperSA \<times> mapping) option" where
  "incrPnR E a g sm = incr_from E a g (mr_placeOrder (fst sm)) sm"

definition unmap_one ::
    "'f sa_env \<Rightarrow> top_adg \<Rightarrow> dfg \<Rightarrow> int \<Rightarrow> mapperSA \<times> mapping \<Rightarrow> int \<times> dnode \<Rightarrow> (mapperSA \<times> mapping) option" where
  "unmap_one E a g temp sm elem = (case sm of (s, m) \<Rightarrow>
     let node = snd elem;
         r = en_rand E (sa_tick s);
         s1 = s\<lparr>sa_tick := Suc (sa_tick s)\<rparr> in
     if r mod MAX_TEMP < temp \<and> isMappedDfg m (gn_id node)
     then do {
       fuNode \<leftarrow> mapped_fu a m (gn_id node);
       left \<leftarrow> updateOpLeft node fuNode True (mr_opLeft s1);
       m' \<leftarrow> unmapDfgNode g (gn_id node) m;
       Some (s1\<lparr>mr_opLeft := left\<rparr>, m') }
     else Some (s1, m))"

definition unmapSA ::
    "'f sa_env \<Rightarrow> top_adg \<Rightarrow> dfg \<Rightarrow> int \<Rightarrow> mapperSA \<times> mapping \<Rightarrow> (mapperSA \<times> mapping) option" where
  "unmapSA E a g temp sm = mfold (unmap_one E a g temp) sm (df_nodes g)"

section \<open>Acceptance\<close>

definition metropolis :: "'f sa_env \<Rightarrow> 'f \<Rightarrow> 'f \<Rightarrow> mapperSA \<Rightarrow> bool \<times> mapperSA" where
  "metropolis E diff temp s = (let F = en_fp E in
     if fp_less F diff (fp_int F 0) then (True, s)
     else let val = fp_div F (fp_int F (en_rand E (sa_tick s))) (fp_int F 0x7fffffff)
          in (fp_less F val (fp_exp F (fp_div F (fp_sub F (fp_int F 0) diff) temp)), s\<lparr>sa_tick := Suc (sa_tick s)\<rparr>))"

definition annealFunc :: "'f sa_env \<Rightarrow> int \<Rightarrow> int" where
  "annealFunc E temp = (let F = en_fp E in fp_trunc F (fp_mul F (fp_dec F 9 10) (fp_int F temp)))"

section \<open>Placement, routing and synchronisation\<close>

text \<open>The local variables of \<open>pnrSync\<close>.\<close>

record sync =
  sy_cur :: bmap
  sy_last :: bmap
  sy_lastImprv :: int
  sy_restart :: int
  sy_temp :: int
  sy_oldVio :: int
  sy_minVio :: int
  sy_update :: bool
  sy_succeed :: int

definition sy_restarted :: "int \<Rightarrow> int \<Rightarrow> sync \<Rightarrow> sync" where
  "sy_restarted initTemp iter y = y\<lparr>sy_lastImprv := iter, sy_temp := initTemp, sy_oldVio := int_inf,
     sy_minVio := int_inf, sy_update := False\<rparr>"

text \<open>After a violating mapping: accept it or go back to the last accepted one.\<close>

definition sync_judge :: "'f sa_env \<Rightarrow> int \<Rightarrow> int \<Rightarrow> mapperSA \<times> sync \<Rightarrow> mapperSA \<times> sync" where
  "sync_judge E iter newVio sy = (case sy of (s, y) \<Rightarrow>
     let F = en_fp E;
         (acc, s1) = metropolis E (fp_int F (newVio - sy_oldVio y)) (fp_int F (sy_temp y)) s in
     if acc then
       let (s2, y2) = (if newVio < sy_minVio y
             then (s1\<lparr>mr_mapping := sy_cur y\<rparr>,
                   y\<lparr>sy_minVio := newVio, sy_lastImprv := iter, sy_temp := annealFunc E (sy_temp y), sy_update := True\<rparr>)
             else (s1, y))
       in (s2, y2\<lparr>sy_last := sy_cur y2, sy_oldVio := newVio\<rparr>)
     else (s1, y\<lparr>sy_cur := sy_last y\<rparr>))"

text \<open>No improvement for long: restart, give up, or put PASS nodes into the DFG.\<close>

definition sync_stuck ::
    "'f sa_env \<Rightarrow> top_adg \<Rightarrow> int \<Rightarrow> int \<Rightarrow> bool \<Rightarrow> int \<Rightarrow> mapperSA \<times> sync \<Rightarrow> (flow \<times> mapperSA \<times> sync) option" where
  "sync_stuck E a restartIters initTemp modifyDfg iter sy = (case sy of (s, y) \<Rightarrow>
     if sy_restart y < restartIters then
       let c = (fst (sy_cur y), map_reset (snd (sy_cur y))) in
       Some (Cont, s, sy_restarted initTemp iter (y\<lparr>sy_restart := sy_restart y + 1, sy_cur := c, sy_last := c\<rparr>))
     else
       let y0 = y\<lparr>sy_restart := 0\<rparr> in
       if \<not> modifyDfg then Some (Brk, s, y0)
       else do {
         let (g, m) = (if sy_update y0 then mr_mapping s else sy_last y0);
         (inserted, newDfg, m') \<leftarrow> insertPassDfgNodes (en_sort_vio E) (en_ops E) g a new_DFG m;
         let (s1, y1) = (if sy_update y0 then (s\<lparr>mr_mapping := (g, m')\<rparr>, y0) else (s, y0\<lparr>sy_last := (g, m')\<rparr>));
         (if \<not> inserted then Some (Brk, s1, y1\<lparr>sy_succeed := -1\<rparr>)
          else do {
            s2 \<leftarrow> setDFG a newDfg True s1;
            let c = (mr_dfg s2, new_Mapping);
            Some (Cont, s2, sy_restarted initTemp iter (y1\<lparr>sy_cur := c, sy_last := c\<rparr>)) }) })"

definition sync_iter ::
    "'f sa_env \<Rightarrow> top_adg \<Rightarrow> int \<Rightarrow> int \<Rightarrow> int \<Rightarrow> bool \<Rightarrow> int \<Rightarrow> mapperSA \<times> sync \<Rightarrow>
     (flow \<times> mapperSA \<times> sync) option" where
  "sync_iter E a maxItersNoImprv restartIters initTemp modifyDfg iter sy = (case sy of (s0, y) \<Rightarrow>
     let s = s0\<lparr>sa_tick := Suc (sa_tick s0)\<rparr> in
     if en_late E (sa_tick s0) then Some (Brk, s, y)
     else do {
       let g = fst (sy_cur y);
       (s1, m1) \<leftarrow> unmapSA E a g (sy_temp y) (s, snd (sy_cur y));
       (ok, s2, m2) \<leftarrow> incrPnR E a g (s1, m1);
       (if \<not> ok then Some (Cont, s2, y\<lparr>sy_cur := (g, m2)\<rparr>)
        else do {
          m3 \<leftarrow> latencySchedule g a (en_junk E (sa_tick s2)) m2;
          let y3 = y\<lparr>sy_cur := (g, m3)\<rparr>;
          let newVio = mp_totalViolation m3 * numVioEdges m3;
          (if newVio = 0
           then Some (Brk, s2\<lparr>mr_mapping := (g, m3)\<rparr>, y3\<lparr>sy_succeed := 1\<rparr>)
           else
             let (s4, y4) = sync_judge E iter newVio (s2, y3) in
             if iter - sy_lastImprv y4 > maxItersNoImprv
             then sync_stuck E a restartIters initTemp modifyDfg iter (s4, y4)
             else Some (Cont, s4, y4)) }) })"

definition iters :: "int \<Rightarrow> int list" where
  "iters n = map int [0..<nat n]"

definition pnrSync ::
    "'f sa_env \<Rightarrow> top_adg \<Rightarrow> int \<Rightarrow> int \<Rightarrow> int \<Rightarrow> bool \<Rightarrow> mapperSA \<Rightarrow> (int \<times> mapperSA) option" where
  "pnrSync E a maxIters restartIters temp modifyDfg s = do {
     let g = fst (mr_mapping s);
     let c = (g, new_Mapping);
     let maxItersNoImprv = 30 + int (length (df_nodes g)) div 5;
     (s', y) \<leftarrow> for_break (sync_iter E a maxItersNoImprv restartIters temp modifyDfg) (iters maxIters)
        (s, \<lparr>sy_cur = c, sy_last = c, sy_lastImprv = 0, sy_restart = 0, sy_temp = temp, sy_oldVio = int_inf,
             sy_minVio = int_inf, sy_update = False, sy_succeed = 0\<rparr>);
     Some (sy_succeed y, s') }"

end
