(* ===== verification/RouteViews.thy ===== *)
theory RouteViews
  imports Routing
begin

text \<open>
  What the primitive updates of the router change, seen through five views of a mapping: the
  links of an edge, the edges passing a node, the used input and output ports of a node, and
  the placement. The commit of a route and its removal are folds of these updates, so their
  effect on the views is a list lemma each.
\<close>

abbreviation links :: "mapping \<Rightarrow> int \<Rightarrow> edgeLink list" where
  "links m k \<equiv> ea_edgeLinks (deattr m k)"

abbreviation passes :: "mapping \<Rightarrow> int \<Rightarrow> edgePass list" where
  "passes m n \<equiv> aa_dfgEdgePass (anattr m n)"

abbreviation inUsed :: "mapping \<Rightarrow> int \<Rightarrow> int \<Rightarrow> bool" where
  "inUsed \<equiv> isAdgNodeInPortUsed"

abbreviation outUsed :: "mapping \<Rightarrow> int \<Rightarrow> int \<Rightarrow> bool" where
  "outUsed \<equiv> isAdgNodeOutPortUsed"

lemma inUsed_attr: "inUsed m n p = om_at False (aa_inPortUsed (anattr m n)) p"
  by (simp add: isAdgNodeInPortUsed_def om_at_def no_adg_def split: option.splits)

lemma outUsed_attr: "outUsed m n p = om_at False (aa_outPortUsed (anattr m n)) p"
  by (simp add: isAdgNodeOutPortUsed_def om_at_def no_adg_def split: option.splits)

lemmas views = inUsed_attr outUsed_attr mappedAdg_attr mappedDfg_attr

lemma upd_dn_views [simp]:
  "mp_dfgEdgeAttr (upd_dn n f m) = mp_dfgEdgeAttr m"
  "mp_adgNodeAttr (upd_dn n f m) = mp_adgNodeAttr m"
  "dnattr (upd_dn n f m) k = (if k = n then f (dnattr m n) else dnattr m k)"
  "mp_numNodeMapped (upd_dn n f m) = mp_numNodeMapped m"
  by (simp_all add: upd_dn_def)

lemma upd_de_views [simp]:
  "mp_dfgNodeAttr (upd_de n f m) = mp_dfgNodeAttr m"
  "mp_adgNodeAttr (upd_de n f m) = mp_adgNodeAttr m"
  "deattr (upd_de n f m) k = (if k = n then f (deattr m n) else deattr m k)"
  "mp_numNodeMapped (upd_de n f m) = mp_numNodeMapped m"
  by (simp_all add: upd_de_def)

lemma upd_an_views [simp]:
  "mp_dfgNodeAttr (upd_an n f m) = mp_dfgNodeAttr m"
  "mp_dfgEdgeAttr (upd_an n f m) = mp_dfgEdgeAttr m"
  "anattr (upd_an n f m) k = (if k = n then f (anattr m n) else anattr m k)"
  "mp_numNodeMapped (upd_an n f m) = mp_numNodeMapped m"
  by (simp_all add: upd_an_def)

abbreviation mk_link :: "int \<Rightarrow> int \<Rightarrow> int \<Rightarrow> edgeLink" where
  "mk_link s d n \<equiv> \<lparr>el_srcPort = s, el_dstPort = d, el_adgNode = n\<rparr>"

abbreviation mk_pass :: "gedge \<Rightarrow> edgeLink \<Rightarrow> edgePass" where
  "mk_pass e l \<equiv> \<lparr>ep_srcPort = el_srcPort l, ep_dstPort = el_dstPort l, ep_edge = e\<rparr>"

text \<open>The placement part of a mapping, which routing never touches.\<close>

definition same_place :: "mapping \<Rightarrow> mapping \<Rightarrow> bool" where
  "same_place m m' \<longleftrightarrow> mappedAdg m' = mappedAdg m \<and> mappedDfg m' = mappedDfg m \<and>
     mp_numNodeMapped m' = mp_numNodeMapped m"

lemma same_place_refl [simp]: "same_place m m"
  by (simp add: same_place_def)

lemma same_place_trans: "same_place m m' \<Longrightarrow> same_place m' m'' \<Longrightarrow> same_place m m''"
  by (simp add: same_place_def)

lemma same_place_inv: "same_place m m' \<Longrightarrow> place_inv m \<Longrightarrow> place_inv m'"
  by (simp add: same_place_def place_inv_def placed_def)

lemma push_link_views [simp]:
  "links (push_link e s d n m) k = (if k = ge_id e then links m k @ [mk_link s d n] else links m k)"
  "passes (push_link e s d n m) j = passes m j"
  "inUsed (push_link e s d n m) = inUsed m" "outUsed (push_link e s d n m) = outUsed m"
  "same_place m (push_link e s d n m)"
  by (auto simp: push_link_def views same_place_def fun_eq_iff)

lemma push_pass_views [simp]:
  "links (push_pass e s d n m) k = links m k"
  "passes (push_pass e s d n m) j = (if j = n then passes m j @ [\<lparr>ep_srcPort = s, ep_dstPort = d, ep_edge = e\<rparr>] else passes m j)"
  "inUsed (push_pass e s d n m) = inUsed m" "outUsed (push_pass e s d n m) = outUsed m"
  "same_place m (push_pass e s d n m)"
  by (auto simp: push_pass_def views same_place_def fun_eq_iff)

lemma set_inPort_views [simp]:
  "links (set_inPort n p b m) k = links m k" "passes (set_inPort n p b m) j = passes m j"
  "inUsed (set_inPort n p b m) = (inUsed m)(n := (inUsed m n)(p := b))"
  "outUsed (set_inPort n p b m) = outUsed m"
  "same_place m (set_inPort n p b m)"
  by (auto simp: set_inPort_def views same_place_def fun_eq_iff)

lemma set_outPort_views [simp]:
  "links (set_outPort n p b m) k = links m k" "passes (set_outPort n p b m) j = passes m j"
  "outUsed (set_outPort n p b m) = (outUsed m)(n := (outUsed m n)(p := b))"
  "inUsed (set_outPort n p b m) = inUsed m"
  "same_place m (set_outPort n p b m)"
  by (auto simp: set_outPort_def views same_place_def fun_eq_iff)

section \<open>Committing a route\<close>

definition commit_link :: "gedge \<Rightarrow> int \<Rightarrow> int \<times> int \<Rightarrow> mapping \<Rightarrow> edgeLink \<Rightarrow> mapping" where
  "commit_link e dst final m l =
     (let m1 = push_link e (el_srcPort l) (el_dstPort l) (el_adgNode l) m
      in if (el_adgNode l, el_dstPort l) = final then set_outPort (el_adgNode l) (el_dstPort l) True m1
         else if el_adgNode l = dst then set_inPort (el_adgNode l) (el_srcPort l) True m1
         else push_pass e (el_srcPort l) (el_dstPort l) (el_adgNode l)
                (set_outPort (el_adgNode l) (el_dstPort l) True
                  (set_inPort (el_adgNode l) (el_srcPort l) True m1)))"

text \<open>The links the predecessor chain yields, without their effect on the mapping.\<close>

primrec trace_links ::
    "nat \<Rightarrow> int \<Rightarrow> (int \<times> int, int \<times> int \<times> int) omap \<Rightarrow> int \<times> int \<Rightarrow> int \<times> int \<Rightarrow> int \<Rightarrow> edgeLink list option" where
  "trace_links 0 dst visit final rn sp = None"
| "trace_links (Suc fuel) dst visit final rn sp =
     (let l = mk_link sp (snd rn) (fst rn); (nn, np, no) = om_at (0, 0, 0) visit rn
      in if rn \<noteq> final \<and> fst rn = dst then Some [l]
         else map_option (Cons l) (trace_links fuel dst visit final (nn, no) np))"

lemma fromDst_trace_eq:
  "fromDst_trace fuel e dst visit final rn sp m =
   map_option (foldl (commit_link e dst final) m) (trace_links fuel dst visit final rn sp)"
proof (induction fuel arbitrary: rn sp m)
  case (Suc fuel)
  obtain nn np no where v: "om_at (0, 0, 0) visit rn = (nn, np, no)" by (metis prod_cases3)
  show ?case
    using v by (cases rn) (simp add: v Suc.IH commit_link_def Let_def option.map_comp comp_def)
qed simp

lemma same_place_foldl:
  "(\<And>m x. same_place m (f m x)) \<Longrightarrow> same_place m (foldl f m xs)"
  by (induction xs arbitrary: m) (auto intro: same_place_trans)

lemma commit_link_place [simp]: "same_place m (commit_link e dst final m l)"
  unfolding commit_link_def Let_def
  by (auto simp: same_place_def mappedAdg_attr mappedDfg_attr fun_eq_iff push_link_def push_pass_def
      set_inPort_def set_outPort_def)

lemma commit_links_views:
  shows "links (foldl (commit_link e dst final) m T) k = links m k @ (if k = ge_id e then T else [])"
    and "passes (foldl (commit_link e dst final) m T) n = passes m n @
      map (mk_pass e) (filter (\<lambda>l. el_adgNode l = n \<and> (el_adgNode l, el_dstPort l) \<noteq> final \<and> el_adgNode l \<noteq> dst) T)"
    and "inUsed (foldl (commit_link e dst final) m T) n p \<longleftrightarrow> inUsed m n p \<or>
      (\<exists>l \<in> set T. el_adgNode l = n \<and> el_srcPort l = p \<and> (el_adgNode l, el_dstPort l) \<noteq> final)"
    and "outUsed (foldl (commit_link e dst final) m T) n p \<longleftrightarrow> outUsed m n p \<or>
      (\<exists>l \<in> set T. el_adgNode l = n \<and> el_dstPort l = p \<and> ((n, p) = final \<or> n \<noteq> dst))"
proof -
  show "links (foldl (commit_link e dst final) m T) k = links m k @ (if k = ge_id e then T else [])"
    by (induction T arbitrary: m) (auto simp: commit_link_def Let_def)
  show "passes (foldl (commit_link e dst final) m T) n = passes m n @
      map (mk_pass e) (filter (\<lambda>l. el_adgNode l = n \<and> (el_adgNode l, el_dstPort l) \<noteq> final \<and> el_adgNode l \<noteq> dst) T)"
    by (induction T arbitrary: m) (auto simp: commit_link_def Let_def)
  show "inUsed (foldl (commit_link e dst final) m T) n p \<longleftrightarrow> inUsed m n p \<or>
      (\<exists>l \<in> set T. el_adgNode l = n \<and> el_srcPort l = p \<and> (el_adgNode l, el_dstPort l) \<noteq> final)"
    by (induction T arbitrary: m) (auto simp: commit_link_def Let_def)
  show "outUsed (foldl (commit_link e dst final) m T) n p \<longleftrightarrow> outUsed m n p \<or>
      (\<exists>l \<in> set T. el_adgNode l = n \<and> el_dstPort l = p \<and> ((n, p) = final \<or> n \<noteq> dst))"
    by (induction T arbitrary: m) (auto simp: commit_link_def Let_def)
qed

text \<open>The reused front part.\<close>

fun reuse_prefix :: "int \<times> int \<Rightarrow> edgeLink list \<Rightarrow> edgeLink list" where
  "reuse_prefix final [] = []"
| "reuse_prefix final (l # ls) =
     (if el_adgNode l = fst final \<and> el_dstPort l = snd final then [l] else l # reuse_prefix final ls)"

definition reuse_link :: "gedge \<Rightarrow> mapping \<Rightarrow> edgeLink \<Rightarrow> mapping" where
  "reuse_link e m l = push_pass e (el_srcPort l) (el_dstPort l) (el_adgNode l)
     (push_link e (el_srcPort l) (el_dstPort l) (el_adgNode l) m)"

lemma reuse_links_eq: "reuse_links e final ls m = foldl (reuse_link e) m (reuse_prefix final ls)"
  by (induction ls arbitrary: m) (auto simp: reuse_link_def)

lemma reuse_link_place [simp]: "same_place m (reuse_link e m l)"
  unfolding reuse_link_def by (rule same_place_trans[OF push_link_views(5) push_pass_views(5)])

lemma reuse_links_views:
  shows "links (foldl (reuse_link e) m R) k = links m k @ (if k = ge_id e then R else [])"
    and "passes (foldl (reuse_link e) m R) n = passes m n @ map (mk_pass e) (filter (\<lambda>l. el_adgNode l = n) R)"
    and "inUsed (foldl (reuse_link e) m R) = inUsed m"
    and "outUsed (foldl (reuse_link e) m R) = outUsed m"
proof -
  show "links (foldl (reuse_link e) m R) k = links m k @ (if k = ge_id e then R else [])"
    by (induction R arbitrary: m) (auto simp: reuse_link_def)
  show "passes (foldl (reuse_link e) m R) n = passes m n @ map (mk_pass e) (filter (\<lambda>l. el_adgNode l = n) R)"
    by (induction R arbitrary: m) (auto simp: reuse_link_def)
  show "inUsed (foldl (reuse_link e) m R) = inUsed m"
    by (induction R arbitrary: m) (auto simp: reuse_link_def)
  show "outUsed (foldl (reuse_link e) m R) = outUsed m"
    by (induction R arbitrary: m) (auto simp: reuse_link_def)
qed

section \<open>Removing a route\<close>

lemma unroute_link_views:
  shows "links (unroute_link e m l) k = links m k"
    and "passes (unroute_link e m l) n =
      (if n = el_adgNode l then filter (\<lambda>x. ep_edge x \<noteq> e) (passes m n) else passes m n)"
    and "inUsed (unroute_link e m l) n p \<longleftrightarrow> inUsed m n p \<and>
      \<not> (n = el_adgNode l \<and> p = el_srcPort l \<and> p \<noteq> -1 \<and> (\<forall>x \<in> set (passes m n). ep_srcPort x = p \<longrightarrow> ep_edge x = e))"
    and "outUsed (unroute_link e m l) n p \<longleftrightarrow> outUsed m n p \<and>
      \<not> (n = el_adgNode l \<and> p = el_dstPort l \<and> p \<noteq> -1 \<and> (\<forall>x \<in> set (passes m n). ep_dstPort x = p \<longrightarrow> ep_edge x = e))"
    and "same_place m (unroute_link e m l)"
proof -
  let ?n = "el_adgNode l"
  have cases: "(om_get (mp_adgNodeAttr m) ?n = None \<Longrightarrow> P) \<Longrightarrow>
      (\<And>A. om_get (mp_adgNodeAttr m) ?n = Some A \<Longrightarrow> anattr m ?n = A \<Longrightarrow> P) \<Longrightarrow> P" for P
    by (cases "om_get (mp_adgNodeAttr m) ?n") (auto simp: om_at_def)
  show "links (unroute_link e m l) k = links m k"
    by (rule cases) (auto simp: unroute_link_def Let_def)
  show "passes (unroute_link e m l) n =
      (if n = ?n then filter (\<lambda>x. ep_edge x \<noteq> e) (passes m n) else passes m n)"
    by (rule cases) (auto simp: unroute_link_def Let_def om_at_def no_adg_def)
  show "inUsed (unroute_link e m l) n p \<longleftrightarrow> inUsed m n p \<and>
      \<not> (n = ?n \<and> p = el_srcPort l \<and> p \<noteq> -1 \<and> (\<forall>x \<in> set (passes m n). ep_srcPort x = p \<longrightarrow> ep_edge x = e))"
    by (rule cases) (auto simp: unroute_link_def Let_def inUsed_attr om_at_def no_adg_def list_ex_iff)
  show "outUsed (unroute_link e m l) n p \<longleftrightarrow> outUsed m n p \<and>
      \<not> (n = ?n \<and> p = el_dstPort l \<and> p \<noteq> -1 \<and> (\<forall>x \<in> set (passes m n). ep_dstPort x = p \<longrightarrow> ep_edge x = e))"
    by (rule cases) (auto simp: unroute_link_def Let_def outUsed_attr om_at_def no_adg_def list_ex_iff)
  show "same_place m (unroute_link e m l)"
    by (rule cases) (auto simp: unroute_link_def Let_def same_place_def mappedAdg_def mappedDfg_def fun_eq_iff)
qed

end
