(* ===== verification/RouteSearch.thy ===== *)
theory RouteSearch
  imports RouteViews
begin

text \<open>
  The breadth-first search of \<open>routeDfgEdgeFromDst\<close>: the invariant of its state, that it always
  ends (with the fuel given) and never dereferences null on a well-formed ADG, and what the
  predecessor chain it leaves looks like.
\<close>

text \<open>A well-formed top-level ADG: nodes know their id, have one of the three classes, every
  connected input port has an existing driver, and crossbars and operands only mention connected
  input ports.\<close>

definition anode_ok :: "top_adg \<Rightarrow> anode \<Rightarrow> bool" where
  "anode_ok a n \<longleftrightarrow> (is_fu n \<or> is_gib n) \<and>
     (\<forall>p d. om_get (gn_inputs n) p = Some d \<longrightarrow>
        0 \<le> p \<and> om_has (ag_nodes a) (fst d) \<and> 0 \<le> snd d) \<and>
     (\<forall>q. \<forall>p \<in> set (gib_out2ins n q). om_has (gn_inputs n) p) \<and>
     (\<forall>s \<in> set (an_operandInputs n). \<forall>p \<in> set s. om_has (gn_inputs n) p)"

definition adg_ok :: "top_adg \<Rightarrow> bool" where
  "adg_ok a \<longleftrightarrow> (\<forall>k n. adg_node a k = Some n \<longrightarrow> gn_id n = k \<and> anode_ok a n)"

lemma fu_not_gib: "is_fu n \<Longrightarrow> \<not> is_gib n"
  by (auto simp: is_fu_def is_gib_def)

lemma adg_ok_id: "adg_ok a \<Longrightarrow> adg_node a k = Some n \<Longrightarrow> gn_id n = k"
  by (simp add: adg_ok_def)

lemma adg_ok_class: "adg_ok a \<Longrightarrow> adg_node a k = Some n \<Longrightarrow> \<not> is_fu n \<Longrightarrow> is_gib n"
  by (auto simp: adg_ok_def anode_ok_def)

lemma adg_ok_port: "adg_ok a \<Longrightarrow> adg_node a k = Some n \<Longrightarrow> snd (gnode_input n p) \<noteq> -1"
  unfolding adg_ok_def anode_ok_def gnode_input_def om_at_def
  by (cases "om_get (gn_inputs n) p") force+

lemma adg_ok_driver:
  assumes "adg_ok a" "adg_node a k = Some n" "om_has (gn_inputs n) p"
  shows "om_has (ag_nodes a) (fst (gnode_input n p))"
  using assms by (auto simp: adg_ok_def anode_ok_def gnode_input_def om_at_def om_has_iff)

text \<open>All (node, output port) pairs that drive some input port.\<close>

definition drivers :: "top_adg \<Rightarrow> (int \<times> int) set" where
  "drivers a = set (concat (map (\<lambda>(_, n). (0, 0) # map snd (gn_inputs n)) (ag_nodes a)))"

lemma finite_drivers [simp]: "finite (drivers a)"
  unfolding drivers_def by (rule finite_set)

lemma card_drivers_fuel: "Suc (card (drivers a)) < adg_fuel a"
  unfolding drivers_def adg_fuel_def by (simp only: less_Suc_eq_le Suc_le_mono card_length)

lemma input_in_drivers:
  assumes "adg_node a k = Some n"
  shows "gnode_input n p \<in> drivers a"
proof -
  from assms have mem: "(k, n) \<in> set (ag_nodes a)" by (auto simp: adg_node_def dest: map_of_SomeD)
  have "gnode_input n p = (0, 0) \<or> (p, gnode_input n p) \<in> set (gn_inputs n)"
    by (cases "om_get (gn_inputs n) p") (auto simp: gnode_input_def om_at_def dest: map_of_SomeD)
  then have "gnode_input n p \<in> set ((0, 0) # map snd (gn_inputs n))"
    by (metis image_eqI list.set_intros(1) list.set_intros(2) list.set_map snd_conv)
  with mem show ?thesis unfolding drivers_def set_concat set_map by blast
qed

section \<open>The invariant\<close>

definition is_nonfu :: "top_adg \<Rightarrow> int \<Rightarrow> bool" where
  "is_nonfu a n \<longleftrightarrow> (\<exists>nd. adg_node a n = Some nd \<and> \<not> is_fu nd)"

definition is_fu_id :: "top_adg \<Rightarrow> int \<Rightarrow> bool" where
  "is_fu_id a n \<longleftrightarrow> (\<exists>nd. adg_node a n = Some nd \<and> is_fu nd)"

lemma nonfu_fu: "is_nonfu a n \<Longrightarrow> \<not> is_fu_id a n"
  by (auto simp: is_nonfu_def is_fu_id_def)

text \<open>No edge leaves the node through this output port.\<close>

definition clean :: "top_adg \<Rightarrow> mapping \<Rightarrow> int \<times> int \<Rightarrow> bool" where
  "clean a m k \<longleftrightarrow> is_nonfu a (fst k) \<and> (\<forall>l \<in> set (passes m (fst k)). ep_dstPort l \<noteq> snd k)"

text \<open>Where the search may look from: the destination with a port of the rng, or a crossbar
  entry with a connected input the trial pass admits.\<close>

definition look_from ::
    "top_adg \<Rightarrow> mapping \<Rightarrow> gedge \<Rightarrow> int \<Rightarrow> int oset \<Rightarrow> (int \<times> int) set \<Rightarrow> int \<Rightarrow> int \<Rightarrow> int \<Rightarrow> bool" where
  "look_from a m e dst rng V pn pin pout \<longleftrightarrow>
     (if pout = -1 then pn = dst \<and> pin \<in> set rng
      else (pn, pout) \<in> V \<and>
        (\<exists>P. adg_node a pn = Some P \<and> is_gib P \<and> pin \<in> set (gib_out2ins P pout) \<and>
             pass_decide m e P pin pout \<noteq> None))"

definition found_from ::
    "top_adg \<Rightarrow> mapping \<Rightarrow> gedge \<Rightarrow> int \<Rightarrow> int oset \<Rightarrow> (int \<times> int) set \<Rightarrow> (int \<times> int \<Rightarrow> nat) \<Rightarrow>
     int \<times> int \<Rightarrow> int \<times> int \<times> int \<Rightarrow> bool" where
  "found_from a m e dst rng V rank k i \<longleftrightarrow>
     (case i of (pn, pin, pout) \<Rightarrow>
        (\<exists>P. adg_node a pn = Some P \<and> gnode_input P pin = k) \<and>
        look_from a m e dst rng V pn pin pout \<and> (pout \<noteq> -1 \<longrightarrow> rank (pn, pout) < rank k))"

definition keys :: "('k, 'v) omap \<Rightarrow> 'k set" where
  "keys v = fst ` set v"

lemma keys_put [simp]: "keys (om_put v k i) = insert k (keys v)"
  by (simp add: keys_def)

lemma keys_has: "om_has v k \<longleftrightarrow> k \<in> keys v"
  by (simp add: keys_def om_has_set)

lemma finite_keys [simp]: "finite (keys v)"
  by (simp add: keys_def)

definition final_ok ::
    "top_adg \<Rightarrow> mapping \<Rightarrow> gedge \<Rightarrow> int \<Rightarrow> int \<times> int \<Rightarrow> gedge option \<Rightarrow> bool" where
  "final_ok a m e src f same \<longleftrightarrow>
     (case same of
        None \<Rightarrow> f = (src, ge_srcPortIdx e)
      | Some x \<Rightarrow> is_nonfu a (fst f) \<and> same_source x e \<and>
          (\<exists>l \<in> set (passes m (fst f)). ep_dstPort l = snd f \<and> ep_edge l = x))"

definition search_inv ::
    "top_adg \<Rightarrow> mapping \<Rightarrow> gedge \<Rightarrow> int \<Rightarrow> int \<Rightarrow> int oset \<Rightarrow> (int \<times> int \<Rightarrow> nat) \<Rightarrow> search \<Rightarrow> bool" where
  "search_inv a m e src dst rng rank s \<longleftrightarrow>
     keys (sv_visit s) \<subseteq> drivers a \<and>
     (\<forall>k i. om_get (sv_visit s) k = Some i \<longrightarrow>
        found_from a m e dst rng (keys (sv_visit s)) rank k i \<and>
        rank k < card (keys (sv_visit s)) \<and> snd k \<noteq> -1) \<and>
     (\<forall>k \<in> set (sv_que s). k = (dst, -1) \<or> k \<in> keys (sv_visit s)) \<and>
     (\<forall>k \<in> keys (sv_visit s). sv_final s \<noteq> Some k \<longrightarrow> clean a m k) \<and>
     (case sv_final s of
        None \<Rightarrow> sv_same s = None
      | Some f \<Rightarrow> f \<in> keys (sv_visit s) \<and> final_ok a m e src f (sv_same s) \<and>
          (\<forall>k \<in> keys (sv_visit s). k \<noteq> f \<longrightarrow> rank k < rank f))"

lemma search_inv_get:
  assumes "search_inv a m e src dst rng rank s" "om_get (sv_visit s) k = Some i"
  shows "found_from a m e dst rng (keys (sv_visit s)) rank k i" "rank k < card (keys (sv_visit s))" "snd k \<noteq> -1"
  using assms unfolding search_inv_def by blast+

lemma keys_get: "k \<in> keys v \<Longrightarrow> \<exists>i. om_get v k = Some i"
  by (metis keys_has om_has_iff)

lemma look_from_mono: "look_from a m e dst rng V pn pin pout \<Longrightarrow> V \<subseteq> W \<Longrightarrow> look_from a m e dst rng W pn pin pout"
  by (auto simp: look_from_def)

text \<open>Pushing an unvisited entry, final or not, keeps the invariant.\<close>

lemma push_inv:
  assumes inv: "search_inv a m e src dst rng rank s" and nf: "sv_final s = None"
    and P: "adg_node a pn = Some P" "gnode_input P pin = k"
    and look: "look_from a m e dst rng (keys (sv_visit s)) pn pin pout"
    and fresh: "k \<notin> keys (sv_visit s)" and port: "snd k \<noteq> -1"
    and how: "(f = None \<and> same = None \<and> clean a m k) \<or> (f = Some k \<and> final_ok a m e src k same)"
  shows "\<exists>rank'. search_inv a m e src dst rng rank'
           (sv_push k (pn, pin, pout) (s\<lparr>sv_final := f, sv_same := same\<rparr>))"
proof -
  let ?V = "keys (sv_visit s)" and ?i = "(pn, pin, pout)"
  let ?rank = "rank(k := card ?V)"
  let ?s = "sv_push k ?i (s\<lparr>sv_final := f, sv_same := same\<rparr>)"
  have old: "\<And>j i. om_get (sv_visit s) j = Some i \<Longrightarrow> found_from a m e dst rng ?V rank j i \<and>
        rank j < card ?V \<and> snd j \<noteq> -1"
    using inv unfolding search_inv_def by blast
  have rank: "j \<in> ?V \<Longrightarrow> rank j < card ?V \<and> ?rank j = rank j" for j
    using old[of j] fresh unfolding keys_def by (metis fun_upd_other map_of_eq_None_iff option.exhaust)
  have keys: "keys (sv_visit ?s) = insert k ?V" by (simp add: sv_push_def)
  have card: "card (insert k ?V) = Suc (card ?V)" using fresh by simp
  have par: "found_from a m e dst rng (insert k ?V) ?rank k ?i"
    using P look rank[of "(pn, pout)"] by (auto simp: found_from_def look_from_def split: if_splits)
  have prev: "found_from a m e dst rng (insert k ?V) ?rank j i" if "om_get (sv_visit s) j = Some i" for j i
  proof -
    obtain qn qi qo where i: "i = (qn, qi, qo)" by (metis prod_cases3)
    have f: "found_from a m e dst rng ?V rank j i" using old[OF that] by simp
    have j: "j \<in> ?V" using that unfolding keys_def by (metis map_of_eq_None_iff option.distinct(1))
    have "qo \<noteq> -1 \<Longrightarrow> (qn, qo) \<in> ?V" using f i by (auto simp: found_from_def look_from_def)
    then show ?thesis
      using f i rank[OF j] rank[of "(qn, qo)"] look_from_mono[of a m e dst rng ?V qn qi qo "insert k ?V"]
      by (auto simp: found_from_def)
  qed
  have get: "om_get (sv_visit ?s) = (om_get (sv_visit s))(k \<mapsto> ?i)" by (simp add: sv_push_def)
  have sets: "set (sv_que ?s) = insert k (set (sv_que s))" "sv_final ?s = f" "sv_same ?s = same"
    by (auto simp: sv_push_def)
  have "k \<in> drivers a" using input_in_drivers[OF P(1)] P(2) by blast
  have "search_inv a m e src dst rng ?rank ?s"
    unfolding search_inv_def keys get sets
  proof (intro conjI)
    show "insert k ?V \<subseteq> drivers a" using inv \<open>k \<in> drivers a\<close> by (simp add: search_inv_def)
    show "\<forall>j i. ((om_get (sv_visit s))(k \<mapsto> ?i)) j = Some i \<longrightarrow>
        found_from a m e dst rng (insert k ?V) ?rank j i \<and> ?rank j < card (insert k ?V) \<and> snd j \<noteq> -1"
    proof (intro allI impI)
      fix j i
      assume g: "((om_get (sv_visit s))(k \<mapsto> ?i)) j = Some i"
      show "found_from a m e dst rng (insert k ?V) ?rank j i \<and> ?rank j < card (insert k ?V) \<and> snd j \<noteq> -1"
      proof (cases "j = k")
        case True
        with g par card port show ?thesis by simp
      next
        case False
        with g have g': "om_get (sv_visit s) j = Some i" by simp
        show ?thesis using prev[OF g'] old[OF g'] card False by simp
      qed
    qed
    show "\<forall>j \<in> insert k (set (sv_que s)). j = (dst, -1) \<or> j \<in> insert k ?V"
      using inv by (auto simp: search_inv_def)
    show "\<forall>j \<in> insert k ?V. f \<noteq> Some j \<longrightarrow> clean a m j"
      using inv nf how by (auto simp: search_inv_def)
    show "case f of None \<Rightarrow> same = None
      | Some f' \<Rightarrow> f' \<in> insert k ?V \<and> final_ok a m e src f' same \<and>
          (\<forall>j \<in> insert k ?V. j \<noteq> f' \<longrightarrow> ?rank j < ?rank f')"
      using how rank by (auto split: option.splits)
  qed
  then show ?thesis by blast
qed

section \<open>What the loops over pass lists tell\<close>

lemma out_reuse_Unshared: "out_reuse ls e port = Unshared \<Longrightarrow> \<forall>l \<in> set ls. ep_dstPort l \<noteq> port"
  by (induction ls) (auto split: if_splits)

lemma out_reuse_Reuse:
  "out_reuse ls e port = Reuse x \<Longrightarrow> \<exists>l \<in> set ls. ep_dstPort l = port \<and> ep_edge l = x \<and> same_source x e"
  by (induction ls) (auto split: if_splits)

lemma pass_scan_same:
  "pass_scan ls e sp dp acc = Some r \<Longrightarrow> l \<in> set ls \<Longrightarrow> ep_srcPort l = sp \<or> ep_dstPort l = dp \<Longrightarrow>
   same_source (ep_edge l) e"
  by (induction ls arbitrary: acc) (auto simp: Let_def simp del: split_paired_Ex split: if_splits)

lemma pass_decide_same:
  assumes "pass_decide m e P sp dp \<noteq> None" "l \<in> set (passes m (gn_id P))"
    and "ep_srcPort l = sp \<or> ep_dstPort l = dp"
  shows "same_source (ep_edge l) e"
proof (cases "om_get (mp_adgNodeAttr m) (gn_id P)")
  case None
  with assms(2) show ?thesis by (simp add: om_at_def no_adg_def)
next
  case (Some A)
  then obtain r where "pass_scan (passes m (gn_id P)) e sp dp (sp, dp, False) = Some r"
    using assms(1) by (auto simp: pass_decide_def om_at_def split: option.splits)
  then show ?thesis using pass_scan_same assms(2,3) by blast
qed

section \<open>One input port\<close>

text \<open>Every edge that passes an interconnect block marks its output port as used.\<close>

definition out_flagged :: "top_adg \<Rightarrow> mapping \<Rightarrow> bool" where
  "out_flagged a m \<longleftrightarrow> (\<forall>n. is_nonfu a n \<longrightarrow> (\<forall>l \<in> set (passes m n). outUsed m n (ep_dstPort l)))"

definition push_case ::
    "top_adg \<Rightarrow> mapping \<Rightarrow> gedge \<Rightarrow> int \<Rightarrow> search \<Rightarrow> int \<times> int \<Rightarrow> int \<times> int \<times> int \<Rightarrow> search \<Rightarrow> bool" where
  "push_case a m e src s k info s' \<longleftrightarrow> k \<notin> keys (sv_visit s) \<and>
     (\<exists>f same. s' = sv_push k info (s\<lparr>sv_final := f, sv_same := same\<rparr>) \<and>
        ((f = None \<and> same = None \<and> clean a m k) \<or> (f = Some k \<and> final_ok a m e src k same)))"

lemma push_caseI:
  assumes "s' = sv_push k info (s\<lparr>sv_final := f, sv_same := same\<rparr>)" "k \<notin> keys (sv_visit s)"
    and "(f = None \<and> same = None \<and> clean a m k) \<or> (f = Some k \<and> final_ok a m e src k same)"
  shows "push_case a m e src s k info s'"
  using assms unfolding push_case_def by blast

lemma fromDst_port_src:
  assumes "adg_node a n = Some N" "gnode_input P pin = (n, q)" "sv_final s = None"
  shows "fromDst_port a m e (Some src) op P pout s pin =
    (let k = gnode_input P pin; i = (gn_id P, pin, pout) in
     if src = n \<and> ge_srcPortIdx e = q then Some (sv_push k i (s\<lparr>sv_final := Some k\<rparr>))
     else if src = n \<or> is_fu N \<or> k \<in> keys (sv_visit s) then Some s
     else if outUsed m n q then (case out_reuse (passes m n) e q of
            Conflict \<Rightarrow> Some s
          | Reuse x \<Rightarrow> Some (sv_push k i (s\<lparr>sv_final := Some k, sv_same := Some x\<rparr>))
          | Unshared \<Rightarrow> Some (sv_push k i s))
     else Some (sv_push k i s))"
  using assms unfolding fromDst_port_def Let_def
  by (cases "src = n"; cases "ge_srcPortIdx e = q"; cases "is_fu N"; cases "(n, q) \<in> keys (sv_visit s)")
    (simp_all add: is_fu_def keys_has, argo?)

lemma fromDst_port_cases:
  assumes step: "fromDst_port a m e (Some src) op P pout s pin = Some s'"
    and ok: "adg_ok a" and src: "is_fu_id a src" and flag: "out_flagged a m"
    and inv: "search_inv a m e src dst rng rank s"
  shows "s' = s \<or> sv_final s = None \<and> push_case a m e src s (gnode_input P pin) (gn_id P, pin, pout) s'"
proof (cases "sv_final s")
  case (Some f)
  then show ?thesis using step by (simp add: fromDst_port_def)
next
  case None
  let ?k = "gnode_input P pin" and ?i = "(gn_id P, pin, pout)"
  obtain n q where k: "?k = (n, q)" by (metis surj_pair)
  obtain N where N: "adg_node a n = Some N"
    using step None k by (auto simp: fromDst_port_def Let_def split: bind_splits)
  have same: "sv_same s = None" using inv None by (simp add: search_inv_def)
  have unvisited_src: "(src, q') \<notin> keys (sv_visit s)" for q'
    using inv None src by (auto simp: search_inv_def clean_def is_nonfu_def is_fu_id_def)
  have fu: "is_fu N \<longleftrightarrow> gn_type N = ''GPE'' \<or> gn_type N = ''IOB''" by (auto simp: is_fu_def)
  have id: "s = s\<lparr>sv_final := None, sv_same := None\<rparr>" "s\<lparr>sv_final := f\<rparr> = s\<lparr>sv_final := f, sv_same := None\<rparr>" for f
    using None same by (cases s; simp)+
  consider (src) "n = src" "q = ge_srcPortIdx e" "s' = sv_push ?k ?i (s\<lparr>sv_final := Some ?k\<rparr>)"
    | (skip) "s' = s"
    | (reuse) x where "\<not> is_fu N" "?k \<notin> keys (sv_visit s)" "out_reuse (passes m n) e q = Reuse x"
        "s' = sv_push ?k ?i (s\<lparr>sv_final := Some ?k, sv_same := Some x\<rparr>)"
    | (unshared) "\<not> is_fu N" "?k \<notin> keys (sv_visit s)" "out_reuse (passes m n) e q = Unshared"
        "s' = sv_push ?k ?i s"
    | (unused) "\<not> is_fu N" "?k \<notin> keys (sv_visit s)" "\<not> outUsed m n q" "s' = sv_push ?k ?i s"
  proof -
    note eq = fromDst_port_src[OF N k None, of m e src op pout, unfolded step Let_def]
    show ?thesis
    proof (cases "src = n \<and> ge_srcPortIdx e = q")
      case True then show ?thesis using eq that(1) by simp
    next
      case F1: False
      show ?thesis
      proof (cases "src = n \<or> is_fu N \<or> ?k \<in> keys (sv_visit s)")
        case True then show ?thesis using eq F1 that(2) by simp
      next
        case F2: False
        then have new: "\<not> is_fu N" "?k \<notin> keys (sv_visit s)" by simp_all
        have eq': "(if outUsed m n q then (case out_reuse (passes m n) e q of
               Conflict \<Rightarrow> Some s
             | Reuse x \<Rightarrow> Some (sv_push ?k ?i (s\<lparr>sv_final := Some ?k, sv_same := Some x\<rparr>))
             | Unshared \<Rightarrow> Some (sv_push ?k ?i s))
           else Some (sv_push ?k ?i s)) = Some s'"
          using eq[unfolded if_not_P[OF F1] if_not_P[OF F2]] by (rule sym)
        show ?thesis
        proof (cases "outUsed m n q")
          case True
          then show ?thesis using eq' that(2) that(3,4)[OF new]
            by (cases "out_reuse (passes m n) e q") simp_all
        next
          case False
          then show ?thesis using eq' that(5)[OF new] by simp
        qed
      qed
    qed
  qed
  then show ?thesis
  proof cases
    case src
    have "push_case a m e src s ?k ?i s'"
      by (rule push_caseI[where f = "Some ?k" and same = None])
        (use src k unvisited_src id(2) in \<open>simp_all add: final_ok_def\<close>)
    with None show ?thesis by blast
  next
    case (reuse x)
    have "is_nonfu a n" using N reuse by (auto simp: is_nonfu_def)
    then have "push_case a m e src s ?k ?i s'"
      using reuse k out_reuse_Reuse[of "passes m n" e q x]
      by (intro push_caseI[where f = "Some ?k" and same = "Some x"]) (auto simp: final_ok_def)
    with None show ?thesis by blast
  next
    case unshared
    then have "clean a m ?k" using N k out_reuse_Unshared[of "passes m n" e q]
      by (auto simp: clean_def is_nonfu_def)
    then have "push_case a m e src s ?k ?i s'"
      using unshared id(1) by (intro push_caseI[where f = None and same = None]) auto
    with None show ?thesis by blast
  next
    case unused
    then have "clean a m ?k" using N k flag by (auto simp: clean_def is_nonfu_def out_flagged_def)
    then have "push_case a m e src s ?k ?i s'"
      using unused id(1) by (intro push_caseI[where f = None and same = None]) auto
    with None show ?thesis by blast
  qed simp
qed

section \<open>The whole search\<close>

definition search_size :: "top_adg \<Rightarrow> search \<Rightarrow> nat" where
  "search_size a s = length (sv_que s) + (card (drivers a) - card (keys (sv_visit s)))"

lemma push_size:
  assumes "k \<notin> keys (sv_visit s)" "k \<in> drivers a" "keys (sv_visit s) \<subseteq> drivers a"
  shows "search_size a (sv_push k i (s\<lparr>sv_final := f, sv_same := x\<rparr>)) = search_size a s"
proof -
  have "card (insert k (keys (sv_visit s))) \<le> card (drivers a)"
    using assms by (intro card_mono) auto
  then show ?thesis using assms(1) by (simp add: search_size_def sv_push_def)
qed

lemma fromDst_port_step:
  assumes ok: "adg_ok a" and src: "is_fu_id a src" and flag: "out_flagged a m"
    and inv: "search_inv a m e src dst rng rank s"
    and P: "adg_node a pn = Some P" "om_has (gn_inputs P) pin"
    and look: "look_from a m e dst rng (keys (sv_visit s)) pn pin pout"
  shows "\<exists>s'. fromDst_port a m e (Some src) op P pout s pin = Some s' \<and>
    (\<exists>rank'. search_inv a m e src dst rng rank' s') \<and> search_size a s' = search_size a s \<and>
    keys (sv_visit s) \<subseteq> keys (sv_visit s')"
proof -
  let ?k = "gnode_input P pin"
  obtain N where "adg_node a (fst ?k) = Some N"
    using adg_ok_driver[OF ok P] by (auto simp: adg_node_def om_has_iff)
  then have "fromDst_port a m e (Some src) op P pout s pin \<noteq> None"
    using fromDst_port_src[of a "fst ?k" N P pin "snd ?k" s m e src op pout]
    by (cases "sv_final s") (simp_all add: fromDst_port_def Let_def split: reuse.splits)
  then obtain s' where s': "fromDst_port a m e (Some src) op P pout s pin = Some s'" by blast
  show ?thesis
  using fromDst_port_cases[OF s' ok src flag inv] proof (elim disjE conjE)
    assume "s' = s"
    then show ?thesis using s' inv by blast
  next
    assume nf: "sv_final s = None" and push: "push_case a m e src s ?k (gn_id P, pin, pout) s'"
    then obtain f same where fresh: "?k \<notin> keys (sv_visit s)"
      and eq: "s' = sv_push ?k (gn_id P, pin, pout) (s\<lparr>sv_final := f, sv_same := same\<rparr>)"
      and how: "(f = None \<and> same = None \<and> clean a m ?k) \<or> (f = Some ?k \<and> final_ok a m e src ?k same)"
      unfolding push_case_def by blast
    have sub: "keys (sv_visit s) \<subseteq> drivers a" using inv by (simp add: search_inv_def)
    have "\<exists>rank'. search_inv a m e src dst rng rank' s'"
      using push_inv[OF inv nf P(1) refl look fresh adg_ok_port[OF ok P(1)] how] eq adg_ok_id[OF ok P(1)] by simp
    moreover have "search_size a s' = search_size a s"
      using push_size[OF fresh input_in_drivers[OF P(1)] sub] eq by simp
    moreover have "keys (sv_visit s) \<subseteq> keys (sv_visit s')" by (auto simp: eq sv_push_def)
    ultimately show ?thesis using s' by blast
  qed
qed

lemma fromDst_ports_fold:
  assumes ok: "adg_ok a" and src: "is_fu_id a src" and flag: "out_flagged a m"
    and P: "adg_node a pn = Some P"
  shows "search_inv a m e src dst rng rank s \<Longrightarrow>
    \<forall>pin \<in> set ps. om_has (gn_inputs P) pin \<and> look_from a m e dst rng (keys (sv_visit s)) pn pin pout \<Longrightarrow>
    \<exists>s'. mfold (fromDst_port a m e (Some src) op P pout) s ps = Some s' \<and>
      (\<exists>rank'. search_inv a m e src dst rng rank' s') \<and> search_size a s' = search_size a s"
proof (induction ps arbitrary: s rank)
  case (Cons pin ps)
  then obtain s1 rank1 where s1: "fromDst_port a m e (Some src) op P pout s pin = Some s1"
      "search_inv a m e src dst rng rank1 s1" "search_size a s1 = search_size a s"
      "keys (sv_visit s) \<subseteq> keys (sv_visit s1)"
    using fromDst_port_step[OF ok src flag Cons.prems(1) P, of pin pout op] by (simp, blast)
  have "\<forall>pin \<in> set ps. om_has (gn_inputs P) pin \<and> look_from a m e dst rng (keys (sv_visit s1)) pn pin pout"
    using Cons.prems(2) look_from_mono[OF _ s1(4)] by simp
  from Cons.IH[OF s1(2) this] show ?case using s1 by simp
qed auto

text \<open>The search ends, and it ends in a state with the invariant.\<close>

lemma fromDst_search_ends:
  assumes ok: "adg_ok a" and src: "is_fu_id a src" and flag: "out_flagged a m"
    and D: "adg_node a dst = Some D" "\<forall>p \<in> set rng. om_has (gn_inputs D) p"
  shows "search_inv a m e src dst rng rank s \<Longrightarrow> sv_final s = None \<Longrightarrow> search_size a s < fuel \<Longrightarrow>
    \<exists>s'. fromDst_search fuel a m e (Some src) op rng s = Some s' \<and>
      (\<exists>rank'. search_inv a m e src dst rng rank' s')"
proof (induction fuel arbitrary: s rank)
  case (Suc fuel)
  note inv = Suc.prems(1) and nf = Suc.prems(2)
  show ?case
  proof (cases "sv_que s")
    case Nil
    then show ?thesis using inv by auto
  next
    case (Cons kq que)
    obtain n q where kq: "kq = (n, q)" by (cases kq)
    let ?s = "s\<lparr>sv_que := que\<rparr>"
    have in_que: "(n, q) = (dst, -1) \<or> (n, q) \<in> keys (sv_visit s)"
      using inv Cons kq by (auto simp: search_inv_def)
    have inv': "search_inv a m e src dst rng rank ?s"
      using inv Cons by (cases "sv_final s") (simp_all add: search_inv_def)
    have size: "search_size a ?s < fuel" using Suc.prems(3) Cons by (simp add: search_size_def)
    have key: "is_nonfu a n \<and> q \<noteq> -1" if V: "(n, q) \<in> keys (sv_visit s)"
    proof -
      have "q \<noteq> -1" using keys_get[OF V] search_inv_get(3)[OF inv] by force
      moreover have "is_nonfu a n" using V inv nf by (auto simp: search_inv_def clean_def)
      ultimately show ?thesis by blast
    qed
    obtain P where P: "adg_node a n = Some P" using in_que key D by (auto simp: is_nonfu_def)
    obtain ps where ps: "fromDst_ports m e P q rng = Some ps"
      and look: "\<forall>pin \<in> set ps. om_has (gn_inputs P) pin \<and> look_from a m e dst rng (keys (sv_visit ?s)) n pin q"
    proof (cases "q = -1")
      case True
      then show ?thesis
        using in_que key D P by (intro that[of rng]) (auto simp: fromDst_ports_def look_from_def)
    next
      case False
      then have V: "(n, q) \<in> keys (sv_visit s)" using in_que by simp
      then have gib: "is_gib P" using key P adg_ok_class[OF ok P] by (auto simp: is_nonfu_def)
      let ?ps = "filter (\<lambda>p. pass_decide m e P p q \<noteq> None) (gib_out2ins P q)"
      have "\<forall>p \<in> set (gib_out2ins P q). om_has (gn_inputs P) p"
        using ok P by (auto simp: adg_ok_def anode_ok_def)
      then show ?thesis
        using False V gib P by (intro that[of ?ps]) (auto simp: fromDst_ports_def look_from_def)
    qed
    obtain s1 rank1 where s1: "mfold (fromDst_port a m e (Some src) op P q) ?s ps = Some s1"
        "search_inv a m e src dst rng rank1 s1" "search_size a s1 = search_size a ?s"
      using fromDst_ports_fold[OF ok src flag P inv' look] by blast
    show ?thesis
    proof (cases "sv_final s1")
      case None
      then have "\<exists>s'. fromDst_search fuel a m e (Some src) op rng s1 = Some s' \<and>
          (\<exists>rank'. search_inv a m e src dst rng rank' s')"
        using Suc.IH[OF s1(2) None] s1(3) size by simp
      then show ?thesis using Cons kq P ps s1(1) None by simp
    next
      case (Some f)
      then show ?thesis using Cons kq P ps s1(1,2) by auto
    qed
  qed
qed simp

lemma search_inv_start:
  "search_inv a m e src dst rng rank \<lparr>sv_visit = [], sv_que = [(dst, -1)], sv_final = None, sv_same = None\<rparr>"
  by (simp add: search_inv_def keys_def)

end
