(* ===== verification/RouteChain.thy ===== *)
theory RouteChain
  imports RouteSearch
begin

text \<open>
  The route the predecessor chain of a finished search spells out: a list of links from the
  entry the search ended on down to a port of the given rng at the destination, each link
  driven by the one before it and each block on the way crossed the way its crossbar allows.
\<close>

definition pos :: "edgeLink \<Rightarrow> int \<times> int" where
  "pos l = (el_adgNode l, el_dstPort l)"

lemma pos_mk [simp]: "pos (mk_link s d n) = (n, d)"
  by (simp add: pos_def)

text \<open>The input port of the second link is wired to the output port of the first.\<close>

definition linked :: "top_adg \<Rightarrow> edgeLink \<Rightarrow> edgeLink \<Rightarrow> bool" where
  "linked a l1 l2 \<longleftrightarrow>
     (\<exists>P. adg_node a (el_adgNode l2) = Some P \<and> gnode_input P (el_srcPort l2) = pos l1)"

text \<open>The link crosses an interconnect block through a connection its crossbar has.\<close>

definition crossbar :: "top_adg \<Rightarrow> edgeLink \<Rightarrow> bool" where
  "crossbar a l \<longleftrightarrow> 0 \<le> el_srcPort l \<and> 0 \<le> el_dstPort l \<and>
     (\<exists>P. adg_node a (el_adgNode l) = Some P \<and> is_gib P \<and>
          el_srcPort l \<in> set (gib_out2ins P (el_dstPort l)))"

text \<open>The link can share its block with the edges that pass already: one that leaves through the
  same port comes from the same source through the same input, one that only shares the input
  comes from the same source.\<close>

definition fits :: "mapping \<Rightarrow> gedge \<Rightarrow> edgeLink \<Rightarrow> bool" where
  "fits m e l \<longleftrightarrow> (\<forall>y \<in> set (passes m (el_adgNode l)).
     (ep_dstPort y = el_dstPort l \<longrightarrow> ep_srcPort y = el_srcPort l \<and> same_source (ep_edge y) e) \<and>
     (ep_srcPort y = el_srcPort l \<longrightarrow> same_source (ep_edge y) e))"

lemma crossbar_nonfu: "crossbar a l \<Longrightarrow> is_nonfu a (el_adgNode l)"
  using fu_not_gib by (auto simp: crossbar_def is_nonfu_def)

lemma adg_ok_nonneg: "adg_ok a \<Longrightarrow> adg_node a k = Some n \<Longrightarrow> 0 \<le> snd (gnode_input n p)"
  unfolding adg_ok_def anode_ok_def gnode_input_def om_at_def
  by (cases "om_get (gn_inputs n) p") force+

lemma adg_ok_in_nonneg: "adg_ok a \<Longrightarrow> adg_node a k = Some n \<Longrightarrow> om_has (gn_inputs n) p \<Longrightarrow> 0 \<le> p"
  unfolding adg_ok_def anode_ok_def om_has_iff by blast

lemma adg_ok_crossbar:
  "adg_ok a \<Longrightarrow> adg_node a k = Some n \<Longrightarrow> p \<in> set (gib_out2ins n q) \<Longrightarrow> 0 \<le> p"
  unfolding adg_ok_def anode_ok_def using adg_ok_in_nonneg[unfolded adg_ok_def anode_ok_def] by blast

definition tail_ok ::
    "top_adg \<Rightarrow> mapping \<Rightarrow> gedge \<Rightarrow> int \<Rightarrow> int oset \<Rightarrow> edgeLink list \<Rightarrow> edgeLink list \<Rightarrow> bool" where
  "tail_ok a m e dst rng T mid \<longleftrightarrow>
     (\<exists>q \<in> set rng. T = mid @ [mk_link q (-1) dst]) \<and> successively (linked a) T \<and>
     distinct (map pos mid) \<and>
     (\<forall>l \<in> set mid. crossbar a l \<and> clean a m (pos l) \<and> fits m e l)"

text \<open>One link of the chain, in front of a chain that is fine.\<close>

lemma tail_ok_Cons:
  assumes tail: "tail_ok a m e dst rng T mid" and T: "T = t # ts" and lk: "linked a l t"
    and l: "crossbar a l" "clean a m (pos l)" "fits m e l" and new: "pos l \<notin> pos ` set mid"
  shows "tail_ok a m e dst rng (l # T) (l # mid)"
  using assms by (auto simp: tail_ok_def)

lemma key_nonneg:
  assumes "adg_ok a" "search_inv a m e src dst rng rank s" "k \<in> keys (sv_visit s)"
  shows "0 \<le> snd k"
proof -
  obtain pn pin pout where i: "om_get (sv_visit s) k = Some (pn, pin, pout)"
    using keys_get[OF assms(3)] by (metis prod_cases3)
  from search_inv_get(1)[OF assms(2) i] obtain P where "adg_node a pn = Some P" "gnode_input P pin = k"
    by (auto simp: found_from_def)
  then show ?thesis using adg_ok_nonneg[OF assms(1)] by metis
qed

lemma trace_tail:
  assumes ok: "adg_ok a" and inv: "search_inv a m e src dst rng rank s"
    and f: "sv_final s = Some f" and dst: "is_fu_id a dst"
  shows "look_from a m e dst rng (keys (sv_visit s)) pn pin pout \<Longrightarrow>
    (pout \<noteq> -1 \<Longrightarrow> rank (pn, pout) < rank f) \<Longrightarrow> snd f \<noteq> -1 \<Longrightarrow>
    (if pout = -1 then 1 else rank (pn, pout) + 2) \<le> fuel \<Longrightarrow> adg_node a pn = Some P \<Longrightarrow>
    (pout \<noteq> -1 \<Longrightarrow> 0 \<le> pout) \<Longrightarrow>
    \<exists>T mid. trace_links fuel dst (sv_visit s) f (pn, pout) pin = Some T \<and>
      hd T = mk_link pin pout pn \<and> tail_ok a m e dst rng T mid \<and>
      (\<forall>l \<in> set mid. pout \<noteq> -1 \<and> rank (pos l) \<le> rank (pn, pout))"
proof (induction fuel arbitrary: pn pin pout P)
  case 0
  then show ?case by (cases "pout = -1") auto
next
  case (Suc fuel)
  let ?V = "keys (sv_visit s)"
  show ?case
  proof (cases "pout = -1")
    case True
    then have "pn = dst" "pin \<in> set rng" using Suc.prems(1) by (auto simp: look_from_def)
    then have "tail_ok a m e dst rng [mk_link pin (-1) dst] []" by (auto simp: tail_ok_def)
    moreover have "(pn, pout) \<noteq> f" using Suc.prems(3) True by auto
    ultimately show ?thesis using True \<open>pn = dst\<close>
      by (intro exI[of _ "[mk_link pin (-1) dst]"] exI[of _ "[]"]) (auto split: prod.splits)
  next
    case False
    let ?l = "mk_link pin pout pn"
    have V: "(pn, pout) \<in> ?V" and gib: "is_gib P" "pin \<in> set (gib_out2ins P pout)"
      and pass: "pass_decide m e P pin pout \<noteq> None"
      using Suc.prems(1,5) False by (auto simp: look_from_def)
    have less: "rank (pn, pout) < rank f" using Suc.prems(2) False by simp
    have nf: "(pn, pout) \<noteq> f" using less by auto
    have cl: "clean a m (pn, pout)" using inv V nf f by (auto simp: search_inv_def)
    have cross: "crossbar a ?l"
      using gib Suc.prems(5,6) False adg_ok_crossbar[OF ok Suc.prems(5) gib(2)]
      by (auto simp: crossbar_def)
    have "gn_id P = pn" using ok Suc.prems(5) by (rule adg_ok_id)
    then have fit: "fits m e ?l"
      using pass_decide_same[OF pass] cl by (auto simp: fits_def clean_def)
    obtain nn np no where i: "om_get (sv_visit s) (pn, pout) = Some (nn, np, no)"
      using keys_get[OF V] by (metis prod_cases3)
    obtain N where N: "adg_node a nn = Some N" "gnode_input N np = (pn, pout)"
      and look: "look_from a m e dst rng ?V nn np no" and rank: "no \<noteq> -1 \<Longrightarrow> rank (nn, no) < rank (pn, pout)"
      using search_inv_get(1)[OF inv i] by (auto simp: found_from_def)
    have "no \<noteq> -1 \<Longrightarrow> 0 \<le> no"
      using look key_nonneg[OF ok inv, of "(nn, no)"] by (simp add: look_from_def)
    moreover have "(if no = -1 then 1 else rank (nn, no) + 2) \<le> fuel"
      using Suc.prems(4) False rank by (cases "no = -1") auto
    ultimately obtain T mid where T: "trace_links fuel dst (sv_visit s) f (nn, no) np = Some T"
        "hd T = mk_link np no nn" "tail_ok a m e dst rng T mid"
        "\<forall>l \<in> set mid. no \<noteq> -1 \<and> rank (pos l) \<le> rank (nn, no)"
      using Suc.IH[OF look _ Suc.prems(3) _ N(1)] rank less by (metis (no_types, lifting) order.strict_trans)
    have "T \<noteq> []" using T(3) by (auto simp: tail_ok_def)
    then obtain ts where ts: "T = mk_link np no nn # ts" using T(2) by (cases T) auto
    have "pn \<noteq> dst" using dst cross crossbar_nonfu nonfu_fu by fastforce
    then have trace: "trace_links (Suc fuel) dst (sv_visit s) f (pn, pout) pin = Some (?l # T)"
      using T(1) i by (simp add: om_at_def)
    have lt: "\<forall>l \<in> set mid. rank (pos l) < rank (pn, pout)" using T(4) rank by fastforce
    then have "pos ?l \<notin> pos ` set mid" by auto
    then have "tail_ok a m e dst rng (?l # T) (?l # mid)"
      using tail_ok_Cons[OF T(3) ts, of ?l] N cross cl fit by (simp add: linked_def)
    then show ?thesis using trace lt False
      by (intro exI[of _ "?l # T"] exI[of _ "?l # mid"]) auto
  qed
qed

text \<open>The chain behind the entry the search ended on.\<close>

lemma trace_final:
  assumes ok: "adg_ok a" and inv: "search_inv a m e src dst rng rank s"
    and f: "sv_final s = Some f" and dst: "is_fu_id a dst" and fuel: "card (keys (sv_visit s)) \<le> fuel"
    and i: "om_get (sv_visit s) f = Some (nn, np, no)"
  shows "\<exists>T mid. trace_links fuel dst (sv_visit s) f (nn, no) np = Some T \<and>
    tail_ok a m e dst rng T mid \<and> T \<noteq> [] \<and> (\<forall>l. pos l = f \<longrightarrow> linked a l (hd T)) \<and> f \<notin> pos ` set mid"
proof -
  have V: "f \<in> keys (sv_visit s)" using inv f by (simp add: search_inv_def)
  obtain N where N: "adg_node a nn = Some N" "gnode_input N np = f"
    and look: "look_from a m e dst rng (keys (sv_visit s)) nn np no" and rank: "no \<noteq> -1 \<Longrightarrow> rank (nn, no) < rank f"
    using search_inv_get(1)[OF inv i] by (auto simp: found_from_def)
  have rf: "rank f < card (keys (sv_visit s))" by (rule search_inv_get(2)[OF inv i])
  have nn: "no \<noteq> -1 \<Longrightarrow> 0 \<le> no"
    using look key_nonneg[OF ok inv, of "(nn, no)"] by (simp add: look_from_def)
  have "(if no = -1 then 1 else rank (nn, no) + 2) \<le> fuel" using rank rf fuel by (cases "no = -1") auto
  from trace_tail[OF ok inv f dst look rank search_inv_get(3)[OF inv i] this N(1) nn]
  obtain T mid where T: "trace_links fuel dst (sv_visit s) f (nn, no) np = Some T"
      "hd T = mk_link np no nn" "tail_ok a m e dst rng T mid"
      "\<forall>l \<in> set mid. no \<noteq> -1 \<and> rank (pos l) \<le> rank (nn, no)" by blast
  have "\<forall>l. pos l = f \<longrightarrow> linked a l (hd T)" using N T(2) by (auto simp: linked_def)
  moreover have "f \<notin> pos ` set mid" using T(4) rank by fastforce
  moreover have "T \<noteq> []" using T(3) by (auto simp: tail_ok_def)
  ultimately show ?thesis using T(1,3) by blast
qed

end
