(* ===== verification/RouteInv.thy ===== *)
theory RouteInv
  imports RouteChain
begin

text \<open>
  The invariant of the routing state: every recorded route is a legal path over the
  interconnect between the placed ends of its edge, the pass lists of the nodes and the used
  ports say the same as the routes, edges share a port only when they come from the same
  source, and no two edges enter a functional unit through the same port. \<open>loc\<close> is the placement
  the routes refer to: the mapping's own, or during \<open>mapDfgNode\<close> the one it is about to reach.
\<close>

definition operand_port :: "dfg \<Rightarrow> top_adg \<Rightarrow> gedge \<Rightarrow> int \<Rightarrow> int \<Rightarrow> bool" where
  "operand_port g a e B q \<longleftrightarrow>
     (\<exists>D dn opIdx s. adg_node a B = Some D \<and> om_has (gn_inputs D) q \<and> dfg_node g (ge_dstId e) = Some dn \<and>
        (if dn_commutative dn then 0 \<le> opIdx \<and> opIdx < dnode_numInputs dn else opIdx = ge_dstPortIdx e) \<and>
        fu_operandInputs D opIdx = Some s \<and> q \<in> set s)"

definition route_shape ::
    "top_adg \<Rightarrow> gedge \<Rightarrow> int \<Rightarrow> int \<Rightarrow> int \<Rightarrow> edgeLink list \<Rightarrow> edgeLink list \<Rightarrow> bool" where
  "route_shape a e A B q mid ls \<longleftrightarrow>
     ls = mk_link (-1) (ge_srcPortIdx e) A # mid @ [mk_link q (-1) B] \<and>
     is_fu_id a A \<and> is_fu_id a B \<and> 0 \<le> q \<and> successively (linked a) ls \<and>
     (\<forall>l \<in> set mid. crossbar a l) \<and> distinct (map pos mid)"

definition route_ok :: "dfg \<Rightarrow> top_adg \<Rightarrow> gedge \<Rightarrow> int \<Rightarrow> int \<Rightarrow> edgeLink list \<Rightarrow> bool" where
  "route_ok g a e A B ls \<longleftrightarrow> (\<exists>q mid. route_shape a e A B q mid ls \<and> operand_port g a e B q)"

type_synonym place = "int \<Rightarrow> int option"

definition routed_ok :: "dfg \<Rightarrow> top_adg \<Rightarrow> place \<Rightarrow> mapping \<Rightarrow> bool" where
  "routed_ok g a loc m \<longleftrightarrow> (\<forall>k. links m k \<noteq> [] \<longrightarrow>
     (\<exists>e A B. dfg_edge g k = Some e \<and> loc (ge_srcId e) = Some A \<and> loc (ge_dstId e) = Some B \<and>
        route_ok g a e A B (links m k)))"

definition passes_from :: "dfg \<Rightarrow> mapping \<Rightarrow> bool" where
  "passes_from g m \<longleftrightarrow> (\<forall>n. \<forall>y \<in> set (passes m n). dfg_edge g (ge_id (ep_edge y)) = Some (ep_edge y) \<and>
     mk_link (ep_srcPort y) (ep_dstPort y) n \<in> set (links m (ge_id (ep_edge y))))"

definition links_pass :: "dfg \<Rightarrow> top_adg \<Rightarrow> mapping \<Rightarrow> bool" where
  "links_pass g a m \<longleftrightarrow> (\<forall>k e. dfg_edge g k = Some e \<longrightarrow>
     (\<forall>l \<in> set (links m k). is_nonfu a (el_adgNode l) \<longrightarrow> mk_pass e l \<in> set (passes m (el_adgNode l))))"

definition compat :: "edgePass \<Rightarrow> edgePass \<Rightarrow> bool" where
  "compat x y \<longleftrightarrow>
     (ep_dstPort x = ep_dstPort y \<longrightarrow> ep_srcPort x = ep_srcPort y \<and> same_source (ep_edge x) (ep_edge y)) \<and>
     (ep_srcPort x = ep_srcPort y \<longrightarrow> same_source (ep_edge x) (ep_edge y))"

definition ports_ok :: "top_adg \<Rightarrow> mapping \<Rightarrow> bool" where
  "ports_ok a m \<longleftrightarrow> (\<forall>n. is_nonfu a n \<longrightarrow> (\<forall>x \<in> set (passes m n). \<forall>y \<in> set (passes m n). compat x y))"

definition flags_ok :: "top_adg \<Rightarrow> mapping \<Rightarrow> bool" where
  "flags_ok a m \<longleftrightarrow> (\<forall>n. is_nonfu a n \<longrightarrow>
     (\<forall>p. (inUsed m n p \<longleftrightarrow> (\<exists>y \<in> set (passes m n). ep_srcPort y = p)) \<and>
          (outUsed m n p \<longleftrightarrow> (\<exists>y \<in> set (passes m n). ep_dstPort y = p))))"

definition fu_ok :: "top_adg \<Rightarrow> mapping \<Rightarrow> bool" where
  "fu_ok a m \<longleftrightarrow> (\<forall>n. is_fu_id a n \<longrightarrow>
     (\<forall>y \<in> set (passes m n). ep_srcPort y = -1) \<and>
     (\<forall>q. q \<noteq> -1 \<longrightarrow>
        (inUsed m n q \<longleftrightarrow> (\<exists>k. mk_link q (-1) n \<in> set (links m k))) \<and>
        (\<forall>j k. mk_link q (-1) n \<in> set (links m j) \<longrightarrow> mk_link q (-1) n \<in> set (links m k) \<longrightarrow> j = k)))"

lemma fu_okD:
  assumes "fu_ok a m" "is_fu_id a n"
  shows "y \<in> set (passes m n) \<Longrightarrow> ep_srcPort y = -1"
    and "q \<noteq> -1 \<Longrightarrow> inUsed m n q \<longleftrightarrow> (\<exists>k. mk_link q (-1) n \<in> set (links m k))"
    and "q \<noteq> -1 \<Longrightarrow> mk_link q (-1) n \<in> set (links m j) \<Longrightarrow> mk_link q (-1) n \<in> set (links m k) \<Longrightarrow> j = k"
proof -
  note f = assms(1)[unfolded fu_ok_def, rule_format, OF assms(2)]
  show "y \<in> set (passes m n) \<Longrightarrow> ep_srcPort y = -1" using f by fast
  show "q \<noteq> -1 \<Longrightarrow> inUsed m n q \<longleftrightarrow> (\<exists>k. mk_link q (-1) n \<in> set (links m k))"
    by (rule conjunct2[OF f, rule_format, THEN conjunct1])
  show "q \<noteq> -1 \<Longrightarrow> mk_link q (-1) n \<in> set (links m j) \<Longrightarrow> mk_link q (-1) n \<in> set (links m k) \<Longrightarrow> j = k"
    by (rule conjunct2[OF f, rule_format, THEN conjunct2, rule_format])
qed

definition route_inv :: "dfg \<Rightarrow> top_adg \<Rightarrow> place \<Rightarrow> mapping \<Rightarrow> bool" where
  "route_inv g a loc m \<longleftrightarrow> routed_ok g a loc m \<and> passes_from g m \<and> links_pass g a m \<and> ports_ok a m \<and>
     flags_ok a m \<and> fu_ok a m"

definition edge_ids :: "dfg \<Rightarrow> bool" where
  "edge_ids g \<longleftrightarrow> (\<forall>k e. dfg_edge g k = Some e \<longrightarrow> ge_id e = k)"

lemma link_eta: "mk_link (el_srcPort l) (el_dstPort l) (el_adgNode l) = l"
  by (cases l) simp

section \<open>Reading the shape of a route\<close>

lemma same_source_refl [simp]: "same_source e e"
  by (simp add: same_source_def)

lemma same_source_sym: "same_source x y \<Longrightarrow> same_source y x"
  by (simp add: same_source_def)

lemma same_source_trans: "same_source x y \<Longrightarrow> same_source y z \<Longrightarrow> same_source x z"
  by (simp add: same_source_def)

lemma route_nonfu_link:
  assumes "route_shape a e A B q mid ls" "l \<in> set ls" "is_nonfu a (el_adgNode l)"
  shows "l \<in> set mid"
  using assms nonfu_fu by (auto simp: route_shape_def)

lemma route_fu_link:
  assumes "route_shape a e A B q mid ls" "l \<in> set ls" "is_fu_id a (el_adgNode l)"
  shows "l = mk_link (-1) (ge_srcPortIdx e) A \<or> l = mk_link q (-1) B"
  using assms nonfu_fu crossbar_nonfu by (auto simp: route_shape_def)

lemma route_fu_in:
  assumes "route_shape a e A B q mid ls" "mk_link p x n \<in> set ls" "is_fu_id a n" "p \<noteq> -1"
  shows "p = q \<and> x = -1 \<and> n = B"
  using route_fu_link[OF assms(1,2)] assms(3,4) by auto

lemma route_has_last: "route_shape a e A B q mid ls \<Longrightarrow> mk_link q (-1) B \<in> set ls"
  by (auto simp: route_shape_def)

lemma mid_ports:
  assumes "route_shape a e A B q mid ls" "l \<in> set ls" "is_nonfu a (el_adgNode l)"
  shows "0 \<le> el_srcPort l" "0 \<le> el_dstPort l"
  using route_nonfu_link[OF assms] assms(1) by (auto simp: route_shape_def crossbar_def)

lemma links_shape:
  assumes "routed_ok g a loc m" "l \<in> set (links m k)" "dfg_edge g k = Some e"
  shows "\<exists>A B q mid. loc (ge_srcId e) = Some A \<and> loc (ge_dstId e) = Some B \<and>
    route_shape a e A B q mid (links m k) \<and> operand_port g a e B q"
proof -
  have "links m k \<noteq> []" using assms(2) by auto
  then show ?thesis using assms(1,3) unfolding routed_ok_def route_ok_def by fastforce
qed

section \<open>Adding a route\<close>

definition gains :: "top_adg \<Rightarrow> gedge \<Rightarrow> edgeLink list \<Rightarrow> mapping \<Rightarrow> mapping \<Rightarrow> bool" where
  "gains a e L m m' \<longleftrightarrow> same_place m m' \<and>
     (\<forall>k. links m' k = links m k @ (if k = ge_id e then L else [])) \<and>
     (\<forall>n. set (passes m' n) \<subseteq> set (passes m n) \<union> mk_pass e ` {l \<in> set L. el_adgNode l = n}) \<and>
     (\<forall>n. is_nonfu a n \<longrightarrow>
        set (passes m n) \<union> mk_pass e ` {l \<in> set L. el_adgNode l = n} \<subseteq> set (passes m' n)) \<and>
     (\<forall>n p. is_nonfu a n \<longrightarrow>
        inUsed m' n p = (inUsed m n p \<or> (\<exists>l \<in> set L. el_adgNode l = n \<and> el_srcPort l = p))) \<and>
     (\<forall>n p. is_nonfu a n \<longrightarrow>
        outUsed m' n p = (outUsed m n p \<or> (\<exists>l \<in> set L. el_adgNode l = n \<and> el_dstPort l = p))) \<and>
     (\<forall>n y. is_fu_id a n \<longrightarrow> y \<in> set (passes m' n) \<longrightarrow> y \<in> set (passes m n) \<or> y = mk_pass e (hd L)) \<and>
     (\<forall>n p. is_fu_id a n \<longrightarrow> p \<noteq> -1 \<longrightarrow> inUsed m' n p = (inUsed m n p \<or> mk_link p (-1) n \<in> set L))"

lemma gainsD:
  assumes "gains a e L m m'"
  shows "same_place m m'"
    and "links m' k = links m k @ (if k = ge_id e then L else [])"
    and "y \<in> set (passes m' n) \<Longrightarrow> y \<in> set (passes m n) \<or> (\<exists>l \<in> set L. el_adgNode l = n \<and> y = mk_pass e l)"
    and "is_nonfu a n \<Longrightarrow> y \<in> set (passes m n) \<Longrightarrow> y \<in> set (passes m' n)"
    and "is_nonfu a n \<Longrightarrow> l \<in> set L \<Longrightarrow> el_adgNode l = n \<Longrightarrow> mk_pass e l \<in> set (passes m' n)"
    and "is_nonfu a n \<Longrightarrow> inUsed m' n p \<longleftrightarrow> inUsed m n p \<or> (\<exists>l \<in> set L. el_adgNode l = n \<and> el_srcPort l = p)"
    and "is_nonfu a n \<Longrightarrow> outUsed m' n p \<longleftrightarrow> outUsed m n p \<or> (\<exists>l \<in> set L. el_adgNode l = n \<and> el_dstPort l = p)"
    and "is_fu_id a n \<Longrightarrow> y \<in> set (passes m' n) \<Longrightarrow> y \<in> set (passes m n) \<or> y = mk_pass e (hd L)"
    and "is_fu_id a n \<Longrightarrow> p \<noteq> -1 \<Longrightarrow> inUsed m' n p \<longleftrightarrow> inUsed m n p \<or> mk_link p (-1) n \<in> set L"
proof -
  note g = assms[unfolded gains_def]
  show "same_place m m'" using g by (rule conjunct1)
  note g = g[THEN conjunct2]
  show "links m' k = links m k @ (if k = ge_id e then L else [])" using g[THEN conjunct1] by (rule spec)
  note g = g[THEN conjunct2]
  show "y \<in> set (passes m' n) \<Longrightarrow> y \<in> set (passes m n) \<or> (\<exists>l \<in> set L. el_adgNode l = n \<and> y = mk_pass e l)"
    using g[THEN conjunct1] by fast
  note g = g[THEN conjunct2]
  show "is_nonfu a n \<Longrightarrow> y \<in> set (passes m n) \<Longrightarrow> y \<in> set (passes m' n)"
    using g[THEN conjunct1] by fast
  show "is_nonfu a n \<Longrightarrow> l \<in> set L \<Longrightarrow> el_adgNode l = n \<Longrightarrow> mk_pass e l \<in> set (passes m' n)"
    using g[THEN conjunct1] by fast
  note g = g[THEN conjunct2]
  show "is_nonfu a n \<Longrightarrow> inUsed m' n p \<longleftrightarrow> inUsed m n p \<or> (\<exists>l \<in> set L. el_adgNode l = n \<and> el_srcPort l = p)"
    using g[THEN conjunct1] by (elim allE impE)
  note g = g[THEN conjunct2]
  show "is_nonfu a n \<Longrightarrow> outUsed m' n p \<longleftrightarrow> outUsed m n p \<or> (\<exists>l \<in> set L. el_adgNode l = n \<and> el_dstPort l = p)"
    using g[THEN conjunct1] by (elim allE impE)
  note g = g[THEN conjunct2]
  show "is_fu_id a n \<Longrightarrow> y \<in> set (passes m' n) \<Longrightarrow> y \<in> set (passes m n) \<or> y = mk_pass e (hd L)"
    using g[THEN conjunct1] by (elim allE impE)
  show "is_fu_id a n \<Longrightarrow> p \<noteq> -1 \<Longrightarrow> inUsed m' n p \<longleftrightarrow> inUsed m n p \<or> mk_link p (-1) n \<in> set L"
    using g[THEN conjunct2] by (elim allE impE)
qed

lemma gains_nonfu:
  assumes "gains a e L m m'" "is_nonfu a n"
  shows "y \<in> set (passes m' n) \<longleftrightarrow> y \<in> set (passes m n) \<or> (\<exists>l \<in> set L. el_adgNode l = n \<and> y = mk_pass e l)"
  using gainsD(3)[OF assms(1)] gainsD(4,5)[OF assms] by blast

lemma gains_routed:
  assumes "gains a e L m m'" "routed_ok g a loc m" "dfg_edge g (ge_id e) = Some e" "links m (ge_id e) = []"
    and "loc (ge_srcId e) = Some A" "loc (ge_dstId e) = Some B" "route_ok g a e A B L"
  shows "routed_ok g a loc m'"
  unfolding routed_ok_def
proof (intro allI impI)
  fix k assume ne: "links m' k \<noteq> []"
  show "\<exists>e A B. dfg_edge g k = Some e \<and> loc (ge_srcId e) = Some A \<and> loc (ge_dstId e) = Some B \<and>
      route_ok g a e A B (links m' k)"
  proof (cases "k = ge_id e")
    case True
    then have "links m' k = L" using gainsD(2)[OF assms(1)] assms(4) by simp
    then show ?thesis using True assms by auto
  next
    case False
    then have "links m' k = links m k" using gainsD(2)[OF assms(1)] by simp
    then show ?thesis using ne assms(2) unfolding routed_ok_def by simp
  qed
qed

lemma gains_linkD:
  assumes "gains a e L m m'"
  shows "l \<in> set (links m' k) \<longleftrightarrow> l \<in> set (links m k) \<or> k = ge_id e \<and> l \<in> set L"
  using gainsD(2)[OF assms] by simp

lemma gains_passes_from:
  assumes "gains a e L m m'" "passes_from g m" "dfg_edge g (ge_id e) = Some e"
  shows "passes_from g m'"
  unfolding passes_from_def
proof (intro allI ballI)
  fix n y assume "y \<in> set (passes m' n)"
  then show "dfg_edge g (ge_id (ep_edge y)) = Some (ep_edge y) \<and>
      mk_link (ep_srcPort y) (ep_dstPort y) n \<in> set (links m' (ge_id (ep_edge y)))"
  proof (rule gainsD(3)[OF assms(1), THEN disjE])
    assume "y \<in> set (passes m n)"
    then show ?thesis using assms(2) unfolding passes_from_def gains_linkD[OF assms(1)] by blast
  next
    assume "\<exists>l \<in> set L. el_adgNode l = n \<and> y = mk_pass e l"
    then obtain l where l: "l \<in> set L" "el_adgNode l = n" "y = mk_pass e l" by blast
    then have "mk_link (ep_srcPort y) (ep_dstPort y) n = l" using link_eta[of l] by simp
    then show ?thesis using l(1,3) assms(3) unfolding gains_linkD[OF assms(1)] by simp
  qed
qed

lemma gains_links_pass:
  assumes "gains a e L m m'" "links_pass g a m" "edge_ids g" "dfg_edge g (ge_id e) = Some e"
  shows "links_pass g a m'"
  unfolding links_pass_def
proof (intro allI impI ballI)
  fix k e' l
  assume k: "dfg_edge g k = Some e'" and l: "l \<in> set (links m' k)" and n: "is_nonfu a (el_adgNode l)"
  from l consider "l \<in> set (links m k)" | "k = ge_id e" "l \<in> set L"
    unfolding gains_linkD[OF assms(1)] by blast
  then show "mk_pass e' l \<in> set (passes m' (el_adgNode l))"
  proof cases
    case 1
    then have "mk_pass e' l \<in> set (passes m (el_adgNode l))" using k n assms(2) unfolding links_pass_def by blast
    then show ?thesis by (rule gainsD(4)[OF assms(1) n])
  next
    case 2
    then have "e' = e" using k assms(4) by simp
    then show ?thesis using gainsD(5)[OF assms(1) n 2(2) refl] by simp
  qed
qed

lemma compat_sym: "compat x y \<Longrightarrow> compat y x"
  unfolding compat_def using same_source_sym by metis

lemma gains_ports:
  assumes gain: "gains a e L m m'" and old: "ports_ok a m" and shape: "route_shape a e A B q mid L"
    and fit: "\<forall>l \<in> set mid. fits m e l"
  shows "ports_ok a m'"
  unfolding ports_ok_def
proof (intro allI impI ballI)
  fix n x y
  assume n: "is_nonfu a n" and x: "x \<in> set (passes m' n)" and y: "y \<in> set (passes m' n)"
  have new_old: "compat z (mk_pass e l)" if "z \<in> set (passes m n)" "l \<in> set L" "el_adgNode l = n" for z l
  proof -
    have "l \<in> set mid" using route_nonfu_link[OF shape that(2)] that(3) n by simp
    then show ?thesis using fit that by (auto simp: fits_def compat_def)
  qed
  have new_new: "compat (mk_pass e l) (mk_pass e l')"
    if "l \<in> set L" "el_adgNode l = n" "l' \<in> set L" "el_adgNode l' = n" for l l'
  proof -
    have mem: "l \<in> set mid" "l' \<in> set mid" using route_nonfu_link[OF shape] that n by auto
    have "inj_on pos (set mid)" using shape by (simp add: route_shape_def distinct_map)
    then have "pos l = pos l' \<Longrightarrow> l = l'" using mem by (auto dest: inj_onD)
    then show ?thesis using that by (auto simp: compat_def pos_def)
  qed
  show "compat x y"
    using x y old n new_old new_new compat_sym
    unfolding gains_nonfu[OF gain n] ports_ok_def by blast
qed

lemma gains_flags:
  assumes gain: "gains a e L m m'" and old: "flags_ok a m"
  shows "flags_ok a m'"
  unfolding flags_ok_def
proof (intro allI impI conjI)
  fix n p assume n: "is_nonfu a n"
  have i: "inUsed m n p \<longleftrightarrow> (\<exists>y \<in> set (passes m n). ep_srcPort y = p)"
    and o': "outUsed m n p \<longleftrightarrow> (\<exists>y \<in> set (passes m n). ep_dstPort y = p)"
    using old n unfolding flags_ok_def by blast+
  show "inUsed m' n p \<longleftrightarrow> (\<exists>y \<in> set (passes m' n). ep_srcPort y = p)"
    unfolding gainsD(6)[OF gain n] i Bex_def gains_nonfu[OF gain n] by auto
  show "outUsed m' n p \<longleftrightarrow> (\<exists>y \<in> set (passes m' n). ep_dstPort y = p)"
    unfolding gainsD(7)[OF gain n] o' Bex_def gains_nonfu[OF gain n] by auto
qed

lemma gains_fu:
  assumes gain: "gains a e L m m'" and old: "fu_ok a m" and shape: "route_shape a e A B q mid L"
    and free: "\<not> inUsed m B q" and e: "links m (ge_id e) = []"
  shows "fu_ok a m'"
  unfolding fu_ok_def
proof (intro allI impI conjI ballI)
  fix n y assume n: "is_fu_id a n" and "y \<in> set (passes m' n)"
  then have "y \<in> set (passes m n) \<or> y = mk_pass e (hd L)" using gainsD(8)[OF gain] by blast
  then show "ep_srcPort y = -1" using fu_okD(1)[OF old n] shape by (auto simp: route_shape_def)
next
  fix n p :: int assume n: "is_fu_id a n" and p: "p \<noteq> -1"
  have "inUsed m n p \<longleftrightarrow> (\<exists>k. mk_link p (-1) n \<in> set (links m k))"
    by (rule fu_okD(2)[OF old n p])
  then show "inUsed m' n p \<longleftrightarrow> (\<exists>k. mk_link p (-1) n \<in> set (links m' k))"
    unfolding gainsD(9)[OF gain n p] gains_linkD[OF gain] by blast
next
  fix n p j k :: int
  assume n: "is_fu_id a n" and p: "p \<noteq> -1" and j: "mk_link p (-1) n \<in> set (links m' j)"
    and k: "mk_link p (-1) n \<in> set (links m' k)"
  have used: "inUsed m n p" if "mk_link p (-1) n \<in> set (links m i)" for i
    using fu_okD(2)[OF old n p] that by blast
  have new: "\<not> inUsed m n p" if "mk_link p (-1) n \<in> set L"
    using route_fu_in[OF shape that n p] free by simp
  have same: "mk_link p (-1) n \<in> set (links m i) \<Longrightarrow> mk_link p (-1) n \<in> set (links m i') \<Longrightarrow> i = i'" for i i'
    by (rule fu_okD(3)[OF old n p])
  show "j = k"
  proof (cases "mk_link p (-1) n \<in> set L")
    case True
    then have "\<not> inUsed m n p" by (rule new)
    then show ?thesis using j k used unfolding gains_linkD[OF gain] by blast
  next
    case False
    then show ?thesis using j k same unfolding gains_linkD[OF gain] by blast
  qed
qed

lemma add_route:
  assumes inv: "route_inv g a loc m" and ids: "edge_ids g"
    and e: "dfg_edge g (ge_id e) = Some e" "links m (ge_id e) = []"
    and A: "loc (ge_srcId e) = Some A" and B: "loc (ge_dstId e) = Some B"
    and shape: "route_shape a e A B q mid L" and op: "operand_port g a e B q"
    and gain: "gains a e L m m'" and fit: "\<forall>l \<in> set mid. fits m e l" and free: "\<not> inUsed m B q"
  shows "route_inv g a loc m'"
proof -
  have "route_ok g a e A B L" using shape op unfolding route_ok_def by blast
  then show ?thesis
    using inv gains_routed[OF gain _ e A B] gains_passes_from[OF gain _ e(1)] gains_links_pass[OF gain _ ids e(1)]
      gains_ports[OF gain _ shape fit] gains_flags[OF gain] gains_fu[OF gain _ shape free e(2)]
    unfolding route_inv_def by blast
qed

section \<open>Removing a route\<close>

lemma unroute_links_views:
  shows "links (foldl (unroute_link e) m L) k = links m k"
    and "same_place m (foldl (unroute_link e) m L)"
    and "passes (foldl (unroute_link e) m L) n =
      (if \<exists>l \<in> set L. el_adgNode l = n then filter (\<lambda>x. ep_edge x \<noteq> e) (passes m n) else passes m n)"
proof -
  show "links (foldl (unroute_link e) m L) k = links m k"
    by (induction L arbitrary: m) (simp_all add: unroute_link_views)
  show "same_place m (foldl (unroute_link e) m L)"
    by (rule same_place_foldl) (rule unroute_link_views)
  show "passes (foldl (unroute_link e) m L) n =
      (if \<exists>l \<in> set L. el_adgNode l = n then filter (\<lambda>x. ep_edge x \<noteq> e) (passes m n) else passes m n)"
    by (induction L arbitrary: m) (simp_all add: unroute_link_views)
qed

lemma unroute_links_flags:
  shows "inUsed (foldl (unroute_link e) m L) n p \<longleftrightarrow> inUsed m n p \<and>
      \<not> (p \<noteq> -1 \<and> (\<exists>l \<in> set L. el_adgNode l = n \<and> el_srcPort l = p) \<and>
         (\<forall>x \<in> set (passes m n). ep_srcPort x = p \<longrightarrow> ep_edge x = e))"
    and "outUsed (foldl (unroute_link e) m L) n p \<longleftrightarrow> outUsed m n p \<and>
      \<not> (p \<noteq> -1 \<and> (\<exists>l \<in> set L. el_adgNode l = n \<and> el_dstPort l = p) \<and>
         (\<forall>x \<in> set (passes m n). ep_dstPort x = p \<longrightarrow> ep_edge x = e))"
proof -
  have same: "(\<forall>x \<in> set (passes (unroute_link e m l) n). f x = p \<longrightarrow> ep_edge x = e) \<longleftrightarrow>
      (\<forall>x \<in> set (passes m n). f x = p \<longrightarrow> ep_edge x = e)" for f :: "edgePass \<Rightarrow> int" and m l
    by (auto simp: unroute_link_views(2))
  show "inUsed (foldl (unroute_link e) m L) n p \<longleftrightarrow> inUsed m n p \<and>
      \<not> (p \<noteq> -1 \<and> (\<exists>l \<in> set L. el_adgNode l = n \<and> el_srcPort l = p) \<and>
         (\<forall>x \<in> set (passes m n). ep_srcPort x = p \<longrightarrow> ep_edge x = e))"
  proof (induction L arbitrary: m)
    case (Cons l L)
    show ?case unfolding foldl_Cons Cons.IH same unroute_link_views(3) by auto
  qed simp
  show "outUsed (foldl (unroute_link e) m L) n p \<longleftrightarrow> outUsed m n p \<and>
      \<not> (p \<noteq> -1 \<and> (\<exists>l \<in> set L. el_adgNode l = n \<and> el_dstPort l = p) \<and>
         (\<forall>x \<in> set (passes m n). ep_dstPort x = p \<longrightarrow> ep_edge x = e))"
  proof (induction L arbitrary: m)
    case (Cons l L)
    show ?case unfolding foldl_Cons Cons.IH same unroute_link_views(4) by auto
  qed simp
qed

lemma del_edgeAttr_views [simp]:
  "ea_edgeLinks (om_at no_edge (om_del E j) k) = (if k = j then [] else ea_edgeLinks (om_at no_edge E k))"
  "passes (m\<lparr>mp_dfgEdgeAttr := A\<rparr>) n = passes m n"
  "inUsed (m\<lparr>mp_dfgEdgeAttr := A\<rparr>) = inUsed m" "outUsed (m\<lparr>mp_dfgEdgeAttr := A\<rparr>) = outUsed m"
  "same_place m (m\<lparr>mp_dfgEdgeAttr := A\<rparr>)"
  by (auto simp: om_at_def no_edge_def same_place_def views fun_eq_iff)

text \<open>What \<open>unrouteDfgEdge\<close> leaves, when pass lists only mention edges that are routed there.\<close>

lemma unroute_views:
  assumes pf: "passes_from g m"
  shows "links (unrouteDfgEdge e m) k = (if k = ge_id e then [] else links m k)"
    and "same_place m (unrouteDfgEdge e m)"
    and "passes (unrouteDfgEdge e m) n = filter (\<lambda>x. ep_edge x \<noteq> e) (passes m n)"
    and "inUsed (unrouteDfgEdge e m) n p \<longleftrightarrow> inUsed m n p \<and>
      \<not> (p \<noteq> -1 \<and> (\<exists>l \<in> set (links m (ge_id e)). el_adgNode l = n \<and> el_srcPort l = p) \<and>
         (\<forall>x \<in> set (passes m n). ep_srcPort x = p \<longrightarrow> ep_edge x = e))"
    and "outUsed (unrouteDfgEdge e m) n p \<longleftrightarrow> outUsed m n p \<and>
      \<not> (p \<noteq> -1 \<and> (\<exists>l \<in> set (links m (ge_id e)). el_adgNode l = n \<and> el_dstPort l = p) \<and>
         (\<forall>x \<in> set (passes m n). ep_dstPort x = p \<longrightarrow> ep_edge x = e))"
proof -
  have none: "om_get (mp_dfgEdgeAttr m) (ge_id e) = None \<Longrightarrow> links m (ge_id e) = []"
    by (simp add: om_at_def no_edge_def)
  have some: "om_get (mp_dfgEdgeAttr m) (ge_id e) = Some A \<Longrightarrow> ea_edgeLinks A = links m (ge_id e)" for A
    by (simp add: om_at_def)
  have mem: "\<exists>l \<in> set (links m (ge_id e)). el_adgNode l = n" if "x \<in> set (passes m n)" "ep_edge x = e" for x
    using pf that unfolding passes_from_def by (metis edgeLink.select_convs(3))
  have filt: "filter (\<lambda>x. ep_edge x \<noteq> e) (passes m n) = passes m n"
    if "\<not> (\<exists>l \<in> set (links m (ge_id e)). el_adgNode l = n)"
    using mem that by (auto intro!: filter_True)
  show "links (unrouteDfgEdge e m) k = (if k = ge_id e then [] else links m k)"
    using none by (auto simp: unrouteDfgEdge_def Let_def unroute_links_views split: option.splits)
  show "same_place m (unrouteDfgEdge e m)"
  proof (cases "om_get (mp_dfgEdgeAttr m) (ge_id e)")
    case (Some A)
    show ?thesis
      unfolding unrouteDfgEdge_def Some option.case Let_def
      by (rule same_place_trans[OF unroute_links_views(2) del_edgeAttr_views(5)])
  qed (simp add: unrouteDfgEdge_def)
  show "passes (unrouteDfgEdge e m) n = filter (\<lambda>x. ep_edge x \<noteq> e) (passes m n)"
    using none some filt by (auto simp: unrouteDfgEdge_def Let_def unroute_links_views split: option.splits)
  show "inUsed (unrouteDfgEdge e m) n p \<longleftrightarrow> inUsed m n p \<and>
      \<not> (p \<noteq> -1 \<and> (\<exists>l \<in> set (links m (ge_id e)). el_adgNode l = n \<and> el_srcPort l = p) \<and>
         (\<forall>x \<in> set (passes m n). ep_srcPort x = p \<longrightarrow> ep_edge x = e))"
    by (cases "om_get (mp_dfgEdgeAttr m) (ge_id e)")
      (simp_all add: unrouteDfgEdge_def Let_def unroute_links_flags none some)
  show "outUsed (unrouteDfgEdge e m) n p \<longleftrightarrow> outUsed m n p \<and>
      \<not> (p \<noteq> -1 \<and> (\<exists>l \<in> set (links m (ge_id e)). el_adgNode l = n \<and> el_dstPort l = p) \<and>
         (\<forall>x \<in> set (passes m n). ep_dstPort x = p \<longrightarrow> ep_edge x = e))"
    by (cases "om_get (mp_dfgEdgeAttr m) (ge_id e)")
      (simp_all add: unrouteDfgEdge_def Let_def unroute_links_flags none some)
qed

lemma del_routed:
  assumes pf: "passes_from g m" and old: "routed_ok g a loc m"
  shows "routed_ok g a loc (unrouteDfgEdge e m)"
  using old unfolding routed_ok_def unroute_views(1)[OF pf] by simp

lemma del_passes_from:
  assumes pf: "passes_from g m" and e: "dfg_edge g (ge_id e) = Some e"
  shows "passes_from g (unrouteDfgEdge e m)"
proof -
  have "ge_id (ep_edge y) \<noteq> ge_id e" if "y \<in> set (passes m n)" "ep_edge y \<noteq> e" for y n
    using pf e that unfolding passes_from_def by (metis option.inject)
  then show ?thesis
    using pf unfolding passes_from_def unroute_views(1)[OF pf] unroute_views(3)[OF pf]
    by (auto split: if_splits)
qed

lemma del_links_pass:
  assumes pf: "passes_from g m" and old: "links_pass g a m" and ids: "edge_ids g"
  shows "links_pass g a (unrouteDfgEdge e m)"
  using old ids unfolding links_pass_def edge_ids_def unroute_views(1)[OF pf] unroute_views(3)[OF pf]
  by auto

lemma del_ports:
  assumes pf: "passes_from g m" and old: "ports_ok a m"
  shows "ports_ok a (unrouteDfgEdge e m)"
  using old unfolding ports_ok_def unroute_views(3)[OF pf] by simp

text \<open>A flag that stays on is kept by an edge that remains.\<close>

lemma kept_flag:
  assumes some: "b \<longleftrightarrow> (\<exists>y \<in> Y. f y = p)"
    and mine: "\<And>y. y \<in> Y \<Longrightarrow> f y = p \<Longrightarrow> ep_edge y = e \<Longrightarrow> C"
  shows "b \<and> \<not> (C \<and> (\<forall>x \<in> Y. f x = p \<longrightarrow> ep_edge x = e)) \<longleftrightarrow> (\<exists>y \<in> {y \<in> Y. ep_edge y \<noteq> e}. f y = p)"
  using assms by blast

lemma del_flags:
  assumes pf: "passes_from g m" and old: "flags_ok a m" and r: "routed_ok g a loc m"
  shows "flags_ok a (unrouteDfgEdge e m)"
  unfolding flags_ok_def
proof (intro allI impI conjI)
  fix n p assume n: "is_nonfu a n"
  have i: "inUsed m n p \<longleftrightarrow> (\<exists>y \<in> set (passes m n). ep_srcPort y = p)"
    and o': "outUsed m n p \<longleftrightarrow> (\<exists>y \<in> set (passes m n). ep_dstPort y = p)"
    using old n unfolding flags_ok_def by blast+
  have mine: "0 \<le> ep_srcPort y \<and> 0 \<le> ep_dstPort y \<and>
      mk_link (ep_srcPort y) (ep_dstPort y) n \<in> set (links m (ge_id e))"
    if y: "y \<in> set (passes m n)" "ep_edge y = e" for y
  proof -
    let ?l = "mk_link (ep_srcPort y) (ep_dstPort y) n"
    have l: "dfg_edge g (ge_id e) = Some e" "?l \<in> set (links m (ge_id e))"
      using pf y unfolding passes_from_def by blast+
    obtain A B q mid where "route_shape a e A B q mid (links m (ge_id e))"
      using links_shape[OF r l(2,1)] by blast
    from mid_ports[OF this l(2)] n l(2) show ?thesis by simp
  qed
  have "inUsed (unrouteDfgEdge e m) n p \<longleftrightarrow> (\<exists>y \<in> {y \<in> set (passes m n). ep_edge y \<noteq> e}. ep_srcPort y = p)"
    unfolding unroute_views(4)[OF pf] conj_assoc[symmetric]
  proof (rule kept_flag[OF i])
    fix y assume "y \<in> set (passes m n)" "ep_srcPort y = p" "ep_edge y = e"
    with mine[of y] show "p \<noteq> -1 \<and> (\<exists>l \<in> set (links m (ge_id e)). el_adgNode l = n \<and> el_srcPort l = p)"
      by (intro conjI bexI[of _ "mk_link (ep_srcPort y) (ep_dstPort y) n"]) auto
  qed
  then show "inUsed (unrouteDfgEdge e m) n p \<longleftrightarrow> (\<exists>y \<in> set (passes (unrouteDfgEdge e m) n). ep_srcPort y = p)"
    unfolding unroute_views(3)[OF pf] by simp
  have "outUsed (unrouteDfgEdge e m) n p \<longleftrightarrow> (\<exists>y \<in> {y \<in> set (passes m n). ep_edge y \<noteq> e}. ep_dstPort y = p)"
    unfolding unroute_views(5)[OF pf] conj_assoc[symmetric]
  proof (rule kept_flag[OF o'])
    fix y assume "y \<in> set (passes m n)" "ep_dstPort y = p" "ep_edge y = e"
    with mine[of y] show "p \<noteq> -1 \<and> (\<exists>l \<in> set (links m (ge_id e)). el_adgNode l = n \<and> el_dstPort l = p)"
      by (intro conjI bexI[of _ "mk_link (ep_srcPort y) (ep_dstPort y) n"]) auto
  qed
  then show "outUsed (unrouteDfgEdge e m) n p \<longleftrightarrow> (\<exists>y \<in> set (passes (unrouteDfgEdge e m) n). ep_dstPort y = p)"
    unfolding unroute_views(3)[OF pf] by simp
qed

lemma del_fu:
  assumes pf: "passes_from g m" and old: "fu_ok a m" and r: "routed_ok g a loc m"
    and e: "dfg_edge g (ge_id e) = Some e"
  shows "fu_ok a (unrouteDfgEdge e m)"
  unfolding fu_ok_def
proof (intro allI impI conjI ballI)
  fix n y assume "is_fu_id a n" "y \<in> set (passes (unrouteDfgEdge e m) n)"
  then show "ep_srcPort y = -1" using fu_okD(1)[OF old] by (simp add: unroute_views(3)[OF pf])
next
  fix n p :: int assume n: "is_fu_id a n" and p: "p \<noteq> -1"
  have mine: "(\<exists>l \<in> set (links m (ge_id e)). el_adgNode l = n \<and> el_srcPort l = p) \<longleftrightarrow>
      mk_link p (-1) n \<in> set (links m (ge_id e))"
  proof
    assume "\<exists>l \<in> set (links m (ge_id e)). el_adgNode l = n \<and> el_srcPort l = p"
    then obtain x where l: "mk_link p x n \<in> set (links m (ge_id e))" by (metis link_eta)
    obtain A B q mid where "route_shape a e A B q mid (links m (ge_id e))"
      using links_shape[OF r l e] by blast
    from route_fu_in[OF this l n p] l show "mk_link p (-1) n \<in> set (links m (ge_id e))" by simp
  qed force
  have vac: "\<forall>x \<in> set (passes m n). ep_srcPort x = p \<longrightarrow> ep_edge x = e"
    using fu_okD(1)[OF old n] p by blast
  show "inUsed (unrouteDfgEdge e m) n p \<longleftrightarrow> (\<exists>k. mk_link p (-1) n \<in> set (links (unrouteDfgEdge e m) k))"
    unfolding unroute_views(4)[OF pf] unroute_views(1)[OF pf] mine
      fu_okD(2)[OF old n p]
  proof
    assume "(\<exists>k. mk_link p (-1) n \<in> set (links m k)) \<and> \<not> (p \<noteq> -1 \<and>
        mk_link p (-1) n \<in> set (links m (ge_id e)) \<and> (\<forall>x \<in> set (passes m n). ep_srcPort x = p \<longrightarrow> ep_edge x = e))"
    then obtain k where k: "mk_link p (-1) n \<in> set (links m k)" "mk_link p (-1) n \<notin> set (links m (ge_id e))"
      using vac p by blast
    then have "k \<noteq> ge_id e" by blast
    then show "\<exists>k. mk_link p (-1) n \<in> set (if k = ge_id e then [] else links m k)" using k by auto
  next
    assume "\<exists>k. mk_link p (-1) n \<in> set (if k = ge_id e then [] else links m k)"
    then obtain k where k: "k \<noteq> ge_id e" "mk_link p (-1) n \<in> set (links m k)" by (auto split: if_splits)
    then have "mk_link p (-1) n \<notin> set (links m (ge_id e))" using fu_okD(3)[OF old n p] by blast
    then show "(\<exists>k. mk_link p (-1) n \<in> set (links m k)) \<and> \<not> (p \<noteq> -1 \<and>
        mk_link p (-1) n \<in> set (links m (ge_id e)) \<and> (\<forall>x \<in> set (passes m n). ep_srcPort x = p \<longrightarrow> ep_edge x = e))"
      using k by blast
  qed
next
  fix n p j k :: int
  assume n: "is_fu_id a n" and p: "p \<noteq> -1"
    and "mk_link p (-1) n \<in> set (links (unrouteDfgEdge e m) j)" "mk_link p (-1) n \<in> set (links (unrouteDfgEdge e m) k)"
  then show "j = k" using fu_okD(3)[OF old n p] unfolding unroute_views(1)[OF pf] by (auto split: if_splits)
qed

lemma del_route:
  assumes inv: "route_inv g a loc m" and ids: "edge_ids g" and e: "dfg_edge g (ge_id e) = Some e"
  shows "route_inv g a loc (unrouteDfgEdge e m)"
proof -
  have r: "routed_ok g a loc m" and pf: "passes_from g m" and lp: "links_pass g a m"
    and po: "ports_ok a m" and fl: "flags_ok a m" and fu: "fu_ok a m"
    using inv unfolding route_inv_def by simp_all
  show ?thesis
    unfolding route_inv_def
    by (intro conjI del_routed[OF pf r] del_passes_from[OF pf e] del_links_pass[OF pf lp ids]
        del_ports[OF pf po] del_flags[OF pf fl r] del_fu[OF pf fu r e])
qed

end
