(* ===== verification/RouteEdge.thy ===== *)
theory RouteEdge
  imports RouteInv
begin

text \<open>
  Routing one edge: \<open>routeDfgEdgeFromDst\<close> and \<open>routeDfgEdge\<close> return on every well-formed ADG and
  reachable routing state, add a legal route when they report success and change nothing when
  they do not.
\<close>

section \<open>A route found from scratch\<close>

lemma gains_fresh:
  assumes shape: "route_shape a e A B q mid L" and f: "f = (A, ge_srcPortIdx e)" "snd f \<noteq> -1"
  shows "gains a e L m (foldl (commit_link e B f) m L)"
proof -
  let ?m = "foldl (commit_link e B f) m L"
  have AB: "is_fu_id a A" "is_fu_id a B" using shape by (simp_all add: route_shape_def)
  have nf: "(n, p) \<noteq> f" "n \<noteq> B" if "is_nonfu a n" for n p using that nonfu_fu[OF that] AB f by auto
  show ?thesis
    unfolding gains_def
  proof (intro conjI allI impI)
    show "same_place m ?m" by (rule same_place_foldl) simp
    show "links ?m k = links m k @ (if k = ge_id e then L else [])" for k
      by (rule commit_links_views)
    show "set (passes ?m n) \<subseteq> set (passes m n) \<union> mk_pass e ` {l \<in> set L. el_adgNode l = n}" for n
      unfolding commit_links_views by auto
    show "set (passes m n) \<union> mk_pass e ` {l \<in> set L. el_adgNode l = n} \<subseteq> set (passes ?m n)"
      if "is_nonfu a n" for n
      unfolding commit_links_views using nf[OF that] by auto
    show "inUsed ?m n p = (inUsed m n p \<or> (\<exists>l \<in> set L. el_adgNode l = n \<and> el_srcPort l = p))"
      if "is_nonfu a n" for n p
      unfolding commit_links_views using nf[OF that] by auto
    show "outUsed ?m n p = (outUsed m n p \<or> (\<exists>l \<in> set L. el_adgNode l = n \<and> el_dstPort l = p))"
      if "is_nonfu a n" for n p
      unfolding commit_links_views using nf[OF that] by auto
    show "y \<in> set (passes m n) \<or> y = mk_pass e (hd L)"
      if n: "is_fu_id a n" and y: "y \<in> set (passes ?m n)" for n y
    proof -
      have "(el_adgNode l, el_dstPort l) = f \<or> el_adgNode l = B" if "l \<in> set L" "el_adgNode l = n" for l
        using route_fu_link[OF shape that(1)] that(2) n f by auto
      then show ?thesis using y unfolding commit_links_views by auto
    qed
    show "inUsed ?m n p = (inUsed m n p \<or> mk_link p (-1) n \<in> set L)"
      if n: "is_fu_id a n" and p: "p \<noteq> -1" for n p
    proof -
      have "(\<exists>l \<in> set L. el_adgNode l = n \<and> el_srcPort l = p \<and> (el_adgNode l, el_dstPort l) \<noteq> f) \<longleftrightarrow>
          mk_link p (-1) n \<in> set L"
      proof
        assume "\<exists>l \<in> set L. el_adgNode l = n \<and> el_srcPort l = p \<and> (el_adgNode l, el_dstPort l) \<noteq> f"
        then obtain l where "l \<in> set L" "el_adgNode l = n" "el_srcPort l = p" by blast
        then have l: "mk_link p (el_dstPort l) n \<in> set L" by (metis link_eta)
        from route_fu_in[OF shape l n p] l show "mk_link p (-1) n \<in> set L" by simp
      next
        assume "mk_link p (-1) n \<in> set L"
        then show "\<exists>l \<in> set L. el_adgNode l = n \<and> el_srcPort l = p \<and> (el_adgNode l, el_dstPort l) \<noteq> f"
          using f(2) by (intro bexI[of _ "mk_link p (-1) n"]) auto
      qed
      then show ?thesis unfolding commit_links_views by blast
    qed
  qed
qed

section \<open>A route that starts on another edge's\<close>

lemma reuse_prefix_split:
  "\<exists>l \<in> set ls. pos l = f \<Longrightarrow> \<exists>ys l zs. ls = ys @ l # zs \<and> pos l = f \<and> reuse_prefix f ls = ys @ [l]"
proof (induction ls)
  case (Cons x ls)
  show ?case
  proof (cases "pos x = f")
    case True
    then show ?thesis by (intro exI[of _ "[]"]) (auto simp: pos_def)
  next
    case False
    with Cons obtain ys l zs where "ls = ys @ l # zs" "pos l = f" "reuse_prefix f ls = ys @ [l]" by auto
    with False show ?thesis by (intro exI[of _ "x # ys"]) (auto simp: pos_def)
  qed
qed simp

lemma reuse_shape:
  assumes shape: "route_shape a x A B' q' midx ls" and l: "l \<in> set ls" "pos l = f" "is_nonfu a (fst f)"
  shows "\<exists>ys k zs. midx = ys @ k # zs \<and> pos k = f \<and>
    reuse_prefix f ls = mk_link (-1) (ge_srcPortIdx x) A # ys @ [k]"
proof -
  obtain us k vs where k: "ls = us @ k # vs" "pos k = f" "reuse_prefix f ls = us @ [k]"
    using reuse_prefix_split[of ls f] l by blast
  have ends: "A \<noteq> fst f" "B' \<noteq> fst f"
    using shape l(3) nonfu_fu[OF l(3)] by (auto simp: route_shape_def)
  have ls: "ls = mk_link (-1) (ge_srcPortIdx x) A # midx @ [mk_link q' (-1) B']"
    using shape by (simp add: route_shape_def)
  have nk: "k \<noteq> mk_link (-1) (ge_srcPortIdx x) A" "k \<noteq> mk_link q' (-1) B'"
    using ends k(2) by (auto simp: pos_def)
  obtain ys where us: "us = mk_link (-1) (ge_srcPortIdx x) A # ys"
    using ls k(1) nk(1) by (cases us) auto
  have "midx @ [mk_link q' (-1) B'] = ys @ k # vs" using ls k(1) us by simp
  moreover have "vs \<noteq> []" using calculation nk(2) by auto
  ultimately have "midx = ys @ k # butlast vs"
    by (metis butlast_append butlast_snoc butlast.simps(2) list.distinct(1))
  then show ?thesis using k us by auto
qed

lemma gains_reuse:
  assumes shape: "route_shape a e A B q (rs @ mid) (R @ T)"
    and R: "R = mk_link (-1) (ge_srcPortIdx e) A # rs" and T: "T = mid @ [mk_link q (-1) B]"
    and f: "is_nonfu a (fst f)" "f \<notin> pos ` set mid"
    and old: "\<forall>l \<in> set rs. inUsed m (el_adgNode l) (el_srcPort l) \<and> outUsed m (el_adgNode l) (el_dstPort l)"
  shows "gains a e (R @ T) m (foldl (commit_link e B f) (foldl (reuse_link e) m R) T)"
proof -
  let ?m = "foldl (commit_link e B f) (foldl (reuse_link e) m R) T"
  have AB: "is_fu_id a A" "is_fu_id a B" using shape by (simp_all add: route_shape_def)
  have nB: "n \<noteq> B" "n \<noteq> A" if "is_nonfu a n" for n using nonfu_fu[OF that] AB by auto
  have pT: "(el_adgNode l, el_dstPort l) \<noteq> f" if "l \<in> set T" for l
    using that f T nB[OF f(1)] by (auto simp: pos_def)
  have mids: "is_nonfu a (el_adgNode l)" if "l \<in> set rs \<union> set mid" for l
    using that shape crossbar_nonfu by (auto simp: route_shape_def)
  show ?thesis
    unfolding gains_def
  proof (intro conjI allI impI)
    show "same_place m ?m"
      by (rule same_place_trans[OF same_place_foldl same_place_foldl]) simp_all
    show "links ?m k = links m k @ (if k = ge_id e then R @ T else [])" for k
      unfolding commit_links_views reuse_links_views by simp
    show "set (passes ?m n) \<subseteq> set (passes m n) \<union> mk_pass e ` {l \<in> set (R @ T). el_adgNode l = n}" for n
      unfolding commit_links_views reuse_links_views by auto
    show "set (passes m n) \<union> mk_pass e ` {l \<in> set (R @ T). el_adgNode l = n} \<subseteq> set (passes ?m n)"
      if "is_nonfu a n" for n
      unfolding commit_links_views reuse_links_views using nB[OF that] pT by auto
    show "inUsed ?m n p = (inUsed m n p \<or> (\<exists>l \<in> set (R @ T). el_adgNode l = n \<and> el_srcPort l = p))"
      if n: "is_nonfu a n" for n p
      unfolding commit_links_views reuse_links_views using nB[OF n] pT old R by auto
    show "outUsed ?m n p = (outUsed m n p \<or> (\<exists>l \<in> set (R @ T). el_adgNode l = n \<and> el_dstPort l = p))"
      if n: "is_nonfu a n" for n p
      unfolding commit_links_views reuse_links_views using nB[OF n] pT old R by auto
    show "y \<in> set (passes m n) \<or> y = mk_pass e (hd (R @ T))"
      if n: "is_fu_id a n" and y: "y \<in> set (passes ?m n)" for n y
    proof -
      have no: "el_adgNode l \<noteq> n" if "l \<in> set rs \<union> set mid" for l
        using mids[OF that] n nonfu_fu by blast
      from y no show ?thesis unfolding commit_links_views reuse_links_views R T by (auto split: if_splits)
    qed
    show "inUsed ?m n p = (inUsed m n p \<or> mk_link p (-1) n \<in> set (R @ T))"
      if n: "is_fu_id a n" and p: "p \<noteq> -1" for n p
    proof -
      have no: "el_adgNode l \<noteq> n" if "l \<in> set rs \<union> set mid" for l
        using mids[OF that] n nonfu_fu by blast
      have last: "(\<exists>l \<in> set T. el_adgNode l = n \<and> el_srcPort l = p \<and> (el_adgNode l, el_dstPort l) \<noteq> f) \<longleftrightarrow>
          B = n \<and> q = p"
        using no pT unfolding T by auto
      have "mk_link p (-1) n \<in> set (R @ T) \<longleftrightarrow> B = n \<and> q = p"
        using no p unfolding R T by (auto dest: no[OF UnI1] no[OF UnI2])
      then show ?thesis unfolding commit_links_views reuse_links_views last by blast
    qed
  qed
qed

section \<open>One edge\<close>

lemma fits_reused:
  assumes inv: "route_inv g a loc m" and x: "dfg_edge g (ge_id x) = Some x" "same_source x e"
    and l: "l \<in> set (links m (ge_id x))" "is_nonfu a (el_adgNode l)"
  shows "fits m e l" "inUsed m (el_adgNode l) (el_srcPort l)" "outUsed m (el_adgNode l) (el_dstPort l)"
    "\<not> clean a m (pos l)"
proof -
  have p: "mk_pass x l \<in> set (passes m (el_adgNode l))"
    using inv x l unfolding route_inv_def links_pass_def by blast
  have "compat y (mk_pass x l)" if "y \<in> set (passes m (el_adgNode l))" for y
    using inv l(2) p that unfolding route_inv_def ports_ok_def by blast
  then show "fits m e l"
    using x(2) same_source_trans by (fastforce simp: fits_def compat_def)
  have fl: "flags_ok a m" using inv by (simp add: route_inv_def)
  show "inUsed m (el_adgNode l) (el_srcPort l)" "outUsed m (el_adgNode l) (el_dstPort l)"
    using fl l(2) p unfolding flags_ok_def by force+
  show "\<not> clean a m (pos l)" using p by (force simp: clean_def pos_def)
qed

definition good_route ::
    "dfg \<Rightarrow> top_adg \<Rightarrow> gedge \<Rightarrow> int \<Rightarrow> int \<Rightarrow> int oset \<Rightarrow> mapping \<Rightarrow> mapping \<Rightarrow> bool" where
  "good_route g a e A B rng m m' \<longleftrightarrow> (\<exists>q mid L. q \<in> set rng \<and> route_shape a e A B q mid L \<and>
     gains a e L m m' \<and> (\<forall>l \<in> set mid. fits m e l))"

lemma trace_links_mono:
  "trace_links fuel dst visit f rn sp = Some T \<Longrightarrow> trace_links (Suc fuel) dst visit f rn sp = Some T"
proof (induction fuel arbitrary: rn sp T)
  case (Suc fuel)
  obtain nn np no where i: "om_at (0, 0, 0) visit rn = (nn, np, no)" by (metis prod_cases3)
  show ?case
    using Suc.prems Suc.IH[of "(nn, no)" np] unfolding trace_links.simps(2)[of "Suc fuel"] Let_def i
    by (auto simp: i split: if_splits)
qed simp

lemma commit_ok:
  assumes ok: "adg_ok a" and inv: "route_inv g a loc m" and e: "links m (ge_id e) = []"
    and A: "loc (ge_srcId e) = Some A" "is_fu_id a A" and B: "is_fu_id a B"
    and D: "adg_node a B = Some D" "\<forall>p \<in> set rng. om_has (gn_inputs D) p"
    and s: "search_inv a m e A B rng rank s" "sv_final s = Some f"
  shows "\<exists>m'. fromDst_commit (adg_fuel a) e B s f m = Some m' \<and> good_route g a e A B rng m m'"
proof -
  have V: "f \<in> keys (sv_visit s)" and fo: "final_ok a m e A f (sv_same s)" using s by (auto simp: search_inv_def)
  obtain nn np no where i: "om_get (sv_visit s) f = Some (nn, np, no)" using keys_get[OF V] by (metis prod_cases3)
  obtain fu where fu: "adg_fuel a = Suc fu" by (simp add: adg_fuel_def)
  have "card (keys (sv_visit s)) \<le> card (drivers a)" using s(1) by (intro card_mono) (auto simp: search_inv_def)
  then have fuel: "card (keys (sv_visit s)) \<le> fu" using card_drivers_fuel[of a] fu by simp
  obtain T mid where T: "trace_links fu B (sv_visit s) f (nn, no) np = Some T" "tail_ok a m e B rng T mid"
      "T \<noteq> []" "\<forall>l. pos l = f \<longrightarrow> linked a l (hd T)" "f \<notin> pos ` set mid"
    using trace_final[OF ok s(1,2) B fuel i] by blast
  obtain q where q: "q \<in> set rng" "T = mid @ [mk_link q (-1) B]" using T(2) by (auto simp: tail_ok_def)
  have q0: "0 \<le> q" using adg_ok_in_nonneg[OF ok D(1)] D(2) q(1) by blast
  have f1: "snd f \<noteq> -1" by (rule search_inv_get(3)[OF s(1) i])
  have tl: "successively (linked a) T" "distinct (map pos mid)"
      "\<forall>l \<in> set mid. crossbar a l \<and> clean a m (pos l) \<and> fits m e l"
    using T(2) by (auto simp: tail_ok_def)
  show ?thesis
  proof (cases "sv_same s")
    case None
    then have f: "f = (A, ge_srcPortIdx e)" using fo by (simp add: final_ok_def)
    let ?h = "mk_link (-1) (ge_srcPortIdx e) A"
    have shape: "route_shape a e A B q mid (?h # T)"
      using q q0 A(2) B tl T(3,4) f by (auto simp: route_shape_def successively_Cons)
    have "trace_links (adg_fuel a) B (sv_visit s) f f (-1) = Some (?h # T)"
      using T(1) i f unfolding fu by (simp add: om_at_def)
    then have "fromDst_commit (adg_fuel a) e B s f m = Some (foldl (commit_link e B f) m (?h # T))"
      using None by (simp add: fromDst_commit_def fromDst_trace_eq)
    then show ?thesis
      using gains_fresh[OF shape f f1, of m] shape q(1) tl(3) unfolding good_route_def by blast
  next
    case (Some x)
    then obtain y where f: "is_nonfu a (fst f)" "same_source x e"
        and y: "y \<in> set (passes m (fst f))" "ep_dstPort y = snd f" "ep_edge y = x"
      using fo by (auto simp: final_ok_def)
    let ?k = "mk_link (ep_srcPort y) (ep_dstPort y) (fst f)"
    have x: "dfg_edge g (ge_id x) = Some x" and k: "?k \<in> set (links m (ge_id x))"
      using inv y unfolding route_inv_def passes_from_def by blast+
    have ro: "routed_ok g a loc m" using inv by (simp add: route_inv_def)
    obtain A' B' q' midx where sx: "loc (ge_srcId x) = Some A'" "route_shape a x A' B' q' midx (links m (ge_id x))"
      using links_shape[OF ro k x] by blast
    have A': "A' = A" "ge_srcPortIdx x = ge_srcPortIdx e"
      using sx(1) A(1) f(2) by (auto simp: same_source_def)
    have pk: "pos ?k = f" using y(2) by (simp add: pos_def)
    obtain ys c zs where c: "midx = ys @ c # zs" "pos c = f"
        "reuse_prefix f (links m (ge_id x)) = mk_link (-1) (ge_srcPortIdx x) A' # ys @ [c]"
      using reuse_shape[OF sx(2) k pk f(1)] by blast
    let ?rs = "ys @ [c]" and ?h = "mk_link (-1) (ge_srcPortIdx e) A"
    have R: "reuse_prefix f (links m (ge_id x)) = ?h # ?rs" using c(3) A' by simp
    have sub: "l \<in> set (links m (ge_id x)) \<and> crossbar a l" if "l \<in> set ?rs" for l
      using that sx(2) c(1) by (auto simp: route_shape_def)
    have reused: "fits m e l" "inUsed m (el_adgNode l) (el_srcPort l)" "outUsed m (el_adgNode l) (el_dstPort l)"
        "\<not> clean a m (pos l)" if "l \<in> set ?rs" for l
      using fits_reused[OF inv x f(2) _ crossbar_nonfu] sub[OF that] by blast+
    have "route_shape a e A B q (?rs @ mid) ((?h # ?rs) @ T)"
    proof -
      have ls: "links m (ge_id x) = (?h # ?rs) @ zs @ [mk_link q' (-1) B']"
        using sx(2) c(1) A' by (simp add: route_shape_def)
      have "successively (linked a) (links m (ge_id x))" using sx(2) unfolding route_shape_def by blast
      then have "successively (linked a) (?h # ?rs)" unfolding ls by (simp only: successively_append_iff)
      moreover have "linked a c (hd T)" using T(4) c(2) by blast
      ultimately have "successively (linked a) ((?h # ?rs) @ T)"
        using tl(1) by (simp only: successively_append_iff) simp
      moreover have "distinct (map pos (?rs @ mid))"
      proof -
        have "distinct (map pos ?rs)" using sx(2) c(1) by (simp add: route_shape_def)
        moreover have "set (map pos ?rs) \<inter> set (map pos mid) = {}" using reused(4) tl(3) by force
        ultimately show ?thesis using tl(2) by (simp only: map_append distinct_append)
      qed
      ultimately show ?thesis
        using q q0 A(2) B sub tl(3) unfolding route_shape_def by auto
    qed
    moreover from this have "gains a e ((?h # ?rs) @ T) m
        (foldl (commit_link e B f) (foldl (reuse_link e) m (?h # ?rs)) T)"
      by (rule gains_reuse[OF _ refl q(2) f(1) T(5)]) (use reused in blast)
    moreover have "fromDst_commit (adg_fuel a) e B s f m =
        Some (foldl (commit_link e B f) (foldl (reuse_link e) m (?h # ?rs)) T)"
    proof -
      have "ge_id x \<noteq> ge_id e" using e k by auto
      moreover have "trace_links (adg_fuel a) B (sv_visit s) f (nn, no) np = Some T"
        unfolding fu by (rule trace_links_mono[OF T(1)])
      moreover have "om_at (0, 0, 0) (sv_visit s) f = (nn, np, no)" using i by (simp add: om_at_def)
      ultimately show ?thesis
        using Some by (simp add: fromDst_commit_def fromDst_trace_eq reuse_links_eq R del: foldl_Cons)
    qed
    ultimately show ?thesis using q(1) reused(1) tl(3) unfolding good_route_def by (metis UnE set_append)
  qed
qed

section \<open>The entry point\<close>

lemma flags_out: "flags_ok a m \<Longrightarrow> out_flagged a m"
  unfolding flags_ok_def out_flagged_def by blast

lemma fromDst_ok:
  assumes ok: "adg_ok a" and inv: "route_inv g a loc m" and e: "links m (ge_id e) = []"
    and src: "dfg_node g (ge_srcId e) = Some sn"
    and A: "loc (ge_srcId e) = Some A" "is_fu_id a A" and B: "is_fu_id a B"
    and D: "adg_node a B = Some D" "\<forall>p \<in> set rng. om_has (gn_inputs D) p"
  shows "routeDfgEdgeFromDst g a e (Some A) B rng m = Some (False, m) \<or>
    (\<exists>m'. routeDfgEdgeFromDst g a e (Some A) B rng m = Some (True, m') \<and> good_route g a e A B rng m m')"
proof -
  let ?s0 = "\<lparr>sv_visit = [], sv_que = [(B, -1)], sv_final = None, sv_same = None\<rparr>"
  have fl: "out_flagged a m" using inv by (simp add: route_inv_def flags_out)
  have "search_size a ?s0 < adg_fuel a"
    using card_drivers_fuel[of a] by (simp add: search_size_def keys_def)
  from fromDst_search_ends[OF ok A(2) fl D search_inv_start _ this]
  obtain s rank where s: "fromDst_search (adg_fuel a) a m e (Some A) (dn_operation sn) rng ?s0 = Some s"
      "search_inv a m e A B rng rank s" by fastforce
  show ?thesis
  proof (cases "sv_final s")
    case None
    then show ?thesis using src s(1) by (simp add: routeDfgEdgeFromDst_def)
  next
    case (Some f)
    from commit_ok[OF ok inv e A B D s(2) Some] show ?thesis
      using src s(1) Some by (auto simp: routeDfgEdgeFromDst_def)
  qed
qed

lemma availDst_step:
  assumes "mfold (\<lambda>dstPortRange opIdx. do {
        dstFuNode \<leftarrow> adg_node a B;
        (if \<not> is_fu dstFuNode then None
         else do {
           inPorts \<leftarrow> fu_operandInputs dstFuNode opIdx;
           Some (if operand_free m B inPorts then foldl os_ins dstPortRange inPorts else dstPortRange) }) })
       [] opIdxs = Some rng"
    and "q \<in> set rng"
  shows "\<exists>D opIdx s. adg_node a B = Some D \<and> opIdx \<in> set opIdxs \<and> fu_operandInputs D opIdx = Some s \<and>
    q \<in> set s \<and> operand_free m B s"
proof -
  have ins: "set (foldl os_ins xs ys) = set xs \<union> set ys" for xs ys :: "int list"
    by (induction ys arbitrary: xs) auto
  let ?P = "\<lambda>r. \<forall>q \<in> set r. \<exists>D opIdx s. adg_node a B = Some D \<and> opIdx \<in> set opIdxs \<and>
    fu_operandInputs D opIdx = Some s \<and> q \<in> set s \<and> operand_free m B s"
  have "?P rng"
    using assms(1)
  proof (rule mfold_inv)
    fix x u v
    assume x: "x \<in> set opIdxs" and u: "?P u"
      and step: "(do {
        dstFuNode \<leftarrow> adg_node a B;
        (if \<not> is_fu dstFuNode then None
         else do {
           inPorts \<leftarrow> fu_operandInputs dstFuNode x;
           Some (if operand_free m B inPorts then foldl os_ins u inPorts else u) }) }) = Some v"
    then obtain D s where D: "adg_node a B = Some D" "fu_operandInputs D x = Some s"
        "v = (if operand_free m B s then foldl os_ins u s else u)"
      by (auto split: bind_splits if_splits)
    show "?P v"
    proof (cases "operand_free m B s")
      case True
      then show ?thesis using u D x by (auto simp: ins)
    next
      case False
      then show ?thesis using u D by simp
    qed
  qed simp
  then show ?thesis using assms(2) by blast
qed

lemma availDst_ports:
  assumes ok: "adg_ok a" and r: "availDstPorts g a e B m = Some rng" and q: "q \<in> set rng"
  shows "operand_port g a e B q" "\<not> inUsed m B q"
proof -
  obtain dn where dn: "dfg_node g (ge_dstId e) = Some dn"
    using r by (auto simp: availDstPorts_def split: bind_splits)
  let ?ops = "if dn_commutative dn then map int [0..<nat (dnode_numInputs dn)] else [ge_dstPortIdx e]"
  obtain D opIdx s where D: "adg_node a B = Some D" "opIdx \<in> set ?ops" "fu_operandInputs D opIdx = Some s"
      "q \<in> set s" "operand_free m B s"
    using availDst_step[OF _ q, of a B m ?ops] r dn unfolding availDstPorts_def Let_def by auto
  have "s \<in> set (an_operandInputs D)"
    using D(3) by (auto simp: fu_operandInputs_def split: if_splits)
  then have "om_has (gn_inputs D) q" using ok D(1,4) unfolding adg_ok_def anode_ok_def by blast
  moreover have "if dn_commutative dn then 0 \<le> opIdx \<and> opIdx < dnode_numInputs dn else opIdx = ge_dstPortIdx e"
    using D(2) by (auto split: if_splits)
  ultimately show "operand_port g a e B q" using D dn unfolding operand_port_def by blast
  show "\<not> inUsed m B q" using D(4,5) by (auto simp: operand_free_def list_ex_iff)
qed

lemma routeDfgEdge_ok:
  assumes ok: "adg_ok a" and inv: "route_inv g a loc m" and ids: "edge_ids g"
    and e: "dfg_edge g (ge_id e) = Some e" "links m (ge_id e) = []"
    and src: "dfg_node g (ge_srcId e) = Some sn"
    and A: "loc (ge_srcId e) = Some A" "is_fu_id a A" and B: "loc (ge_dstId e) = Some B" "is_fu_id a B"
    and av: "availDstPorts g a e B m \<noteq> None"
  shows "routeDfgEdge g a e A B m = Some (False, m) \<or>
    (\<exists>m' L. routeDfgEdge g a e A B m = Some (True, m') \<and> route_inv g a loc m' \<and> same_place m m' \<and>
       L \<noteq> [] \<and> (\<forall>k. links m' k = (if k = ge_id e then L else links m k)))"
proof -
  obtain rng where rng: "availDstPorts g a e B m = Some rng" using av by blast
  obtain D where D: "adg_node a B = Some D" using B(2) by (auto simp: is_fu_id_def)
  note port = availDst_ports[OF ok rng]
  have "\<forall>p \<in> set rng. om_has (gn_inputs D) p" using port(1) D by (auto simp: operand_port_def)
  note found = fromDst_ok[OF ok inv e(2) src A B(2) D this]
  show ?thesis
  proof (cases "rng = []")
    case True
    then show ?thesis using rng by (simp add: routeDfgEdge_def)
  next
    case False
    then have eq: "routeDfgEdge g a e A B m = routeDfgEdgeFromDst g a e (Some A) B rng m"
      using rng by (simp add: routeDfgEdge_def)
    from found show ?thesis
    proof (elim disjE exE conjE)
      fix m' assume r: "routeDfgEdgeFromDst g a e (Some A) B rng m = Some (True, m')"
        and good: "good_route g a e A B rng m m'"
      then obtain q mid L where q: "q \<in> set rng" and shape: "route_shape a e A B q mid L"
        and gain: "gains a e L m m'" and fit: "\<forall>l \<in> set mid. fits m e l"
        unfolding good_route_def by blast
      have "route_inv g a loc m'"
        by (rule add_route[OF inv ids e A(1) B(1) shape port(1)[OF q] gain fit port(2)[OF q]])
      moreover have "L \<noteq> []" using shape by (auto simp: route_shape_def)
      moreover have "\<forall>k. links m' k = (if k = ge_id e then L else links m k)"
        using gainsD(2)[OF gain] e(2) by simp
      ultimately show ?thesis
        using r eq gainsD(1)[OF gain] by (intro disjI2 exI[of _ m'] exI[of _ L]) simp
    qed (simp add: eq)
  qed
qed

end
