(* ===== verification/RouteNode.thy ===== *)
theory RouteNode
  imports RouteEdge
begin

text \<open>
  Placing and removing a DFG node with its routes: \<open>mapDfgNode\<close> and \<open>unmapDfgNode\<close> always
  return, keep the invariant of the whole mapping, and \<open>mapDfgNode\<close> leaves placement and routes
  as they were when it fails.
\<close>

section \<open>What is mapped\<close>

text \<open>A DFG the mapper works on: no edge starts or ends at a port of the graph itself, and the
  adjacency containers are the ordered containers they are in C++.\<close>

definition dfg_mappable :: "dfg \<Rightarrow> bool" where
  "dfg_mappable g \<longleftrightarrow> \<not> om_has (df_nodes g) (g_id g) \<and>
     (\<forall>k e. dfg_edge g k = Some e \<longrightarrow> om_has (df_nodes g) (ge_srcId e) \<and> om_has (df_nodes g) (ge_dstId e)) \<and>
     (\<forall>n nd. dfg_node g n = Some nd \<longrightarrow> om_wf (gn_inputEdges nd) \<and> om_wf (gn_outputEdges nd) \<and>
        (\<forall>p es. om_get (gn_outputEdges nd) p = Some es \<longrightarrow> distinct es))"

abbreviation ins :: "dnode \<Rightarrow> int list" where
  "ins nd \<equiv> map snd (gn_inputEdges nd)"

abbreviation outs :: "dnode \<Rightarrow> int list" where
  "outs nd \<equiv> concat (map snd (gn_outputEdges nd))"

lemma dfg_wf_ids: "dfg_wf g \<Longrightarrow> edge_ids g"
  using dfg_wf_edge unfolding edge_ids_def dfg_edge_def dfg_abs_def by blast

lemma dfg_node_id: "dfg_wf g \<Longrightarrow> dfg_node g n = Some nd \<Longrightarrow> gn_id nd = n"
proof -
  assume "dfg_wf g" "dfg_node g n = Some nd"
  then have "\<forall>k n. om_get (df_nodes g) k = Some n \<longrightarrow> gn_id n = k"
    unfolding dfg_wf_def by (elim conjE)
  then show ?thesis using \<open>dfg_node g n = Some nd\<close> by (simp add: dfg_node_def)
qed

lemma dfg_node_ne: "dfg_mappable g \<Longrightarrow> dfg_node g n = Some nd \<Longrightarrow> n \<noteq> g_id g"
  unfolding dfg_mappable_def dfg_node_def om_has_iff by blast

lemma ins_edges:
  assumes wf: "dfg_wf g" and mp: "dfg_mappable g" and nd: "dfg_node g n = Some nd"
  shows "k \<in> set (ins nd) \<longleftrightarrow> (\<exists>e. dfg_edge g k = Some e \<and> ge_dstId e = n)" and "distinct (ins nd)"
proof -
  have ne: "n \<noteq> g_id g" by (rule dfg_node_ne[OF mp nd])
  have om: "om_wf (gn_inputEdges nd)" using mp nd unfolding dfg_mappable_def by blast
  have get: "om_get (gn_inputEdges nd) p = Some k \<longleftrightarrow> (\<exists>e. dfg_edge g k = Some e \<and> ge_dstId e = n \<and> ge_dstPortIdx e = p)" for p k
    using dfg_wf_reads(1)[OF wf, of n p k] ne nd by (simp add: in_edge_def dfg_node_def dfg_edge_def dfg_abs_def)
  have "k \<in> set (ins nd) \<longleftrightarrow> (\<exists>p. om_get (gn_inputEdges nd) p = Some k)"
    unfolding om_get_mem[OF om, symmetric] by force
  then show "k \<in> set (ins nd) \<longleftrightarrow> (\<exists>e. dfg_edge g k = Some e \<and> ge_dstId e = n)" using get by auto
  have "inj_on snd (set (gn_inputEdges nd))"
  proof (rule inj_onI)
    fix x y assume "x \<in> set (gn_inputEdges nd)" "y \<in> set (gn_inputEdges nd)" "snd x = snd y"
    then show "x = y" using get[of "fst x" "snd x"] get[of "fst y" "snd x"] om_get_mem[OF om]
      by (metis option.inject prod.collapse)
  qed
  moreover have "distinct (gn_inputEdges nd)" using om_wf_distinct[OF om] by (simp add: distinct_map)
  ultimately show "distinct (ins nd)" by (simp add: distinct_map)
qed

lemma outs_edges:
  assumes wf: "dfg_wf g" and mp: "dfg_mappable g" and nd: "dfg_node g n = Some nd"
  shows "k \<in> set (outs nd) \<longleftrightarrow> (\<exists>e. dfg_edge g k = Some e \<and> ge_srcId e = n)" and "distinct (outs nd)"
proof -
  have ne: "n \<noteq> g_id g" by (rule dfg_node_ne[OF mp nd])
  have om: "om_wf (gn_outputEdges nd)" using mp nd unfolding dfg_mappable_def by blast
  have dist: "om_get (gn_outputEdges nd) p = Some es \<Longrightarrow> distinct es" for p es
    using mp nd unfolding dfg_mappable_def by blast
  have get: "(\<exists>es. om_get (gn_outputEdges nd) p = Some es \<and> k \<in> set es) \<longleftrightarrow>
      (\<exists>e. dfg_edge g k = Some e \<and> ge_srcId e = n \<and> ge_srcPortIdx e = p)" for p k
    using dfg_wf_reads(3)[OF wf, of k n p] ne nd
    by (cases "om_get (gn_outputEdges nd) p") (simp_all add: out_edges_def dfg_node_def dfg_edge_def dfg_abs_def om_at_def)
  have "k \<in> set (outs nd) \<longleftrightarrow> (\<exists>p es. om_get (gn_outputEdges nd) p = Some es \<and> k \<in> set es)"
    unfolding om_get_mem[OF om, symmetric] by force
  then show "k \<in> set (outs nd) \<longleftrightarrow> (\<exists>e. dfg_edge g k = Some e \<and> ge_srcId e = n)" using get by auto
  have same: "p = p'" if "(p, es) \<in> set (gn_outputEdges nd)" "(p', es') \<in> set (gn_outputEdges nd)"
      "k \<in> set es" "k \<in> set es'" for p p' es es' k
    using that get[of p k] get[of p' k] unfolding om_get_mem[OF om] by auto
  have "distinct (concat (map snd xs))" if "set xs \<subseteq> set (gn_outputEdges nd)" "distinct (map fst xs)" for xs
    using that
  proof (induction xs)
    case (Cons x xs)
    obtain p es where x: "x = (p, es)" by (cases x)
    have "distinct es" using dist[of p es] Cons.prems(1) x om_get_mem[OF om] by auto
    moreover have "set es \<inter> set (concat (map snd xs)) = {}"
    proof (rule ccontr)
      assume "set es \<inter> set (concat (map snd xs)) \<noteq> {}"
      then obtain k p' es' where k: "k \<in> set es" "k \<in> set es'" "(p', es') \<in> set xs" by auto
      then have "p = p'" using same[of p es p' es' k] Cons.prems(1) x by auto
      then show False using k(3) Cons.prems(2) x by force
    qed
    ultimately show ?case using Cons x by simp
  qed simp
  then show "distinct (outs nd)" using om_wf_distinct[OF om] by blast
qed

text \<open>A functional unit that has an operand for every input of the node.\<close>

definition can_host :: "dfg \<Rightarrow> top_adg \<Rightarrow> int \<Rightarrow> int \<Rightarrow> bool" where
  "can_host g a n B \<longleftrightarrow> is_fu_id a B \<and>
     (\<forall>D dn. adg_node a B = Some D \<longrightarrow> dfg_node g n = Some dn \<longrightarrow>
        (if dn_commutative dn then dnode_numInputs dn \<le> int (length (an_operandInputs D))
         else \<forall>p \<in> fst ` set (gn_inputEdges dn). 0 \<le> p \<and> p < int (length (an_operandInputs D))))"

definition complete :: "dfg \<Rightarrow> place \<Rightarrow> mapping \<Rightarrow> bool" where
  "complete g loc m \<longleftrightarrow> (\<forall>k e A B. dfg_edge g k = Some e \<longrightarrow> ge_srcId e \<noteq> ge_dstId e \<longrightarrow>
     loc (ge_srcId e) = Some A \<longrightarrow> loc (ge_dstId e) = Some B \<longrightarrow> links m k \<noteq> [])"

text \<open>The invariant of the mapping: placement, routes, and a route for every edge between placed
  nodes.\<close>

definition map_inv :: "dfg \<Rightarrow> top_adg \<Rightarrow> mapping \<Rightarrow> bool" where
  "map_inv g a m \<longleftrightarrow> place_inv m \<and> (\<forall>n k. mappedAdg m n = Some k \<longrightarrow> om_has (df_nodes g) n \<and> can_host g a n k) \<and>
     route_inv g a (mappedAdg m) m \<and> complete g (mappedAdg m) m"

lemma map_inv_new: "map_inv g a new_Mapping"
proof -
  have "mappedAdg new_Mapping = (\<lambda>_. None)" "\<And>k. links new_Mapping k = []" "\<And>n. passes new_Mapping n = []"
    "\<And>n p. \<not> inUsed new_Mapping n p" "\<And>n p. \<not> outUsed new_Mapping n p"
    by (simp_all add: new_Mapping_def om_at_def no_edge_def no_adg_def mappedAdg_def fun_eq_iff
        isAdgNodeInPortUsed_def isAdgNodeOutPortUsed_def)
  then show ?thesis
    using place_inv_new
    by (simp add: map_inv_def route_inv_def routed_ok_def passes_from_def links_pass_def ports_ok_def flags_ok_def
        fu_ok_def complete_def)
qed

lemma avail_total:
  assumes wf: "dfg_wf g" and mp: "dfg_mappable g" and e: "dfg_edge g k = Some e"
    and host: "can_host g a (ge_dstId e) B"
  shows "availDstPorts g a e B m \<noteq> None"
proof -
  obtain dn where dn: "dfg_node g (ge_dstId e) = Some dn"
    using mp e unfolding dfg_mappable_def om_has_iff dfg_node_def by blast
  obtain D where D: "adg_node a B = Some D" "is_fu D" using host by (auto simp: can_host_def is_fu_id_def)
  let ?ops = "if dn_commutative dn then map int [0..<nat (dnode_numInputs dn)] else [ge_dstPortIdx e]"
  have "ge_dstPortIdx e \<in> fst ` set (gn_inputEdges dn)"
  proof -
    have ne: "ge_dstId e \<noteq> g_id g" by (rule dfg_node_ne[OF mp dn])
    have "in_edge g (ge_dstId e) (ge_dstPortIdx e) = Some k"
      using e dfg_wf_reads(1)[OF wf] by (simp add: dfg_edge_def dfg_abs_def)
    then have "om_get (gn_inputEdges dn) (ge_dstPortIdx e) = Some k"
      using ne dn by (simp add: in_edge_def dfg_node_def)
    then show ?thesis by (force dest: map_of_SomeD)
  qed
  then have len: "0 \<le> i \<and> i < int (length (an_operandInputs D))" if "i \<in> set ?ops" for i
    using host dn D that by (auto simp: can_host_def split: if_splits)
  have "\<exists>t. mfold (\<lambda>dstPortRange opIdx. do {
        dstFuNode \<leftarrow> adg_node a B;
        (if \<not> is_fu dstFuNode then None
         else do {
           inPorts \<leftarrow> fu_operandInputs dstFuNode opIdx;
           Some (if operand_free m B inPorts then foldl os_ins dstPortRange inPorts else dstPortRange) }) })
       [] ?ops = Some t \<and> True"
    by (rule mfold_total) (use D len in \<open>simp_all add: fu_operandInputs_def\<close>)
  then show ?thesis using dn by (auto simp: availDstPorts_def)
qed

section \<open>The loops over the edges of a node\<close>

text \<open>The state in the loops of \<open>mapDfgNode\<close>, started from \<open>m\<close>, when the edges in \<open>P\<close> are done.\<close>

definition loop_inv ::
    "dfg \<Rightarrow> top_adg \<Rightarrow> place \<Rightarrow> mapping \<Rightarrow> int set \<Rightarrow> route_state \<Rightarrow> bool" where
  "loop_inv g a loc m P s \<longleftrightarrow> (case s of (m1, routed, succeed) \<Rightarrow>
     same_place m m1 \<and> route_inv g a loc m1 \<and>
     (\<forall>e \<in> set routed. dfg_edge g (ge_id e) = Some e \<and> ge_id e \<in> P \<and> links m (ge_id e) = []) \<and>
     (\<forall>k. k \<notin> ge_id ` set routed \<longrightarrow> links m1 k = links m k) \<and>
     (succeed \<longrightarrow> (\<forall>k \<in> P. \<forall>e A B. dfg_edge g k = Some e \<longrightarrow> ge_srcId e \<noteq> ge_dstId e \<longrightarrow>
        loc (ge_srcId e) = Some A \<longrightarrow> loc (ge_dstId e) = Some B \<longrightarrow> links m1 k \<noteq> [])))"

lemma loop_skip:
  assumes "loop_inv g a loc m P s" "dfg_edge g k = Some e"
    and "ge_srcId e = ge_dstId e \<or> loc (ge_srcId e) = None \<or> loc (ge_dstId e) = None \<or> \<not> snd (snd s)"
  shows "loop_inv g a loc m (insert k P) s"
  using assms by (cases s) (auto simp: loop_inv_def)

lemma loop_route:
  assumes ok: "adg_ok a" and wf: "dfg_wf g" and mp: "dfg_mappable g"
    and inv: "loop_inv g a loc m P (m1, routed, True)" and new: "k \<notin> P"
    and e: "dfg_edge g k = Some e" "links m k = []"
    and A: "loc (ge_srcId e) = Some A" "is_fu_id a A" and B: "loc (ge_dstId e) = Some B" "can_host g a (ge_dstId e) B"
  shows "\<exists>ok' m2. routeDfgEdge g a e A B m1 = Some (ok', m2) \<and>
    loop_inv g a loc m (insert k P) (m2, if ok' then routed @ [e] else routed, ok')"
proof -
  have id: "ge_id e = k" using dfg_wf_ids[OF wf] e(1) by (simp add: edge_ids_def)
  have e': "dfg_edge g (ge_id e) = Some e" using e(1) id by simp
  have ri: "route_inv g a loc m1" and pl: "same_place m m1"
    and rt: "\<forall>e \<in> set routed. dfg_edge g (ge_id e) = Some e \<and> ge_id e \<in> P \<and> links m (ge_id e) = []"
    and fr: "\<forall>k. k \<notin> ge_id ` set routed \<longrightarrow> links m1 k = links m k"
    and cp: "\<forall>k \<in> P. \<forall>e A B. dfg_edge g k = Some e \<longrightarrow> ge_srcId e \<noteq> ge_dstId e \<longrightarrow>
        loc (ge_srcId e) = Some A \<longrightarrow> loc (ge_dstId e) = Some B \<longrightarrow> links m1 k \<noteq> []"
    using inv by (simp_all add: loop_inv_def)
  have "k \<notin> ge_id ` set routed" using rt new by auto
  then have no: "links m1 (ge_id e) = []" using fr e(2) id by simp
  obtain sn where sn: "dfg_node g (ge_srcId e) = Some sn"
    using mp e(1) unfolding dfg_mappable_def om_has_iff dfg_node_def by blast
  have fB: "is_fu_id a B" using B(2) by (simp add: can_host_def)
  from routeDfgEdge_ok[OF ok ri dfg_wf_ids[OF wf] e' no sn A B(1) fB avail_total[OF wf mp e(1) B(2)]]
  show ?thesis
  proof (elim disjE exE conjE)
    assume "routeDfgEdge g a e A B m1 = Some (False, m1)"
    then show ?thesis using ri pl rt fr by (auto simp: loop_inv_def)
  next
    fix m2 L
    assume r: "routeDfgEdge g a e A B m1 = Some (True, m2)" and ri2: "route_inv g a loc m2"
      and pl2: "same_place m1 m2" and L: "L \<noteq> []" and l2: "\<forall>k. links m2 k = (if k = ge_id e then L else links m1 k)"
    have "loop_inv g a loc m (insert k P) (m2, routed @ [e], True)"
      unfolding loop_inv_def prod.case
    proof (intro conjI impI)
      show "same_place m m2" by (rule same_place_trans[OF pl pl2])
      show "\<forall>e' \<in> set (routed @ [e]). dfg_edge g (ge_id e') = Some e' \<and> ge_id e' \<in> insert k P \<and> links m (ge_id e') = []"
        using rt e' e(2) id by simp
      show "\<forall>j. j \<notin> ge_id ` set (routed @ [e]) \<longrightarrow> links m2 j = links m j" using fr l2 by simp
      show "\<forall>j \<in> insert k P. \<forall>e' A B. dfg_edge g j = Some e' \<longrightarrow> ge_srcId e' \<noteq> ge_dstId e' \<longrightarrow>
          loc (ge_srcId e') = Some A \<longrightarrow> loc (ge_dstId e') = Some B \<longrightarrow> links m2 j \<noteq> []"
        using cp l2 L id by auto
    qed (rule ri2)
    then show ?thesis using r by (intro exI[of _ True] exI[of _ m2]) simp
  qed
qed

text \<open>Folding such steps over a list of edges, some of which may be self loops met before.\<close>

lemma loop_fold:
  assumes "distinct ks" "\<And>k. k \<in> set ks \<Longrightarrow> k \<in> P \<Longrightarrow> loop k" "J P s"
    and step: "\<And>k P s. k \<in> set ks \<Longrightarrow> k \<notin> P \<or> loop k \<Longrightarrow> J P s \<Longrightarrow> \<exists>s'. f s k = Some s' \<and> J (insert k P) s'"
  shows "\<exists>s'. mfold f s ks = Some s' \<and> J (P \<union> set ks) s'"
  using assms
proof (induction ks arbitrary: P s)
  case (Cons k ks)
  obtain s1 where s1: "f s k = Some s1" "J (insert k P) s1"
    using Cons.prems(4)[of k P s] Cons.prems(2)[of k] Cons.prems(3) by auto
  have "\<exists>s'. mfold f s1 ks = Some s' \<and> J (insert k P \<union> set ks) s'"
  proof (rule Cons.IH[OF _ _ s1(2)])
    show "distinct ks" using Cons.prems(1) by simp
    show "loop j" if "j \<in> set ks" "j \<in> insert k P" for j
      using that Cons.prems(1,2) by auto
    show "\<exists>s'. f s j = Some s' \<and> J (insert j P) s'" if "j \<in> set ks" "j \<notin> P \<or> loop j" "J P s" for j P s
      using that Cons.prems(4) by simp
  qed
  then show ?case using s1(1) by auto
qed auto

definition self_loop :: "dfg \<Rightarrow> int \<Rightarrow> bool" where
  "self_loop g k \<longleftrightarrow> (\<exists>e. dfg_edge g k = Some e \<and> ge_srcId e = ge_dstId e)"

text \<open>The hypotheses under which a node \<open>d\<close> is placed on \<open>t\<close>.\<close>

definition may_place :: "dfg \<Rightarrow> top_adg \<Rightarrow> mapping \<Rightarrow> int \<Rightarrow> int \<Rightarrow> bool" where
  "may_place g a m d t \<longleftrightarrow> om_has (df_nodes g) d \<and> mappedAdg m d = None \<and> mappedDfg m t = None \<and> can_host g a d t"

lemma unplaced_unrouted:
  assumes "route_inv g a (mappedAdg m) m" "dfg_edge g k = Some e" "mappedAdg m d = None"
    and "ge_srcId e = d \<or> ge_dstId e = d"
  shows "links m k = []"
proof (rule ccontr)
  assume "links m k \<noteq> []"
  then obtain e' A B where "dfg_edge g k = Some e'" "mappedAdg m (ge_srcId e') = Some A" "mappedAdg m (ge_dstId e') = Some B"
    using assms(1) unfolding route_inv_def routed_ok_def by blast
  then show False using assms by auto
qed

lemma map_inEdge_step:
  assumes ok: "adg_ok a" and wf: "dfg_wf g" and mp: "dfg_mappable g" and mi: "map_inv g a m"
    and pl: "may_place g a m d t" and e: "dfg_edge g k = Some e" "ge_dstId e = d"
    and new: "k \<notin> P \<or> self_loop g k" and inv: "loop_inv g a ((mappedAdg m)(d \<mapsto> t)) m P s"
  shows "\<exists>s'. map_inEdge g a t s k = Some s' \<and> loop_inv g a ((mappedAdg m)(d \<mapsto> t)) m (insert k P) s'"
proof -
  let ?loc = "(mappedAdg m)(d \<mapsto> t)"
  obtain m1 routed su where s: "s = (m1, routed, su)" by (cases s) auto
  obtain sn where sn: "dfg_node g (ge_srcId e) = Some sn"
    using mp e(1) unfolding dfg_mappable_def om_has_iff dfg_node_def by blast
  have id: "gn_id sn = ge_srcId e" by (rule dfg_node_id[OF wf sn])
  have same: "mappedAdg m1 = mappedAdg m" using inv s by (simp add: loop_inv_def same_place_def)
  have d: "mappedAdg m d = None" "can_host g a d t" using pl by (simp_all add: may_place_def)
  show ?thesis
  proof (cases "su \<and> mappedAdg m (ge_srcId e) \<noteq> None")
    case False
    have "map_inEdge g a t s k = Some s" using False s e sn id same by (auto simp: map_inEdge_def)
    moreover have "ge_srcId e = ge_dstId e \<or> ?loc (ge_srcId e) = None \<or> \<not> snd (snd s)" using False s e(2) by auto
    ultimately show ?thesis using loop_skip[OF inv e(1)] by blast
  next
    case True
    then obtain A where A: "mappedAdg m (ge_srcId e) = Some A" and su by blast
    have ne: "ge_srcId e \<noteq> d" using A d by auto
    then have nP: "k \<notin> P" using new e by (auto simp: self_loop_def)
    have nl: "links m k = []"
      using mi e(2) unplaced_unrouted[of g a m, OF _ e(1) d(1)] unfolding map_inv_def by blast
    have fA: "is_fu_id a A" using mi A by (simp add: map_inv_def can_host_def)
    obtain ok' m2 where "routeDfgEdge g a e A t m1 = Some (ok', m2)"
        "loop_inv g a ?loc m (insert k P) (m2, if ok' then routed @ [e] else routed, ok')"
      using loop_route[OF ok wf mp _ nP e(1) nl _ fA, of ?loc m1 routed t] inv s \<open>su\<close> A ne e(2) d(2) by auto
    then show ?thesis using s \<open>su\<close> e sn id same A by (simp add: map_inEdge_def)
  qed
qed

lemma map_outEdge_step:
  assumes ok: "adg_ok a" and wf: "dfg_wf g" and mp: "dfg_mappable g" and mi: "map_inv g a m"
    and pl: "may_place g a m d t" and e: "dfg_edge g k = Some e" "ge_srcId e = d"
    and new: "k \<notin> P \<or> self_loop g k" and inv: "loop_inv g a ((mappedAdg m)(d \<mapsto> t)) m P s"
  shows "\<exists>s'. map_outEdge g a t s k = Some s' \<and> loop_inv g a ((mappedAdg m)(d \<mapsto> t)) m (insert k P) s'"
proof -
  let ?loc = "(mappedAdg m)(d \<mapsto> t)"
  obtain m1 routed su where s: "s = (m1, routed, su)" by (cases s) auto
  obtain dn where dn: "dfg_node g (ge_dstId e) = Some dn"
    using mp e(1) unfolding dfg_mappable_def om_has_iff dfg_node_def by blast
  have id: "gn_id dn = ge_dstId e" by (rule dfg_node_id[OF wf dn])
  have same: "mappedAdg m1 = mappedAdg m" using inv s by (simp add: loop_inv_def same_place_def)
  have d: "mappedAdg m d = None" "is_fu_id a t" using pl by (simp_all add: may_place_def can_host_def)
  show ?thesis
  proof (cases "su \<and> mappedAdg m (ge_dstId e) \<noteq> None")
    case False
    have "map_outEdge g a t s k = Some s" using False s e dn id same by (auto simp: map_outEdge_def)
    moreover have "ge_srcId e = ge_dstId e \<or> ?loc (ge_dstId e) = None \<or> \<not> snd (snd s)" using False s e(2) by auto
    ultimately show ?thesis using loop_skip[OF inv e(1)] by blast
  next
    case True
    then obtain B where B: "mappedAdg m (ge_dstId e) = Some B" and su by blast
    have ne: "ge_dstId e \<noteq> d" using B d by auto
    then have nP: "k \<notin> P" using new e by (auto simp: self_loop_def)
    have nl: "links m k = []"
      using mi e(2) unplaced_unrouted[of g a m, OF _ e(1) d(1)] unfolding map_inv_def by blast
    have hB: "can_host g a (ge_dstId e) B" using mi B by (simp add: map_inv_def)
    obtain ok' m2 where "routeDfgEdge g a e t B m1 = Some (ok', m2)"
        "loop_inv g a ?loc m (insert k P) (m2, if ok' then routed @ [e] else routed, ok')"
      using loop_route[OF ok wf mp _ nP e(1) nl _ d(2) _ hB, of ?loc m1 routed] inv s \<open>su\<close> B ne e(2) by auto
    then show ?thesis using s \<open>su\<close> e dn id same B by (simp add: map_outEdge_def)
  qed
qed

lemma map_loops:
  assumes ok: "adg_ok a" and wf: "dfg_wf g" and mp: "dfg_mappable g" and mi: "map_inv g a m"
    and pl: "may_place g a m d t" and nd: "dfg_node g d = Some nd"
  shows "\<exists>s1 s2. mfold (map_inEdge g a t) (m, [], True) (ins nd) = Some s1 \<and>
    mfold (map_outEdge g a t) s1 (outs nd) = Some s2 \<and>
    loop_inv g a ((mappedAdg m)(d \<mapsto> t)) m (set (ins nd) \<union> set (outs nd)) s2"
proof -
  let ?loc = "(mappedAdg m)(d \<mapsto> t)"
  have d: "mappedAdg m d = None" using pl by (simp add: may_place_def)
  have "routed_ok g a ?loc m"
    using mi d unfolding map_inv_def route_inv_def routed_ok_def by (metis fun_upd_apply option.distinct(1))
  then have start: "loop_inv g a ?loc m {} (m, [], True)"
    using mi by (simp add: loop_inv_def map_inv_def route_inv_def)
  note inE = ins_edges[OF wf mp nd] and outE = outs_edges[OF wf mp nd]
  have step1: "\<exists>s'. map_inEdge g a t s k = Some s' \<and> loop_inv g a ?loc m (insert k P) s'"
    if k: "k \<in> set (ins nd)" and new: "k \<notin> P \<or> self_loop g k" and J: "loop_inv g a ?loc m P s" for k P s
  proof -
    obtain e where "dfg_edge g k = Some e" "ge_dstId e = d" using inE(1) k by blast
    then show ?thesis using map_inEdge_step[OF ok wf mp mi pl _ _ new J] by blast
  qed
  obtain s1 where s1: "mfold (map_inEdge g a t) (m, [], True) (ins nd) = Some s1"
      "loop_inv g a ?loc m (set (ins nd)) s1"
    using loop_fold[where f = "map_inEdge g a t" and loop = "self_loop g" and J = "loop_inv g a ?loc m" and P = "{}", OF inE(2) _ start step1]
    by auto
  have loops: "self_loop g k" if o: "k \<in> set (outs nd)" and i: "k \<in> set (ins nd)" for k
  proof -
    obtain e where e: "dfg_edge g k = Some e" "ge_dstId e = d" using iffD1[OF inE(1) i] by blast
    obtain e' where e': "dfg_edge g k = Some e'" "ge_srcId e' = d" using iffD1[OF outE(1) o] by blast
    show ?thesis using e e' by (auto simp: self_loop_def)
  qed
  have step2: "\<exists>s'. map_outEdge g a t s k = Some s' \<and> loop_inv g a ?loc m (insert k P) s'"
    if k: "k \<in> set (outs nd)" and new: "k \<notin> P \<or> self_loop g k" and J: "loop_inv g a ?loc m P s" for k P s
  proof -
    obtain e where "dfg_edge g k = Some e" "ge_srcId e = d" using outE(1) k by blast
    then show ?thesis using map_outEdge_step[OF ok wf mp mi pl _ _ new J] by blast
  qed
  obtain s2 where "mfold (map_outEdge g a t) s1 (outs nd) = Some s2"
      "loop_inv g a ?loc m (set (ins nd) \<union> set (outs nd)) s2"
    using loop_fold[where f = "map_outEdge g a t" and loop = "self_loop g" and J = "loop_inv g a ?loc m", OF outE(2) loops s1(2) step2] by auto
  then show ?thesis using s1(1) by blast
qed

section \<open>Placing and removing a node\<close>

lemma mapNoRoute_views [simp]:
  "links (mapDfgNodeNoRoute n k m) j = links m j" "passes (mapDfgNodeNoRoute n k m) i = passes m i"
  "inUsed (mapDfgNodeNoRoute n k m) = inUsed m" "outUsed (mapDfgNodeNoRoute n k m) = outUsed m"
  by (auto simp: mapDfgNodeNoRoute_def Let_def views fun_eq_iff)

lemma route_inv_views:
  assumes "route_inv g a loc m" "links m' = links m" "passes m' = passes m" "inUsed m' = inUsed m" "outUsed m' = outUsed m"
  shows "route_inv g a loc m'"
  using assms(1)
  unfolding route_inv_def routed_ok_def passes_from_def links_pass_def ports_ok_def flags_ok_def fu_ok_def
    fun_cong[OF assms(2)] fun_cong[OF assms(3)] assms(4,5) .

lemma unroutes_views:
  assumes inv: "route_inv g a loc m" and ids: "edge_ids g"
    and es: "\<forall>e \<in> set es. dfg_edge g (ge_id e) = Some e"
  shows "route_inv g a loc (foldl (\<lambda>m e. unrouteDfgEdge e m) m es)"
    and "same_place m (foldl (\<lambda>m e. unrouteDfgEdge e m) m es)"
    and "links (foldl (\<lambda>m e. unrouteDfgEdge e m) m es) k = (if k \<in> ge_id ` set es then [] else links m k)"
proof -
  have "route_inv g a loc (foldl (\<lambda>m e. unrouteDfgEdge e m) m es) \<and>
    same_place m (foldl (\<lambda>m e. unrouteDfgEdge e m) m es) \<and>
    (\<forall>k. links (foldl (\<lambda>m e. unrouteDfgEdge e m) m es) k = (if k \<in> ge_id ` set es then [] else links m k))"
    using inv es
  proof (induction es arbitrary: m)
    case (Cons e es)
    have pf: "passes_from g m" using Cons.prems(1) by (simp add: route_inv_def)
    have "route_inv g a loc (unrouteDfgEdge e m)" using del_route[OF Cons.prems(1) ids] Cons.prems(2) by simp
    from Cons.IH[OF this] show ?case
      using Cons.prems(2) unroute_views(1)[OF pf, of e] same_place_trans[OF unroute_views(2)[OF pf, of e]] by simp
  qed simp
  then show "route_inv g a loc (foldl (\<lambda>m e. unrouteDfgEdge e m) m es)"
    and "same_place m (foldl (\<lambda>m e. unrouteDfgEdge e m) m es)"
    and "links (foldl (\<lambda>m e. unrouteDfgEdge e m) m es) k = (if k \<in> ge_id ` set es then [] else links m k)"
    by blast+
qed

lemma map_inv_success:
  assumes wf: "dfg_wf g" and mp: "dfg_mappable g" and mi: "map_inv g a m" and pl: "may_place g a m d t"
    and nd: "dfg_node g d = Some nd"
    and li: "loop_inv g a ((mappedAdg m)(d \<mapsto> t)) m (set (ins nd) \<union> set (outs nd)) (m2, routed, True)"
  shows "map_inv g a (mapDfgNodeNoRoute d t m2)"
proof -
  let ?loc = "(mappedAdg m)(d \<mapsto> t)"
  have same: "same_place m m2" and ri: "route_inv g a ?loc m2"
    and fr: "\<forall>k. k \<notin> ge_id ` set routed \<longrightarrow> links m2 k = links m k"
    and rt: "\<forall>e \<in> set routed. links m (ge_id e) = []"
    and cp: "\<forall>k \<in> set (ins nd) \<union> set (outs nd). \<forall>e A B. dfg_edge g k = Some e \<longrightarrow> ge_srcId e \<noteq> ge_dstId e \<longrightarrow>
        ?loc (ge_srcId e) = Some A \<longrightarrow> ?loc (ge_dstId e) = Some B \<longrightarrow> links m2 k \<noteq> []"
    using li by (simp_all add: loop_inv_def)
  have d: "mappedAdg m d = None" "mappedDfg m t = None" "om_has (df_nodes g) d" "can_host g a d t"
    using pl by (simp_all add: may_place_def)
  have loc: "mappedAdg (mapDfgNodeNoRoute d t m2) = ?loc" using same by (simp add: same_place_def)
  have "place_inv (mapDfgNodeNoRoute d t m2)"
    using place_inv_map[OF same_place_inv[OF same]] mi d same by (simp add: map_inv_def same_place_def)
  moreover have "\<forall>n k. ?loc n = Some k \<longrightarrow> om_has (df_nodes g) n \<and> can_host g a n k"
    using mi d by (simp add: map_inv_def)
  moreover have "route_inv g a ?loc (mapDfgNodeNoRoute d t m2)" by (rule route_inv_views[OF ri]) (simp_all add: fun_eq_iff)
  moreover have "complete g ?loc (mapDfgNodeNoRoute d t m2)"
    unfolding complete_def
  proof (intro allI impI)
    fix k e A B
    assume e: "dfg_edge g k = Some e" "ge_srcId e \<noteq> ge_dstId e"
      and A: "?loc (ge_srcId e) = Some A" and B: "?loc (ge_dstId e) = Some B"
    have "links m2 k \<noteq> []"
    proof (cases "ge_srcId e = d \<or> ge_dstId e = d")
      case True
      then have "k \<in> set (ins nd) \<union> set (outs nd)"
        unfolding Un_iff ins_edges(1)[OF wf mp nd] outs_edges(1)[OF wf mp nd] using e(1) by auto
      then show ?thesis using cp e A B by blast
    next
      case False
      then have "links m k \<noteq> []" using mi e A B by (auto simp: map_inv_def complete_def)
      moreover from this have "k \<notin> ge_id ` set routed" using rt by auto
      ultimately show ?thesis using fr by simp
    qed
    then show "links (mapDfgNodeNoRoute d t m2) k \<noteq> []" by simp
  qed
  ultimately show ?thesis unfolding map_inv_def loc by blast
qed

text \<open>Being told apart by the routes only.\<close>

lemma map_inv_same:
  assumes mi: "map_inv g a m" and same: "same_place m m'" and ri: "route_inv g a loc m'" and l: "links m' = links m"
  shows "map_inv g a m'"
proof -
  have loc: "mappedAdg m' = mappedAdg m" using same by (simp add: same_place_def)
  have "routed_ok g a (mappedAdg m) m'"
    using mi fun_cong[OF l] unfolding map_inv_def route_inv_def routed_ok_def by simp
  then have "route_inv g a (mappedAdg m) m'" using ri unfolding route_inv_def by blast
  moreover have "complete g (mappedAdg m) m'" using mi fun_cong[OF l] unfolding map_inv_def complete_def by simp
  ultimately show ?thesis using mi same_place_inv[OF same] unfolding map_inv_def loc by blast
qed

lemma mapDfgNode_ok:
  assumes ok: "adg_ok a" and wf: "dfg_wf g" and mp: "dfg_mappable g" and mi: "map_inv g a m"
    and pl: "may_place g a m d t"
  shows "\<exists>ok m'. mapDfgNode g a d t m = Some (ok, m') \<and> map_inv g a m' \<and>
    (if ok then mappedAdg m' = (mappedAdg m)(d \<mapsto> t) \<and> (\<forall>k. links m k \<noteq> [] \<longrightarrow> links m' k = links m k)
     else mappedAdg m' = mappedAdg m \<and> (\<forall>k. links m' k = links m k))"
proof -
  let ?loc = "(mappedAdg m)(d \<mapsto> t)"
  obtain nd where nd: "dfg_node g d = Some nd" using pl by (auto simp: may_place_def om_has_iff dfg_node_def)
  obtain s1 m2 routed su where s: "mfold (map_inEdge g a t) (m, [], True) (ins nd) = Some s1"
      "mfold (map_outEdge g a t) s1 (outs nd) = Some (m2, routed, su)"
      and li: "loop_inv g a ?loc m (set (ins nd) \<union> set (outs nd)) (m2, routed, su)"
    using map_loops[OF ok wf mp mi pl nd] by (metis prod_cases3)
  have same: "same_place m m2" and ri: "route_inv g a ?loc m2"
    and rt: "\<forall>e \<in> set routed. dfg_edge g (ge_id e) = Some e \<and> links m (ge_id e) = []"
    and fr: "\<forall>k. k \<notin> ge_id ` set routed \<longrightarrow> links m2 k = links m k"
    using li by (simp_all add: loop_inv_def)
  show ?thesis
  proof (cases su)
    case True
    have r: "mapDfgNode g a d t m = Some (True, mapDfgNodeNoRoute d t m2)"
      using nd s True by (simp add: mapDfgNode_def)
    have keep: "links m2 k = links m k" if k: "links m k \<noteq> []" for k
    proof -
      have "k \<notin> ge_id ` set routed" using rt k by auto
      then show ?thesis using fr by simp
    qed
    then show ?thesis
      using r keep map_inv_success[OF wf mp mi pl nd] li True same by (auto simp: same_place_def)
  next
    case False
    let ?m = "foldl (\<lambda>m e. unrouteDfgEdge e m) m2 routed"
    have r: "mapDfgNode g a d t m = Some (False, ?m)"
      using nd s False by (simp add: mapDfgNode_def)
    have es: "\<forall>e \<in> set routed. dfg_edge g (ge_id e) = Some e" using rt by blast
    note u = unroutes_views[OF ri dfg_wf_ids[OF wf] es]
    have l: "links ?m = links m" using u(3) fr rt by fastforce
    have sp: "same_place m ?m" by (rule same_place_trans[OF same u(2)])
    have "map_inv g a ?m" by (rule map_inv_same[OF mi sp u(1) l])
    then show ?thesis using r sp fun_cong[OF l] by (auto simp: same_place_def)
  qed
qed

text \<open>The loops of \<open>unmapDfgNode\<close>.\<close>

lemma unroute_loop:
  assumes "\<forall>k \<in> set ks. \<exists>e. dfg_edge g k = Some e"
  shows "mfold (\<lambda>m eid. do { e \<leftarrow> dfg_edge g eid; Some (unrouteDfgEdge e m) }) m ks =
    Some (foldl (\<lambda>m e. unrouteDfgEdge e m) m (map (\<lambda>k. the (dfg_edge g k)) ks))"
  using assms by (induction ks arbitrary: m) auto

lemma unmapNoUnroute_views:
  assumes "mappedAdg m d = Some K"
  shows "links (unmapDfgNodeNoUnroute d m) k = links m k"
    and "passes (unmapDfgNodeNoUnroute d m) n = (if n = K then [] else passes m n)"
    and "inUsed (unmapDfgNodeNoUnroute d m) n p \<longleftrightarrow> n \<noteq> K \<and> inUsed m n p"
    and "outUsed (unmapDfgNodeNoUnroute d m) n p \<longleftrightarrow> n \<noteq> K \<and> outUsed m n p"
  using assms
  by (auto simp: unmapDfgNodeNoUnroute_def om_at_def no_adg_def isAdgNodeInPortUsed_def isAdgNodeOutPortUsed_def)

lemma unrouted_node_clear:
  assumes mi: "place_inv m" and ri: "route_inv g a (mappedAdg m) m" and K: "mappedAdg m d = Some K" "is_fu_id a K"
    and no: "\<forall>k e. dfg_edge g k = Some e \<longrightarrow> ge_srcId e = d \<or> ge_dstId e = d \<longrightarrow> links m k = []"
  shows "passes m K = []" and "q \<noteq> -1 \<Longrightarrow> mk_link q (-1) K \<notin> set (links m k)"
proof -
  have none: "l \<notin> set (links m k)" if n: "el_adgNode l = K" and e: "dfg_edge g k = Some e" for l k e
  proof
    assume l: "l \<in> set (links m k)"
    obtain A B q mid where s: "mappedAdg m (ge_srcId e) = Some A" "mappedAdg m (ge_dstId e) = Some B"
        "route_shape a e A B q mid (links m k)"
      using links_shape[OF _ l e, of a "mappedAdg m"] ri unfolding route_inv_def by blast
    have "A = K \<or> B = K" using route_fu_link[OF s(3) l] n K(2) by auto
    then have "ge_srcId e = d \<or> ge_dstId e = d"
      using mi K(1) s(1,2) unfolding place_inv_def by (metis option.inject)
    with no e have "links m k = []" by blast
    with l show False by simp
  qed
  show "passes m K = []"
  proof (rule ccontr)
    assume "passes m K \<noteq> []"
    then obtain y where "y \<in> set (passes m K)" by (meson list.set_sel(1))
    then have "dfg_edge g (ge_id (ep_edge y)) = Some (ep_edge y)"
        "mk_link (ep_srcPort y) (ep_dstPort y) K \<in> set (links m (ge_id (ep_edge y)))"
      using ri unfolding route_inv_def passes_from_def by blast+
    then show False using none by fastforce
  qed
  show "mk_link q (-1) K \<notin> set (links m k)"
  proof
    assume l: "mk_link q (-1) K \<in> set (links m k)"
    then have "links m k \<noteq> []" by auto
    then obtain e where "dfg_edge g k = Some e" using ri unfolding route_inv_def routed_ok_def by blast
    then show False using none[of "mk_link q (-1) K" k e] l by simp
  qed
qed

lemma clear_node_inv:
  assumes mi: "place_inv m" and ri: "route_inv g a (mappedAdg m) m" and K: "mappedAdg m d = Some K" "is_fu_id a K"
    and no: "\<forall>k e. dfg_edge g k = Some e \<longrightarrow> ge_srcId e = d \<or> ge_dstId e = d \<longrightarrow> links m k = []"
  shows "route_inv g a ((mappedAdg m)(d := None)) (unmapDfgNodeNoUnroute d m)"
proof -
  let ?m = "unmapDfgNodeNoUnroute d m"
  note v = unmapNoUnroute_views[OF K(1)] and cl = unrouted_node_clear[OF mi ri K no]
  have ro: "routed_ok g a (mappedAdg m) m" and pf: "passes_from g m" and lp: "links_pass g a m"
    and po: "ports_ok a m" and fl: "flags_ok a m" and fu: "fu_ok a m"
    using ri by (simp_all add: route_inv_def)
  have nK: "n \<noteq> K" if "is_nonfu a n" for n using nonfu_fu[OF that] K(2) by auto
  have pass: "passes ?m n = passes m n" for n using v(2) cl(1) by simp
  have "routed_ok g a ((mappedAdg m)(d := None)) ?m"
    unfolding routed_ok_def v(1)
  proof (intro allI impI)
    fix k assume l: "links m k \<noteq> []"
    then obtain e A B where e: "dfg_edge g k = Some e" "mappedAdg m (ge_srcId e) = Some A"
        "mappedAdg m (ge_dstId e) = Some B" "route_ok g a e A B (links m k)"
      using ro unfolding routed_ok_def by blast
    moreover have "ge_srcId e \<noteq> d" "ge_dstId e \<noteq> d" using no e(1) l by auto
    ultimately show "\<exists>e A B. dfg_edge g k = Some e \<and> ((mappedAdg m)(d := None)) (ge_srcId e) = Some A \<and>
        ((mappedAdg m)(d := None)) (ge_dstId e) = Some B \<and> route_ok g a e A B (links m k)" by auto
  qed
  moreover have "passes_from g ?m" using pf unfolding passes_from_def pass v(1) .
  moreover have "links_pass g a ?m" using lp unfolding links_pass_def pass v(1) .
  moreover have "ports_ok a ?m" using po unfolding ports_ok_def pass .
  moreover have "flags_ok a ?m" using fl nK unfolding flags_ok_def pass v(3,4) by blast
  moreover have "fu_ok a ?m"
    unfolding fu_ok_def pass v(1,3)
  proof (intro allI impI conjI ballI)
    fix n y assume "is_fu_id a n" "y \<in> set (passes m n)"
    then show "ep_srcPort y = -1" using fu_okD(1)[OF fu] by blast
  next
    fix n q :: int assume n: "is_fu_id a n" and q: "q \<noteq> -1"
    show "(n \<noteq> K \<and> inUsed m n q) \<longleftrightarrow> (\<exists>k. mk_link q (-1) n \<in> set (links m k))"
      using fu_okD(2)[OF fu n q] cl(2)[OF q] by auto
  next
    fix n q j k :: int
    assume "is_fu_id a n" "q \<noteq> -1" "mk_link q (-1) n \<in> set (links m j)" "mk_link q (-1) n \<in> set (links m k)"
    then show "j = k" by (rule fu_okD(3)[OF fu])
  qed
  ultimately show ?thesis unfolding route_inv_def by blast
qed

lemma unmapDfgNode_ok:
  assumes wf: "dfg_wf g" and mp: "dfg_mappable g" and mi: "map_inv g a m" and d: "om_has (df_nodes g) d"
  shows "\<exists>m'. unmapDfgNode g d m = Some m' \<and> map_inv g a m' \<and> mappedAdg m' = (mappedAdg m)(d := None) \<and>
    (\<forall>k e. dfg_edge g k = Some e \<longrightarrow>
       links m' k = (if ge_srcId e = d \<or> ge_dstId e = d then [] else links m k))"
proof -
  obtain nd where nd: "dfg_node g d = Some nd" using d by (auto simp: om_has_iff dfg_node_def)
  have pi: "place_inv m" and ri: "route_inv g a (mappedAdg m) m" using mi by (simp_all add: map_inv_def)
  let ?es = "map (\<lambda>k. the (dfg_edge g k)) (ins nd @ outs nd)"
  let ?m = "foldl (\<lambda>m e. unrouteDfgEdge e m) m ?es"
  have ids: "\<And>k e. dfg_edge g k = Some e \<Longrightarrow> ge_id e = k" using dfg_wf_ids[OF wf] by (simp add: edge_ids_def)
  have ex: "\<forall>k \<in> set (ins nd). \<exists>e. dfg_edge g k = Some e" "\<forall>k \<in> set (outs nd). \<exists>e. dfg_edge g k = Some e"
    using ins_edges(1)[OF wf mp nd] outs_edges(1)[OF wf mp nd] by blast+
  have run: "unmapDfgNode g d m = Some (unmapDfgNodeNoUnroute d ?m)"
    using nd unroute_loop[OF ex(1)] unroute_loop[OF ex(2)] by (simp add: unmapDfgNode_def)
  have es: "\<forall>e \<in> set ?es. dfg_edge g (ge_id e) = Some e" using ex ids by fastforce
  have inc: "ge_id ` set ?es = set (ins nd) \<union> set (outs nd)"
    using ex ids by (force simp: image_iff)
  note u = unroutes_views[OF ri dfg_wf_ids[OF wf] es]
  have loc: "mappedAdg ?m = mappedAdg m" using u(2) by (simp add: same_place_def)
  have l: "links ?m k = (if ge_srcId e = d \<or> ge_dstId e = d then [] else links m k)" if "dfg_edge g k = Some e" for k e
  proof -
    have "k \<in> ge_id ` set ?es \<longleftrightarrow> ge_srcId e = d \<or> ge_dstId e = d"
      unfolding inc Un_iff ins_edges(1)[OF wf mp nd] outs_edges(1)[OF wf mp nd] using that by auto
    then show ?thesis using u(3)[of k] by simp
  qed
  have pi2: "place_inv ?m" by (rule same_place_inv[OF u(2) pi])
  show ?thesis
  proof (cases "mappedAdg m d")
    case None
    have "links ?m = links m"
    proof
      fix k
      show "links ?m k = links m k"
      proof (cases "k \<in> ge_id ` set ?es")
        case True
        then obtain e where "dfg_edge g k = Some e" "ge_srcId e = d \<or> ge_dstId e = d"
          unfolding inc Un_iff ins_edges(1)[OF wf mp nd] outs_edges(1)[OF wf mp nd] by blast
        then show ?thesis using unplaced_unrouted[OF ri _ None] u(3)[of k] by auto
      qed (use u(3) in simp)
    qed
    then have "map_inv g a ?m" by (rule map_inv_same[OF mi u(2) u(1)])
    moreover have "unmapDfgNodeNoUnroute d ?m = ?m" using None loc by (simp add: unmapDfgNodeNoUnroute_def)
    ultimately show ?thesis using run l loc None by (simp add: fun_upd_idem)
  next
    case (Some K)
    let ?m' = "unmapDfgNodeNoUnroute d ?m"
    have K: "mappedAdg ?m d = Some K" "is_fu_id a K"
      using Some loc mi by (simp_all add: map_inv_def can_host_def)
    have no: "\<forall>k e. dfg_edge g k = Some e \<longrightarrow> ge_srcId e = d \<or> ge_dstId e = d \<longrightarrow> links ?m k = []"
      using l by simp
    have ri2: "route_inv g a (mappedAdg ?m) ?m" using u(1) loc by simp
    have loc': "mappedAdg ?m' = (mappedAdg m)(d := None)"
      using mapped_unmapNoUnroute(1)[OF K(1)] loc by simp
    have links': "links ?m' k = links ?m k" for k by (rule unmapNoUnroute_views(1)[OF K(1)])
    have "route_inv g a (mappedAdg ?m') ?m'"
      using clear_node_inv[OF pi2 ri2 K no] loc loc' by simp
    moreover have "complete g (mappedAdg ?m') ?m'"
      unfolding complete_def loc' links'
    proof (intro allI impI)
      fix k e A B
      assume e: "dfg_edge g k = Some e" "ge_srcId e \<noteq> ge_dstId e" "((mappedAdg m)(d := None)) (ge_srcId e) = Some A"
        "((mappedAdg m)(d := None)) (ge_dstId e) = Some B"
      then have nd: "ge_srcId e \<noteq> d" "ge_dstId e \<noteq> d" by (auto split: if_splits)
      then have "links m k \<noteq> []" using mi e by (auto simp: map_inv_def complete_def)
      then show "links ?m k \<noteq> []" using l[OF e(1)] nd by simp
    qed
    moreover have "place_inv ?m'" by (rule place_inv_unmap[OF pi2])
    moreover have "\<forall>n k. mappedAdg ?m' n = Some k \<longrightarrow> om_has (df_nodes g) n \<and> can_host g a n k"
      using mi loc' by (auto simp: map_inv_def split: if_splits)
    ultimately have "map_inv g a ?m'" unfolding map_inv_def by blast
    then show ?thesis using run l loc' links' by (intro exI[of _ ?m']) simp
  qed
qed

interpretation router: placer "\<lambda>m. adg_ok a \<and> dfg_wf g \<and> dfg_mappable g \<and> map_inv g a m" mappedAdg "om_has (df_nodes g)" "may_place g a"
  "mapDfgNode g a" "unmapDfgNode g" for a g
proof unfold_locales
  fix m n k assume inv: "adg_ok a \<and> dfg_wf g \<and> dfg_mappable g \<and> map_inv g a m" and may: "may_place g a m n k"
  from inv obtain ok m' where "mapDfgNode g a n k m = Some (ok, m')" "map_inv g a m'"
    "if ok then mappedAdg m' = (mappedAdg m)(n \<mapsto> k) else mappedAdg m' = mappedAdg m" using mapDfgNode_ok[OF _ _ _ _ may] by (metis (full_types))
  then show "\<exists>ok m'. mapDfgNode g a n k m = Some (ok, m') \<and> (adg_ok a \<and> dfg_wf g \<and> dfg_mappable g \<and> map_inv g a m') \<and>
      mappedAdg m' = (if ok then (mappedAdg m)(n \<mapsto> k) else mappedAdg m)"
    using inv by (intro exI[of _ ok] exI[of _ m']) (cases ok; simp)
next
  fix m n assume inv: "adg_ok a \<and> dfg_wf g \<and> dfg_mappable g \<and> map_inv g a m" and "om_has (df_nodes g) n"
  then show "\<exists>m'. unmapDfgNode g n m = Some m' \<and> (adg_ok a \<and> dfg_wf g \<and> dfg_mappable g \<and> map_inv g a m') \<and>
      mappedAdg m' = (mappedAdg m)(n := None)"
    using unmapDfgNode_ok[of g a m n] by blast
qed (simp add: may_place_def)

section \<open>Properties\<close>

lemma success_routed:
  assumes wf: "dfg_wf g" and mp: "dfg_mappable g" and mi: "map_inv g a m" and su: "map_success g m"
    and e: "dfg_edge g k = Some e" "ge_srcId e \<noteq> ge_dstId e"
  shows "\<exists>A B. mappedAdg m (ge_srcId e) = Some A \<and> mappedAdg m (ge_dstId e) = Some B \<and> A \<noteq> B \<and>
    route_ok g a e A B (links m k)"
proof -
  have "om_wf (df_nodes g)" using wf by (simp add: dfg_wf_def)
  moreover have "placed m \<subseteq> fst ` set (df_nodes g)"
    using mi by (auto simp: map_inv_def placed_def om_has_set)
  ultimately have all: "om_has (df_nodes g) n \<Longrightarrow> isMappedDfg m n" for n
    using map_success_iff su mi unfolding map_inv_def by blast
  have "om_has (df_nodes g) (ge_srcId e)" "om_has (df_nodes g) (ge_dstId e)"
    using mp e(1) unfolding dfg_mappable_def by blast+
  then have "mappedAdg m (ge_srcId e) \<noteq> None" "mappedAdg m (ge_dstId e) \<noteq> None"
    using all unfolding isMappedDfg_iff by simp_all
  then obtain A B where AB: "mappedAdg m (ge_srcId e) = Some A" "mappedAdg m (ge_dstId e) = Some B" by auto
  then have "links m k \<noteq> []" using mi e unfolding map_inv_def complete_def by blast
  then have "route_ok g a e A B (links m k)"
    using mi e(1) AB unfolding map_inv_def route_inv_def routed_ok_def by force
  moreover have "A \<noteq> B" using mi AB e(2) unfolding map_inv_def place_inv_def by (metis option.inject)
  ultimately show ?thesis using AB by blast
qed



text \<open>C9: \<open>Mapping::mapDfgNode\<close> is all or nothing. Placing an unplaced DFG node on a free
  functional unit that has the operands for it returns (no assertion fails, no null pointer is
  used, the search ends) and keeps the invariant. When it reports success the node is placed
  and all routes made before are as they were; when it reports failure the placement and every
  route are as before the call.\<close>

theorem mapDfgNode_correct:
  assumes "adg_ok a" "dfg_wf g" "dfg_mappable g" "map_inv g a m" "may_place g a m d t"
  shows "\<exists>ok m'. mapDfgNode g a d t m = Some (ok, m') \<and> map_inv g a m' \<and>
    (if ok then mappedAdg m' = (mappedAdg m)(d \<mapsto> t) \<and> (\<forall>k. links m k \<noteq> [] \<longrightarrow> links m' k = links m k)
     else mappedAdg m' = mappedAdg m \<and> (\<forall>k. links m' k = links m k))"
  using assms by (rule mapDfgNode_ok)

text \<open>C10: \<open>Mapping::unmapDfgNode\<close> returns, keeps the invariant, removes exactly the placement of
  that node and exactly the routes of the edges at it, and leaves every other route alone.\<close>

theorem unmapDfgNode_correct:
  assumes "dfg_wf g" "dfg_mappable g" "map_inv g a m" "om_has (df_nodes g) d"
  shows "\<exists>m'. unmapDfgNode g d m = Some m' \<and> map_inv g a m' \<and> mappedAdg m' = (mappedAdg m)(d := None) \<and>
    (\<forall>k e. dfg_edge g k = Some e \<longrightarrow>
       links m' k = (if ge_srcId e = d \<or> ge_dstId e = d then [] else links m k))"
  using assms by (rule unmapDfgNode_ok)

end
