(* ===== verification/SaInv.thy ===== *)
theory SaInv
  imports MapperSa RouteNode
begin

text \<open>
  What the annealing loop keeps: the table of edge attributes stays an ordered map under every
  operation of the router, and data synchronisation changes nothing the router relies on.
\<close>

section \<open>The table of edges stays ordered\<close>

abbreviation ewf :: "mapping \<Rightarrow> bool" where
  "ewf m \<equiv> om_wf (mp_dfgEdgeAttr m)"

lemma ewf_updates [simp]:
  "ewf m \<Longrightarrow> ewf (push_link e s d n m)" "ewf (push_pass e s d n m) = ewf m" "ewf (set_inPort n p b m) = ewf m"
  "ewf (set_outPort n p b m) = ewf m" "ewf (upd_dn n f m) = ewf m" "ewf m \<Longrightarrow> ewf (upd_de k h m)"
  by (simp_all add: push_link_def push_pass_def set_inPort_def set_outPort_def upd_defs)

lemma ewf_trace: "ewf m \<Longrightarrow> fromDst_trace fuel e dst visit final rn sp m = Some m' \<Longrightarrow> ewf m'"
  by (auto simp: fromDst_trace_eq commit_link_def Let_def split: if_splits intro!: foldl_inv[where P = ewf])

lemma ewf_reuse: "ewf m \<Longrightarrow> ewf (reuse_links e final ls m)"
  by (induction ls arbitrary: m) (auto simp: Let_def)

lemma ewf_commit: "ewf m \<Longrightarrow> fromDst_commit fuel e dst s final m = Some m' \<Longrightarrow> ewf m'"
  by (auto simp: fromDst_commit_def Let_def ewf_reuse split: option.splits if_splits prod.splits elim!: ewf_trace[rotated])

lemma ewf_fromDst: "ewf m \<Longrightarrow> routeDfgEdgeFromDst g a e src dst rng m = Some (ok, m') \<Longrightarrow> ewf m'"
  by (auto simp: routeDfgEdgeFromDst_def Let_def mapDfgNodeNoRoute_def split: option.splits if_splits bind_splits elim: ewf_commit)

lemma ewf_route: "ewf m \<Longrightarrow> routeDfgEdge g a e src dst m = Some (ok, m') \<Longrightarrow> ewf m'"
  by (auto simp: routeDfgEdge_def split: bind_splits if_splits elim: ewf_fromDst)

lemma unroute_link_edges: "mp_dfgEdgeAttr (unroute_link e m l) = mp_dfgEdgeAttr m"
  by (simp add: unroute_link_def Let_def split: option.splits)

lemma ewf_unroute: "ewf m \<Longrightarrow> ewf (unrouteDfgEdge e m)"
proof -
  have "mp_dfgEdgeAttr (foldl (unroute_link e) m ls) = mp_dfgEdgeAttr m" for ls
    by (induction ls arbitrary: m) (simp_all add: unroute_link_edges)
  then show "ewf m \<Longrightarrow> ewf (unrouteDfgEdge e m)" by (simp add: unrouteDfgEdge_def Let_def split: option.splits)
qed

lemma ewf_mapDfgNode:
  assumes m: "ewf m" and r: "mapDfgNode g a n t m = Some (ok, m')"
  shows "ewf m'"
proof -
  obtain nd s1 m2 rt su where s: "mfold (map_inEdge g a t) (m, [], True) (ins nd) = Some s1"
      "mfold (map_outEdge g a t) s1 (outs nd) = Some (m2, rt, su)"
      and m': "m' = (if su then mapDfgNodeNoRoute n t m2 else foldl (\<lambda>m re. unrouteDfgEdge re m) m2 rt)"
    using r by (auto simp: mapDfgNode_def split: bind_splits if_splits)
  have step: "ewf (fst v)" if "ewf (fst u)" "map_inEdge g a t u k = Some v \<or> map_outEdge g a t u k = Some v" for u v k
    using that by (auto simp: map_inEdge_def map_outEdge_def split: prod.splits if_splits bind_splits option.splits elim: ewf_route)
  have "ewf (fst s1)"
  proof (rule mfold_inv[OF s(1), where P = "\<lambda>u. ewf (fst u)"])
    show "ewf (fst (m, [], True))" using m by simp
  qed (rule step, assumption, rule disjI1)
  then have "ewf (fst (m2, rt, su))"
    by (rule mfold_inv[OF s(2), where P = "\<lambda>u. ewf (fst u)"]) (rule step, assumption, rule disjI2)
  moreover have "ewf (foldl (\<lambda>m re. unrouteDfgEdge re m) m2 rt)" if "ewf m2"
    by (rule foldl_inv) (use that ewf_unroute in auto)
  moreover have "ewf (mapDfgNodeNoRoute n t m2) = ewf m2" by (simp add: mapDfgNodeNoRoute_def upd_defs)
  ultimately show ?thesis using m' by simp
qed

lemma ewf_unmapDfgNode: "ewf m \<Longrightarrow> unmapDfgNode g n m = Some m' \<Longrightarrow> ewf m'"
proof -
  assume m: "ewf m" and r: "unmapDfgNode g n m = Some m'"
  let ?f = "\<lambda>m eid. do { e \<leftarrow> dfg_edge g eid; Some (unrouteDfgEdge e m) }"
  obtain nd m1 m2 where s: "mfold ?f m (ins nd) = Some m1" "mfold ?f m1 (outs nd) = Some m2" "m' = unmapDfgNodeNoUnroute n m2"
    using r by (auto simp: unmapDfgNode_def split: bind_splits)
  have step: "ewf v" if "ewf u" "?f u k = Some v" for u v k using that ewf_unroute by (auto split: bind_splits)
  have "ewf m1" by (rule mfold_inv[OF s(1)]) (use m step in auto)
  then have "ewf m2" by (rule mfold_inv[OF s(2)]) (use step in auto)
  then show ?thesis using s(3) by (simp add: unmapDfgNodeNoUnroute_def upd_defs Let_def split: option.splits)
qed

section \<open>Synchronisation leaves placement and routes alone\<close>

definition same_layout :: "mapping \<Rightarrow> mapping \<Rightarrow> bool" where
  "same_layout m m' \<longleftrightarrow> mappedAdg m' = mappedAdg m \<and> mp_adgNodeAttr m' = mp_adgNodeAttr m \<and>
     mp_numNodeMapped m' = mp_numNodeMapped m \<and> (\<forall>k. links m' k = links m k) \<and> (ewf m \<longrightarrow> ewf m')"

lemma same_layout_refl [simp]: "same_layout m m"
  by (simp add: same_layout_def)

lemma same_layout_trans: "same_layout m m' \<Longrightarrow> same_layout m' m'' \<Longrightarrow> same_layout m m''"
  by (simp add: same_layout_def)

lemma layout_upd_dn: "(\<And>x. na_adgNode (f x) = na_adgNode x) \<Longrightarrow> same_layout m (upd_dn n f m)"
  by (auto simp: same_layout_def upd_dn_def mappedAdg_attr fun_eq_iff)

lemma layout_upd_de: "(\<And>x. ea_edgeLinks (f x) = ea_edgeLinks x) \<Longrightarrow> same_layout m (upd_de k f m)"
  by (auto simp: same_layout_def upd_de_def mappedAdg_def fun_eq_iff)

lemma layout_upd_fd: "same_layout m (upd_fd k f m)"
  by (auto simp: same_layout_def upd_fd_def mappedAdg_def fun_eq_iff)

lemma layout_prims [simp]:
  "same_layout m (set_lat n x m)" "same_layout m (set_maxLat n x m)" "same_layout m (set_minLat n x m)"
  "same_layout m (set_delayUsed f p d m)" "same_layout m (add_delayUsed f p d m)"
  unfolding set_lat_def set_maxLat_def set_minLat_def set_delayUsed_def add_delayUsed_def
  by (rule layout_upd_dn layout_upd_fd, simp?)+

lemma mfold_layout:
  assumes "mfold f s xs = Some t" "\<And>x u v. x \<in> set xs \<Longrightarrow> f u x = Some v \<Longrightarrow> same_layout (get u) (get v)"
  shows "same_layout (get s) (get t)"
  by (rule mfold_inv[OF assms(1), where P = "\<lambda>u. same_layout (get s) (get u)"])
    (use assms(2) same_layout_trans in auto)

lemmas layout_seq [simp] = same_layout_trans[OF _ layout_prims(1)] same_layout_trans[OF _ layout_prims(2)]
  same_layout_trans[OF _ layout_prims(3)] same_layout_trans[OF _ layout_prims(4)] same_layout_trans[OF _ layout_prims(5)]

lemma layout_bound: "latencyBound g m = Some m' \<Longrightarrow> same_layout m m'"
proof -
  assume r: "latencyBound g m = Some m'"
  obtain m1 x i where f: "mfold (bound_step g) (m, 0, None) (df_topoNodes g) = Some (m1, x, i)"
    and m': "m' = m1\<lparr>mp_maxLat := x, mp_maxLatNodeId := the i\<rparr>"
    using r by (auto simp: latencyBound_def split: bind_splits)
  have "same_layout (fst (m, 0::int, None::int option)) (fst (m1, x, i))"
    by (rule mfold_layout[OF f, where get = fst]) (auto simp: bound_step_def Let_def split: prod.splits bind_splits if_splits)
  then show ?thesis using m' by (auto simp: same_layout_def mappedAdg_def fun_eq_iff)
qed

lemma layout_crit: "crit_path fuel g a junk n (m, sc, us) = Some (m', sc', us') \<Longrightarrow> same_layout m m'"
proof (induction fuel arbitrary: n m sc us)
  case (Suc fuel)
  then show ?case
    by (auto simp: Let_def split: bind_splits option.splits if_splits dest!: Suc.IH elim!: same_layout_trans[rotated])
qed simp

lemma layout_assigns:
  "in_assign g fu nd sc x m el = Some m' \<Longrightarrow> same_layout m m'" "out_assign g a t m k = Some m' \<Longrightarrow> same_layout m m'"
  by (auto simp: in_assign_def out_assign_def Let_def split: bind_splits if_splits)

lemma layout_in: "mfold (in_assign g fu nd sc x) m els = Some m' \<Longrightarrow> same_layout m m'"
  by (erule mfold_layout[where get = "\<lambda>x. x"]) (rule layout_assigns)

lemma layout_out: "mfold (out_assign g a t) m ks = Some m' \<Longrightarrow> same_layout m m'"
  by (erule mfold_layout[where get = "\<lambda>x. x"]) (rule layout_assigns)

lemmas layout_back = same_layout_trans[OF layout_prims(1)] same_layout_trans[OF layout_prims(2)]
  same_layout_trans[OF layout_prims(3)] same_layout_trans[OF layout_prims(4)] same_layout_trans[OF layout_prims(5)]

lemma layout_sched_node: "sched_node g a n (m, sc) = Some (Some (m', sc')) \<Longrightarrow> same_layout m m'"
  unfolding sched_node_def
  by (auto simp: Let_def split: bind_splits option.splits if_splits prod.splits
      dest!: layout_in layout_out layout_back intro: same_layout_trans)

lemma layout_sched_pass: "sched_pass g a ns s = Some (rest, s') \<Longrightarrow> same_layout (fst s) (fst s')"
  by (induction ns arbitrary: s rest)
    (auto split: bind_splits option.splits intro: same_layout_trans dest!: layout_sched_node)

lemma layout_sched_loop: "sched_loop fuel g a ns s = Some m' \<Longrightarrow> same_layout (fst s) m'"
  by (induction fuel arbitrary: ns s)
    (auto split: bind_splits if_splits intro: same_layout_trans dest!: layout_sched_pass)

lemma layout_vio_edge: "vio_edge g fu nd n x s el = Some s' \<Longrightarrow> same_layout (fst s) (fst s')"
proof -
  assume r: "vio_edge g fu nd n x s el = Some s'"
  obtain m sv mv where s: "s = (m, sv, mv)" by (cases s)
  obtain p k where el: "el = (p, k)" by (cases el)
  have de: "same_layout m' (upd_de k (\<lambda>a. a\<lparr>ea_delay := d\<rparr>) m')" "same_layout m' (upd_de k (\<lambda>a. a\<lparr>ea_vio := d\<rparr>) m')" for m' d
    by (rule layout_upd_de, simp)+
  have lst: "same_layout m' (m''\<lparr>mp_vioDfgEdges := l\<rparr>) \<longleftrightarrow> same_layout m' m''" for m' m'' l
    by (simp add: same_layout_def mappedAdg_def fun_eq_iff)
  show ?thesis
    using r unfolding vio_edge_def s el
    by (auto simp: Let_def lst split: bind_splits option.splits if_splits
        intro!: same_layout_trans[OF _ de(2)] layout_seq de(1))
qed

lemma layout_calVio: "calEdgeLatVio g a m = Some m' \<Longrightarrow> same_layout m m'"
proof -
  assume r: "calEdgeLatVio g a m = Some m'"
  obtain m1 sv mv where f: "mfold (vio_node g a) (m\<lparr>mp_vioDfgEdges := []\<rparr>, 0, 0) (df_topoNodes g) = Some (m1, sv, mv)"
    and m': "m' = m1\<lparr>mp_totalViolation := sv, mp_maxViolation := mv\<rparr>"
    using r by (auto simp: calEdgeLatVio_def split: bind_splits)
  have "same_layout (fst u) (fst v)" if st: "vio_node g a u n = Some v" for n u v
  proof -
    obtain m s1 s2 where u: "u = (m, s1, s2)" by (cases u)
    from st obtain nd fu x where e: "mfold (vio_edge g fu nd n x) (upd_fd (gn_id fu) (\<lambda>f. f) m, s1, s2) (gn_inputEdges nd) = Some v"
      by (auto simp: vio_node_def u Let_def split: bind_splits)
    have "same_layout (fst (upd_fd (gn_id fu) (\<lambda>f. f) m, s1, s2)) (fst v)"
      by (rule mfold_layout[OF e, where get = fst]) (rule layout_vio_edge)
    then show ?thesis using u same_layout_trans[OF layout_upd_fd] by simp
  qed
  then have "same_layout (fst (m\<lparr>mp_vioDfgEdges := []\<rparr>, 0::int, 0::int)) (fst (m1, sv, mv))"
    by (rule mfold_layout[OF f, where get = fst])
  then show ?thesis using m' by (simp add: same_layout_def mappedAdg_def fun_eq_iff)
qed

lemma layout_routeLat: "ewf m \<Longrightarrow> calEdgeRouteLat a m = Some m' \<Longrightarrow> same_layout m m'"
proof -
  assume wf: "ewf m" and r: "calEdgeRouteLat a m = Some m'"
  let ?f = "\<lambda>es (k, attr). do { lat \<leftarrow> links_lat a (ea_edgeLinks attr); Some (om_put es k (attr\<lparr>ea_lat := lat\<rparr>)) }"
  obtain es where es: "mfold ?f (mp_dfgEdgeAttr m) (mp_dfgEdgeAttr m) = Some es" "m' = m\<lparr>mp_dfgEdgeAttr := es\<rparr>"
    using r by (auto simp: calEdgeRouteLat_def split: bind_splits)
  have "om_wf es \<and> (\<forall>k. ea_edgeLinks (om_at no_edge es k) = links m k)"
  proof (rule mfold_inv[OF es(1), where P = "\<lambda>es. om_wf es \<and> (\<forall>k. ea_edgeLinks (om_at no_edge es k) = links m k)"])
    fix x u v assume x: "x \<in> set (mp_dfgEdgeAttr m)" and u: "om_wf u \<and> (\<forall>k. ea_edgeLinks (om_at no_edge u k) = links m k)"
      and st: "?f u x = Some v"
    obtain k at where k: "x = (k, at)" by (cases x)
    have "om_get (mp_dfgEdgeAttr m) k = Some at" using x k om_get_mem[OF wf] by simp
    then have "ea_edgeLinks at = links m k" by (simp add: om_at_def)
    then show "om_wf v \<and> (\<forall>k. ea_edgeLinks (om_at no_edge v k) = links m k)"
      using st u k by (auto split: bind_splits)
  qed (use wf in simp)
  then show ?thesis using es(2) by (simp add: same_layout_def mappedAdg_def fun_eq_iff)
qed

lemma layout_latencySchedule:
  assumes wf: "ewf m" and r: "latencySchedule g a junk m = Some m'"
  shows "same_layout m m'"
proof -
  obtain m1 m2 m3 sc us m4 where st: "calEdgeRouteLat a (m\<lparr>mp_fuDelayAttr := []\<rparr>) = Some m1" "latencyBound g m1 = Some m2"
      "crit_path (Suc (length (df_topoNodes g))) g a junk (mp_maxLatNodeId m2)
          (m2, [mp_maxLatNodeId m2], filter (\<lambda>n. n \<noteq> mp_maxLatNodeId m2) (rev (df_topoNodes g))) = Some (m3, sc, us)"
      "sched_loop (Suc (length us)) g a us (m3, sc) = Some m4" "calEdgeLatVio g a m4 = Some m'"
    using r unfolding latencySchedule_def Let_def by (auto split: bind_splits simp del: crit_path.simps sched_loop.simps)
  have "same_layout m (m\<lparr>mp_fuDelayAttr := []\<rparr>)" by (simp add: same_layout_def mappedAdg_def fun_eq_iff)
  moreover have "same_layout (m\<lparr>mp_fuDelayAttr := []\<rparr>) m1" by (rule layout_routeLat[OF _ st(1)]) (use wf in simp)
  moreover have "same_layout m3 m4" using layout_sched_loop[OF st(4)] by simp
  ultimately show ?thesis
    using layout_bound[OF st(2)] layout_crit[OF st(3)] layout_calVio[OF st(5)] same_layout_trans by metis
qed

lemma map_inv_layout:
  assumes s: "same_layout m m'" and m: "map_inv g a m"
  shows "map_inv g a m'"
proof -
  have v: "mappedAdg m' = mappedAdg m" "mp_adgNodeAttr m' = mp_adgNodeAttr m" "mp_numNodeMapped m' = mp_numNodeMapped m"
    "links m' k = links m k" for k using s by (auto simp: same_layout_def)
  have w: "mappedDfg m' = mappedDfg m" "placed m' = placed m" "isAdgNodeInPortUsed m' = isAdgNodeInPortUsed m"
    "isAdgNodeOutPortUsed m' = isAdgNodeOutPortUsed m"
    using v by (simp_all add: mappedDfg_def placed_def isAdgNodeInPortUsed_def isAdgNodeOutPortUsed_def fun_eq_iff)
  show ?thesis
    using m unfolding map_inv_def place_inv_def route_inv_def routed_ok_def passes_from_def links_pass_def ports_ok_def
      flags_ok_def fu_ok_def complete_def v w .
qed

end
