(* ===== verification/Timing.thy ===== *)
theory Timing
  imports Latency RouteNode
begin

text \<open>
  What the latency schedule achieves: on a DFG in topological order with every node mapped it
  returns (no assertion fails, the loop ends), the delays it gives the operands are never
  negative and never more than the delay unit of the functional unit has, and an edge without a
  violation delivers its operand exactly when the operation needs it.
\<close>

section \<open>Views\<close>

abbreviation lat :: "mapping \<Rightarrow> int \<Rightarrow> int" where
  "lat m n \<equiv> na_lat (dnattr m n)"

abbreviation mxl :: "mapping \<Rightarrow> int \<Rightarrow> int" where
  "mxl m n \<equiv> na_maxLat (dnattr m n)"

abbreviation rlat :: "mapping \<Rightarrow> int \<Rightarrow> int" where
  "rlat m k \<equiv> ea_lat (deattr m k)"

abbreviation delays :: "mapping \<Rightarrow> int \<Rightarrow> (int, int) omap" where
  "delays m f \<equiv> fd_delayUsed (fdattr m f)"

abbreviation tot :: "mapping \<Rightarrow> int \<Rightarrow> int" where
  "tot m f \<equiv> fd_totalDelayUsed (fdattr m f)"

lemma set_lat_views [simp]:
  "lat (set_lat n x m) j = (if j = n then x else lat m j)" "mxl (set_lat n x m) j = mxl m j"
  "deattr (set_lat n x m) k = deattr m k" "fdattr (set_lat n x m) f = fdattr m f"
  "mappedAdg (set_lat n x m) = mappedAdg m" "mp_fuDelayAttr (set_lat n x m) = mp_fuDelayAttr m"
  by (auto simp: set_lat_def upd_dn_def mappedAdg_attr fun_eq_iff)

lemma set_maxLat_views [simp]:
  "lat (set_maxLat n x m) j = lat m j" "mxl (set_maxLat n x m) j = (if j = n then x else mxl m j)"
  "deattr (set_maxLat n x m) k = deattr m k" "fdattr (set_maxLat n x m) f = fdattr m f"
  "mappedAdg (set_maxLat n x m) = mappedAdg m" "mp_fuDelayAttr (set_maxLat n x m) = mp_fuDelayAttr m"
  by (auto simp: set_maxLat_def upd_dn_def mappedAdg_attr fun_eq_iff)

lemma set_minLat_views [simp]:
  "lat (set_minLat n x m) j = lat m j" "mxl (set_minLat n x m) j = mxl m j"
  "deattr (set_minLat n x m) k = deattr m k" "fdattr (set_minLat n x m) f = fdattr m f"
  "mappedAdg (set_minLat n x m) = mappedAdg m" "mp_fuDelayAttr (set_minLat n x m) = mp_fuDelayAttr m"
  by (auto simp: set_minLat_def upd_dn_def mappedAdg_attr fun_eq_iff)

lemma upd_fd_views [simp]:
  "dnattr (upd_fd f h m) n = dnattr m n" "deattr (upd_fd f h m) k = deattr m k"
  "fdattr (upd_fd f h m) j = (if j = f then h (fdattr m f) else fdattr m j)"
  "mappedAdg (upd_fd f h m) = mappedAdg m"
  by (auto simp: upd_fd_def mappedAdg_def fun_eq_iff)

lemma mapped_fu_cong: "mappedAdg m' = mappedAdg m \<Longrightarrow> mapped_fu a m' n = mapped_fu a m n"
  by (simp add: mapped_fu_def)

section \<open>The delay left\<close>

lemma sdiv_le: "0 \<le> x \<Longrightarrow> 1 \<le> k \<Longrightarrow> x sdiv k \<le> (x::int) \<and> 0 \<le> x sdiv k"
proof -
  assume "0 \<le> x" "1 \<le> k"
  moreover from this have "x sdiv k = x div k" by (cases "x = 0") (auto simp: signed_divide_int_def sgn_if)
  moreover have "x div k \<le> x" using calculation div_le_dividend[of "nat x" "nat k"]
    by (metis div_by_1 zdiv_mono2 zero_less_one)
  ultimately show ?thesis by (simp add: pos_imp_zdiv_nonneg_iff)
qed

lemma avail_bounds:
  assumes "tot m (gn_id fu) \<le> an_maxDelay fu" "0 \<le> an_maxDelay fu"
  shows "0 \<le> getAvailDelay fu d m" "tot m (gn_id fu) + getAvailDelay fu d m \<le> an_maxDelay fu"
proof -
  have "0 \<le> getAvailDelay fu d m \<and> getAvailDelay fu d m \<le> an_maxDelay fu - tot m (gn_id fu)"
  proof (cases "om_get (mp_fuDelayAttr m) (gn_id fu)")
    case None
    then have "tot m (gn_id fu) = 0" by (simp add: om_at_def no_delay_def)
    then show ?thesis
      using assms None sdiv_le[of "an_maxDelay fu" "int (length (gn_inputs d))"]
      by (cases "gn_inputs d") (auto simp: getAvailDelay_def Let_def)
  next
    case (Some A)
    then have "fdattr m (gn_id fu) = A" by (simp add: om_at_def)
    then show ?thesis
      using assms Some sdiv_le[of "an_maxDelay fu - fd_totalDelayUsed A"]
      by (auto simp: getAvailDelay_def Let_def)
  qed
  then show "0 \<le> getAvailDelay fu d m" "tot m (gn_id fu) + getAvailDelay fu d m \<le> an_maxDelay fu" by auto
qed

section \<open>The invariant of the schedule\<close>

definition opl :: "dfg \<Rightarrow> int \<Rightarrow> int" where
  "opl g n = (case dfg_node g n of None \<Rightarrow> 0 | Some nd \<Rightarrow> dn_opLatency nd)"

text \<open>The list of nodes is in topological order and complete: producers and consumers of its nodes
  are in it, producers first.\<close>

definition topo_ok :: "dfg \<Rightarrow> bool" where
  "topo_ok g \<longleftrightarrow> distinct (df_topoNodes g) \<and>
     (\<forall>n \<in> set (df_topoNodes g). om_has (df_nodes g) n \<and> 0 \<le> opl g n) \<and>
     (\<forall>k e. dfg_edge g k = Some e \<longrightarrow> ge_dstId e \<in> set (df_topoNodes g) \<longrightarrow>
        ge_srcId e \<in> set (df_topoNodes g) \<and> index_of (df_topoNodes g) (ge_srcId e) < index_of (df_topoNodes g) (ge_dstId e)) \<and>
     (\<forall>k e. dfg_edge g k = Some e \<longrightarrow> ge_srcId e \<in> set (df_topoNodes g) \<longrightarrow> ge_dstId e \<in> set (df_topoNodes g))"

definition units_ok :: "dfg \<Rightarrow> top_adg \<Rightarrow> mapping \<Rightarrow> bool" where
  "units_ok g a m \<longleftrightarrow>
     (\<forall>n \<in> set (df_topoNodes g). \<exists>fu. mapped_fu a m n = Some fu \<and> 0 \<le> an_maxDelay fu) \<and>
     (\<forall>n n' fu fu'. mapped_fu a m n = Some fu \<longrightarrow> mapped_fu a m n' = Some fu' \<longrightarrow> gn_id fu = gn_id fu' \<longrightarrow> n = n')"

definition feasible :: "dfg \<Rightarrow> mapping \<Rightarrow> bool" where
  "feasible g m \<longleftrightarrow> (\<forall>k e. dfg_edge g k = Some e \<longrightarrow> ge_dstId e \<in> set (df_topoNodes g) \<longrightarrow>
     lat m (ge_srcId e) + rlat m k \<le> lat m (ge_dstId e) - opl g (ge_dstId e))"

text \<open>The delays a functional unit has given: within its budget, and for an edge only when both
  ends are fixed, never more than the edge needs.\<close>

definition unit_inv :: "dfg \<Rightarrow> int set \<Rightarrow> int set \<Rightarrow> mapping \<Rightarrow> int \<Rightarrow> anode \<Rightarrow> bool" where
  "unit_inv g D Z m n fu \<longleftrightarrow>
     tot m (gn_id fu) \<le> an_maxDelay fu \<and> om_wf (delays m (gn_id fu)) \<and>
     sum_list (map snd (delays m (gn_id fu))) \<le> tot m (gn_id fu) \<and>
     (\<forall>p d. om_get (delays m (gn_id fu)) p = Some d \<longrightarrow> 0 \<le> d) \<and>
     (\<forall>nd p k e d. dfg_node g n = Some nd \<longrightarrow> om_get (gn_inputEdges nd) p = Some k \<longrightarrow> dfg_edge g k = Some e \<longrightarrow>
        om_get (delays m (gn_id fu)) p = Some d \<longrightarrow>
        n \<in> D \<and> ge_srcId e \<in> Z \<and> d \<le> mxl m n - lat m (ge_srcId e) - rlat m k)"

definition sched_inv :: "dfg \<Rightarrow> top_adg \<Rightarrow> mapping \<Rightarrow> int set \<Rightarrow> int set \<Rightarrow> mapping \<Rightarrow> bool" where
  "sched_inv g a m0 D Z m \<longleftrightarrow> mappedAdg m = mappedAdg m0 \<and> (\<forall>k. rlat m k = rlat m0 k) \<and> feasible g m \<and>
     (\<forall>n \<in> D. mxl m n = lat m n - opl g n) \<and>
     (\<forall>n \<in> set (df_topoNodes g). \<forall>fu. mapped_fu a m0 n = Some fu \<longrightarrow> unit_inv g D Z m n fu)"

lemma sum_put:
  "om_wf m \<Longrightarrow> sum_list (map snd (om_put m k v)) =
     sum_list (map snd m) + v - (case om_get m k of None \<Rightarrow> 0 | Some x \<Rightarrow> x)" for v :: int
proof (induction m k v rule: om_put.induct)
  case (2 k1 v1 m k v)
  have "k < k1 \<Longrightarrow> om_get m k = None"
  proof -
    assume "k < k1"
    then have "k \<notin> fst ` set m" using 2(2) by (auto simp: om_wf_def)
    then show ?thesis by (simp add: map_of_eq_None_iff)
  qed
  then show ?case using 2 by (auto simp: om_wf_def split: option.splits)
qed simp

text \<open>Giving a port a delay.\<close>

definition give :: "int \<Rightarrow> int \<Rightarrow> int \<Rightarrow> int \<Rightarrow> mapping \<Rightarrow> mapping" where
  "give f p d t = upd_fd f (\<lambda>u. u\<lparr>fd_delayUsed := om_put (fd_delayUsed u) p d, fd_totalDelayUsed := fd_totalDelayUsed u + t\<rparr>)"

lemma add_delayUsed_give: "add_delayUsed f p d m = give f p d d m"
  by (simp add: add_delayUsed_def give_def)

lemma set_delayUsed_give: "set_delayUsed f p d m = give f p d 0 m"
  by (simp add: set_delayUsed_def give_def)

lemma give_views [simp]:
  "lat (give f p d t m) n = lat m n" "mxl (give f p d t m) n = mxl m n" "rlat (give f p d t m) k = rlat m k"
  "mappedAdg (give f p d t m) = mappedAdg m"
  "delays (give f p d t m) j = (if j = f then om_put (delays m f) p d else delays m j)"
  "tot (give f p d t m) j = (if j = f then tot m f + t else tot m j)"
  by (auto simp: give_def)

lemma give_unit:
  assumes u: "unit_inv g D Z m n fu" and d: "0 \<le> d" "d \<le> t" "tot m (gn_id fu) + t \<le> an_maxDelay fu"
    and port: "\<And>nd k e. dfg_node g n = Some nd \<Longrightarrow> om_get (gn_inputEdges nd) p = Some k \<Longrightarrow> dfg_edge g k = Some e \<Longrightarrow>
      n \<in> D \<and> ge_srcId e \<in> Z \<and> d \<le> mxl m n - lat m (ge_srcId e) - rlat m k"
  shows "unit_inv g D Z (give (gn_id fu) p d t m) n fu"
proof -
  have wf: "om_wf (delays m (gn_id fu))" and sm: "sum_list (map snd (delays m (gn_id fu))) \<le> tot m (gn_id fu)"
    and nn: "\<And>p d. om_get (delays m (gn_id fu)) p = Some d \<Longrightarrow> 0 \<le> d"
    using u unfolding unit_inv_def by blast+
  have "sum_list (map snd (om_put (delays m (gn_id fu)) p d)) \<le> tot m (gn_id fu) + t"
    using sum_put[OF wf, of p d] sm d(2) nn[of p] by (cases "om_get (delays m (gn_id fu)) p") auto
  then show ?thesis
    using u d wf port unfolding unit_inv_def by (auto split: if_splits)
qed

lemma give_sched:
  assumes inv: "sched_inv g a m0 D Z m" and un: "units_ok g a m0"
    and n: "n \<in> set (df_topoNodes g)" "mapped_fu a m0 n = Some fu"
    and d: "0 \<le> d" "d \<le> t" "tot m (gn_id fu) + t \<le> an_maxDelay fu"
    and port: "\<And>nd k e. dfg_node g n = Some nd \<Longrightarrow> om_get (gn_inputEdges nd) p = Some k \<Longrightarrow> dfg_edge g k = Some e \<Longrightarrow>
      n \<in> D \<and> ge_srcId e \<in> Z \<and> d \<le> mxl m n - lat m (ge_srcId e) - rlat m k"
  shows "sched_inv g a m0 D Z (give (gn_id fu) p d t m)"
proof -
  have "unit_inv g D Z (give (gn_id fu) p d t m) n' fu'"
    if n': "n' \<in> set (df_topoNodes g)" "mapped_fu a m0 n' = Some fu'" for n' fu'
  proof (cases "gn_id fu' = gn_id fu")
    case True
    then have "n' = n" using un n(2) n'(2) unfolding units_ok_def by blast
    then have "fu' = fu" using n(2) n'(2) by simp
    moreover have "unit_inv g D Z m n fu" using inv n unfolding sched_inv_def by blast
    ultimately show ?thesis using give_unit[OF _ d port] \<open>n' = n\<close> by simp
  next
    case False
    have "unit_inv g D Z m n' fu'" using inv n' unfolding sched_inv_def by blast
    then show ?thesis using False unfolding unit_inv_def by simp
  qed
  then show ?thesis using inv unfolding sched_inv_def feasible_def give_views(1-4) by blast
qed

section \<open>Fixing latencies\<close>

lemma sched_inv_parts:
  assumes "sched_inv g a m0 D Z m"
  shows "mappedAdg m = mappedAdg m0" "rlat m k = rlat m0 k" "feasible g m" "n \<in> D \<Longrightarrow> mxl m n = lat m n - opl g n"
    and "n \<in> set (df_topoNodes g) \<Longrightarrow> mapped_fu a m0 n = Some fu \<Longrightarrow> unit_inv g D Z m n fu"
  using assms unfolding sched_inv_def by blast+

lemma mapped_fu_inv: "sched_inv g a m0 D Z m \<Longrightarrow> mapped_fu a m n = mapped_fu a m0 n"
  by (rule mapped_fu_cong) (rule sched_inv_parts(1))

lemma sched_avail:
  assumes inv: "sched_inv g a m0 D Z m" and un: "units_ok g a m0"
    and n: "n \<in> set (df_topoNodes g)" "mapped_fu a m0 n = Some fu"
  shows "0 \<le> getAvailDelay fu d m" "tot m (gn_id fu) + getAvailDelay fu d m \<le> an_maxDelay fu"
    "tot m (gn_id fu) \<le> an_maxDelay fu"
proof -
  show t: "tot m (gn_id fu) \<le> an_maxDelay fu" using sched_inv_parts(5)[OF inv n] by (simp add: unit_inv_def)
  have "0 \<le> an_maxDelay fu" using un n unfolding units_ok_def by fastforce
  from avail_bounds[OF t this] show "0 \<le> getAvailDelay fu d m" "tot m (gn_id fu) + getAvailDelay fu d m \<le> an_maxDelay fu" .
qed

lemma minLat_sched: "sched_inv g a m0 D Z (set_minLat n x m) \<longleftrightarrow> sched_inv g a m0 D Z m"
  unfolding sched_inv_def feasible_def unit_inv_def by simp

text \<open>A node whose input latency is fixed now.\<close>

lemma maxLat_sched:
  assumes inv: "sched_inv g a m0 D Z m" and n: "n \<notin> D" and x: "x = lat m n - opl g n"
  shows "sched_inv g a m0 (insert n D) Z (set_maxLat n x m)"
proof -
  have "unit_inv g (insert n D) Z (set_maxLat n x m) j fu"
    if "j \<in> set (df_topoNodes g)" "mapped_fu a m0 j = Some fu" for j fu
  proof (cases "j = n")
    case True
    have "unit_inv g D Z m j fu" by (rule sched_inv_parts(5)[OF inv that])
    then show ?thesis using n True unfolding unit_inv_def by auto
  next
    case False
    have "unit_inv g D Z m j fu" by (rule sched_inv_parts(5)[OF inv that])
    then show ?thesis using False unfolding unit_inv_def by auto
  qed
  moreover have "\<forall>j \<in> insert n D. mxl (set_maxLat n x m) j = lat (set_maxLat n x m) j - opl g j"
    using sched_inv_parts(4)[OF inv] x by simp
  ultimately show ?thesis
    using inv unfolding sched_inv_def feasible_def set_maxLat_views(1,3,5) by blast
qed

lemma sched_mono: "sched_inv g a m0 D Z m \<Longrightarrow> Z \<subseteq> W \<Longrightarrow> sched_inv g a m0 D W m"
  unfolding sched_inv_def unit_inv_def by blast

text \<open>Raising the latency of a node that is not fixed yet, no further than its consumers allow.\<close>

lemma lat_sched:
  assumes inv: "sched_inv g a m0 D Z m" and n: "n \<notin> Z" "n \<notin> D" and up: "lat m n \<le> x"
    and out: "\<And>k e. dfg_edge g k = Some e \<Longrightarrow> ge_srcId e = n \<Longrightarrow> ge_dstId e \<in> set (df_topoNodes g) \<Longrightarrow>
      ge_dstId e \<noteq> n \<and> x + rlat m k \<le> lat m (ge_dstId e) - opl g (ge_dstId e)"
  shows "sched_inv g a m0 D Z (set_lat n x m)"
proof -
  have "feasible g (set_lat n x m)"
    unfolding feasible_def
  proof (intro allI impI)
    fix k e assume e: "dfg_edge g k = Some e" "ge_dstId e \<in> set (df_topoNodes g)"
    have old: "lat m (ge_srcId e) + rlat m k \<le> lat m (ge_dstId e) - opl g (ge_dstId e)"
      using sched_inv_parts(3)[OF inv] e unfolding feasible_def by blast
    show "lat (set_lat n x m) (ge_srcId e) + rlat (set_lat n x m) k
        \<le> lat (set_lat n x m) (ge_dstId e) - opl g (ge_dstId e)"
      using old out[OF e(1) _ e(2)] up by (cases "ge_srcId e = n"; cases "ge_dstId e = n") auto
  qed
  moreover have "unit_inv g D Z (set_lat n x m) j fu"
    if "j \<in> set (df_topoNodes g)" "mapped_fu a m0 j = Some fu" for j fu
  proof -
    have "unit_inv g D Z m j fu" by (rule sched_inv_parts(5)[OF inv that])
    then show ?thesis using n(1) unfolding unit_inv_def by auto
  qed
  moreover have "\<forall>j \<in> D. mxl (set_lat n x m) j = lat (set_lat n x m) j - opl g j"
    using sched_inv_parts(4)[OF inv] n(2) by auto
  ultimately show ?thesis
    using inv unfolding sched_inv_def set_lat_views(2,3,5) by blast
qed

section \<open>One node\<close>

text \<open>The facts about the DFG and the placement the schedule relies on.\<close>

definition sched_ready :: "dfg \<Rightarrow> top_adg \<Rightarrow> mapping \<Rightarrow> bool" where
  "sched_ready g a m \<longleftrightarrow> dfg_wf g \<and> dfg_mappable g \<and> topo_ok g \<and> units_ok g a m"

lemma ready_parts:
  assumes "sched_ready g a m"
  shows "dfg_wf g" "dfg_mappable g" "topo_ok g" "units_ok g a m"
  using assms by (simp_all add: sched_ready_def)

lemma ready_node:
  assumes "sched_ready g a m" "n \<in> set (df_topoNodes g)"
  obtains nd fu where "dfg_node g n = Some nd" "opl g n = dn_opLatency nd" "0 \<le> opl g n" "mapped_fu a m n = Some fu"
proof -
  have "om_has (df_nodes g) n" "0 \<le> opl g n" using assms by (auto simp: sched_ready_def topo_ok_def)
  then obtain nd where "dfg_node g n = Some nd" by (auto simp: om_has_iff dfg_node_def)
  moreover obtain fu where "mapped_fu a m n = Some fu" using assms unfolding sched_ready_def units_ok_def by blast
  ultimately show ?thesis using that \<open>0 \<le> opl g n\<close> by (simp add: opl_def)
qed

lemma in_port:
  assumes rd: "sched_ready g a m0" and nd: "dfg_node g n = Some nd"
  shows "(p, k) \<in> set (gn_inputEdges nd) \<longleftrightarrow> om_get (gn_inputEdges nd) p = Some k"
    and "om_get (gn_inputEdges nd) p = Some k \<longleftrightarrow> (\<exists>e. dfg_edge g k = Some e \<and> ge_dstId e = n \<and> ge_dstPortIdx e = p)"
proof -
  have mp: "dfg_mappable g" and wf: "dfg_wf g" using rd by (simp_all add: sched_ready_def)
  have "om_wf (gn_inputEdges nd)" using mp nd unfolding dfg_mappable_def by blast
  then show "(p, k) \<in> set (gn_inputEdges nd) \<longleftrightarrow> om_get (gn_inputEdges nd) p = Some k" by (rule om_get_mem)
  have "n \<noteq> g_id g" by (rule dfg_node_ne[OF mp nd])
  then have "om_get (gn_inputEdges nd) p = in_edge g n p" using nd by (simp add: in_edge_def dfg_node_def)
  then show "om_get (gn_inputEdges nd) p = Some k \<longleftrightarrow> (\<exists>e. dfg_edge g k = Some e \<and> ge_dstId e = n \<and> ge_dstPortIdx e = p)"
    using dfg_wf_reads(1)[OF wf, of n p k] by (simp add: dfg_edge_def dfg_abs_def)
qed

text \<open>Giving the port of one edge what it needs, or what is left.\<close>

lemma give_edge:
  assumes rd: "sched_ready g a m0" and inv: "sched_inv g a m0 D Z m"
    and e: "dfg_edge g k = Some e" and n: "ge_dstId e \<in> set (df_topoNodes g)" "ge_dstId e \<in> D" "ge_srcId e \<in> Z"
    and fu: "mapped_fu a m0 (ge_dstId e) = Some fu"
    and d: "d = min (mxl m (ge_dstId e) - rlat m k - lat m (ge_srcId e)) (getAvailDelay fu nd m)"
  shows "sched_inv g a m0 D Z (add_delayUsed (gn_id fu) (ge_dstPortIdx e) d m)"
  unfolding add_delayUsed_give
proof (rule give_sched[OF inv ready_parts(4)[OF rd] n(1) fu])
  note av = sched_avail(1,2)[OF inv ready_parts(4)[OF rd] n(1) fu, of nd]
  have "lat m (ge_srcId e) + rlat m k \<le> mxl m (ge_dstId e)"
    using sched_inv_parts(3)[OF inv] sched_inv_parts(4)[OF inv n(2)] e n(1) unfolding feasible_def by fastforce
  then show "0 \<le> d" using av(1) d by simp
  show "tot m (gn_id fu) + d \<le> an_maxDelay fu" using av(2) d by simp
  fix nd' k' e'
  assume nd': "dfg_node g (ge_dstId e) = Some nd'" "om_get (gn_inputEdges nd') (ge_dstPortIdx e) = Some k'" "dfg_edge g k' = Some e'"
  have "om_get (gn_inputEdges nd') (ge_dstPortIdx e) = Some k" using in_port(2)[OF rd nd'(1)] e by blast
  then have "k' = k" "e' = e" using nd' e by simp_all
  then show "ge_dstId e \<in> D \<and> ge_srcId e' \<in> Z \<and> d \<le> mxl m (ge_dstId e) - lat m (ge_srcId e') - rlat m k'"
    using n d by simp
qed simp

lemma in_assigns:
  assumes rd: "sched_ready g a m0" and n: "n \<in> set (df_topoNodes g)" "n \<in> D" "set scheduled = Z" and nd: "dfg_node g n = Some nd"
    and fu: "mapped_fu a m0 n = Some fu" and inv: "sched_inv g a m0 D Z m" and x: "mxl m n = x"
  shows "\<exists>m'. mfold (in_assign g fu nd scheduled x) m (gn_inputEdges nd) = Some m' \<and> sched_inv g a m0 D Z m' \<and>
    (\<forall>j. lat m' j = lat m j) \<and> mxl m' n = x"
proof -
  let ?P = "\<lambda>m'. sched_inv g a m0 D Z m' \<and> (\<forall>j. lat m' j = lat m j) \<and> mxl m' n = x"
  have "\<exists>t. mfold (in_assign g fu nd scheduled x) m (gn_inputEdges nd) = Some t \<and> ?P t"
  proof (rule mfold_total)
    show "?P m" using inv x by simp
    fix el u assume el: "el \<in> set (gn_inputEdges nd)" and u: "?P u"
    obtain p k where pk: "el = (p, k)" by (cases el)
    then have get: "om_get (gn_inputEdges nd) p = Some k" using el in_port(1)[OF rd nd] by blast
    obtain e where e: "dfg_edge g k = Some e" "ge_dstId e = n" "ge_dstPortIdx e = p"
      using iffD1[OF in_port(2)[OF rd nd] get] by blast
    show "\<exists>v. in_assign g fu nd scheduled x u el = Some v \<and> ?P v"
    proof (cases "ge_srcId e \<in> Z")
      case True
      let ?d = "min (mxl u (ge_dstId e) - rlat u k - lat u (ge_srcId e)) (getAvailDelay fu nd u)"
      have "sched_inv g a m0 D Z (add_delayUsed (gn_id fu) (ge_dstPortIdx e) ?d u)"
        by (rule give_edge[OF rd _ e(1) _ _ True _ refl]) (use u e n fu in auto)
      then show ?thesis using True e pk n(3) u by (simp add: in_assign_def Let_def add_delayUsed_give)
    next
      case False
      then show ?thesis using e pk n(3) u by (simp add: in_assign_def)
    qed
  qed
  then show ?thesis by blast
qed

lemma out_assigns:
  assumes rd: "sched_ready g a m0" and n: "n \<in> Z" "set (df_topoNodes g) \<supseteq> D"
    and inv: "sched_inv g a m0 D Z m" and x: "lat m n = x"
    and ks: "\<forall>k \<in> set ks. \<exists>e. dfg_edge g k = Some e \<and> ge_srcId e = n \<and> ge_dstId e \<in> D"
  shows "\<exists>m'. mfold (out_assign g a x) m ks = Some m' \<and> sched_inv g a m0 D Z m'"
proof -
  let ?P = "\<lambda>m'. sched_inv g a m0 D Z m' \<and> lat m' n = x"
  have "\<exists>t. mfold (out_assign g a x) m ks = Some t \<and> ?P t"
  proof (rule mfold_total)
    show "?P m" using inv x by simp
    fix k u assume k: "k \<in> set ks" and u: "?P u"
    obtain e where e: "dfg_edge g k = Some e" "ge_srcId e = n" "ge_dstId e \<in> D" using ks k by blast
    then have T: "ge_dstId e \<in> set (df_topoNodes g)" using n(2) by blast
    obtain dn fu where dn: "dfg_node g (ge_dstId e) = Some dn" "mapped_fu a m0 (ge_dstId e) = Some fu"
      using ready_node[OF rd T] by metis
    have fu: "mapped_fu a u (ge_dstId e) = Some fu" using mapped_fu_inv[of g a m0 D Z u] u dn(2) by simp
    let ?d = "min (mxl u (ge_dstId e) - rlat u k - lat u (ge_srcId e)) (getAvailDelay fu dn u)"
    let ?m1 = "add_delayUsed (gn_id fu) (ge_dstPortIdx e) ?d u"
    have "sched_inv g a m0 D Z ?m1"
      by (rule give_edge[OF rd _ e(1) T e(3) _ dn(2) refl]) (use u e n in auto)
    then show "\<exists>v. out_assign g a x u k = Some v \<and> ?P v"
      using e dn fu u by (simp add: out_assign_def Let_def minLat_sched add_delayUsed_give)
  qed
  then show ?thesis by blast
qed

lemma out_scan_all:
  "\<forall>k \<in> set es. \<exists>e. dfg_edge g k = Some e \<and> ge_dstId e \<in> set scheduled \<Longrightarrow>
   \<exists>M' l' u'. out_scan g m scheduled es (M, l, u) = Some (Some (M', l', u')) \<and> M' \<le> M \<and> (u' \<longleftrightarrow> u \<or> es \<noteq> []) \<and>
     (\<forall>k \<in> set es. \<forall>e. dfg_edge g k = Some e \<longrightarrow> M' \<le> mxl m (ge_dstId e) - rlat m k)"
proof (induction es arbitrary: M l u)
  case (Cons k es)
  then obtain e where e: "dfg_edge g k = Some e" "ge_dstId e \<in> set scheduled" by auto
  let ?M = "min M (mxl m (ge_dstId e) - rlat m k)"
  obtain M' l' u' where "out_scan g m scheduled es (?M, max l (na_minLat (dnattr m (ge_dstId e)) - rlat m k), True) =
      Some (Some (M', l', u'))" "M' \<le> ?M" "u'"
      "\<forall>k \<in> set es. \<forall>e. dfg_edge g k = Some e \<longrightarrow> M' \<le> mxl m (ge_dstId e) - rlat m k"
    using Cons.IH[of ?M "max l (na_minLat (dnattr m (ge_dstId e)) - rlat m k)" True] Cons.prems by auto
  then show ?case using e by (auto simp: Let_def)
qed simp

lemma sched_node_ok:
  assumes rd: "sched_ready g a m0" and inv: "sched_inv g a m0 Z Z m" and Z: "set scheduled = Z" "Z \<subseteq> set (df_topoNodes g)"
    and n: "n \<in> set (df_topoNodes g)" "n \<notin> Z"
    and out: "\<forall>k e. dfg_edge g k = Some e \<longrightarrow> ge_srcId e = n \<longrightarrow> ge_dstId e \<in> Z"
  shows "\<exists>m'. sched_node g a n (m, scheduled) = Some (Some (m', os_ins scheduled n)) \<and>
    sched_inv g a m0 (insert n Z) (insert n Z) m'"
proof -
  obtain nd fu where nd: "dfg_node g n = Some nd" "opl g n = dn_opLatency nd" and fu: "mapped_fu a m0 n = Some fu"
    using ready_node[OF rd n(1)] by metis
  have outs: "\<forall>k \<in> set (outs nd). \<exists>e. dfg_edge g k = Some e \<and> ge_srcId e = n \<and> ge_dstId e \<in> Z"
    using outs_edges(1)[OF ready_parts(1,2)[OF rd] nd(1)] out by blast
  then have "\<forall>k \<in> set (outs nd). \<exists>e. dfg_edge g k = Some e \<and> ge_dstId e \<in> set scheduled" using Z(1) by blast
  from out_scan_all[OF this, of m "0x3fffffff" 0 False] obtain M l u where
    scan: "out_scan g m scheduled (outs nd) (0x3fffffff, 0, False) = Some (Some (M, l, u))" and u: "u \<longleftrightarrow> outs nd \<noteq> []"
    and M: "\<forall>k \<in> set (outs nd). \<forall>e. dfg_edge g k = Some e \<longrightarrow> M \<le> mxl m (ge_dstId e) - rlat m k" by auto
  let ?t = "if u then max (lat m n) (min M l) else lat m n"
  let ?m1 = "if u then set_lat n ?t m else m"
  have m1: "sched_inv g a m0 Z Z ?m1"
  proof (cases u)
    case True
    have "sched_inv g a m0 Z Z (set_lat n (max (lat m n) (min M l)) m)"
    proof (rule lat_sched[OF inv n(2) n(2)])
      fix k e assume e: "dfg_edge g k = Some e" "ge_srcId e = n" "ge_dstId e \<in> set (df_topoNodes g)"
      have d: "ge_dstId e \<in> Z" using out e by blast
      have "k \<in> set (outs nd)" using outs_edges(1)[OF ready_parts(1,2)[OF rd] nd(1)] e by blast
      then have "M \<le> mxl m (ge_dstId e) - rlat m k" using M e(1) by blast
      moreover have "lat m n + rlat m k \<le> lat m (ge_dstId e) - opl g (ge_dstId e)"
        using sched_inv_parts(3)[OF inv] e unfolding feasible_def by blast
      ultimately show "ge_dstId e \<noteq> n \<and> max (lat m n) (min M l) + rlat m k \<le> lat m (ge_dstId e) - opl g (ge_dstId e)"
        using sched_inv_parts(4)[OF inv d] d n(2) by auto
    qed simp
    then show ?thesis using True by simp
  qed (use inv in simp)
  let ?x = "?t - dn_opLatency nd"
  let ?m2 = "set_maxLat n ?x ?m1"
  have lt: "lat ?m1 n = ?t" by simp
  have m2: "sched_inv g a m0 (insert n Z) (insert n Z) ?m2"
    by (rule sched_mono[OF maxLat_sched[OF m1 n(2)]]) (use lt nd in auto)
  have sc: "set (os_ins scheduled n) = insert n Z" using Z(1) by simp
  have "mxl ?m2 n = ?x" by simp
  from in_assigns[OF rd n(1) _ sc nd(1) fu m2 this] obtain m3 where
    m3: "mfold (in_assign g fu nd (os_ins scheduled n) ?x) ?m2 (gn_inputEdges nd) = Some m3"
      "sched_inv g a m0 (insert n Z) (insert n Z) m3" "\<forall>j. lat m3 j = lat ?m2 j" by auto
  let ?m4 = "set_minLat n (max (?x - getAvailDelay fu nd m3) 0) m3"
  have m4: "sched_inv g a m0 (insert n Z) (insert n Z) ?m4" using m3(2) by (simp add: minLat_sched)
  have l4: "lat ?m4 n = ?t" using m3(3) lt by simp
  have T: "insert n Z \<subseteq> set (df_topoNodes g)" using Z(2) n(1) by blast
  have outs': "\<forall>k \<in> set (outs nd). \<exists>e. dfg_edge g k = Some e \<and> ge_srcId e = n \<and> ge_dstId e \<in> insert n Z" using outs by blast
  from out_assigns[OF rd _ T m4 l4 outs'] obtain m5 where
    m5: "mfold (out_assign g a ?t) ?m4 (outs nd) = Some m5" "sched_inv g a m0 (insert n Z) (insert n Z) m5" by auto
  have f2: "mapped_fu a ?m2 n = Some fu" using mapped_fu_inv[OF m2] fu by simp
  have "sched_node g a n (m, scheduled) = Some (Some (m5, os_ins scheduled n))"
    unfolding sched_node_def prod.case Let_def nd(1) scan option.case bind.bind_lunit
    using f2 m3(1) m5(1) by (simp add: Let_def)
  then show ?thesis using m5(2) by blast
qed

section \<open>All nodes off the critical path\<close>

lemma idx_sorted: "distinct xs \<Longrightarrow> sorted_wrt (\<lambda>x y. index_of xs x < index_of xs y) xs"
  by (simp add: sorted_wrt_iff_nth_less idx_nth)

lemma idx_before:
  assumes "distinct xs" "xs = us @ n # vs" "x \<in> set xs" "index_of xs x < index_of xs n"
  shows "x \<in> set us"
proof -
  have "index_of xs n = length us" using idx_nth[OF assms(1), of "length us"] assms(2) by simp
  moreover obtain i where i: "i < length xs" "x = xs ! i" using assms(3) by (auto simp: in_set_conv_nth)
  ultimately have "i < length us" using assms(1,4) idx_nth by simp
  then show ?thesis using i(2) assms(2) by (simp add: nth_append)
qed

text \<open>Consumers come later in the order.\<close>

lemma topo_out:
  assumes "topo_ok g" "dfg_edge g k = Some e" "ge_srcId e \<in> set (df_topoNodes g)"
  shows "ge_dstId e \<in> set (df_topoNodes g)" "index_of (df_topoNodes g) (ge_srcId e) < index_of (df_topoNodes g) (ge_dstId e)"
  using assms unfolding topo_ok_def by blast+

lemma topo_in:
  assumes "topo_ok g" "dfg_edge g k = Some e" "ge_dstId e \<in> set (df_topoNodes g)"
  shows "ge_srcId e \<in> set (df_topoNodes g)" "index_of (df_topoNodes g) (ge_srcId e) < index_of (df_topoNodes g) (ge_dstId e)"
  using assms unfolding topo_ok_def by blast+

text \<open>One pass over the list schedules everything.\<close>

lemma sched_pass_all:
  assumes rd: "sched_ready g a m0"
  shows "sched_inv g a m0 Z Z m \<Longrightarrow> set scheduled = Z \<Longrightarrow>
    sorted_wrt (\<lambda>x y. index_of (df_topoNodes g) y < index_of (df_topoNodes g) x) ns \<Longrightarrow>
    Z \<union> set ns = set (df_topoNodes g) \<Longrightarrow> Z \<inter> set ns = {} \<Longrightarrow>
    \<exists>m' scheduled'. sched_pass g a ns (m, scheduled) = Some ([], m', scheduled') \<and>
      sched_inv g a m0 (set (df_topoNodes g)) (set (df_topoNodes g)) m'"
proof (induction ns arbitrary: m scheduled Z)
  case (Cons n ns)
  let ?T = "set (df_topoNodes g)"
  have n: "n \<in> ?T" "n \<notin> Z" "Z \<subseteq> ?T" using Cons.prems(4,5) by auto
  have out: "\<forall>k e. dfg_edge g k = Some e \<longrightarrow> ge_srcId e = n \<longrightarrow> ge_dstId e \<in> Z"
  proof (intro allI impI)
    fix k e assume e: "dfg_edge g k = Some e" "ge_srcId e = n"
    have d: "ge_dstId e \<in> ?T" "index_of (df_topoNodes g) n < index_of (df_topoNodes g) (ge_dstId e)"
      using topo_out[OF ready_parts(3)[OF rd] e(1)] e(2) n(1) by auto
    have "ge_dstId e \<notin> set (n # ns)" using d(2) Cons.prems(3) by fastforce
    then show "ge_dstId e \<in> Z" using d(1) Cons.prems(4) by blast
  qed
  obtain m1 where m1: "sched_node g a n (m, scheduled) = Some (Some (m1, os_ins scheduled n))"
      "sched_inv g a m0 (insert n Z) (insert n Z) m1"
    using sched_node_ok[OF rd Cons.prems(1,2) n(3,1,2) out] by blast
  have ih: "set (os_ins scheduled n) = insert n Z" "insert n Z \<union> set ns = ?T" "insert n Z \<inter> set ns = {}"
      "sorted_wrt (\<lambda>x y. index_of (df_topoNodes g) y < index_of (df_topoNodes g) x) ns"
    using Cons.prems(2,3,4,5) by auto
  from Cons.IH[OF m1(2) ih(1,4,2,3)] show ?case using m1(1) by auto
qed simp

lemma sched_loop_all:
  assumes rd: "sched_ready g a m0" and inv: "sched_inv g a m0 Z Z m" "set scheduled = Z" "Z \<subseteq> set (df_topoNodes g)"
    and ns: "ns = filter (\<lambda>n. n \<notin> Z) (rev (df_topoNodes g))"
  shows "\<exists>m'. sched_loop (Suc (length ns)) g a ns (m, scheduled) = Some m' \<and>
    sched_inv g a m0 (set (df_topoNodes g)) (set (df_topoNodes g)) m'"
proof (cases "ns = []")
  case True
  then have "Z = set (df_topoNodes g)" using inv(3) ns by (auto simp: filter_empty_conv)
  then show ?thesis using inv(1) True by simp
next
  case False
  have dist: "distinct (df_topoNodes g)" using ready_parts(3)[OF rd] by (simp add: topo_ok_def)
  have "sorted_wrt (\<lambda>x y. index_of (df_topoNodes g) y < index_of (df_topoNodes g) x) ns"
    unfolding ns by (rule sorted_wrt_filter) (simp add: sorted_wrt_rev idx_sorted[OF dist])
  moreover have "Z \<union> set ns = set (df_topoNodes g)" "Z \<inter> set ns = {}" using inv(3) ns by auto
  ultimately obtain m' sc where "sched_pass g a ns (m, scheduled) = Some ([], m', sc)"
      "sched_inv g a m0 (set (df_topoNodes g)) (set (df_topoNodes g)) m'"
    using sched_pass_all[OF rd inv(1,2)] by blast
  then show ?thesis using False by (cases ns) auto
qed

section \<open>The critical path\<close>

lemma crit_scan_cases:
  assumes "\<forall>(p, k) \<in> set es. \<exists>e. dfg_edge g k = Some e"
  shows "(\<exists>p k e. crit_scan g m x j es = Some (p, Some (ge_srcId e)) \<and> (p, k) \<in> set es \<and> dfg_edge g k = Some e \<and>
      x = lat m (ge_srcId e) + rlat m k) \<or>
    (\<exists>p. crit_scan g m x j es = Some (p, None)) \<and>
      (\<forall>(p, k) \<in> set es. \<forall>e. dfg_edge g k = Some e \<longrightarrow> x \<noteq> lat m (ge_srcId e) + rlat m k)"
  using assms
proof (induction es arbitrary: j)
  case (Cons pk es)
  obtain p k where pk: "pk = (p, k)" by (cases pk)
  obtain e where e: "dfg_edge g k = Some e" using Cons.prems pk by auto
  show ?case
  proof (cases "x = lat m (ge_srcId e) + rlat m k")
    case True
    then show ?thesis using pk e by auto
  next
    case False
    have step: "crit_scan g m x j (pk # es) = crit_scan g m x p es" using False pk e by simp
    have es: "\<forall>(p, k) \<in> set es. \<exists>e. dfg_edge g k = Some e" using Cons.prems by simp
    show ?thesis
      using Cons.IH[OF es, of p]
    proof (elim disjE exE conjE)
      fix p' k' e'
      assume r: "crit_scan g m x p es = Some (p', Some (ge_srcId e'))" "(p', k') \<in> set es"
        "dfg_edge g k' = Some e'" "x = lat m (ge_srcId e') + rlat m k'"
      have "(p', k') \<in> set (pk # es)" using r(2) by simp
      moreover have "crit_scan g m x j (pk # es) = Some (p', Some (ge_srcId e'))" using step r(1) by simp
      ultimately show ?thesis using r(3,4)
        by (intro disjI1 exI[of _ p'] exI[of _ k'] exI[of _ e']) simp
    next
      fix p'
      assume "crit_scan g m x p es = Some (p', None)"
        "\<forall>(p, k) \<in> set es. \<forall>e. dfg_edge g k = Some e \<longrightarrow> x \<noteq> lat m (ge_srcId e) + rlat m k"
      then show ?thesis using step pk e False by simp
    qed
  qed
qed simp

definition crit_ok :: "dfg \<Rightarrow> mapping \<Rightarrow> bool" where
  "crit_ok g m \<longleftrightarrow> (\<forall>n \<in> set (df_topoNodes g). \<forall>nd. dfg_node g n = Some nd \<longrightarrow> gn_inputEdges nd \<noteq> [] \<longrightarrow>
     (\<exists>(p, k) \<in> set (gn_inputEdges nd). \<exists>e. dfg_edge g k = Some e \<and> lat m n - opl g n = lat m (ge_srcId e) + rlat m k))"

lemma maxLat_give: "set_maxLat n x (give f p d t m) = give f p d t (set_maxLat n x m)"
  by (simp add: set_maxLat_def give_def upd_dn_def upd_fd_def)

lemma crit_path_ok:
  assumes rd: "sched_ready g a m0"
  shows "sched_inv g a m0 D (insert n D) m \<Longrightarrow> crit_ok g m \<Longrightarrow> n \<in> set (df_topoNodes g) \<Longrightarrow> n \<notin> D \<Longrightarrow>
    D \<subseteq> set (df_topoNodes g) \<Longrightarrow> \<forall>d \<in> D. index_of (df_topoNodes g) n < index_of (df_topoNodes g) d \<Longrightarrow>
    set scheduled = insert n D \<Longrightarrow> unscheduled = filter (\<lambda>x. x \<notin> insert n D) (rev (df_topoNodes g)) \<Longrightarrow>
    index_of (df_topoNodes g) n < fuel \<Longrightarrow>
    \<exists>m' sc Z. crit_path fuel g a junk n (m, scheduled, unscheduled) =
        Some (m', sc, filter (\<lambda>x. x \<notin> Z) (rev (df_topoNodes g))) \<and>
      sched_inv g a m0 Z Z m' \<and> set sc = Z \<and> Z \<subseteq> set (df_topoNodes g)"
proof (induction fuel arbitrary: n D m scheduled unscheduled)
  case (Suc fuel)
  let ?T = "df_topoNodes g"
  obtain nd fu where nd: "dfg_node g n = Some nd" "opl g n = dn_opLatency nd" and fu: "mapped_fu a m0 n = Some fu"
    using ready_node[OF rd Suc.prems(3)] by metis
  let ?x = "lat m n - dn_opLatency nd"
  have edges: "\<forall>(p, k) \<in> set (gn_inputEdges nd). \<exists>e. dfg_edge g k = Some e"
    using in_port[OF rd nd(1)] by blast
  have fu': "mapped_fu a m n = Some fu" using mapped_fu_inv[OF Suc.prems(1)] fu by simp
  have base: "sched_inv g a m0 (insert n D) (insert n D) (set_maxLat n ?x m)"
    by (rule maxLat_sched[OF Suc.prems(1,4)]) (simp add: nd(2))
  have bud: "tot (set_maxLat n ?x m) (gn_id fu) + 0 \<le> an_maxDelay fu"
    using sched_avail(3)[OF base ready_parts(4)[OF rd] Suc.prems(3) fu] by simp
  have mx: "mxl (set_maxLat n ?x m) n = ?x" by simp
  show ?case
    using crit_scan_cases[OF edges, of m ?x junk]
  proof (elim disjE exE conjE)
    fix p k e
    assume sc: "crit_scan g m ?x junk (gn_inputEdges nd) = Some (p, Some (ge_srcId e))"
      and pk: "(p, k) \<in> set (gn_inputEdges nd)" and e: "dfg_edge g k = Some e" and x: "?x = lat m (ge_srcId e) + rlat m k"
    let ?s = "ge_srcId e"
    have get: "om_get (gn_inputEdges nd) p = Some k" using pk in_port(1)[OF rd nd(1)] by blast
    then have dst: "ge_dstId e = n" using e in_port(2)[OF rd nd(1)] by fastforce
    have s: "?s \<in> set ?T" "index_of ?T ?s < index_of ?T n"
      using topo_in[OF ready_parts(3)[OF rd] e] dst Suc.prems(3) by auto
    then have new: "?s \<notin> insert n D" using Suc.prems(6) by fastforce
    let ?m1 = "set_maxLat n ?x (set_delayUsed (gn_id fu) p 0 m)"
    have m1: "sched_inv g a m0 (insert n D) (insert ?s (insert n D)) ?m1"
      unfolding set_delayUsed_give maxLat_give
    proof (rule give_sched[OF sched_mono[OF base] ready_parts(4)[OF rd] Suc.prems(3) fu _ _ bud])
      fix nd' k' e' assume "dfg_node g n = Some nd'" "om_get (gn_inputEdges nd') p = Some k'" "dfg_edge g k' = Some e'"
      then have "k' = k" "e' = e" using nd get e by auto
      then show "n \<in> insert n D \<and> ge_srcId e' \<in> insert ?s (insert n D) \<and>
          0 \<le> mxl (set_maxLat n ?x m) n - lat (set_maxLat n ?x m) (ge_srcId e') - rlat (set_maxLat n ?x m) k'"
        using x by simp
    qed auto
    let ?m2 = "set_minLat n (max (?x - getAvailDelay fu nd ?m1) 0) ?m1"
    have m2: "sched_inv g a m0 (insert n D) (insert ?s (insert n D)) ?m2" using m1 by (simp add: minLat_sched)
    have crit2: "crit_ok g ?m2"
      using Suc.prems(2) by (simp add: crit_ok_def set_delayUsed_give)
    obtain sd where sn: "dfg_node g ?s = Some sd" using ready_node[OF rd s(1)] by metis
    have filt: "filter (\<lambda>y. y \<noteq> ?s) unscheduled = filter (\<lambda>y. y \<notin> insert ?s (insert n D)) (rev ?T)"
      unfolding Suc.prems(8) filter_filter by (rule arg_cong[where f = "\<lambda>P. filter P (rev ?T)"]) auto
    have later: "\<forall>d \<in> insert n D. index_of ?T ?s < index_of ?T d" using s(2) Suc.prems(6) by fastforce
    have sub: "insert n D \<subseteq> set ?T" using Suc.prems(3,5) by blast
    have set: "set (os_ins scheduled ?s) = insert ?s (insert n D)" using Suc.prems(7) by simp
    have less: "index_of ?T ?s < fuel" using s(2) Suc.prems(9) by simp
    have "crit_path (Suc fuel) g a junk n (m, scheduled, unscheduled) =
        crit_path fuel g a junk ?s (?m2, os_ins scheduled ?s, filter (\<lambda>y. y \<noteq> ?s) unscheduled)"
      using nd(1) sc fu' sn by (simp only: crit_path.simps) (simp add: Let_def)
    with Suc.IH[OF m2 crit2 s(1) new sub later set filt less] show ?thesis by simp
  next
    fix p
    assume sc: "crit_scan g m ?x junk (gn_inputEdges nd) = Some (p, None)"
      and no: "\<forall>(p, k) \<in> set (gn_inputEdges nd). \<forall>e. dfg_edge g k = Some e \<longrightarrow> ?x \<noteq> lat m (ge_srcId e) + rlat m k"
    have empty: "gn_inputEdges nd = []"
    proof (rule ccontr)
      assume "gn_inputEdges nd \<noteq> []"
      then obtain p k e where "(p, k) \<in> set (gn_inputEdges nd)" "dfg_edge g k = Some e"
          "lat m n - opl g n = lat m (ge_srcId e) + rlat m k"
        using Suc.prems(2,3) nd(1) unfolding crit_ok_def by fastforce
      then show False using no nd(2) by auto
    qed
    let ?m1 = "set_maxLat n ?x (set_delayUsed (gn_id fu) p 0 m)"
    have m1: "sched_inv g a m0 (insert n D) (insert n D) ?m1"
      unfolding set_delayUsed_give maxLat_give
      by (rule give_sched[OF base ready_parts(4)[OF rd] Suc.prems(3) fu _ _ bud]) (use nd(1) empty in auto)
    let ?m2 = "set_minLat n (max (?x - getAvailDelay fu nd ?m1) 0) ?m1"
    have m2: "sched_inv g a m0 (insert n D) (insert n D) ?m2" using m1 by (simp add: minLat_sched)
    have sub: "insert n D \<subseteq> set ?T" using Suc.prems(3,5) by blast
    show ?thesis
      using nd(1) sc fu' m2 Suc.prems(7,8) sub
      by (intro exI[of _ ?m2] exI[of _ scheduled] exI[of _ "insert n D"]) (simp add: Let_def)
  qed
qed simp

end
