(* ===== verification/DfgTopo.thy ===== *)
theory DfgTopo
  imports Dfg
begin

text \<open>
  The topological sort of \<open>DFG::topoSortNodes\<close>: it always returns (the fuel is enough, cyclic
  graphs included), and on an acyclic DFG it lists exactly the nodes some output node depends
  on, each once and after everything it reads.
\<close>

text \<open>\<open>(i, n) \<in> dfg_dep g\<close>: node \<open>n\<close> reads an output of node \<open>i\<close>.\<close>

definition dfg_dep :: "dfg \<Rightarrow> (int \<times> int) set" where
  "dfg_dep g = {(i, n). i \<noteq> g_id g \<and>
     (\<exists>nd p q. om_get (df_nodes g) n = Some nd \<and> (p, (i, q)) \<in> set (gn_inputs nd))}"

definition dfg_closed :: "dfg \<Rightarrow> bool" where
  "dfg_closed g \<longleftrightarrow> om_wf (df_nodes g) \<and> (\<forall>n nd. om_get (df_nodes g) n = Some nd \<longrightarrow> gn_id nd = n \<and>
     (\<forall>(p, (i, q)) \<in> set (gn_inputs nd). i = g_id g \<or> om_has (df_nodes g) i))"

definition node_ids :: "dfg \<Rightarrow> int set" where
  "node_ids g = fst ` set (df_nodes g)"

definition visited_set :: "dfs_state \<Rightarrow> int set" where
  "visited_set s = {m. om_get (fst s) m = Some True}"

text \<open>Every element of \<open>ts\<close> comes after all it depends on.\<close>

definition dep_ordered :: "(int \<times> int) set \<Rightarrow> int list \<Rightarrow> bool" where
  "dep_ordered D ts \<longleftrightarrow> (\<forall>us n vs. ts = us @ n # vs \<longrightarrow> (\<forall>i. (i, n) \<in> D \<longrightarrow> i \<in> set us))"

lemma dep_ordered_Nil [simp]: "dep_ordered D []"
  by (simp add: dep_ordered_def)

lemma dep_ordered_snoc [simp]:
  "dep_ordered D (ts @ [n]) \<longleftrightarrow> dep_ordered D ts \<and> (\<forall>i. (i, n) \<in> D \<longrightarrow> i \<in> set ts)"
proof
  assume L: "dep_ordered D (ts @ [n])"
  have "dep_ordered D ts"
    unfolding dep_ordered_def
  proof (intro allI impI)
    fix us m vs i
    assume "ts = us @ m # vs" "(i, m) \<in> D"
    then have "ts @ [n] = us @ m # (vs @ [n])" by simp
    with L \<open>(i, m) \<in> D\<close> show "i \<in> set us" unfolding dep_ordered_def by blast
  qed
  moreover have "\<forall>i. (i, n) \<in> D \<longrightarrow> i \<in> set ts" using L unfolding dep_ordered_def by blast
  ultimately show "dep_ordered D ts \<and> (\<forall>i. (i, n) \<in> D \<longrightarrow> i \<in> set ts)" ..
next
  assume R: "dep_ordered D ts \<and> (\<forall>i. (i, n) \<in> D \<longrightarrow> i \<in> set ts)"
  show "dep_ordered D (ts @ [n])"
    unfolding dep_ordered_def
  proof (intro allI impI)
    fix us m vs i
    assume split: "ts @ [n] = us @ m # vs" and d: "(i, m) \<in> D"
    show "i \<in> set us"
    proof (cases vs rule: rev_cases)
      case Nil
      with split d R show ?thesis by auto
    next
      case (snoc ws w)
      with split have "ts = us @ m # ws" by simp
      with R d show ?thesis unfolding dep_ordered_def by blast
    qed
  qed
qed

lemma dep_ordered_closed:
  assumes "dep_ordered D ts" and "n \<in> set ts" and "(i, n) \<in> D\<^sup>*"
  shows "i \<in> set ts"
  using assms(3,2)
proof (induction rule: converse_rtrancl_induct)
  case (step y z)
  then obtain us vs where "ts = us @ z # vs" by (metis in_set_conv_decomp)
  then show ?case using assms(1) step(1) unfolding dep_ordered_def by (metis Un_iff set_append)
qed

lemma visited_put [simp]: "visited_set (om_put v n True, t) = insert n (visited_set (v, t))"
  by (auto simp: visited_set_def)

lemma visited_snd [simp]: "visited_set (v, t @ [n]) = visited_set (v, t)"
  by (simp add: visited_set_def)

lemma finite_node_ids [simp]: "finite (node_ids g)"
  by (simp add: node_ids_def)

lemma node_ids_has: "n \<in> node_ids g \<longleftrightarrow> om_has (df_nodes g) n"
  by (simp add: node_ids_def om_has_set)

section \<open>The recursion ends\<close>

lemma dfs_enough:
  assumes cl: "dfg_closed g"
  shows "om_has (df_nodes g) n \<Longrightarrow> card (node_ids g - visited_set s) < fuel \<Longrightarrow>
    \<exists>s'. dfg_dfs fuel g n s = Some s' \<and> visited_set s \<subseteq> visited_set s'"
proof (induction fuel arbitrary: n s)
  case (Suc fuel)
  obtain v t where s: "s = (v, t)" by fastforce
  from Suc.prems(1) obtain nd where nd: "om_get (df_nodes g) n = Some nd" by (auto simp: om_has_iff)
  with cl have gn: "gn_id nd = n"
    and ins: "\<And>p i q. (p, (i, q)) \<in> set (gn_inputs nd) \<Longrightarrow> i = g_id g \<or> om_has (df_nodes g) i"
    unfolding dfg_closed_def by blast+
  show ?case
  proof (cases "om_get v n = Some True")
    case True
    with nd gn s show ?thesis by (simp add: dfg_node_def)
  next
    case False
    let ?s0 = "(om_put v n True, t)"
    let ?P = "\<lambda>u. visited_set ?s0 \<subseteq> visited_set u"
    have lt: "card (node_ids g - visited_set ?s0) < fuel"
    proof -
      have "n \<in> node_ids g - visited_set s"
        using Suc.prems(1) False s by (auto simp: node_ids_has visited_set_def)
      moreover have "node_ids g - visited_set ?s0 = (node_ids g - visited_set s) - {n}"
        using s by auto
      ultimately show ?thesis
        using Suc.prems(2) card_Diff1_less[of "node_ids g - visited_set s" n] by simp
    qed
    have "\<exists>u. mfold (\<lambda>s i. if fst (snd i) = g_id g then Some s else dfg_dfs fuel g (fst (snd i)) s)
        ?s0 (gn_inputs nd) = Some u \<and> ?P u"
    proof (rule mfold_total[where P = ?P])
      fix x u
      assume x: "x \<in> set (gn_inputs nd)" and P: "?P u"
      then have fuel: "card (node_ids g - visited_set u) < fuel"
        using lt by (meson Diff_mono card_mono finite_Diff finite_node_ids le_less_trans order_refl)
      then show "\<exists>w. (if fst (snd x) = g_id g then Some u else dfg_dfs fuel g (fst (snd x)) u) = Some w \<and> ?P w"
      proof (cases "fst (snd x) = g_id g")
        case True
        with P show ?thesis by simp
      next
        case False
        then have "om_has (df_nodes g) (fst (snd x))"
          using ins[of "fst x" "fst (snd x)" "snd (snd x)"] x by simp
        with False P fuel show ?thesis using Suc.IH[of "fst (snd x)" u] by force
      qed
    qed simp
    with nd gn s False show ?thesis by (auto simp: dfg_node_def)
  qed
qed simp

section \<open>The order\<close>

definition dfs_inv :: "dfg \<Rightarrow> dfs_state \<Rightarrow> bool" where
  "dfs_inv g s \<longleftrightarrow> set (snd s) \<subseteq> visited_set s \<and> distinct (snd s) \<and> dep_ordered (dfg_dep g) (snd s)"

text \<open>What one call does: new nodes are visited, all of them below the node, and the nodes still on
  the call stack are the same afterwards.\<close>

definition dfs_post :: "dfg \<Rightarrow> int set \<Rightarrow> dfs_state \<Rightarrow> dfs_state \<Rightarrow> bool" where
  "dfs_post g roots s s' \<longleftrightarrow> dfs_inv g s' \<and> visited_set s \<subseteq> visited_set s' \<and> set (snd s) \<subseteq> set (snd s') \<and>
     visited_set s' - set (snd s') = visited_set s - set (snd s) \<and>
     visited_set s' - visited_set s \<subseteq> {m. \<exists>r \<in> roots. (m, r) \<in> (dfg_dep g)\<^sup>*}"

lemma dfs_post_refl: "dfs_inv g s \<Longrightarrow> dfs_post g R s s"
  by (simp add: dfs_post_def)

lemma dfs_post_trans: "dfs_post g R s t \<Longrightarrow> dfs_post g R t u \<Longrightarrow> dfs_post g R s u"
  unfolding dfs_post_def by blast

lemma dfs_post_mono: "dfs_post g R s t \<Longrightarrow> R \<subseteq> R' \<Longrightarrow> dfs_post g R' s t"
  unfolding dfs_post_def by blast

lemma mfold_trans:
  assumes "mfold f s xs = Some t" and "P s"
    and "\<And>u. P u \<Longrightarrow> R u u" and "\<And>a b c. R a b \<Longrightarrow> R b c \<Longrightarrow> R a c"
    and "\<And>x u v. x \<in> set xs \<Longrightarrow> P u \<Longrightarrow> R s u \<Longrightarrow> f u x = Some v \<Longrightarrow> P v \<and> R u v \<and> Q x v"
    and "\<And>x u v. Q x u \<Longrightarrow> R u v \<Longrightarrow> Q x v"
  shows "P t \<and> R s t \<and> (\<forall>x \<in> set xs. Q x t)"
proof -
  have "mfold f s ys = Some u \<Longrightarrow> set ys \<subseteq> set xs \<Longrightarrow> P u \<and> R s u \<and> (\<forall>x \<in> set ys. Q x u)" for ys u
  proof (induction ys arbitrary: u rule: rev_induct)
    case Nil
    then show ?case using assms(2,3) by auto
  next
    case (snoc y ys)
    then obtain w where w: "mfold f s ys = Some w" "f w y = Some u"
      by (auto simp: mfold_append split: bind_splits)
    with snoc have IH: "P w" "R s w" "\<forall>x \<in> set ys. Q x w" by auto
    have "y \<in> set xs" using snoc.prems by simp
    then have "P u \<and> R w u \<and> Q y u" using assms(5) IH w(2) by blast
    then show ?case using IH assms(4,6) by (metis Un_iff set_ConsD set_append empty_iff empty_set)
  qed
  then show ?thesis using assms(1) by blast
qed

lemma dfs_correct:
  assumes cl: "dfg_closed g" and ac: "acyclic (dfg_dep g)"
  shows "dfg_dfs fuel g n s = Some s' \<Longrightarrow> dfs_inv g s \<Longrightarrow>
    (\<forall>m \<in> visited_set s - set (snd s). (n, m) \<in> (dfg_dep g)\<^sup>+) \<Longrightarrow>
    dfs_post g {n} s s' \<and> n \<in> set (snd s')"
proof (induction fuel arbitrary: n s s')
  case (Suc fuel)
  obtain v t where s: "s = (v, t)" by fastforce
  from Suc.prems(1) obtain nd where nd: "om_get (df_nodes g) n = Some nd"
    by (auto simp: dfg_node_def split: bind_splits)
  with cl have gn: "gn_id nd = n" by (auto simp: dfg_closed_def)
  show ?case
  proof (cases "om_get v n = Some True")
    case True
    then have "n \<in> set (snd s)"
      using Suc.prems(3) ac s unfolding acyclic_def visited_set_def by auto
    moreover have "s' = s" using Suc.prems(1) nd gn s True by (simp add: dfg_node_def)
    ultimately show ?thesis using dfs_post_refl[OF Suc.prems(2)] by simp
  next
    case False
    let ?s0 = "(om_put v n True, t)"
    let ?f = "\<lambda>s i. if fst (snd i) = g_id g then Some s else dfg_dfs fuel g (fst (snd i)) s"
    from Suc.prems(1) nd gn s False obtain v' t'
      where run: "mfold ?f ?s0 (gn_inputs nd) = Some (v', t')" and s': "s' = (v', t' @ [n])"
      by (auto simp: dfg_node_def split: bind_splits)
    have inv0: "dfs_inv g ?s0" using Suc.prems(2) s by (auto simp: dfs_inv_def)
    let ?R = "{m. (m, n) \<in> dfg_dep g}"
    let ?Q = "\<lambda>i u. fst (snd i) = g_id g \<or> fst (snd i) \<in> set (snd u)"
    have nt: "n \<notin> set t" using False Suc.prems(2) s by (auto simp: dfs_inv_def visited_set_def)
    have nv: "n \<notin> visited_set s" using False s by (simp add: visited_set_def)
    have stack0: "visited_set ?s0 - set t = insert n (visited_set s - set t)"
      using s nt by (auto simp: visited_set_def)
    have loop: "dfs_inv g (v', t') \<and> dfs_post g ?R ?s0 (v', t') \<and> (\<forall>i \<in> set (gn_inputs nd). ?Q i (v', t'))"
    proof (rule mfold_trans[OF run])
      fix i u w
      assume i: "i \<in> set (gn_inputs nd)" and u: "dfs_inv g u" "dfs_post g ?R ?s0 u" and step: "?f u i = Some w"
      show "dfs_inv g w \<and> dfs_post g ?R u w \<and> ?Q i w"
      proof (cases "fst (snd i) = g_id g")
        case True
        with step u show ?thesis by (auto intro: dfs_post_refl)
      next
        case nid: False
        have d: "(fst (snd i), n) \<in> dfg_dep g"
          using nd nid i unfolding dfg_dep_def by (cases i) force
        have "\<forall>m \<in> visited_set u - set (snd u). (fst (snd i), m) \<in> (dfg_dep g)\<^sup>+"
        proof -
          have "visited_set u - set (snd u) = insert n (visited_set s - set t)"
            using u(2) stack0 by (simp add: dfs_post_def)
          moreover have "\<forall>m \<in> visited_set s - set t. (n, m) \<in> (dfg_dep g)\<^sup>+"
            using Suc.prems(3) s by simp
          ultimately show ?thesis using d by (auto intro: trancl_into_trancl2)
        qed
        then have "dfs_post g {fst (snd i)} u w \<and> fst (snd i) \<in> set (snd w)"
          using Suc.IH step nid u(1) by simp
        then show ?thesis using d dfs_post_mono[of g "{fst (snd i)}" u w ?R] by (auto simp: dfs_post_def)
      qed
    next
      fix i u w
      assume "?Q i u" "dfs_post g ?R u w"
      then show "?Q i w" unfolding dfs_post_def by blast
    qed (fact inv0 | erule dfs_post_refl | erule (1) dfs_post_trans)+
    then have post: "dfs_post g ?R ?s0 (v', t')" and inv': "dfs_inv g (v', t')"
      and ins: "\<forall>i \<in> set (gn_inputs nd). ?Q i (v', t')" by auto
    have n_in: "n \<in> visited_set (v', t')" "n \<notin> set t'"
      using post stack0 by (auto simp: dfs_post_def)
    have "dep_ordered (dfg_dep g) (t' @ [n])"
      using inv' ins nd by (auto simp: dfs_inv_def dfg_dep_def)
    then have "dfs_inv g s'" using inv' n_in s' by (auto simp: dfs_inv_def)
    moreover have "visited_set s' - set (snd s') = visited_set s - set (snd s)"
      using post stack0 nt nv n_in s s' by (auto simp: dfs_post_def)
    moreover have "set (snd s) \<subseteq> set (snd s')"
      using post s s' by (auto simp: dfs_post_def)
    moreover have "visited_set s \<subseteq> visited_set s'"
      using post s s' by (auto simp: dfs_post_def)
    moreover have "visited_set s' - visited_set s \<subseteq> {m. (m, n) \<in> (dfg_dep g)\<^sup>*}"
      using post s s' by (auto simp: dfs_post_def intro: rtrancl_into_rtrancl)
    ultimately show ?thesis using s' by (auto simp: dfs_post_def)
  qed
qed simp

section \<open>The whole sort\<close>

definition is_out_node :: "dfg \<Rightarrow> int \<Rightarrow> bool" where
  "is_out_node g n \<longleftrightarrow> n \<in> set (df_ioNodes g) \<and>
     (\<exists>nd. om_get (df_nodes g) n = Some nd \<and> (dn_operation nd = ''OUTPUT'' \<or> dn_operation nd = ''STORE''))"

lemma getOutNodes_total:
  assumes "\<And>n. n \<in> set (df_ioNodes g) \<Longrightarrow> om_has (df_nodes g) n"
  shows "\<exists>outs. dfg_getOutNodes g = Some outs"
proof -
  have "\<exists>t. dfg_getOutNodes g = Some t \<and> True"
    unfolding dfg_getOutNodes_def
  proof (rule mfold_total[where P = "\<lambda>_. True"])
    fix n u
    assume "n \<in> set (df_ioNodes g)"
    then obtain nd where "dfg_node g n = Some nd" using assms by (auto simp: om_has_iff dfg_node_def)
    then show "\<exists>v. do { ioNode \<leftarrow> dfg_node g n; let opName = dn_operation ioNode;
        Some (if opName = ''OUTPUT'' \<or> opName = ''STORE'' then os_ins u n else u) } = Some v \<and> True"
      by (simp add: Let_def)
  qed simp
  then show ?thesis by blast
qed

lemma mfold_filter_ins:
  "mfold (\<lambda>acc x. do { y \<leftarrow> f x; Some (if c y then os_ins acc x else acc) }) acc xs = Some acc' \<Longrightarrow>
   set acc' = set acc \<union> {x \<in> set xs. \<exists>y. f x = Some y \<and> c y}"
proof (induction xs arbitrary: acc)
  case (Cons x xs)
  then obtain y where y: "f x = Some y" by (auto split: bind_splits)
  with Cons.prems have "mfold (\<lambda>acc x. do { y \<leftarrow> f x; Some (if c y then os_ins acc x else acc) })
      (if c y then os_ins acc x else acc) xs = Some acc'" by simp
  note IH = Cons.IH[OF this]
  have "{a \<in> set (x # xs). \<exists>y. f a = Some y \<and> c y} =
      (if c y then {x} else {}) \<union> {a \<in> set xs. \<exists>y. f a = Some y \<and> c y}"
    using y by auto
  then show ?case unfolding IH by simp
qed simp

lemma getOutNodes_set:
  assumes "dfg_getOutNodes g = Some outs"
  shows "set outs = {n. is_out_node g n}"
  using mfold_filter_ins[of "dfg_node g" "\<lambda>nd. dn_operation nd = ''OUTPUT'' \<or> dn_operation nd = ''STORE''"
      "[]" "df_ioNodes g" outs] assms
  by (auto simp: dfg_getOutNodes_def is_out_node_def dfg_node_def Let_def)

lemma topoSort_total:
  assumes cl: "dfg_closed g" and io: "\<forall>n \<in> set (df_ioNodes g). om_has (df_nodes g) n"
  shows "\<exists>g'. dfg_topoSortNodes g = Some g'"
proof -
  obtain outs where outs: "dfg_getOutNodes g = Some outs" using getOutNodes_total io by blast
  have "\<exists>s. mfold (\<lambda>s n. dfg_dfs (Suc (length (df_nodes g))) g n s) ([], []) outs = Some s \<and> True"
  proof (rule mfold_total[where P = "\<lambda>_. True"])
    fix n s
    assume "n \<in> set outs"
    then have "om_has (df_nodes g) n"
      using getOutNodes_set[OF outs] by (auto simp: is_out_node_def om_has_iff)
    moreover have "card (node_ids g - visited_set s) < Suc (length (df_nodes g))"
    proof -
      have "card (node_ids g - visited_set s) \<le> card (node_ids g)" by (intro card_mono) auto
      also have "\<dots> \<le> length (df_nodes g)"
        unfolding node_ids_def by (metis card_length length_map set_map)
      finally show ?thesis by simp
    qed
    ultimately show "\<exists>v. dfg_dfs (Suc (length (df_nodes g))) g n s = Some v \<and> True"
      using dfs_enough[OF cl] by blast
  qed simp
  with outs show ?thesis by (auto simp: dfg_topoSortNodes_def)
qed

text \<open>C19: \<open>topoSortNodes\<close> returns on every DFG whose nodes read existing nodes, cyclic ones
  included: the recursion of \<open>dfs\<close> is bounded by the number of nodes.\<close>

theorem topoSort_returns:
  assumes cl: "dfg_closed g" and io: "\<forall>n \<in> set (df_ioNodes g). om_has (df_nodes g) n"
  shows "\<exists>g'. dfg_topoSortNodes g = Some g'"
  by (rule topoSort_total[OF assms])

lemma topoSort_sound:
  assumes run: "dfg_topoSortNodes g = Some g'" and cl: "dfg_closed g" and ac: "acyclic (dfg_dep g)"
  shows "distinct (df_topoNodes g') \<and> dep_ordered (dfg_dep g) (df_topoNodes g') \<and>
    set (df_topoNodes g') = {m. \<exists>n. is_out_node g n \<and> (m, n) \<in> (dfg_dep g)\<^sup>*}"
proof -
  let ?F = "Suc (length (df_nodes g))"
  from run obtain outs v t where outs: "dfg_getOutNodes g = Some outs"
    and loop: "mfold (\<lambda>s n. dfg_dfs ?F g n s) ([], []) outs = Some (v, t)" and g': "df_topoNodes g' = t"
    by (auto simp: dfg_topoSortNodes_def split: bind_splits)
  let ?P = "\<lambda>s. dfs_inv g s \<and> visited_set s = set (snd s)"
  let ?R = "{n. is_out_node g n}"
  have start: "?P ([], [])" by (simp add: dfs_inv_def visited_set_def)
  have "?P (v, t) \<and> dfs_post g ?R ([], []) (v, t) \<and> (\<forall>n \<in> set outs. n \<in> set (snd (v, t)))"
  proof (rule mfold_trans[OF loop, where P = ?P])
    fix n s s'
    assume n: "n \<in> set outs" and P: "?P s" and step: "dfg_dfs ?F g n s = Some s'"
    have post: "dfs_post g {n} s s' \<and> n \<in> set (snd s')"
      using dfs_correct[OF cl ac step] P by auto
    then have "?P s'" using P by (auto simp: dfs_post_def dfs_inv_def)
    then show "?P s' \<and> dfs_post g ?R s s' \<and> n \<in> set (snd s')"
      using post n getOutNodes_set[OF outs] dfs_post_mono[of g "{n}" s s' ?R] by auto
  next
    fix n u w
    assume "n \<in> set (snd u)" "dfs_post g ?R u w"
    then show "n \<in> set (snd w)" unfolding dfs_post_def by blast
  qed (fact start | erule conjE, erule dfs_post_refl | erule (1) dfs_post_trans)+
  then have inv: "dfs_inv g (v, t)" and vis: "visited_set (v, t) = set t"
    and post: "dfs_post g ?R ([], []) (v, t)" and all: "\<forall>n \<in> set outs. n \<in> set t" by auto
  have "set t \<subseteq> {m. \<exists>n. is_out_node g n \<and> (m, n) \<in> (dfg_dep g)\<^sup>*}"
    using post vis by (auto simp: dfs_post_def visited_set_def)
  moreover have "m \<in> set t" if "is_out_node g n" "(m, n) \<in> (dfg_dep g)\<^sup>*" for m n
    using dep_ordered_closed[of "dfg_dep g" t n m] inv all getOutNodes_set[OF outs] that
    by (auto simp: dfs_inv_def)
  ultimately show ?thesis using inv g' by (auto simp: dfs_inv_def)
qed

text \<open>C18: On an acyclic DFG the order computed by \<open>topoSortNodes\<close> has no duplicates, lists every
  node after all nodes it reads from, and contains exactly the output nodes and everything they
  depend on.\<close>

theorem topoSort_correct:
  assumes run: "dfg_topoSortNodes g = Some g'" and cl: "dfg_closed g" and ac: "acyclic (dfg_dep g)"
  shows "distinct (df_topoNodes g') \<and> dep_ordered (dfg_dep g) (df_topoNodes g') \<and>
    set (df_topoNodes g') = {m. \<exists>n. is_out_node g n \<and> (m, n) \<in> (dfg_dep g)\<^sup>*}"
  by (rule topoSort_sound[OF assms])

end
