(* ===== verification/Violation.thy ===== *)
theory Violation
  imports Timing DfgTopo
begin

text \<open>
  The phases of the latency schedule around the assignment of delays: the latency of the routes,
  the latency bound of the nodes with its critical path, and the account of the delays and
  violations of all edges. Together with \<open>Timing\<close> they give the correctness of
  \<open>latencySchedule\<close>.
\<close>

section \<open>Latency of the routes\<close>

definition links_real :: "top_adg \<Rightarrow> mapping \<Rightarrow> bool" where
  "links_real a m \<longleftrightarrow> om_wf (mp_dfgEdgeAttr m) \<and> (\<forall>k. \<forall>l \<in> set (links m k). \<exists>n. adg_node a (el_adgNode l) = Some n)"

lemma links_lat_nonneg:
  assumes "\<forall>l \<in> set ls. \<exists>n. adg_node a (el_adgNode l) = Some n"
  shows "\<exists>x. links_lat a ls = Some x \<and> 0 \<le> x"
  unfolding links_lat_def
  by (rule mfold_total) (use assms in \<open>auto simp: link_lat_def Let_def\<close>)

lemma calEdgeRouteLat_ok:
  assumes real: "links_real a m"
  shows "\<exists>m'. calEdgeRouteLat a m = Some m' \<and> m' = m\<lparr>mp_dfgEdgeAttr := mp_dfgEdgeAttr m'\<rparr> \<and>
    (\<forall>k. om_has (mp_dfgEdgeAttr m) k \<longrightarrow> links_lat a (links m k) = Some (rlat m' k)) \<and>
    (\<forall>k. \<not> om_has (mp_dfgEdgeAttr m) k \<longrightarrow> rlat m' k = 0) \<and> (\<forall>k. 0 \<le> rlat m' k)"
proof -
  let ?E = "mp_dfgEdgeAttr m"
  let ?f = "\<lambda>es (k, attr). do { lat \<leftarrow> links_lat a (ea_edgeLinks attr); Some (om_put es k (attr\<lparr>ea_lat := lat\<rparr>)) }"
  let ?J = "\<lambda>P es. (\<forall>k \<in> P. links_lat a (links m k) = Some (ea_lat (om_at no_edge es k))) \<and>
     (\<forall>k. \<not> om_has ?E k \<longrightarrow> om_get es k = None)"
  have wf: "om_wf ?E" using real by (simp add: links_real_def)
  have "\<exists>es. mfold ?f ?E ?E = Some es \<and> ?J ({} \<union> fst ` set ?E) es"
  proof (rule mfold_ghost[where J = ?J])
    show "distinct (map fst ?E)" by (rule om_wf_distinct[OF wf])
    fix x P es assume x: "x \<in> set ?E" "fst x \<notin> P" and J: "?J P es"
    obtain k at where k: "x = (k, at)" by (cases x)
    have get: "om_get ?E k = Some at" using x(1) k om_get_mem[OF wf] by simp
    then have l: "links m k = ea_edgeLinks at" by (simp add: om_at_def)
    have "\<forall>l \<in> set (ea_edgeLinks at). \<exists>n. adg_node a (el_adgNode l) = Some n"
      using real unfolding links_real_def l[symmetric] by blast
    then obtain y where y: "links_lat a (ea_edgeLinks at) = Some y" using links_lat_nonneg by blast
    have "?J (insert k P) (om_put es k (at\<lparr>ea_lat := y\<rparr>))"
      using J x(2) k y l get by (auto simp: om_at_def om_has_iff)
    then show "\<exists>es'. ?f es x = Some es' \<and> ?J (insert (fst x) P) es'" using k y by simp
  qed (auto simp: om_has_iff)
  then obtain es where es: "mfold ?f ?E ?E = Some es" "?J (fst ` set ?E) es" by auto
  have has: "om_has ?E k \<longleftrightarrow> k \<in> fst ` set ?E" for k
    using om_get_mem[OF wf] by (force simp: om_has_iff)
  let ?m = "m\<lparr>mp_dfgEdgeAttr := es\<rparr>"
  have in_: "links_lat a (links m k) = Some (rlat ?m k)" if "om_has ?E k" for k using es(2) that has by auto
  have out: "rlat ?m k = 0" if "\<not> om_has ?E k" for k using es(2) that by (simp add: om_at_def no_edge_def)
  have "0 \<le> rlat ?m k" for k
  proof (cases "om_has ?E k")
    case True
    have "\<forall>l \<in> set (links m k). \<exists>n. adg_node a (el_adgNode l) = Some n"
      using real unfolding links_real_def by blast
    from links_lat_nonneg[OF this] show ?thesis using in_[OF True] by auto
  qed (use out in simp)
  then show ?thesis using es(1) in_ out by (intro exI[of _ ?m]) (simp add: calEdgeRouteLat_def)
qed

section \<open>The latency bound\<close>

text \<open>When the operand of edge \<open>k\<close> arrives; \<open>in_bound\<close> says that \<open>x\<close> is the latest arrival at the
  node, 0 without operands.\<close>

definition arrival :: "dfg \<Rightarrow> mapping \<Rightarrow> int \<Rightarrow> int" where
  "arrival g m k = (case dfg_edge g k of None \<Rightarrow> 0 | Some e \<Rightarrow> lat m (ge_srcId e) + rlat m k)"

lemma arrival_edge: "dfg_edge g k = Some e \<Longrightarrow> arrival g m k = lat m (ge_srcId e) + rlat m k"
  by (simp add: arrival_def)

definition in_bound :: "dfg \<Rightarrow> mapping \<Rightarrow> dnode \<Rightarrow> int \<Rightarrow> bool" where
  "in_bound g m nd x \<longleftrightarrow> 0 \<le> x \<and> (\<forall>k \<in> set (ins nd). arrival g m k \<le> x) \<and>
     (x = 0 \<or> (\<exists>k \<in> set (ins nd). arrival g m k = x))"

lemma node_inLat_ok:
  assumes rd: "sched_ready g a m0" and nd: "dfg_node g n = Some nd"
  shows "\<exists>x. node_inLat g m nd = Some x \<and> in_bound g m nd x"
proof -
  let ?f = "\<lambda>maxLat (port, eid). do { e \<leftarrow> dfg_edge g eid;
        let inPortLat = na_lat (dnattr m (ge_srcId e)) + ea_lat (deattr m eid); Some (max maxLat inPortLat) }"
  let ?J = "\<lambda>P x. 0 \<le> x \<and> (\<forall>k \<in> P. arrival g m k \<le> x) \<and> (x = 0 \<or> (\<exists>k \<in> P. arrival g m k = x))"
  have "\<exists>x. mfold ?f 0 (gn_inputEdges nd) = Some x \<and> ?J ({} \<union> snd ` set (gn_inputEdges nd)) x"
  proof (rule mfold_ghost[where J = ?J])
    show "distinct (map snd (gn_inputEdges nd))" by (rule ins_edges(2)[OF ready_parts(1,2)[OF rd] nd])
    fix el P x assume el: "el \<in> set (gn_inputEdges nd)" "snd el \<notin> P" and J: "?J P x"
    obtain p k where pk: "el = (p, k)" by (cases el)
    obtain e where e: "dfg_edge g k = Some e" using el(1) in_port[OF rd nd] pk by blast
    have "?J (insert k P) (max x (arrival g m k))" using J by (fastforce simp: max_def)
    moreover have "?f x el = Some (max x (arrival g m k))" using pk e by (simp add: Let_def arrival_edge)
    ultimately show "\<exists>x'. ?f x el = Some x' \<and> ?J (insert (snd el) P) x'" using pk by auto
  qed auto
  then show ?thesis unfolding node_inLat_def in_bound_def by auto
qed

text \<open>The latency of a node is the latest arrival plus its own latency.\<close>

definition recurrence :: "dfg \<Rightarrow> mapping \<Rightarrow> int \<Rightarrow> bool" where
  "recurrence g m n \<longleftrightarrow> (\<forall>nd. dfg_node g n = Some nd \<longrightarrow> in_bound g m nd (lat m n - opl g n))"

definition bound_inv :: "dfg \<Rightarrow> mapping \<Rightarrow> int list \<Rightarrow> bound_state \<Rightarrow> bool" where
  "bound_inv g m0 us s = (case s of (m, mx, i) \<Rightarrow>
     m = m0\<lparr>mp_dfgNodeAttr := mp_dfgNodeAttr m\<rparr> \<and> mappedAdg m = mappedAdg m0 \<and> 0 \<le> mx \<and>
     (\<forall>n \<in> set us. recurrence g m n \<and> lat m n \<le> mx) \<and>
     (us = [] \<longrightarrow> mx = 0) \<and> (us \<noteq> [] \<longrightarrow> (\<exists>j \<in> set us. i = Some j \<and> lat m j = mx)))"

lemma in_bound_set_lat:
  assumes rd: "sched_ready g a m0" and nd: "dfg_node g j = Some nd" and b: "in_bound g m nd x"
    and src: "\<And>k e. dfg_edge g k = Some e \<Longrightarrow> ge_dstId e = j \<Longrightarrow> ge_srcId e \<noteq> n"
  shows "in_bound g (set_lat n y m) nd x"
proof -
  have "arrival g (set_lat n y m) k = arrival g m k" if "k \<in> set (ins nd)" for k
    using src that ins_edges(1)[OF ready_parts(1,2)[OF rd] nd] by (auto simp: arrival_def)
  then show ?thesis using b by (simp add: in_bound_def)
qed

lemma bound_step_ok:
  assumes rd: "sched_ready g a m0" and split: "df_topoNodes g = us @ n # vs" and inv: "bound_inv g m0 us s"
  shows "\<exists>s'. bound_step g s n = Some s' \<and> bound_inv g m0 (us @ [n]) s'"
proof -
  obtain m mx i where s: "s = (m, mx, i)" by (cases s)
  have to: "topo_ok g" and dist: "distinct (df_topoNodes g)" using ready_parts(3)[OF rd] by (auto simp: topo_ok_def)
  have nT: "n \<in> set (df_topoNodes g)" and nu: "n \<notin> set us" using split dist by auto
  obtain nd where nd: "dfg_node g n = Some nd" "opl g n = dn_opLatency nd" "0 \<le> opl g n"
    using ready_node[OF rd nT] by metis
  obtain x where x: "node_inLat g m nd = Some x" "in_bound g m nd x" using node_inLat_ok[OF rd nd(1)] by blast
  then have x0: "0 \<le> x" by (simp add: in_bound_def)
  have early: "ge_srcId e \<in> set us" if "dfg_edge g k = Some e" and "ge_dstId e = j" and side: "j \<in> set us \<or> j = n" for k e j
  proof (cases "j = n")
    case True
    then show ?thesis using topo_in[OF to that(1)] that(2) nT idx_before[OF dist split] by auto
  next
    case False
    then obtain as bs where ab: "us = as @ j # bs" using side split_list by metis
    then have T: "df_topoNodes g = as @ j # (bs @ n # vs)" "j \<in> set (df_topoNodes g)" using split by auto
    have "ge_srcId e \<in> set (df_topoNodes g)" "index_of (df_topoNodes g) (ge_srcId e) < index_of (df_topoNodes g) j"
      using topo_in[OF to that(1)] that(2) T(2) by auto
    from idx_before[OF dist T(1) this] have "ge_srcId e \<in> set as" .
    then show ?thesis using ab by simp
  qed
  let ?l = "x + dn_opLatency nd"
  let ?m = "set_lat n ?l m"
  have src_ne: "ge_srcId e \<noteq> n" if "dfg_edge g k = Some e" "ge_dstId e = j" "j \<in> set us \<or> j = n" for k e j
    using early[OF that] nu by auto
  have here: "recurrence g ?m n"
    using in_bound_set_lat[OF rd nd(1) x(2)] src_ne nd(1,2) by (simp add: recurrence_def)
  have there: "recurrence g ?m j \<and> lat ?m j = lat m j" if j: "j \<in> set us" for j
  proof -
    have "recurrence g m j" using inv s j by (simp add: bound_inv_def)
    moreover have "j \<noteq> n" using j nu by auto
    ultimately show ?thesis
      using in_bound_set_lat[OF rd, of j] src_ne j unfolding recurrence_def by simp
  qed
  have m: "m = m0\<lparr>mp_dfgNodeAttr := mp_dfgNodeAttr m\<rparr>" and mp: "mappedAdg m = mappedAdg m0" and t0: "0 \<le> mx"
    and old: "\<forall>j \<in> set us. lat m j \<le> mx" "us \<noteq> [] \<Longrightarrow> \<exists>j \<in> set us. i = Some j \<and> lat m j = mx"
    using inv s unfolding bound_inv_def by auto
  have m': "?m = m0\<lparr>mp_dfgNodeAttr := mp_dfgNodeAttr ?m\<rparr>"
    by (subst m) (simp add: set_lat_def upd_dn_def)
  have l0: "0 \<le> ?l" using x0 nd(2,3) by simp
  let ?s = "if mx \<le> ?l then (?m, ?l, Some n) else (?m, mx, i)"
  have "bound_step g s n = Some ?s" using s nd(1) x(1) by (simp add: bound_step_def Let_def)
  moreover have "bound_inv g m0 (us @ [n]) ?s"
  proof (cases "mx \<le> ?l")
    case True
    then show ?thesis using m' mp l0 there here old(1) by (fastforce simp: bound_inv_def)
  next
    case False
    have "us \<noteq> []" using False l0 inv s by (auto simp: bound_inv_def)
    then show ?thesis using False m' mp t0 there here old by (auto simp: bound_inv_def)
  qed
  ultimately show ?thesis by blast
qed

text \<open>\<open>latencyBound\<close> fixes the latencies and nothing else.\<close>

definition bounded :: "dfg \<Rightarrow> mapping \<Rightarrow> mapping \<Rightarrow> bool" where
  "bounded g m0 m \<longleftrightarrow> m = m0\<lparr>mp_dfgNodeAttr := mp_dfgNodeAttr m, mp_maxLat := mp_maxLat m, mp_maxLatNodeId := mp_maxLatNodeId m\<rparr> \<and>
     mappedAdg m = mappedAdg m0 \<and> (\<forall>n \<in> set (df_topoNodes g). recurrence g m n \<and> lat m n \<le> mp_maxLat m) \<and>
     mp_maxLatNodeId m \<in> set (df_topoNodes g) \<and> lat m (mp_maxLatNodeId m) = mp_maxLat m"

lemma latencyBound_ok:
  assumes rd: "sched_ready g a m" and ne: "df_topoNodes g \<noteq> []"
  shows "\<exists>m'. latencyBound g m = Some m' \<and> bounded g m m'"
proof -
  have "\<exists>s. mfold (bound_step g) (m, 0, None) (df_topoNodes g) = Some s \<and> bound_inv g m (df_topoNodes g) s"
    by (rule mfold_prefix) (use bound_step_ok[OF rd] in \<open>auto simp: bound_inv_def\<close>)
  then obtain m1 mx i where r: "mfold (bound_step g) (m, 0, None) (df_topoNodes g) = Some (m1, mx, i)"
      "bound_inv g m (df_topoNodes g) (m1, mx, i)" by (metis prod_cases3)
  then obtain j where j: "j \<in> set (df_topoNodes g)" "i = Some j" "lat m1 j = mx"
    using ne by (auto simp: bound_inv_def)
  let ?m = "m1\<lparr>mp_maxLat := mx, mp_maxLatNodeId := j\<rparr>"
  have m1: "m1 = m\<lparr>mp_dfgNodeAttr := mp_dfgNodeAttr m1\<rparr>" "mappedAdg m1 = mappedAdg m"
    using r(2) unfolding bound_inv_def prod.case by blast+
  have "?m = m\<lparr>mp_dfgNodeAttr := mp_dfgNodeAttr ?m, mp_maxLat := mp_maxLat ?m, mp_maxLatNodeId := mp_maxLatNodeId ?m\<rparr>"
    by (subst m1(1)) simp
  moreover have "mappedAdg ?m = mappedAdg m" using m1(2) by (simp add: mappedAdg_def fun_eq_iff)
  moreover have "arrival g ?m k = arrival g m1 k" for k by (cases "dfg_edge g k") (simp_all add: arrival_def)
  then have "recurrence g ?m n \<longleftrightarrow> recurrence g m1 n" for n by (simp add: recurrence_def in_bound_def)
  ultimately have "bounded g m ?m" using r(2) j by (simp add: bounded_def bound_inv_def)
  moreover have "latencyBound g m = Some ?m" using r(1) j(2) by (simp add: latencyBound_def)
  ultimately show ?thesis by blast
qed

text \<open>The state in which the critical path starts.\<close>

lemma bounded_start:
  assumes rd: "sched_ready g a m0" and b: "bounded g m0 m" and em: "mp_fuDelayAttr m0 = []" and r0: "\<forall>k. 0 \<le> rlat m0 k"
  shows "sched_ready g a m" "sched_inv g a m {} Z m" "crit_ok g m"
proof -
  have mp: "mappedAdg m = mappedAdg m0" and rec: "n \<in> set (df_topoNodes g) \<Longrightarrow> recurrence g m n" for n
    using b by (auto simp: bounded_def)
  have eq: "m = m0\<lparr>mp_dfgNodeAttr := mp_dfgNodeAttr m, mp_maxLat := mp_maxLat m, mp_maxLatNodeId := mp_maxLatNodeId m\<rparr>"
    using b by (simp add: bounded_def)
  have fd: "mp_fuDelayAttr m = []" and de: "mp_dfgEdgeAttr m = mp_dfgEdgeAttr m0"
    using arg_cong[where f = mp_fuDelayAttr, OF eq] arg_cong[where f = mp_dfgEdgeAttr, OF eq] em by simp_all
  show rd': "sched_ready g a m" using rd mapped_fu_cong[OF mp] by (simp add: sched_ready_def units_ok_def)
  have rec': "\<exists>nd. dfg_node g n = Some nd \<and> in_bound g m nd (lat m n - opl g n)" if "n \<in> set (df_topoNodes g)" for n
    using rec[OF that] ready_node[OF rd that] by (metis recurrence_def)
  have feas: "feasible g m"
    unfolding feasible_def
  proof (intro allI impI)
    fix k e assume e: "dfg_edge g k = Some e" "ge_dstId e \<in> set (df_topoNodes g)"
    obtain nd where nd: "dfg_node g (ge_dstId e) = Some nd" "in_bound g m nd (lat m (ge_dstId e) - opl g (ge_dstId e))"
      using rec'[OF e(2)] by blast
    have "k \<in> set (ins nd)" using ins_edges(1)[OF ready_parts(1,2)[OF rd] nd(1)] e(1) by blast
    then show "lat m (ge_srcId e) + rlat m k \<le> lat m (ge_dstId e) - opl g (ge_dstId e)"
      using nd(2) arrival_edge[OF e(1)] by (auto simp: in_bound_def)
  qed
  have unit: "unit_inv g {} Z m n fu" if "n \<in> set (df_topoNodes g)" "mapped_fu a m n = Some fu" for n fu
  proof -
    have "0 \<le> an_maxDelay fu" using ready_parts(4)[OF rd'] that unfolding units_ok_def by force
    then show ?thesis using fd by (simp add: unit_inv_def om_at_def no_delay_def om_wf_def)
  qed
  show "sched_inv g a m {} Z m" using feas unit by (simp add: sched_inv_def)
  have lat0: "0 \<le> lat m n" if "n \<in> set (df_topoNodes g)" for n
    using rec'[OF that] ready_node[OF rd that] by (force simp: in_bound_def)
  show "crit_ok g m"
    unfolding crit_ok_def
  proof (intro ballI allI impI)
    fix n nd assume n: "n \<in> set (df_topoNodes g)" and nd: "dfg_node g n = Some nd" and ne: "gn_inputEdges nd \<noteq> []"
    let ?x = "lat m n - opl g n"
    have ib: "in_bound g m nd ?x" using rec'[OF n] nd by simp
    have pos: "0 \<le> arrival g m k" if k: "k \<in> set (ins nd)" for k
    proof -
      obtain e where e: "dfg_edge g k = Some e" "ge_dstId e = n"
        using ins_edges(1)[OF ready_parts(1,2)[OF rd] nd] k by blast
      then have "ge_srcId e \<in> set (df_topoNodes g)" using topo_in(1)[OF ready_parts(3)[OF rd]] n by blast
      from lat0[OF this] show ?thesis using r0[rule_format, of k] de arrival_edge[OF e(1)] by simp
    qed
    obtain k where k: "k \<in> set (ins nd)" "arrival g m k = ?x"
    proof (cases "\<exists>k \<in> set (ins nd). arrival g m k = ?x")
      case False
      then have "?x = 0" using ib by (auto simp: in_bound_def)
      moreover obtain k where k: "k \<in> set (ins nd)" using ne by (cases "gn_inputEdges nd") auto
      ultimately have "arrival g m k = ?x" using pos[OF k] ib by (force simp: in_bound_def)
      then show ?thesis using k that by blast
    qed (use that in blast)
    obtain p where p: "(p, k) \<in> set (gn_inputEdges nd)" using k(1) by auto
    obtain e where "dfg_edge g k = Some e"
      using ins_edges(1)[OF ready_parts(1,2)[OF rd] nd] k(1) by blast
    then show "\<exists>(p, k) \<in> set (gn_inputEdges nd). \<exists>e. dfg_edge g k = Some e \<and> ?x = lat m (ge_srcId e) + rlat m k"
      using p k(2) arrival_edge by fastforce
  qed
qed

section \<open>The account of delays and violations\<close>

text \<open>Edge \<open>k\<close> is settled: the functional unit of its consumer delays the operand by \<open>d\<close>, and what
  is missing to the required delay is the violation.\<close>

definition settled :: "dfg \<Rightarrow> top_adg \<Rightarrow> mapping \<Rightarrow> int \<Rightarrow> bool" where
  "settled g a m k \<longleftrightarrow> (\<exists>e fu d. dfg_edge g k = Some e \<and> mapped_fu a m (ge_dstId e) = Some fu \<and>
     om_get (delays m (gn_id fu)) (ge_dstPortIdx e) = Some d \<and> 0 \<le> d \<and> 0 \<le> ea_vio (deattr m k) \<and>
     ea_delay (deattr m k) = mxl m (ge_dstId e) - lat m (ge_srcId e) - rlat m k \<and>
     ea_delay (deattr m k) = d + ea_vio (deattr m k))"

abbreviation vio :: "mapping \<Rightarrow> int \<Rightarrow> int" where
  "vio m k \<equiv> ea_vio (deattr m k)"

definition vio_inv :: "dfg \<Rightarrow> top_adg \<Rightarrow> mapping \<Rightarrow> int set \<Rightarrow> vio_state \<Rightarrow> bool" where
  "vio_inv g a m0 P s = (case s of (m, sumVio, maxVio) \<Rightarrow>
     sched_inv g a m0 (set (df_topoNodes g)) (set (df_topoNodes g)) m \<and> (\<forall>k \<in> P. settled g a m k) \<and>
     distinct (mp_vioDfgEdges m) \<and> set (mp_vioDfgEdges m) = {k \<in> P. 0 < vio m k} \<and>
     sumVio = (\<Sum>k \<leftarrow> mp_vioDfgEdges m. vio m k) \<and>
     0 \<le> maxVio \<and> (\<forall>k \<in> P. vio m k \<le> maxVio) \<and> (maxVio = 0 \<or> (\<exists>k \<in> P. vio m k = maxVio)))"

lemma upd_de_sched:
  "(\<And>x. ea_lat (h x) = ea_lat x) \<Longrightarrow> sched_inv g a m0 D Z (upd_de k h m) \<longleftrightarrow> sched_inv g a m0 D Z m"
proof -
  assume h: "\<And>x. ea_lat (h x) = ea_lat x"
  have v: "rlat (upd_de k h m) j = rlat m j" "mappedAdg (upd_de k h m) = mappedAdg m"
    "dnattr (upd_de k h m) = dnattr m" "fdattr (upd_de k h m) = fdattr m" for j
    using h by (auto simp: mappedAdg_def fun_eq_iff upd_de_def)
  show ?thesis unfolding sched_inv_def feasible_def unit_inv_def v by simp
qed

text \<open>The operand's share of the delay unit: given before, or taken from what is left now.\<close>

definition vio_assign :: "anode \<Rightarrow> dnode \<Rightarrow> int \<Rightarrow> int \<Rightarrow> int \<Rightarrow> mapping \<Rightarrow> int \<times> mapping" where
  "vio_assign fu nd n p req m1 = (case om_get (fd_delayUsed (fdattr m1 (gn_id fu))) p of
     Some d \<Rightarrow> (d, m1)
   | None \<Rightarrow>
       let d = min (getAvailDelay fu nd m1) req;
           m' = add_delayUsed (gn_id fu) p d m1
       in (d, set_minLat n (max (na_maxLat (dnattr m' n) - getAvailDelay fu nd m') 0) m'))"

definition vio_record :: "int \<Rightarrow> int \<Rightarrow> vio_state \<Rightarrow> vio_state" where
  "vio_record k v s = (case s of (m, sumVio, maxVio) \<Rightarrow>
     if 0 < v then ((upd_de k (\<lambda>a. a\<lparr>ea_vio := v\<rparr>) m)\<lparr>mp_vioDfgEdges := mp_vioDfgEdges m @ [k]\<rparr>, sumVio + v, max maxVio v)
     else (upd_de k (\<lambda>a. a\<lparr>ea_vio := 0\<rparr>) m, sumVio, maxVio))"

lemma vio_views [simp]:
  "mp_vioDfgEdges (set_minLat n x m) = mp_vioDfgEdges m" "mp_vioDfgEdges (give f p d t m) = mp_vioDfgEdges m"
  "mp_vioDfgEdges (upd_de k h m) = mp_vioDfgEdges m" "deattr (give f p d t m) k = deattr m k"
  "mp_fuDelayAttr (upd_de k h m) = mp_fuDelayAttr m"
  by (simp_all add: set_minLat_def give_def upd_dn_def upd_fd_def upd_de_def)

lemma vio_edge_step:
  assumes "dfg_edge g k = Some e" "req = x - lat m (ge_srcId e) - rlat m k"
    and "vio_assign fu nd n p req (upd_de k (\<lambda>a. a\<lparr>ea_delay := req\<rparr>) m) = (d, m2)" "0 \<le> d" "d \<le> req"
  shows "vio_edge g fu nd n x (m, sv, mv) (p, k) = Some (vio_record k (req - d) (m2, sv, mv))"
  using assms by (auto simp: vio_edge_def vio_assign_def vio_record_def Let_def split: option.splits)

lemma vio_assign_ok:
  assumes rd: "sched_ready g a m0" and inv: "sched_inv g a m0 T T m" and T: "T = set (df_topoNodes g)"
    and e: "dfg_edge g k = Some e" "ge_dstId e = n" "ge_dstPortIdx e = p" and n: "n \<in> T"
    and fu: "mapped_fu a m0 n = Some fu" and req: "req = mxl m n - lat m (ge_srcId e) - rlat m k"
  shows "\<exists>d m2. vio_assign fu nd n p req m = (d, m2) \<and> 0 \<le> d \<and> d \<le> req \<and> sched_inv g a m0 T T m2 \<and>
    om_get (delays m2 (gn_id fu)) p = Some d \<and>
    (\<forall>f q d'. om_get (delays m f) q = Some d' \<longrightarrow> om_get (delays m2 f) q = Some d') \<and>
    (\<forall>j. lat m2 j = lat m j \<and> mxl m2 j = mxl m j \<and> deattr m2 j = deattr m j) \<and> mp_vioDfgEdges m2 = mp_vioDfgEdges m"
proof (cases "om_get (delays m (gn_id fu)) p")
  case (Some d)
  obtain nd' where nd': "dfg_node g n = Some nd'" using ready_node[OF rd] n T by metis
  have port: "om_get (gn_inputEdges nd') p = Some k" using in_port(2)[OF rd nd'] e by blast
  have u: "unit_inv g T T m n fu" using sched_inv_parts(5)[OF inv] n fu T by blast
  have "0 \<le> d" "d \<le> mxl m n - lat m (ge_srcId e) - rlat m k"
    using u Some nd' port e(1) unfolding unit_inv_def by blast+
  then show ?thesis using Some inv req by (simp add: vio_assign_def)
next
  case None
  have s: "ge_srcId e \<in> T" using topo_in(1)[OF ready_parts(3)[OF rd] e(1)] e(2) n T by simp
  let ?d = "min (mxl m (ge_dstId e) - rlat m k - lat m (ge_srcId e)) (getAvailDelay fu nd m)"
  let ?m = "add_delayUsed (gn_id fu) (ge_dstPortIdx e) ?d m"
  have g: "sched_inv g a m0 T T ?m" by (rule give_edge[OF rd inv e(1) _ _ s _ refl]) (use e n fu T in auto)
  have d: "min (getAvailDelay fu nd m) req = ?d" using req e(2) by auto
  have "0 \<le> ?d"
  proof -
    have "lat m (ge_srcId e) + rlat m k \<le> lat m n - opl g n"
      using sched_inv_parts(3)[OF inv] e n T unfolding feasible_def by blast
    moreover have "mxl m n = lat m n - opl g n" by (rule sched_inv_parts(4)[OF inv n])
    moreover have "0 \<le> getAvailDelay fu nd m" using sched_avail(1)[OF inv ready_parts(4)[OF rd] _ fu] n T by blast
    ultimately show ?thesis using e(2) by simp
  qed
  then show ?thesis
    using None g req e(2,3) unfolding vio_assign_def d
    by (auto simp: Let_def minLat_sched add_delayUsed_give)
qed

lemma settled_upd:
  assumes "settled g a m j" "j \<noteq> k" "mappedAdg m' = mappedAdg m" "deattr m' j = deattr m j"
    and "\<forall>i. lat m' i = lat m i \<and> mxl m' i = mxl m i"
    and "\<forall>f q d. om_get (delays m f) q = Some d \<longrightarrow> om_get (delays m' f) q = Some d"
  shows "settled g a m' j"
  using assms mapped_fu_cong[OF assms(3)] unfolding settled_def by metis

lemma sum_list_vio: "k \<notin> set ks \<Longrightarrow> (\<And>j. j \<noteq> k \<Longrightarrow> f j = h j) \<Longrightarrow> (\<Sum>j \<leftarrow> ks. f j) = (\<Sum>j \<leftarrow> ks. h j)"
  by (rule arg_cong[where f = sum_list], rule map_cong) metis+

lemma vio_record_ok:
  assumes e: "dfg_edge g k = Some e" "ge_dstId e = n" "ge_dstPortIdx e = p" and fu: "mapped_fu a m0 n = Some fu"
    and inv: "vio_inv g a m0 P (m, sv, mv)" and k: "k \<notin> P"
    and m2: "sched_inv g a m0 (set (df_topoNodes g)) (set (df_topoNodes g)) m2" "om_get (delays m2 (gn_id fu)) p = Some d"
      "\<forall>f q d'. om_get (delays m f) q = Some d' \<longrightarrow> om_get (delays m2 f) q = Some d'"
      "\<forall>j. lat m2 j = lat m j \<and> mxl m2 j = mxl m j" "\<forall>j. j \<noteq> k \<longrightarrow> deattr m2 j = deattr m j"
      "rlat m2 k = rlat m k" "ea_delay (deattr m2 k) = req" "mp_vioDfgEdges m2 = mp_vioDfgEdges m"
    and d: "0 \<le> d" "d \<le> req" and req: "req = mxl m n - lat m (ge_srcId e) - rlat m k"
  shows "vio_inv g a m0 (insert k P) (vio_record k (req - d) (m2, sv, mv))"
    and "mxl (fst (vio_record k (req - d) (m2, sv, mv))) n = mxl m n"
proof -
  let ?r = "vio_record k (req - d) (m2, sv, mv)" and ?v = "req - d"
  obtain m3 sv3 mv3 where r: "?r = (m3, sv3, mv3)" by (cases ?r)
  let ?m = "upd_de k (\<lambda>a. a\<lparr>ea_vio := ?v\<rparr>) m2"
  have m3: "lat m3 j = lat m2 j" "mxl m3 j = mxl m2 j" "fdattr m3 f = fdattr m2 f" "mappedAdg m3 = mappedAdg m2"
    "deattr m3 j = (if j = k then (deattr m2 k)\<lparr>ea_vio := ?v\<rparr> else deattr m2 j)" for j f
    using r d(2) by (auto simp: vio_record_def mappedAdg_def fun_eq_iff upd_de_def split: if_splits)
  have rl: "rlat m3 j = rlat m2 j" for j using m3(5) by simp
  have sch: "sched_inv g a m0 (set (df_topoNodes g)) (set (df_topoNodes g)) m3"
    using m2(1) unfolding sched_inv_def feasible_def unit_inv_def m3(1-4) rl .
  have map: "mappedAdg m3 = mappedAdg m" using inv m2(1) m3(4) by (auto simp: vio_inv_def sched_inv_def)
  have fu3: "mapped_fu a m3 n = Some fu" using mapped_fu_inv[OF sch] fu by simp
  have "settled g a m3 k" using e fu3 m2(2,4,6,7) m3 d req by (auto simp: settled_def)
  moreover have "settled g a m3 j" if j: "j \<in> P" for j
  proof (rule settled_upd[where m = m and k = k])
    show "settled g a m j" using inv j by (simp add: vio_inv_def)
    show "j \<noteq> k" using j k by auto
  qed (use map m2 m3 j k in auto)
  ultimately have st: "\<forall>j \<in> insert k P. settled g a m3 j" by blast
  have old: "vio m3 j = vio m j" if "j \<noteq> k" for j using m2(5) m3(5) that by simp
  have new: "vio m3 k = ?v" using m3(5) by simp
  have kl: "k \<notin> set (mp_vioDfgEdges m)" using inv k by (auto simp: vio_inv_def)
  have sums: "(\<Sum>j \<leftarrow> mp_vioDfgEdges m. vio m3 j) = sv"
    using sum_list_vio[OF kl, of "vio m3" "vio m"] old inv by (simp add: vio_inv_def)
  have base: "distinct (mp_vioDfgEdges m)" "set (mp_vioDfgEdges m) = {k \<in> P. 0 < vio m k}" "0 \<le> mv"
      "\<forall>k \<in> P. vio m k \<le> mv" "mv = 0 \<or> (\<exists>k \<in> P. vio m k = mv)" using inv by (simp_all add: vio_inv_def)
  have eqP: "\<forall>j \<in> P. vio m3 j = vio m j"
  proof
    fix j assume "j \<in> P"
    then have "j \<noteq> k" using k by auto
    then show "vio m3 j = vio m j" by (rule old)
  qed
  have P3: "{j \<in> insert k P. 0 < vio m3 j} = {j \<in> P. 0 < vio m j} \<union> (if 0 < ?v then {k} else {})"
    using eqP new by (auto split: if_splits)
  have mx: "mv = 0 \<or> (\<exists>j \<in> P. vio m3 j = mv)" "\<forall>j \<in> P. vio m3 j \<le> mv" using base eqP by auto
  show "vio_inv g a m0 (insert k P) ?r"
  proof (cases "0 < ?v")
    case True
    have "mp_vioDfgEdges m3 = mp_vioDfgEdges m @ [k]" "sv3 = sv + ?v" "mv3 = max mv ?v"
      using r True m2(8) by (auto simp: vio_record_def)
    moreover have "max mv ?v = 0 \<or> (\<exists>j \<in> insert k P. vio m3 j = max mv ?v)" using mx new True by (auto simp: max_def)
    moreover have "\<forall>j \<in> insert k P. vio m3 j \<le> max mv ?v" using mx(2) new by fastforce
    ultimately show ?thesis
      unfolding r vio_inv_def prod.case using sch st base(1-3) kl P3 True sums new by simp
  next
    case False
    have "mp_vioDfgEdges m3 = mp_vioDfgEdges m" "sv3 = sv" "mv3 = mv"
      using r False m2(8) by (auto simp: vio_record_def)
    moreover have "mv = 0 \<or> (\<exists>j \<in> insert k P. vio m3 j = mv)" using mx(1) by blast
    moreover have "\<forall>j \<in> insert k P. vio m3 j \<le> mv" using mx(2) new False base(3) by simp
    ultimately show ?thesis
      unfolding r vio_inv_def prod.case using sch st base(1-3) P3 False sums by simp
  qed
  show "mxl (fst ?r) n = mxl m n" using r m3(2) m2(4) by simp
qed

lemma vio_node_ok:
  assumes rd: "sched_ready g a m0" and inv: "vio_inv g a m0 P s" and n: "n \<in> set (df_topoNodes g)"
    and P: "\<forall>k \<in> P. \<exists>e. dfg_edge g k = Some e \<and> ge_dstId e \<noteq> n"
  shows "\<exists>s'. vio_node g a s n = Some s' \<and>
    vio_inv g a m0 (P \<union> {k. \<exists>e. dfg_edge g k = Some e \<and> ge_dstId e = n}) s'"
proof -
  let ?T = "set (df_topoNodes g)"
  obtain m sv mv where s: "s = (m, sv, mv)" by (cases s)
  obtain nd fu where nd: "dfg_node g n = Some nd" and fu: "mapped_fu a m0 n = Some fu" using ready_node[OF rd n] by metis
  have sch: "sched_inv g a m0 ?T ?T m" using inv s by (simp add: vio_inv_def)
  have fu': "mapped_fu a m n = Some fu" using mapped_fu_inv[OF sch] fu by simp
  let ?m = "upd_fd (gn_id fu) (\<lambda>f. f) m" and ?x = "mxl m n"
  have v: "dnattr ?m = dnattr m" "deattr ?m = deattr m" "fdattr ?m = fdattr m" "mappedAdg ?m = mappedAdg m"
    "mp_vioDfgEdges ?m = mp_vioDfgEdges m"
    by (auto simp: fun_eq_iff upd_fd_def mappedAdg_def om_at_def)
  have start: "vio_inv g a m0 P (?m, sv, mv)"
    using inv unfolding s vio_inv_def prod.case sched_inv_def feasible_def unit_inv_def settled_def v mapped_fu_cong[OF v(4)] .
  let ?J = "\<lambda>Q s. vio_inv g a m0 Q s \<and> mxl (fst s) n = ?x"
  have "\<exists>s'. mfold (vio_edge g fu nd n ?x) (?m, sv, mv) (gn_inputEdges nd) = Some s' \<and>
      ?J (P \<union> snd ` set (gn_inputEdges nd)) s'"
  proof (rule mfold_ghost[where J = ?J])
    show "distinct (map snd (gn_inputEdges nd))" by (rule ins_edges(2)[OF ready_parts(1,2)[OF rd] nd])
    show "?J P (?m, sv, mv)" using start by (simp add: v)
    fix el assume el: "el \<in> set (gn_inputEdges nd)"
    then have "snd el \<in> set (ins nd)" by force
    then have "\<exists>e. dfg_edge g (snd el) = Some e \<and> ge_dstId e = n"
      using ins_edges(1)[OF ready_parts(1,2)[OF rd] nd] by blast
    then show "snd el \<notin> P" using P by fastforce
  next
    fix el Q u assume el: "el \<in> set (gn_inputEdges nd)" "snd el \<notin> Q" and J: "?J Q u"
    obtain p k where pk: "el = (p, k)" by (cases el)
    obtain m1 sv1 mv1 where u: "u = (m1, sv1, mv1)" by (cases u)
    obtain e where e: "dfg_edge g k = Some e" "ge_dstId e = n" "ge_dstPortIdx e = p"
      using el(1) in_port[OF rd nd] pk by blast
    have sch1: "sched_inv g a m0 ?T ?T m1" using J u by (simp add: vio_inv_def)
    let ?req = "?x - lat m1 (ge_srcId e) - rlat m1 k"
    let ?m1 = "upd_de k (\<lambda>a. a\<lparr>ea_delay := ?req\<rparr>) m1"
    have v1: "mp_fuDelayAttr ?m1 = mp_fuDelayAttr m1" "dnattr ?m1 = dnattr m1" "\<And>j. rlat ?m1 j = rlat m1 j"
      by (simp_all add: upd_de_def)
    have x1: "mxl m1 n = ?x" using J u by simp
    have sch2: "sched_inv g a m0 ?T ?T ?m1" using sch1 by (simp add: upd_de_sched)
    have req: "?req = mxl ?m1 n - lat ?m1 (ge_srcId e) - rlat ?m1 k" by (simp add: v1 x1)
    from vio_assign_ok[OF rd sch2 refl e n fu req, of nd] obtain d m2 where
      m2: "vio_assign fu nd n p ?req ?m1 = (d, m2)" "0 \<le> d" "d \<le> ?req" "sched_inv g a m0 ?T ?T m2"
        "om_get (delays m2 (gn_id fu)) p = Some d"
        "\<forall>f q d'. om_get (delays ?m1 f) q = Some d' \<longrightarrow> om_get (delays m2 f) q = Some d'"
        "\<forall>j. lat m2 j = lat ?m1 j \<and> mxl m2 j = mxl ?m1 j \<and> deattr m2 j = deattr ?m1 j"
        "mp_vioDfgEdges m2 = mp_vioDfgEdges ?m1" by blast
    let ?s = "vio_record k (?req - d) (m2, sv1, mv1)"
    have step: "vio_edge g fu nd n ?x u el = Some ?s"
      unfolding u pk by (rule vio_edge_step[OF e(1) refl m2(1,2,3)])
    have kQ: "k \<notin> Q" using el(2) pk by simp
    have inv1: "vio_inv g a m0 Q (m1, sv1, mv1)" using J u by simp
    have "vio_inv g a m0 (insert k Q) ?s" "mxl (fst ?s) n = mxl m1 n"
      by (rule vio_record_ok[OF e fu inv1 kQ m2(4,5)]; use m2(2,3,6-8) v1 x1 in simp)+
    then show "\<exists>s'. vio_edge g fu nd n ?x u el = Some s' \<and> ?J (insert (snd el) Q) s'" using step pk x1 by auto
  qed
  then obtain s' where s': "mfold (vio_edge g fu nd n ?x) (?m, sv, mv) (gn_inputEdges nd) = Some s'"
      "vio_inv g a m0 (P \<union> snd ` set (gn_inputEdges nd)) s'" by blast
  have "snd ` set (gn_inputEdges nd) = {k. \<exists>e. dfg_edge g k = Some e \<and> ge_dstId e = n}"
    using ins_edges(1)[OF ready_parts(1,2)[OF rd] nd] by auto
  then show ?thesis using s' s nd fu' by (simp add: vio_node_def Let_def)
qed

definition topo_edges :: "dfg \<Rightarrow> int set \<Rightarrow> int set" where
  "topo_edges g N = {k. \<exists>e. dfg_edge g k = Some e \<and> ge_dstId e \<in> N}"

lemma calEdgeLatVio_ok:
  assumes rd: "sched_ready g a m0" and inv: "sched_inv g a m0 (set (df_topoNodes g)) (set (df_topoNodes g)) m"
  shows "\<exists>m'. calEdgeLatVio g a m = Some m' \<and>
    vio_inv g a m0 (topo_edges g (set (df_topoNodes g))) (m', mp_totalViolation m', mp_maxViolation m')"
proof -
  let ?J = "\<lambda>N s. vio_inv g a m0 (topo_edges g N) s" and ?m = "m\<lparr>mp_vioDfgEdges := []\<rparr>"
  have dist: "distinct (map (\<lambda>n. n) (df_topoNodes g))" using ready_parts(3)[OF rd] by (simp add: topo_ok_def)
  have v: "dnattr ?m = dnattr m" "deattr ?m = deattr m" "fdattr ?m = fdattr m" "mappedAdg ?m = mappedAdg m"
    by (auto simp: mappedAdg_def fun_eq_iff)
  have "\<exists>s'. mfold (vio_node g a) (?m, 0, 0) (df_topoNodes g) = Some s' \<and> ?J ({} \<union> (\<lambda>n. n) ` set (df_topoNodes g)) s'"
  proof (rule mfold_ghost[where J = ?J, OF dist])
    have "sched_inv g a m0 (set (df_topoNodes g)) (set (df_topoNodes g)) ?m"
      using inv unfolding sched_inv_def feasible_def unit_inv_def v .
    then show "?J {} (?m, 0, 0)" by (simp add: vio_inv_def topo_edges_def)
    fix n N s assume n: "n \<in> set (df_topoNodes g)" "n \<notin> N" and J: "?J N s"
    have P: "\<forall>k \<in> topo_edges g N. \<exists>e. dfg_edge g k = Some e \<and> ge_dstId e \<noteq> n" using n(2) by (auto simp: topo_edges_def)
    have "topo_edges g N \<union> {k. \<exists>e. dfg_edge g k = Some e \<and> ge_dstId e = n} = topo_edges g (insert n N)"
      by (auto simp: topo_edges_def)
    then show "\<exists>s'. vio_node g a s n = Some s' \<and> ?J (insert n N) s'"
      using vio_node_ok[OF rd J n(1) P] by simp
  qed simp
  then obtain m1 sv mv where r: "mfold (vio_node g a) (?m, 0, 0) (df_topoNodes g) = Some (m1, sv, mv)"
      "vio_inv g a m0 (topo_edges g (set (df_topoNodes g))) (m1, sv, mv)" by auto
  let ?m' = "m1\<lparr>mp_totalViolation := sv, mp_maxViolation := mv\<rparr>"
  have w: "dnattr ?m' = dnattr m1" "deattr ?m' = deattr m1" "fdattr ?m' = fdattr m1" "mappedAdg ?m' = mappedAdg m1"
    "mp_vioDfgEdges ?m' = mp_vioDfgEdges m1" by (auto simp: mappedAdg_def fun_eq_iff)
  have "vio_inv g a m0 (topo_edges g (set (df_topoNodes g))) (?m', sv, mv)"
    using r(2) unfolding vio_inv_def prod.case sched_inv_def feasible_def unit_inv_def settled_def w mapped_fu_cong[OF w(4)] .
  then show ?thesis using r(1) by (simp add: calEdgeLatVio_def)
qed

section \<open>The whole schedule\<close>

text \<open>What the schedule starts from: a complete mapping of an acyclic DFG.\<close>

definition sched_input :: "dfg \<Rightarrow> top_adg \<Rightarrow> mapping \<Rightarrow> bool" where
  "sched_input g a m \<longleftrightarrow> dfg_wf g \<and> dfg_mappable g \<and> topo_ok g \<and> df_topoNodes g \<noteq> [] \<and> adg_ok a \<and> map_inv g a m \<and>
     om_wf (mp_dfgEdgeAttr m) \<and> (\<forall>n \<in> set (df_topoNodes g). mappedAdg m n \<noteq> None) \<and>
     (\<forall>k fu. adg_node a k = Some fu \<longrightarrow> is_fu fu \<longrightarrow> 0 \<le> an_maxDelay fu)"

lemma sched_input_ready:
  assumes "sched_input g a m"
  shows "sched_ready g a m" "links_real a m"
proof -
  have inv: "map_inv g a m" and ok: "adg_ok a" and all: "\<forall>n \<in> set (df_topoNodes g). mappedAdg m n \<noteq> None"
    and nn: "\<forall>k fu. adg_node a k = Some fu \<longrightarrow> is_fu fu \<longrightarrow> 0 \<le> an_maxDelay fu"
    using assms by (simp_all add: sched_input_def)
  have pl: "place_inv m" and host: "\<And>n k. mappedAdg m n = Some k \<Longrightarrow> can_host g a n k"
    and rt: "routed_ok g a (mappedAdg m) m"
    using inv unfolding map_inv_def route_inv_def by blast+
  have unit: "\<exists>k fu. mappedAdg m n = Some k \<and> mapped_fu a m n = Some fu \<and> adg_node a k = Some fu \<and> is_fu fu"
    if placed: "mappedAdg m n \<noteq> None" for n
  proof -
    obtain k where k: "mappedAdg m n = Some k" using placed by blast
    then have "is_fu_id a k" using host by (simp add: can_host_def)
    then show ?thesis using k by (auto simp: is_fu_id_def mapped_fu_def)
  qed
  have "units_ok g a m"
    unfolding units_ok_def
  proof (intro conjI ballI allI impI)
    fix n assume "n \<in> set (df_topoNodes g)"
    then show "\<exists>fu. mapped_fu a m n = Some fu \<and> 0 \<le> an_maxDelay fu" using unit all nn by metis
  next
    fix n n' fu fu' assume f: "mapped_fu a m n = Some fu" "mapped_fu a m n' = Some fu'" "gn_id fu = gn_id fu'"
    obtain k where k: "mappedAdg m n = Some k" "adg_node a k = Some fu" using f(1) by (auto simp: mapped_fu_def split: bind_splits if_splits)
    obtain k' where k': "mappedAdg m n' = Some k'" "adg_node a k' = Some fu'" using f(2) by (auto simp: mapped_fu_def split: bind_splits if_splits)
    have "k = k'" using adg_ok_id[OF ok k(2)] adg_ok_id[OF ok k'(2)] f(3) by simp
    then have "mappedDfg m k = Some n" "mappedDfg m k = Some n'" using pl k k' unfolding place_inv_def by blast+
    then show "n = n'" by simp
  qed
  then show "sched_ready g a m" using assms by (simp add: sched_ready_def sched_input_def)
  have "\<exists>n. adg_node a (el_adgNode l) = Some n" if l: "l \<in> set (links m k)" for k l
  proof -
    have "links m k \<noteq> []" using l by auto
    then obtain e where "dfg_edge g k = Some e" using rt unfolding routed_ok_def by blast
    from links_shape[OF rt l this] obtain A B q mid where sh: "route_shape a e A B q mid (links m k)" by blast
    then consider "is_fu_id a (el_adgNode l)" | "l \<in> set mid" using l by (auto simp: route_shape_def)
    then show ?thesis
    proof cases
      case 1
      then show ?thesis by (auto simp: is_fu_id_def)
    next
      case 2
      then show ?thesis using sh by (auto simp: route_shape_def crossbar_def)
    qed
  qed
  then show "links_real a m" using assms by (auto simp: links_real_def sched_input_def)
qed

lemma latencySchedule_ok:
  assumes input: "sched_input g a m"
  shows "\<exists>m'. latencySchedule g a junk m = Some m' \<and> mappedAdg m' = mappedAdg m \<and>
    (\<forall>k. om_has (mp_dfgEdgeAttr m) k \<longrightarrow> links_lat a (links m k) = Some (rlat m' k)) \<and>
    vio_inv g a m' (topo_edges g (set (df_topoNodes g))) (m', mp_totalViolation m', mp_maxViolation m')"
proof -
  let ?T = "df_topoNodes g" and ?m0 = "m\<lparr>mp_fuDelayAttr := []\<rparr>"
  have real: "links_real a ?m0" using sched_input_ready(2)[OF input] by (simp add: links_real_def)
  from calEdgeRouteLat_ok[OF real] obtain m1 where
    m1: "calEdgeRouteLat a ?m0 = Some m1" "m1 = ?m0\<lparr>mp_dfgEdgeAttr := mp_dfgEdgeAttr m1\<rparr>"
      "\<forall>k. om_has (mp_dfgEdgeAttr m) k \<longrightarrow> links_lat a (links m k) = Some (rlat m1 k)" "\<forall>k. 0 \<le> rlat m1 k" by auto
  have em: "mp_fuDelayAttr m1 = []" and dn: "mp_dfgNodeAttr m1 = mp_dfgNodeAttr m"
    using arg_cong[where f = mp_fuDelayAttr, OF m1(2)] arg_cong[where f = mp_dfgNodeAttr, OF m1(2)] by simp_all
  have map1: "mappedAdg m1 = mappedAdg m" using dn by (simp add: mappedAdg_def fun_eq_iff)
  have rd1: "sched_ready g a m1"
    using sched_input_ready(1)[OF input] mapped_fu_cong[OF map1] by (simp add: sched_ready_def units_ok_def)
  have ne: "?T \<noteq> []" using input by (simp add: sched_input_def)
  from latencyBound_ok[OF rd1 ne] obtain m2 where m2: "latencyBound g m1 = Some m2" "bounded g m1 m2" by blast
  note start = bounded_start[OF rd1 m2(2) em m1(4)]
  let ?top = "mp_maxLatNodeId m2"
  have top: "?top \<in> set ?T" using m2(2) by (simp add: bounded_def)
  have set: "set [?top] = insert ?top {}" and filt: "filter (\<lambda>n. n \<noteq> ?top) (rev ?T) = filter (\<lambda>x. x \<notin> insert ?top {}) (rev ?T)"
    by simp_all
  have less: "index_of ?T ?top < Suc (length ?T)" using idx_less[OF top] by simp
  have none: "?top \<notin> {}" "{} \<subseteq> set ?T" "\<forall>d \<in> {}. index_of ?T ?top < index_of ?T d" by simp_all
  from crit_path_ok[OF start(1) start(2)[of "insert ?top {}"] start(3) top none set filt less, of junk] obtain m3 sc Z where
    m3: "crit_path (Suc (length ?T)) g a junk ?top (m2, [?top], filter (\<lambda>n. n \<noteq> ?top) (rev ?T)) =
        Some (m3, sc, filter (\<lambda>x. x \<notin> Z) (rev ?T))" "sched_inv g a m2 Z Z m3" "set sc = Z" "Z \<subseteq> set ?T" by blast
  from sched_loop_all[OF start(1) m3(2,3,4) refl] obtain m4 where
    m4: "sched_loop (Suc (length (filter (\<lambda>x. x \<notin> Z) (rev ?T)))) g a (filter (\<lambda>x. x \<notin> Z) (rev ?T)) (m3, sc) = Some m4"
      "sched_inv g a m2 (set ?T) (set ?T) m4" by blast
  from calEdgeLatVio_ok[OF start(1) m4(2)] obtain m5 where
    m5: "calEdgeLatVio g a m4 = Some m5" "vio_inv g a m2 (topo_edges g (set ?T)) (m5, mp_totalViolation m5, mp_maxViolation m5)"
    by blast
  have run: "latencySchedule g a junk m = Some m5"
    unfolding latencySchedule_def m1(1) bind.bind_lunit m2(1) Let_def m3(1) prod.case m4(1) m5(1) ..
  have s5: "sched_inv g a m2 (set ?T) (set ?T) m5" using m5(2) by (simp add: vio_inv_def)
  have map: "mappedAdg m5 = mappedAdg m2" "mappedAdg m2 = mappedAdg m"
    using s5 m2(2) map1 by (simp_all add: sched_inv_def bounded_def)
  have rl: "rlat m5 k = rlat m2 k" "rlat m2 k = rlat m1 k" for k
  proof -
    show "rlat m5 k = rlat m2 k" using s5 by (simp add: sched_inv_def)
    have "mp_dfgEdgeAttr m2 = mp_dfgEdgeAttr m1"
      using m2(2) unfolding bounded_def by (metis mapping.ext_inject mapping.surjective mapping.update_convs(6,3,4))
    then show "rlat m2 k = rlat m1 k" by simp
  qed
  have "sched_inv g a m5 (set ?T) (set ?T) m5"
    using s5 unfolding sched_inv_def mapped_fu_cong[OF map(1)] by simp
  then have "vio_inv g a m5 (topo_edges g (set ?T)) (m5, mp_totalViolation m5, mp_maxViolation m5)"
    using m5(2) by (simp add: vio_inv_def)
  then show ?thesis using run map m1(3) rl by auto
qed

text \<open>The last link of the chain: the schedule needs the order \<open>topoSortNodes\<close> computes.\<close>

lemma idx_append: "x \<in> set us \<Longrightarrow> index_of (us @ vs) x < length us"
  by (induction us) (auto simp: index_of_def)

lemma dep_ordered_idx:
  assumes "dep_ordered D ts" "distinct ts" "(i, n) \<in> D" "n \<in> set ts"
  shows "i \<in> set ts \<and> index_of ts i < index_of ts n"
proof -
  obtain us vs where ts: "ts = us @ n # vs" using split_list[OF assms(4)] by blast
  then have i: "i \<in> set us" using assms(1,3) unfolding dep_ordered_def by blast
  have "n \<notin> set us" using assms(2) ts by auto
  then have "takeWhile (\<lambda>x. x \<noteq> n) (us @ n # vs) = us" by (induction us) auto
  then have "index_of ts n = length us" using ts by (simp add: index_of_def)
  then show ?thesis using idx_append[OF i, of "n # vs"] i ts by simp
qed

lemma topoSort_ok:
  assumes run: "dfg_topoSortNodes g = Some g'" and cl: "dfg_closed g" and ac: "acyclic (dfg_dep g)"
    and wf: "dfg_wf g" and mp: "dfg_mappable g" and pos: "\<forall>n nd. dfg_node g n = Some nd \<longrightarrow> 0 \<le> dn_opLatency nd"
    and live: "\<forall>n. om_has (df_nodes g) n \<longrightarrow> (\<exists>r. is_out_node g r \<and> (n, r) \<in> (dfg_dep g)\<^sup>*)"
  shows "g' = g\<lparr>df_topoNodes := df_topoNodes g'\<rparr>" "topo_ok g'" "set (df_topoNodes g') = {n. om_has (df_nodes g) n}"
proof -
  let ?T = "df_topoNodes g'"
  note order = topoSort_sound[OF run cl ac]
  show g': "g' = g\<lparr>df_topoNodes := ?T\<rparr>" using run by (auto simp: dfg_topoSortNodes_def split: bind_splits)
  have nodes: "df_nodes g' = df_nodes g" "df_edges g' = df_edges g" by (subst g', simp)+
  have dep_has: "om_has (df_nodes g) m" if "(m, n) \<in> (dfg_dep g)\<^sup>*" "om_has (df_nodes g) n" for m n
    using that
  proof (induction rule: converse_rtrancl_induct)
    case (step y z)
    then obtain nd p q where "om_get (df_nodes g) z = Some nd" "(p, (y, q)) \<in> set (gn_inputs nd)" "y \<noteq> g_id g"
      by (auto simp: dfg_dep_def)
    then show ?case using cl unfolding dfg_closed_def by fastforce
  qed
  have "is_out_node g n \<Longrightarrow> om_has (df_nodes g) n" for n by (auto simp: is_out_node_def om_has_iff)
  then show all: "set ?T = {n. om_has (df_nodes g) n}" using order live dep_has by blast
  have dep: "(ge_srcId e, ge_dstId e) \<in> dfg_dep g" if e: "dfg_edge g k = Some e" for k e
  proof -
    have ends: "om_has (df_nodes g) (ge_srcId e)" "om_has (df_nodes g) (ge_dstId e)" "\<not> om_has (df_nodes g) (g_id g)"
      using mp e unfolding dfg_mappable_def by blast+
    then have ne: "ge_srcId e \<noteq> g_id g" "ge_dstId e \<noteq> g_id g" by metis+
    obtain nd where nd: "om_get (df_nodes g) (ge_dstId e) = Some nd" using ends(2) by (auto simp: om_has_iff)
    have "in_src g (ge_dstId e) (ge_dstPortIdx e) = Some (ge_srcId e, ge_srcPortIdx e)"
      using dfg_wf_reads(2)[OF wf] e by (auto simp: dfg_edge_def dfg_abs_def)
    then have "om_get (gn_inputs nd) (ge_dstPortIdx e) = Some (ge_srcId e, ge_srcPortIdx e)"
      using ne nd by (simp add: in_src_def)
    then have "(ge_dstPortIdx e, (ge_srcId e, ge_srcPortIdx e)) \<in> set (gn_inputs nd)" by (rule map_of_SomeD)
    then show ?thesis using ne nd by (auto simp: dfg_dep_def)
  qed
  have edge: "dfg_edge g' k = dfg_edge g k" "opl g' n = opl g n" for k n
    using nodes by (simp_all add: dfg_edge_def opl_def dfg_node_def)
  have in_T: "ge_srcId e \<in> set ?T" "ge_dstId e \<in> set ?T" "index_of ?T (ge_srcId e) < index_of ?T (ge_dstId e)"
    if e: "dfg_edge g k = Some e" for k e
  proof -
    show "ge_srcId e \<in> set ?T" "ge_dstId e \<in> set ?T" using mp e all unfolding dfg_mappable_def by blast+
    then show "index_of ?T (ge_srcId e) < index_of ?T (ge_dstId e)"
      using dep_ordered_idx[OF _ _ dep[OF e], of ?T] order by blast
  qed
  have "0 \<le> opl g n" for n using pos by (simp add: opl_def split: option.splits)
  then show "topo_ok g'" using order all in_T unfolding topo_ok_def edge nodes(1) by blast
qed

section \<open>Properties of the schedule\<close>

text \<open>C12: \<open>latencySchedule\<close> returns on every complete mapping of a DFG in topological order: no
  assertion on the assigned delays fails, no functional unit is missing, and the loop over the
  unscheduled nodes ends, whatever the uninitialised \<open>inPort\<close> holds.\<close>

theorem latencySchedule_returns:
  assumes "sched_input g a m"
  shows "\<exists>m'. latencySchedule g a junk m = Some m'"
  using latencySchedule_ok[OF assms] by blast

lemma latencySchedule_run:
  assumes "sched_input g a m" "latencySchedule g a junk m = Some m'"
  shows "mappedAdg m' = mappedAdg m" "om_has (mp_dfgEdgeAttr m) k \<Longrightarrow> links_lat a (links m k) = Some (rlat m' k)"
    "vio_inv g a m' (topo_edges g (set (df_topoNodes g))) (m', mp_totalViolation m', mp_maxViolation m')"
  using latencySchedule_ok[OF assms(1), of junk] assms(2) by auto

lemma sched_edge:
  assumes "sched_input g a m" "latencySchedule g a junk m = Some m'" "dfg_edge g k = Some e"
    "ge_dstId e \<in> set (df_topoNodes g)"
  shows "\<exists>fu d. mapped_fu a m (ge_dstId e) = Some fu \<and> links_lat a (links m k) = Some (rlat m' k) \<and>
    om_get (delays m' (gn_id fu)) (ge_dstPortIdx e) = Some d \<and> 0 \<le> d \<and> 0 \<le> vio m' k \<and>
    lat m' (ge_srcId e) + rlat m' k + d + vio m' k + opl g (ge_dstId e) = lat m' (ge_dstId e)"
proof -
  note run = latencySchedule_run[OF assms(1,2)]
  have to: "topo_ok g" and all: "\<forall>n \<in> set (df_topoNodes g). mappedAdg m n \<noteq> None" and cp: "complete g (mappedAdg m) m"
    using assms(1) by (simp_all add: sched_input_def map_inv_def)
  have s: "ge_srcId e \<in> set (df_topoNodes g)" "ge_srcId e \<noteq> ge_dstId e" using topo_in[OF to assms(3,4)] by auto
  then have "links m k \<noteq> []" using cp all assms(3,4) unfolding complete_def by blast
  then have "om_has (mp_dfgEdgeAttr m) k" by (auto simp: om_has_iff om_at_def no_edge_def split: option.splits)
  moreover have "settled g a m' k" using run(3) assms(3,4) by (auto simp: vio_inv_def topo_edges_def)
  moreover have "mxl m' (ge_dstId e) = lat m' (ge_dstId e) - opl g (ge_dstId e)"
    using run(3) assms(4) unfolding vio_inv_def prod.case sched_inv_def by blast
  ultimately show ?thesis using run(1,2) assms(3) mapped_fu_cong[OF run(1)] unfolding settled_def by force
qed

text \<open>C11: After \<open>latencySchedule\<close> every operand is accounted for: the latency of its producer, the
  registers its route really crosses, the delay its functional unit adds (never negative) and
  the recorded violation (never negative) sum up to the moment the consumer starts.\<close>

theorem latencySchedule_in_sync:
  assumes "sched_input g a m" "latencySchedule g a junk m = Some m'" "dfg_edge g k = Some e"
    "ge_dstId e \<in> set (df_topoNodes g)"
  shows "\<exists>fu d r. mapped_fu a m (ge_dstId e) = Some fu \<and> links_lat a (links m k) = Some r \<and>
    om_get (delays m' (gn_id fu)) (ge_dstPortIdx e) = Some d \<and> 0 \<le> d \<and> 0 \<le> vio m' k \<and>
    lat m' (ge_srcId e) + r + d + vio m' k + opl g (ge_dstId e) = lat m' (ge_dstId e)"
  using sched_edge[OF assms] by blast

text \<open>C13: The delays a functional unit gives its operands fit its delay unit: together at most
  \<open>maxDelay\<close> cycles, none negative.\<close>

theorem latencySchedule_budget:
  assumes "sched_input g a m" "latencySchedule g a junk m = Some m'" "n \<in> set (df_topoNodes g)"
    "mapped_fu a m n = Some fu" "om_get (delays m' (gn_id fu)) p = Some d"
  shows "0 \<le> d \<and> (\<Sum>x \<leftarrow> delays m' (gn_id fu). snd x) \<le> an_maxDelay fu"
proof -
  note run = latencySchedule_run[OF assms(1,2)]
  have "unit_inv g (set (df_topoNodes g)) (set (df_topoNodes g)) m' n fu"
    using run(3) assms(3,4) mapped_fu_cong[OF run(1)] unfolding vio_inv_def prod.case sched_inv_def by metis
  then have u: "tot m' (gn_id fu) \<le> an_maxDelay fu" "sum_list (map snd (delays m' (gn_id fu))) \<le> tot m' (gn_id fu)"
      "\<forall>p d. om_get (delays m' (gn_id fu)) p = Some d \<longrightarrow> 0 \<le> d"
    unfolding unit_inv_def by blast+
  then show ?thesis using assms(5) by force
qed

text \<open>C14: The violations are reported exactly: the list has each violating edge of the scheduled
  nodes once, the total is the sum over the list and the maximum is attained.\<close>

theorem latencySchedule_violations:
  assumes "sched_input g a m" "latencySchedule g a junk m = Some m'"
  shows "distinct (mp_vioDfgEdges m') \<and>
    set (mp_vioDfgEdges m') = {k. (\<exists>e. dfg_edge g k = Some e \<and> ge_dstId e \<in> set (df_topoNodes g)) \<and> 0 < vio m' k} \<and>
    mp_totalViolation m' = (\<Sum>k \<leftarrow> mp_vioDfgEdges m'. vio m' k) \<and>
    mp_maxViolation m' = Max (insert 0 (vio m' ` set (mp_vioDfgEdges m')))"
proof -
  let ?E = "topo_edges g (set (df_topoNodes g))" and ?S = "insert 0 (vio m' ` set (mp_vioDfgEdges m'))"
  have v: "distinct (mp_vioDfgEdges m')" "set (mp_vioDfgEdges m') = {k \<in> ?E. 0 < vio m' k}"
      "mp_totalViolation m' = (\<Sum>k \<leftarrow> mp_vioDfgEdges m'. vio m' k)"
      "0 \<le> mp_maxViolation m'" "\<forall>k \<in> ?E. vio m' k \<le> mp_maxViolation m'"
      "mp_maxViolation m' = 0 \<or> (\<exists>k \<in> ?E. vio m' k = mp_maxViolation m')"
    using latencySchedule_run(3)[OF assms] by (simp_all add: vio_inv_def)
  have "Max ?S = mp_maxViolation m'"
  proof (rule Max_eqI)
    show "finite ?S" by simp
    show "mp_maxViolation m' \<in> ?S"
    proof (cases "mp_maxViolation m' = 0")
      case False
      then obtain k where "k \<in> ?E" "vio m' k = mp_maxViolation m'" using v(6) by blast
      then show ?thesis using v(2,4) False by force
    qed simp
  qed (use v(2,4,5) in auto)
  then show ?thesis using v(1-3) by (auto simp: topo_edges_def)
qed

lemma no_violation_sync:
  assumes "sched_input g a m" "latencySchedule g a junk m = Some m'" "mp_totalViolation m' = 0"
    "dfg_edge g k = Some e" "ge_dstId e \<in> set (df_topoNodes g)"
  shows "\<exists>fu d. mapped_fu a m (ge_dstId e) = Some fu \<and> om_get (delays m' (gn_id fu)) (ge_dstPortIdx e) = Some d \<and>
    lat m' (ge_srcId e) + rlat m' k + d = lat m' (ge_dstId e) - opl g (ge_dstId e)"
proof -
  let ?E = "topo_edges g (set (df_topoNodes g))"
  have v: "set (mp_vioDfgEdges m') = {k \<in> ?E. 0 < vio m' k}" "mp_totalViolation m' = (\<Sum>k \<leftarrow> mp_vioDfgEdges m'. vio m' k)"
    using latencySchedule_run(3)[OF assms(1,2)] by (simp_all add: vio_inv_def)
  have "vio m' k \<le> (\<Sum>j \<leftarrow> mp_vioDfgEdges m'. vio m' j)" if "k \<in> set (mp_vioDfgEdges m')"
  proof (rule member_le_sum_list)
    show "vio m' k \<in> set (map (vio m') (mp_vioDfgEdges m'))" using that by simp
  qed (use v(1) in auto)
  then have "k \<notin> set (mp_vioDfgEdges m')" using v assms(3) by auto
  then have "vio m' k \<le> 0" using v(1) assms(4,5) by (auto simp: topo_edges_def)
  then show ?thesis using sched_edge[OF assms(1,2,4,5)] by force
qed

text \<open>C3: When the total violation is 0 the mapping is synchronised: every operand of every
  scheduled node arrives in the very cycle in which the node starts.\<close>

theorem zero_violation_synchronised:
  assumes "sched_input g a m" "latencySchedule g a junk m = Some m'" "mp_totalViolation m' = 0"
    "dfg_edge g k = Some e" "ge_dstId e \<in> set (df_topoNodes g)"
  shows "\<exists>fu d. mapped_fu a m (ge_dstId e) = Some fu \<and> om_get (delays m' (gn_id fu)) (ge_dstPortIdx e) = Some d \<and>
    lat m' (ge_srcId e) + rlat m' k + d = lat m' (ge_dstId e) - opl g (ge_dstId e)"
  by (rule no_violation_sync[OF assms])

text \<open>C15: \<open>latencyBound\<close> solves the longest-path recurrence on a DFG in topological order: a node
  without operands has its own latency, any other node its own latency after the latest
  arrival of an operand; the recorded maximum is attained at the recorded node.\<close>

theorem latencyBound_longest_path:
  assumes "sched_ready g a m" "df_topoNodes g \<noteq> []"
  shows "\<exists>m'. latencyBound g m = Some m' \<and> (\<forall>n. n \<in> set (df_topoNodes g) \<longrightarrow> recurrence g m' n \<and> lat m' n \<le> mp_maxLat m') \<and>
    mp_maxLatNodeId m' \<in> set (df_topoNodes g) \<and> lat m' (mp_maxLatNodeId m') = mp_maxLat m'"
  using latencyBound_ok[OF assms] unfolding bounded_def by blast


end
