(* ===== verification/PassInsert.thy ===== *)
theory PassInsert
  imports SaCorrect
begin

text \<open>
  Inserting PASS nodes (\<open>Mapping::insertPassDfgNodes\<close>): a copy of the DFG in which each chosen edge
  is replaced by a path through a new PASS node. The copy is again a DFG the mapper can work on:
  well formed, acyclic, every node needed by some output, and every functional unit that has the
  operation of a node has the operands for it.
\<close>

section \<open>Sound DFGs\<close>

definition tables_ok :: "dnode \<Rightarrow> bool" where
  "tables_ok nd \<longleftrightarrow> om_wf (gn_inputs nd) \<and> om_wf (gn_outputs nd) \<and> om_wf (gn_inputEdges nd) \<and>
     om_wf (gn_outputEdges nd) \<and> (\<forall>p s. om_get (gn_outputEdges nd) p = Some s \<longrightarrow> os_wf s)"

definition nodes_ok :: "dfg \<Rightarrow> bool" where
  "nodes_ok g \<longleftrightarrow> (\<forall>n nd. dfg_node g n = Some nd \<longrightarrow> tables_ok nd)"

definition dfg_sound :: "dfg \<Rightarrow> bool" where
  "dfg_sound g \<longleftrightarrow> dfg_wf g \<and> nodes_ok g \<and> \<not> om_has (df_nodes g) (g_id g) \<and>
     (\<forall>k e. dfg_abs g k = Some e \<longrightarrow> om_has (df_nodes g) (ge_srcId e) \<and> om_has (df_nodes g) (ge_dstId e))"

definition in_ports :: "dfg \<Rightarrow> int \<Rightarrow> int set" where
  "in_ports g n = {p. \<exists>k e. dfg_abs g k = Some e \<and> ge_dstId e = n \<and> ge_dstPortIdx e = p}"

lemma dfg_mappable_sound: "dfg_sound g \<Longrightarrow> dfg_mappable g"
  unfolding dfg_sound_def dfg_mappable_def nodes_ok_def tables_ok_def dfg_edge_def dfg_abs_def os_wf_def strict_sorted_iff
  by blast

lemma node_tables:
  assumes "dfg_sound g" "dfg_node g n = Some nd"
  shows "om_wf (gn_inputs nd)" "om_wf (gn_outputs nd)" "om_wf (gn_inputEdges nd)"
  using assms unfolding dfg_sound_def nodes_ok_def tables_ok_def by blast+

lemma node_ne: "dfg_sound g \<Longrightarrow> dfg_node g n = Some nd \<Longrightarrow> n \<noteq> g_id g"
  using dfg_node_ne[OF dfg_mappable_sound] .

lemma node_input:
  assumes "dfg_sound g" "dfg_node g n = Some nd"
  shows "om_get (gn_inputs nd) p = Some s \<longleftrightarrow>
     (\<exists>k e. dfg_abs g k = Some e \<and> ge_dstId e = n \<and> ge_dstPortIdx e = p \<and> s = (ge_srcId e, ge_srcPortIdx e))"
proof -
  have wf: "dfg_wf g" using assms by (simp add: dfg_sound_def)
  show ?thesis using dfg_wf_reads(2)[OF wf, of n p s] node_ne[OF assms] assms(2) by (simp add: in_src_def dfg_node_def)
qed

lemma node_ports:
  assumes "dfg_sound g" "dfg_node g n = Some nd"
  shows "fst ` set (gn_inputEdges nd) = in_ports g n" "length (gn_inputs nd) = card (in_ports g n)"
proof -
  have wf: "dfg_wf g" using assms by (simp add: dfg_sound_def)
  have get: "om_get (gn_inputEdges nd) p = Some k \<longleftrightarrow>
      (\<exists>e. dfg_abs g k = Some e \<and> ge_dstId e = n \<and> ge_dstPortIdx e = p)" for p k
    using dfg_wf_reads(1)[OF wf, of n p k] node_ne[OF assms] assms(2) by (simp add: in_edge_def dfg_node_def)
  show "fst ` set (gn_inputEdges nd) = in_ports g n"
    unfolding set_eq_iff om_has_set[symmetric] om_has_iff get in_ports_def by auto
  have "fst ` set (gn_inputs nd) = in_ports g n"
    unfolding set_eq_iff om_has_set[symmetric] om_has_iff node_input[OF assms] in_ports_def by auto
  then show "length (gn_inputs nd) = card (in_ports g n)"
    using om_wf_distinct[OF node_tables(1)[OF assms]] by (metis distinct_card length_map set_map)
qed

lemma node_output:
  assumes "dfg_sound g" "dfg_node g n = Some nd" "(p, ds) \<in> set (gn_outputs nd)" "d \<in> set ds"
  shows "\<exists>k e. dfg_abs g k = Some e \<and> ge_srcId e = n \<and> d = (ge_dstId e, ge_dstPortIdx e)"
proof -
  have wf: "dfg_wf g" using assms by (simp add: dfg_sound_def)
  have "om_get (gn_outputs nd) p = Some ds" using assms(3) om_get_mem[OF node_tables(2)[OF assms(1,2)]] by simp
  then have "d \<in> out_dsts g n p"
    using assms(4) node_ne[OF assms(1,2)] assms(2) by (simp add: out_dsts_def dfg_node_def om_at_def)
  then show ?thesis unfolding dfg_wf_reads(4)[OF wf] by blast
qed

lemma sound_ends:
  assumes "dfg_sound g" "dfg_abs g k = Some e"
  shows "om_has (df_nodes g) (ge_srcId e)" "om_has (df_nodes g) (ge_dstId e)" "ge_srcId e \<noteq> g_id g" "ge_dstId e \<noteq> g_id g"
  using assms unfolding dfg_sound_def by metis+

lemma ends_ok_sound:
  assumes "dfg_sound g"
  shows "ends_ok g"
  unfolding ends_ok_def
proof (intro conjI allI impI)
  show "om_wf (df_nodes g)" using assms by (simp add: dfg_sound_def dfg_wf_def)
  fix n nd assume nd: "dfg_node g n = Some nd"
  show "\<forall>(p, (i, q)) \<in> set (gn_inputs nd). om_has (df_nodes g) i"
  proof clarify
    fix p i q assume "(p, (i, q)) \<in> set (gn_inputs nd)"
    then have "om_get (gn_inputs nd) p = Some (i, q)" using om_get_mem[OF node_tables(1)[OF assms nd]] by simp
    then show "om_has (df_nodes g) i" unfolding node_input[OF assms nd] using sound_ends[OF assms] by auto
  qed
  show "\<forall>(i, q) \<in> set (concat (map snd (gn_outputs nd))). om_has (df_nodes g) i"
    using node_output[OF assms nd] sound_ends(2)[OF assms] by fastforce
qed

lemma dfg_dep_sound:
  assumes "dfg_sound g"
  shows "dfg_dep g = {(i, n). \<exists>k e. dfg_abs g k = Some e \<and> ge_srcId e = i \<and> ge_dstId e = n}"
proof -
  have "(i, n) \<in> dfg_dep g \<longleftrightarrow> (\<exists>k e. dfg_abs g k = Some e \<and> ge_srcId e = i \<and> ge_dstId e = n)" for i n
  proof
    assume "(i, n) \<in> dfg_dep g"
    then obtain nd p q where nd: "dfg_node g n = Some nd" "(p, (i, q)) \<in> set (gn_inputs nd)"
      by (auto simp: dfg_dep_def dfg_node_def)
    then have "om_get (gn_inputs nd) p = Some (i, q)" using om_get_mem[OF node_tables(1)[OF assms nd(1)]] by simp
    then show "\<exists>k e. dfg_abs g k = Some e \<and> ge_srcId e = i \<and> ge_dstId e = n" unfolding node_input[OF assms nd(1)] by auto
  next
    assume "\<exists>k e. dfg_abs g k = Some e \<and> ge_srcId e = i \<and> ge_dstId e = n"
    then obtain k e where e: "dfg_abs g k = Some e" "ge_srcId e = i" "ge_dstId e = n" by blast
    obtain nd where nd: "dfg_node g n = Some nd" using sound_ends(2)[OF assms e(1)] e by (auto simp: om_has_iff dfg_node_def)
    have "om_get (gn_inputs nd) (ge_dstPortIdx e) = Some (i, ge_srcPortIdx e)" unfolding node_input[OF assms nd] using e by blast
    then have "(ge_dstPortIdx e, (i, ge_srcPortIdx e)) \<in> set (gn_inputs nd)" by (rule map_of_SomeD)
    then show "(i, n) \<in> dfg_dep g" using nd sound_ends(3)[OF assms e(1)] e by (auto simp: dfg_dep_def dfg_node_def)
  qed
  then show ?thesis by auto
qed

lemma dfg_closed_sound:
  assumes "dfg_sound g"
  shows "dfg_closed g"
  using assms ends_ok_sound[OF assms] unfolding dfg_sound_def dfg_wf_def dfg_closed_def ends_ok_def dfg_node_def
  by fast

section \<open>Edge operations and the nodes\<close>

text \<open>What adding and deleting edges leaves alone in a node.\<close>

definition core :: "dnode \<Rightarrow> dnode" where
  "core nd = nd\<lparr>gn_inputs := [], gn_outputs := [], gn_inputEdges := [], gn_outputEdges := []\<rparr>"

definition same_core :: "dfg \<Rightarrow> dfg \<Rightarrow> bool" where
  "same_core g g' \<longleftrightarrow> g_id g' = g_id g \<and> df_ioNodes g' = df_ioNodes g \<and>
     (\<forall>n. map_option core (dfg_node g' n) = map_option core (dfg_node g n)) \<and> (nodes_ok g \<longrightarrow> nodes_ok g')"

lemma same_core_trans: "same_core g g' \<Longrightarrow> same_core g' g'' \<Longrightarrow> same_core g g''"
  by (simp add: same_core_def)

lemma same_core_upd:
  assumes "dfg_node g n = Some nd" "core nd' = core nd" "tables_ok nd \<Longrightarrow> tables_ok nd'"
  shows "same_core g (g\<lparr>df_nodes := om_put (df_nodes g) n nd'\<rparr>)"
  using assms by (auto simp: same_core_def dfg_node_def nodes_ok_def)

lemma same_core_edges [simp]: "same_core (g\<lparr>df_edges := x\<rparr>) g' = same_core g g'" "same_core g (g'\<lparr>df_edges := x\<rparr>) = same_core g g'"
  by (simp_all add: same_core_def dfg_node_def nodes_ok_def)

lemma os_wf_at: "\<forall>p s. om_get m p = Some s \<longrightarrow> os_wf s \<Longrightarrow> os_wf (om_at [] m q)"
  by (auto simp: om_at_def split: option.splits)

lemma addEdge_core:
  assumes "dfg_addEdge e g = Some g'"
  shows "same_core g g'"
proof -
  have src: "dfg_addEdge_src e h = Some h' \<Longrightarrow> same_core h h'" for h h'
    by (auto simp: dfg_addEdge_src_def Let_def graph_ops dfg_updNode_def dfg_node_def[symmetric] split: if_splits option.splits
        intro!: same_core_upd) (auto simp: same_core_def dfg_node_def nodes_ok_def gnode_ops core_def tables_ok_def intro: os_wf_at)
  have dst: "dfg_addEdge_dst e h = Some h' \<Longrightarrow> same_core h h'" for h h'
    by (auto simp: dfg_addEdge_dst_def Let_def graph_ops dfg_updNode_def dfg_node_def[symmetric] split: if_splits option.splits
        intro!: same_core_upd) (auto simp: same_core_def dfg_node_def nodes_ok_def gnode_ops core_def tables_ok_def)
  show ?thesis
    using assms src dst same_core_trans unfolding dfg_addEdge_def by (fastforce split: bind_splits)
qed

lemma delEdge_core:
  assumes "dfg_delEdge k g = Some g'"
  shows "same_core g g'"
proof -
  have src: "dfg_delEdge_src e k h = Some h' \<Longrightarrow> same_core h h'" for e h h'
    by (auto simp: dfg_delEdge_src_def Let_def graph_ops gnode_delOutputEdge_def gnode_delOutput_def
        split: if_splits option.splits bind_splits intro!: same_core_upd)
      (auto simp: same_core_def dfg_node_def nodes_ok_def core_def tables_ok_def intro: os_wf_del)
  have dst: "dfg_delEdge_dst e h = Some h' \<Longrightarrow> same_core h h'" for e h h'
    by (auto simp: dfg_delEdge_dst_def Let_def graph_ops dfg_updNode_def dfg_node_def[symmetric] split: if_splits option.splits
        intro!: same_core_upd) (auto simp: same_core_def dfg_node_def nodes_ok_def gnode_ops core_def tables_ok_def)
  show ?thesis
    using assms src dst same_core_trans unfolding dfg_delEdge_def by (fastforce split: bind_splits)
qed

lemma core_simps [simp]:
  "dn_operation (core nd) = dn_operation nd" "dn_opLatency (core nd) = dn_opLatency nd" "dn_io (core nd) = dn_io nd"
  "dn_commutative (core nd) = dn_commutative nd" "dnode_hasImm (core nd) = dnode_hasImm nd"
  by (simp_all add: core_def dnode_hasImm_def)

lemma same_core_node:
  assumes "same_core g g'" "dfg_node g' n = Some nd'"
  obtains nd where "dfg_node g n = Some nd" "core nd' = core nd"
  using assms unfolding same_core_def by (metis map_option_eq_Some)

lemma same_core_has: "same_core g g' \<Longrightarrow> om_has (df_nodes g') n = om_has (df_nodes g) n"
  unfolding same_core_def om_has_iff dfg_node_def by (metis map_option_is_None not_None_eq)

lemma has_node_sound: "has_node g n \<longleftrightarrow> n = g_id g \<or> om_has (df_nodes g) n"
  by (simp add: has_node_def)

lemma addEdge_sound:
  assumes sound: "dfg_sound g" and fresh: "dfg_abs g (ge_id e) = None"
    and nodes: "om_has (df_nodes g) (ge_srcId e)" "om_has (df_nodes g) (ge_dstId e)"
    and free: "ge_dstPortIdx e \<notin> in_ports g (ge_dstId e)"
  shows "\<exists>g'. dfg_addEdge e g = Some g' \<and> dfg_sound g' \<and> dfg_abs g' = (dfg_abs g)(ge_id e \<mapsto> e) \<and> same_core g g'"
proof -
  have wf: "dfg_wf g" using sound by (simp add: dfg_sound_def)
  have "in_edge g (ge_dstId e) (ge_dstPortIdx e) \<noteq> Some k" for k
    using free unfolding dfg_wf_reads(1)[OF wf] in_ports_def by blast
  then have "in_edge g (ge_dstId e) (ge_dstPortIdx e) = None" by (cases "in_edge g (ge_dstId e) (ge_dstPortIdx e)") auto
  from addEdge_ok[OF wf fresh _ _ this] nodes obtain g' where
    g': "dfg_addEdge e g = Some g'" "dfg_wf g'" "dfg_abs g' = (dfg_abs g)(ge_id e \<mapsto> e)" by (auto simp: has_node_def)
  note c = addEdge_core[OF g'(1)]
  have "dfg_sound g'"
    using sound g'(2) c nodes unfolding dfg_sound_def g'(3) same_core_has[OF c] by (auto simp: same_core_def split: if_splits)
  then show ?thesis using g' c by blast
qed

lemma delEdge_sound:
  assumes sound: "dfg_sound g" and e: "dfg_abs g k = Some e"
  shows "\<exists>g'. dfg_delEdge k g = Some g' \<and> dfg_sound g' \<and> dfg_abs g' = (dfg_abs g)(k := None) \<and> same_core g g'"
proof -
  have wf: "dfg_wf g" using sound by (simp add: dfg_sound_def)
  from delEdge_ok[OF wf e] obtain g' where
    g': "dfg_delEdge k g = Some g'" "dfg_wf g'" "dfg_abs g' = (dfg_abs g)(k := None)" by blast
  note c = delEdge_core[OF g'(1)]
  have "dfg_sound g'"
    using sound g'(2) c unfolding dfg_sound_def g'(3) same_core_has[OF c] by (auto simp: same_core_def split: if_splits)
  then show ?thesis using g' c by blast
qed

lemma addNode_sound:
  assumes sound: "dfg_sound g" and fresh: "\<not> om_has (df_nodes g) (gn_id nd)" "gn_id nd \<noteq> g_id g"
    and empty: "gn_inputs nd = []" "gn_outputs nd = []" "gn_inputEdges nd = []" "gn_outputEdges nd = []"
  shows "dfg_sound (dfg_addNode nd g)" "dfg_abs (dfg_addNode nd g) = dfg_abs g"
proof -
  let ?g = "dfg_addNode nd g"
  have none: "om_get (df_nodes g) (gn_id nd) = None" using fresh by (auto simp: om_has_def split: option.splits)
  have g: "g_id ?g = g_id g" "df_edges ?g = df_edges g" "om_get (df_nodes ?g) = (om_get (df_nodes g))(gn_id nd \<mapsto> nd)"
    "g_inputs ?g = g_inputs g" "g_outputs ?g = g_outputs g" "g_inputEdges ?g = g_inputEdges g" "g_outputEdges ?g = g_outputEdges g"
    by (simp_all add: dfg_addNode_def)
  have e: "om_at [] [] p = []" for p :: int by (simp add: om_at_def)
  have v: "in_edge ?g n p = in_edge g n p" "in_src ?g n p = in_src g n p" "out_edges ?g n p = out_edges g n p"
    "out_dsts ?g n p = out_dsts g n p" for n p
    using none fresh(2) by (simp_all add: in_edge_def in_src_def out_edges_def out_dsts_def g empty e)
  show abs: "dfg_abs ?g = dfg_abs g" by (simp add: dfg_abs_def g)
  have has: "has_node ?g n \<longleftrightarrow> n = gn_id nd \<or> has_node g n" for n by (auto simp: has_node_def g om_has_def)
  have keys: "om_wf (df_nodes ?g)" "\<forall>k n. om_get (df_nodes ?g) k = Some n \<longrightarrow> gn_id n = k"
    using sound unfolding dfg_sound_def dfg_wf_def g by (simp_all add: dfg_addNode_def)
  have "dfg_wf ?g"
    using sound keys unfolding dfg_sound_def dfg_wf_def v abs has g(2) by blast
  moreover have "nodes_ok ?g"
    using sound empty by (auto simp: dfg_sound_def nodes_ok_def dfg_node_def dfg_addNode_def tables_ok_def)
  ultimately show "dfg_sound ?g" using sound fresh unfolding dfg_sound_def abs by (simp add: dfg_addNode_def)
qed

section \<open>Replacing an edge by a path\<close>

lemma acyclic_path:
  assumes "acyclic D" "(s, d) \<in> D" "v \<notin> Field D" "D' \<subseteq> insert (s, v) (insert (v, d) D)"
  shows "acyclic D'"
proof -
  have v: "s \<noteq> v" "d \<noteq> v" "(d, v) \<notin> D\<^sup>*" "(v, s) \<notin> D\<^sup>*"
    using assms(2,3) by (auto simp: Field_def elim: rtranclE converse_rtranclE)
  have "(v, s) \<notin> (insert (v, d) D)\<^sup>*"
  proof
    assume "(v, s) \<in> (insert (v, d) D)\<^sup>*"
    then have "(d, s) \<in> D\<^sup>*" using v by (auto simp: rtrancl_insert)
    then have "(s, s) \<in> D\<^sup>+" using assms(2) by (rule rtrancl_into_trancl2[rotated])
    then show False using assms(1) by (simp add: acyclic_def)
  qed
  then have "acyclic (insert (s, v) (insert (v, d) D))" using v assms(1) by (simp add: acyclic_insert)
  then show ?thesis using assms(4) by (rule acyclic_subset)
qed

lemma reach_path:
  assumes "D \<subseteq> insert (s, d) D'" "(s, v) \<in> D'" "(v, d) \<in> D'" "(x, y) \<in> D\<^sup>*"
  shows "(x, y) \<in> D'\<^sup>*"
proof -
  have "(s, d) \<in> D'\<^sup>*" using assms(2,3) by auto
  then have "D \<subseteq> D'\<^sup>*" using assms(1) by auto
  then show ?thesis using assms(4) by (meson rtrancl_subset_rtrancl subsetD)
qed

section \<open>DFGs the mapper can work on\<close>

text \<open>Every functional unit that has the operation has the operands, for the input ports \<open>P\<close>.\<close>

definition operands_fit :: "top_adg \<Rightarrow> dnode \<Rightarrow> int set \<Rightarrow> bool" where
  "operands_fit a nd P \<longleftrightarrow> (\<forall>k fu. adg_node a k = Some fu \<longrightarrow> is_fu fu \<longrightarrow> fu_opCapable fu (dn_operation nd) \<longrightarrow>
     (if dn_commutative nd
      then int (card P) + (if dnode_hasImm nd then 1 else 0) \<le> int (length (an_operandInputs fu))
      else \<forall>p \<in> P. 0 \<le> p \<and> p < int (length (an_operandInputs fu))))"

text \<open>The operation of an input or output is one that only I/O blocks have.\<close>

definition io_only :: "top_adg \<Rightarrow> dnode \<Rightarrow> bool" where
  "io_only a nd \<longleftrightarrow> (dn_io nd \<noteq> None \<longrightarrow> (\<forall>k fu. adg_node a k = Some fu \<longrightarrow> is_fu fu \<longrightarrow>
     fu_opCapable fu (dn_operation nd) \<longrightarrow> gn_type fu = ''IOB''))"

definition node_good :: "top_adg \<Rightarrow> dfg \<Rightarrow> int \<Rightarrow> dnode \<Rightarrow> bool" where
  "node_good a g n nd \<longleftrightarrow> 0 \<le> dn_opLatency nd \<and> (dn_io nd \<noteq> None \<longleftrightarrow> n \<in> set (df_ioNodes g)) \<and> operands_fit a nd (in_ports g n) \<and> io_only a nd"

definition alive :: "dfg \<Rightarrow> bool" where
  "alive g \<longleftrightarrow> (\<forall>n. om_has (df_nodes g) n \<longrightarrow> (\<exists>r. is_out_node g r \<and> (n, r) \<in> (dfg_dep g)\<^sup>*))"

definition good :: "top_adg \<Rightarrow> dfg \<Rightarrow> bool" where
  "good a g \<longleftrightarrow> dfg_sound g \<and> (\<forall>n nd. dfg_node g n = Some nd \<longrightarrow> node_good a g n nd) \<and>
     (\<forall>n \<in> set (df_ioNodes g). om_has (df_nodes g) n) \<and> distinct (df_ioNodes g) \<and> acyclic (dfg_dep g) \<and> alive g \<and>
     (\<exists>n. om_has (df_nodes g) n \<and> g_id g < n)"

definition pass_ok :: "'f sa_env \<Rightarrow> top_adg \<Rightarrow> bool" where
  "pass_ok E a \<longleftrightarrow> op_opCapable (en_ops E) ''PASS'' \<and> 0 \<le> op_latency (en_ops E) ''PASS'' \<and>
     (\<forall>k fu. adg_node a k = Some fu \<longrightarrow> is_fu fu \<longrightarrow> fu_opCapable fu ''PASS'' \<longrightarrow> an_operandInputs fu \<noteq> []) \<and>
     (\<forall>l. mset (en_sort_vio E l) = mset (map fst l))"

lemma operands_fit_core: "core nd' = core nd \<Longrightarrow> operands_fit a nd' P = operands_fit a nd P"
proof -
  assume c: "core nd' = core nd"
  have "dn_operation nd' = dn_operation nd" "dn_commutative nd' = dn_commutative nd" "dnode_hasImm nd' = dnode_hasImm nd"
    using arg_cong[OF c, of dn_operation] arg_cong[OF c, of dn_commutative] arg_cong[OF c, of dnode_hasImm] by simp_all
  then show ?thesis by (simp add: operands_fit_def)
qed

lemma node_good_core:
  assumes "core nd' = core nd" "df_ioNodes g' = df_ioNodes g" "in_ports g' n = in_ports g n"
  shows "node_good a g' n nd' = node_good a g n nd"
  using assms(2,3) operands_fit_core[OF assms(1)] arg_cong[OF assms(1), of dn_opLatency] arg_cong[OF assms(1), of dn_io]
    arg_cong[OF assms(1), of dn_operation]
  by (simp add: node_good_def io_only_def)

lemma hosts_good:
  assumes g: "good a g" and ok: "adg_ok a"
  shows "hosts a g"
  unfolding hosts_def can_host_def is_fu_id_def
proof (intro allI impI conjI)
  fix n nd k fu assume nd: "dfg_node g n = Some nd" and fu: "adg_node a k = Some fu" "is_fu fu" "fu_opCapable fu (dn_operation nd)"
  show "\<exists>n. adg_node a k = Some n \<and> is_fu n" using fu by blast
  have sound: "dfg_sound g" and "operands_fit a nd (in_ports g n)" using g nd unfolding good_def node_good_def by blast+
  then have "if dn_commutative nd then dnode_numInputs nd \<le> int (length (an_operandInputs fu))
      else \<forall>p \<in> fst ` set (gn_inputEdges nd). 0 \<le> p \<and> p < int (length (an_operandInputs fu))"
    using fu unfolding operands_fit_def node_ports(1)[OF sound nd] dnode_numInputs_def node_ports(2)[OF sound nd] by (auto split: if_splits)
  then show "if dn_commutative dn then dnode_numInputs dn \<le> int (length (an_operandInputs D))
      else \<forall>p \<in> fst ` set (gn_inputEdges dn). 0 \<le> p \<and> p < int (length (an_operandInputs D))"
    if "adg_node a k = Some D" "dfg_node g n = Some dn" for D dn using that nd fu by (metis option.inject)
qed

section \<open>One PASS node\<close>

lemma pass_node_ok:
  assumes "pass_ok E a"
  obtains nd where "pass_node (en_ops E) i = Some nd" "gn_id nd = i" "dn_operation nd = ''PASS''" "0 \<le> dn_opLatency nd"
    "dn_io nd = None" "\<not> dnode_hasImm nd" "gn_inputs nd = []" "gn_outputs nd = []" "gn_inputEdges nd = []" "gn_outputEdges nd = []"
proof -
  have "op_opCapable (en_ops E) ''PASS''" "0 \<le> op_latency (en_ops E) ''PASS''" using assms by (simp_all add: pass_ok_def)
  then show ?thesis
    by (intro that[of "the (pass_node (en_ops E) i)"]) (simp_all add: pass_node_def dnode_setOperation_def new_DFGNode_def dnode_hasImm_def)
qed

text \<open>\<open>g'\<close> is \<open>g\<close> with the edge \<open>e\<close>, whose id is \<open>k\<close>, replaced by edges \<open>k1\<close> and \<open>k2\<close> through the new node \<open>v\<close>.\<close>

definition split_edge :: "dfg \<Rightarrow> int \<Rightarrow> gedge \<Rightarrow> int \<Rightarrow> int \<Rightarrow> int \<Rightarrow> dnode \<Rightarrow> dfg \<Rightarrow> bool" where
  "split_edge g k e k1 k2 v nd g' \<longleftrightarrow> dfg_sound g \<and> dfg_sound g' \<and> dfg_abs g k = Some e \<and> \<not> om_has (df_nodes g) v \<and>
     dfg_abs g k1 = None \<and> dfg_abs g k2 = None \<and> k1 \<noteq> k2 \<and> g_id g' = g_id g \<and> df_ioNodes g' = df_ioNodes g \<and>
     (\<exists>e1 e2. dfg_abs g' = (dfg_abs g)(k := None, k1 \<mapsto> e1, k2 \<mapsto> e2) \<and>
        ge_srcId e1 = ge_srcId e \<and> ge_dstId e1 = v \<and> ge_dstPortIdx e1 = 0 \<and>
        ge_srcId e2 = v \<and> ge_dstId e2 = ge_dstId e \<and> ge_dstPortIdx e2 = ge_dstPortIdx e \<and>
        ge_srcPortIdx e1 = ge_srcPortIdx e \<and> ge_srcPortIdx e2 = 0) \<and>
     (\<forall>n. map_option core (dfg_node g' n) = (if n = v then Some (core nd) else map_option core (dfg_node g n)))"

definition is_pass :: "dnode \<Rightarrow> bool" where
  "is_pass nd \<longleftrightarrow> dn_operation nd = ''PASS'' \<and> 0 \<le> dn_opLatency nd \<and> dn_io nd = None \<and> \<not> dnode_hasImm nd"

text \<open>The graph operations of one insertion.\<close>

lemma insert_pass_run:
  assumes sound: "dfg_sound g" and po: "pass_ok E a" and e: "dfg_abs g k = Some e"
    and maxN: "\<And>n. om_has (df_nodes g) n \<Longrightarrow> n \<le> mN" and gid: "g_id g \<le> mN"
    and maxE: "\<And>j x. dfg_abs g j = Some x \<Longrightarrow> j \<le> mE"
  shows "\<exists>g' nd. insert_pass (en_ops E) (g, mN, mE) k = Some (g', mN + 1, mE + 2) \<and>
    split_edge g k e (mE + 1) (mE + 2) (mN + 1) nd g' \<and> is_pass nd"
proof -
  let ?s = "ge_srcId e" and ?d = "ge_dstId e" and ?v = "mN + 1"
  let ?e1 = "\<lparr>ge_id = mE + 1, ge_srcPortIdx = ge_srcPortIdx e, ge_dstPortIdx = 0, ge_srcId = ?s, ge_dstId = ?v\<rparr>"
  let ?e2 = "\<lparr>ge_id = mE + 2, ge_srcPortIdx = 0, ge_dstPortIdx = ge_dstPortIdx e, ge_srcId = ?v, ge_dstId = ?d\<rparr>"
  have wf: "dfg_wf g" using sound by (simp add: dfg_sound_def)
  have sd: "om_has (df_nodes g) ?s" "om_has (df_nodes g) ?d" using sound_ends[OF sound e] by blast+
  have v: "\<not> om_has (df_nodes g) ?v" "?v \<noteq> g_id g" "?s \<noteq> ?v" "?d \<noteq> ?v"
    using maxN gid sd by force+
  have new: "dfg_abs g (mE + 1) = None" "dfg_abs g (mE + 2) = None"
    using maxE[of "mE + 1"] maxE[of "mE + 2"] by (metis add_le_same_cancel1 not_None_eq not_one_le_zero,
      metis add_le_same_cancel1 not_None_eq not_numeral_le_zero)
  have ends: "ge_dstId x \<noteq> ?v" if "dfg_abs g j = Some x" for j x using sound_ends(2)[OF sound that] v by metis
  obtain nd where nd: "pass_node (en_ops E) ?v = Some nd" "gn_id nd = ?v" "dn_operation nd = ''PASS''" "0 \<le> dn_opLatency nd"
      "dn_io nd = None" "\<not> dnode_hasImm nd" "gn_inputs nd = []" "gn_outputs nd = []" "gn_inputEdges nd = []" "gn_outputEdges nd = []"
    by (rule pass_node_ok[OF po])
  from delEdge_sound[OF sound e] obtain g1 where
    g1: "dfg_delEdge k g = Some g1" "dfg_sound g1" "dfg_abs g1 = (dfg_abs g)(k := None)" "same_core g g1" by blast
  have h1: "om_has (df_nodes g1) n = om_has (df_nodes g) n" "g_id g1 = g_id g" for n
    using same_core_has[OF g1(4)] g1(4) by (simp_all add: same_core_def)
  let ?g2 = "dfg_addNode nd g1"
  have g2: "dfg_sound ?g2" "dfg_abs ?g2 = dfg_abs g1"
    by (rule addNode_sound[OF g1(2)]; use v h1 nd in simp)+
  have h2: "om_has (df_nodes ?g2) n \<longleftrightarrow> n = ?v \<or> om_has (df_nodes g) n" for n using h1 nd(2) by (simp add: dfg_addNode_def)
  have "\<exists>g3. dfg_addEdge ?e1 ?g2 = Some g3 \<and> dfg_sound g3 \<and> dfg_abs g3 = (dfg_abs ?g2)(ge_id ?e1 \<mapsto> ?e1) \<and> same_core ?g2 g3"
    by (rule addEdge_sound[OF g2(1)]) (use new h2 sd ends in \<open>auto simp: g2(2) g1(3) in_ports_def\<close>)
  then obtain g3 where g3: "dfg_addEdge ?e1 ?g2 = Some g3" "dfg_sound g3" "dfg_abs g3 = (dfg_abs g1)(mE + 1 \<mapsto> ?e1)" "same_core ?g2 g3"
    using g2(2) by auto
  have "\<exists>g4. dfg_addEdge ?e2 g3 = Some g4 \<and> dfg_sound g4 \<and> dfg_abs g4 = (dfg_abs g3)(ge_id ?e2 \<mapsto> ?e2) \<and> same_core g3 g4"
  proof (rule addEdge_sound[OF g3(2)])
    show "dfg_abs g3 (ge_id ?e2) = None" using new by (simp add: g3(3) g1(3))
    show "om_has (df_nodes g3) (ge_srcId ?e2)" "om_has (df_nodes g3) (ge_dstId ?e2)"
      using sd unfolding same_core_has[OF g3(4)] h2 by simp_all
    have "j = k" if "dfg_abs g j = Some x" "ge_dstId x = ?d" "ge_dstPortIdx x = ge_dstPortIdx e" for j x
      using dfg_wf_unique_in[OF wf e that] .
    then show "ge_dstPortIdx ?e2 \<notin> in_ports g3 (ge_dstId ?e2)"
      using v by (auto simp: in_ports_def g3(3) g1(3) split: if_splits)
  qed
  then obtain g4 where g4: "dfg_addEdge ?e2 g3 = Some g4" "dfg_sound g4" "dfg_abs g4 = (dfg_abs g3)(mE + 2 \<mapsto> ?e2)" "same_core g3 g4"
    by auto
  have run: "insert_pass (en_ops E) (g, mN, mE) k = Some (g4, mN + 1, mE + 2)"
    using e g1(1) nd(1) g3(1) g4(1) by (simp add: insert_pass_def dfg_edge_def dfg_abs_def Let_def)
  have abs: "dfg_abs g4 = (dfg_abs g)(k := None, mE + 1 \<mapsto> ?e1, mE + 2 \<mapsto> ?e2)" by (simp add: g4(3) g3(3) g1(3))
  have "same_core ?g2 g4" using same_core_trans[OF g3(4) g4(4)] .
  then have fr: "g_id g4 = g_id g" "df_ioNodes g4 = df_ioNodes g"
    "\<forall>n. map_option core (dfg_node g4 n) = (if n = ?v then Some (core nd) else map_option core (dfg_node g n))"
    using g1(4) nd(2) unfolding same_core_def by (simp_all add: dfg_addNode_def dfg_node_def)
  have "split_edge g k e (mE + 1) (mE + 2) ?v nd g4"
    unfolding split_edge_def
  proof (intro conjI)
    show "\<exists>e1 e2. dfg_abs g4 = (dfg_abs g)(k := None, mE + 1 \<mapsto> e1, mE + 2 \<mapsto> e2) \<and> ge_srcId e1 = ?s \<and> ge_dstId e1 = ?v \<and>
        ge_dstPortIdx e1 = 0 \<and> ge_srcId e2 = ?v \<and> ge_dstId e2 = ?d \<and> ge_dstPortIdx e2 = ge_dstPortIdx e \<and>
        ge_srcPortIdx e1 = ge_srcPortIdx e \<and> ge_srcPortIdx e2 = 0"
      by (rule exI[of _ ?e1], rule exI[of _ ?e2]) (simp add: abs)
  qed (use sound e v(1) new g4(2) fr in auto)
  moreover have "is_pass nd" using nd by (simp add: is_pass_def)
  ultimately show ?thesis using run by blast
qed

lemma is_out_core:
  assumes "map_option core (dfg_node g' n) = map_option core (dfg_node g n)" "df_ioNodes g' = df_ioNodes g"
  shows "is_out_node g' n = is_out_node g n"
proof -
  have "map_option dn_operation (map_option core (dfg_node g' n)) = map_option dn_operation (map_option core (dfg_node g n))"
    using assms(1) by simp
  then have "map_option dn_operation (dfg_node g' n) = map_option dn_operation (dfg_node g n)"
    by (simp add: option.map_comp comp_def)
  then have "(\<exists>nd. dfg_node g' n = Some nd \<and> P (dn_operation nd)) \<longleftrightarrow> (\<exists>nd. dfg_node g n = Some nd \<and> P (dn_operation nd))" for P
    by (cases "dfg_node g' n"; cases "dfg_node g n") auto
  from this[of "\<lambda>op. op = ''OUTPUT'' \<or> op = ''STORE''"] show ?thesis
    using assms(2) by (simp add: is_out_node_def dfg_node_def)
qed

lemma split_has:
  assumes "split_edge g k e k1 k2 v nd g'"
  shows "om_has (df_nodes g') n \<longleftrightarrow> n = v \<or> om_has (df_nodes g) n"
proof -
  have "map_option core (dfg_node g' n) = (if n = v then Some (core nd) else map_option core (dfg_node g n))"
    using assms unfolding split_edge_def by blast
  then have "dfg_node g' n = None \<longleftrightarrow> n \<noteq> v \<and> dfg_node g n = None"
    by (cases "dfg_node g' n"; cases "dfg_node g n") (auto split: if_splits)
  then show ?thesis by (auto simp: om_has_iff dfg_node_def)
qed

lemma split_ends:
  assumes "split_edge g k e k1 k2 v nd g'" "dfg_abs g j = Some x"
  shows "ge_dstId x \<noteq> v" "ge_srcId x \<noteq> v" "j \<noteq> k1" "j \<noteq> k2"
  using assms sound_ends(1,2)[of g j x] unfolding split_edge_def by auto

lemma split_dep:
  assumes sp: "split_edge g k e k1 k2 v nd g'"
  shows "(ge_srcId e, ge_dstId e) \<in> dfg_dep g" "(ge_srcId e, v) \<in> dfg_dep g'" "(v, ge_dstId e) \<in> dfg_dep g'"
    "dfg_dep g' \<subseteq> insert (ge_srcId e, v) (insert (v, ge_dstId e) (dfg_dep g))"
    "dfg_dep g \<subseteq> insert (ge_srcId e, ge_dstId e) (dfg_dep g')" "v \<notin> Field (dfg_dep g)"
proof -
  obtain e1 e2 where abs: "dfg_abs g' = (dfg_abs g)(k := None, k1 \<mapsto> e1, k2 \<mapsto> e2)"
    and e1: "ge_srcId e1 = ge_srcId e" "ge_dstId e1 = v" and e2: "ge_srcId e2 = v" "ge_dstId e2 = ge_dstId e"
    using sp unfolding split_edge_def by blast
  have e: "dfg_abs g k = Some e" "k1 \<noteq> k2" and sound: "dfg_sound g" "dfg_sound g'" using sp by (auto simp: split_edge_def)
  note dep = dfg_dep_sound[OF sound(1)] dfg_dep_sound[OF sound(2)]
  show "(ge_srcId e, ge_dstId e) \<in> dfg_dep g" using e unfolding dep by blast
  have "dfg_abs g' k1 = Some e1" "dfg_abs g' k2 = Some e2" using abs e(2) by simp_all
  then show "(ge_srcId e, v) \<in> dfg_dep g'" "(v, ge_dstId e) \<in> dfg_dep g'" using e1 e2 unfolding dep by blast+
  show "dfg_dep g' \<subseteq> insert (ge_srcId e, v) (insert (v, ge_dstId e) (dfg_dep g))"
    unfolding dep abs using e1 e2 by (auto split: if_splits)
  have "dfg_abs g' j = Some x \<or> x = e" if "dfg_abs g j = Some x" for j x
    using that abs e split_ends[OF sp that] by (cases "j = k") auto
  then show "dfg_dep g \<subseteq> insert (ge_srcId e, ge_dstId e) (dfg_dep g')" unfolding dep by fast
  show "v \<notin> Field (dfg_dep g)" using split_ends(1,2)[OF sp] unfolding dep Field_def by fastforce
qed

lemma split_ports:
  assumes sp: "split_edge g k e k1 k2 v nd g'"
  shows "in_ports g' v = {0}" "n \<noteq> v \<Longrightarrow> in_ports g' n = in_ports g n"
proof -
  obtain e1 e2 where abs: "dfg_abs g' = (dfg_abs g)(k := None, k1 \<mapsto> e1, k2 \<mapsto> e2)"
    and e1: "ge_dstId e1 = v" "ge_dstPortIdx e1 = 0" and e2: "ge_dstId e2 = ge_dstId e" "ge_dstPortIdx e2 = ge_dstPortIdx e"
    using sp unfolding split_edge_def by blast
  have e: "dfg_abs g k = Some e" "k1 \<noteq> k2" using sp by (auto simp: split_edge_def)
  have new: "dfg_abs g' k1 = Some e1" "dfg_abs g' k2 = Some e2" using abs e(2) by simp_all
  have "in_ports g' v \<subseteq> {0}"
    using split_ends(1)[OF sp] e e1 e2 unfolding in_ports_def by (auto simp: abs split: if_splits)
  moreover have "0 \<in> in_ports g' v" using new(1) e1 unfolding in_ports_def by blast
  ultimately show "in_ports g' v = {0}" by blast
  assume n: "n \<noteq> v"
  have "(\<exists>j x. dfg_abs g' j = Some x \<and> ge_dstId x = n \<and> ge_dstPortIdx x = p) \<longleftrightarrow>
      (\<exists>j x. dfg_abs g j = Some x \<and> ge_dstId x = n \<and> ge_dstPortIdx x = p)" (is "?L \<longleftrightarrow> ?R") for p
  proof
    show "?L \<Longrightarrow> ?R" using n e e1 e2 unfolding abs by (auto split: if_splits)
    assume ?R
    then obtain j x where j: "dfg_abs g j = Some x" "ge_dstId x = n" "ge_dstPortIdx x = p" by blast
    show ?L
    proof (cases "j = k")
      case True
      then have "ge_dstId e2 = n" "ge_dstPortIdx e2 = p" using j e e2 by auto
      then show ?thesis using new(2) by blast
    next
      case False
      then have "dfg_abs g' j = Some x" using j(1) abs split_ends[OF sp j(1)] by auto
      then show ?thesis using j by blast
    qed
  qed
  then show "in_ports g' n = in_ports g n" by (simp add: in_ports_def)
qed

lemma split_alive:
  assumes sp: "split_edge g k e k1 k2 v nd g'" and al: "alive g"
  shows "alive g'"
  unfolding alive_def
proof (intro allI impI)
  note dep = split_dep[OF sp]
  have sound: "dfg_sound g" and e: "dfg_abs g k = Some e" and new: "\<not> om_has (df_nodes g) v" using sp by (auto simp: split_edge_def)
  fix n assume n: "om_has (df_nodes g') n"
  let ?n = "if n = v then ge_dstId e else n"
  have "om_has (df_nodes g) ?n" using n sound_ends(2)[OF sound e] split_has[OF sp] by auto
  then obtain q where q: "is_out_node g q" "(?n, q) \<in> (dfg_dep g)\<^sup>*" using al unfolding alive_def by blast
  then have "q \<noteq> v" using new by (auto simp: is_out_node_def om_has_iff)
  then have "is_out_node g' q" using is_out_core[of g' q g] sp q(1) unfolding split_edge_def by simp
  moreover have "(?n, q) \<in> (dfg_dep g')\<^sup>*" using reach_path[OF dep(5,2,3) q(2)] .
  then have "(n, q) \<in> (dfg_dep g')\<^sup>*" using dep(3) by (auto split: if_splits intro: converse_rtrancl_into_rtrancl)
  ultimately show "\<exists>r. is_out_node g' r \<and> (n, r) \<in> (dfg_dep g')\<^sup>*" by blast
qed

lemma split_nodes:
  assumes sp: "split_edge g k e k1 k2 v nd g'" and g: "good a g" and po: "pass_ok E a" and ps: "is_pass nd"
    and nd': "dfg_node g' n = Some nd'"
  shows "node_good a g' n nd'"
proof -
  have fr: "df_ioNodes g' = df_ioNodes g"
      "map_option core (dfg_node g' n) = (if n = v then Some (core nd) else map_option core (dfg_node g n))"
    using sp unfolding split_edge_def by blast+
  show ?thesis
  proof (cases "n = v")
    case True
    then have c: "core nd' = core nd" using fr(2) nd' by simp
    have "v \<notin> set (df_ioNodes g)" using g sp unfolding good_def split_edge_def by blast
    moreover have "operands_fit a nd {0}" using po ps unfolding operands_fit_def pass_ok_def is_pass_def by (auto simp: Suc_le_eq)
    ultimately have "node_good a g' n nd"
      using True split_ports(1)[OF sp] fr(1) ps unfolding node_good_def is_pass_def io_only_def by simp
    then show ?thesis using node_good_core[OF c refl refl] by simp
  next
    case False
    then obtain nd0 where nd0: "dfg_node g n = Some nd0" "core nd' = core nd0"
      using fr(2) nd' by (cases "dfg_node g n") auto
    then have "node_good a g n nd0" using g unfolding good_def by blast
    then show ?thesis using node_good_core[OF nd0(2) fr(1)] split_ports(2)[OF sp False] by simp
  qed
qed

lemma split_good:
  assumes sp: "split_edge g k e k1 k2 v nd g'" and g: "good a g" and po: "pass_ok E a" and ps: "is_pass nd"
  shows "good a g'"
  unfolding good_def
proof (intro conjI allI impI)
  note dep = split_dep[OF sp]
  have "acyclic (dfg_dep g)" using g by (simp add: good_def)
  then show "acyclic (dfg_dep g')" using acyclic_path[OF _ dep(1,6,4)] by blast
  show "alive g'" using split_alive[OF sp] g by (simp add: good_def)
  show "dfg_sound g'" using sp by (simp add: split_edge_def)
  show "node_good a g' n nd'" if "dfg_node g' n = Some nd'" for n nd' using split_nodes[OF sp g po ps that] .
  have fr: "g_id g' = g_id g" "df_ioNodes g' = df_ioNodes g" using sp by (simp_all add: split_edge_def)
  show "\<exists>n. om_has (df_nodes g') n \<and> g_id g' < n" using g fr(1) unfolding good_def split_has[OF sp] by auto
  show "\<forall>n \<in> set (df_ioNodes g'). om_has (df_nodes g') n" "distinct (df_ioNodes g')"
    using g fr(2) unfolding good_def split_has[OF sp] by simp_all
qed

definition bounded_ids :: "dfg \<Rightarrow> int \<Rightarrow> int \<Rightarrow> bool" where
  "bounded_ids g mN mE \<longleftrightarrow> (\<forall>n. om_has (df_nodes g) n \<longrightarrow> n \<le> mN) \<and> (\<forall>j x. dfg_abs g j = Some x \<longrightarrow> j \<le> mE)"

lemma insert_pass_ok:
  assumes g: "good a g" and po: "pass_ok E a" and e: "dfg_abs g k = Some e" and bd: "bounded_ids g mN mE"
  shows "\<exists>g'. insert_pass (en_ops E) (g, mN, mE) k = Some (g', mN + 1, mE + 2) \<and> good a g' \<and> bounded_ids g' (mN + 1) (mE + 2) \<and>
    (\<forall>j. j \<noteq> k \<longrightarrow> dfg_abs g j \<noteq> None \<longrightarrow> dfg_abs g' j = dfg_abs g j) \<and>
    (\<exists>nd. split_edge g k e (mE + 1) (mE + 2) (mN + 1) nd g' \<and> is_pass nd)"
proof -
  have maxN: "om_has (df_nodes g) n \<Longrightarrow> n \<le> mN" and maxE: "dfg_abs g j = Some x \<Longrightarrow> j \<le> mE" for n j x
    using bd by (auto simp: bounded_ids_def)
  obtain n0 where n0: "om_has (df_nodes g) n0" "g_id g < n0" using g unfolding good_def by blast
  have gid: "g_id g \<le> mN" using maxN[OF n0(1)] n0(2) by simp
  have sound: "dfg_sound g" using g by (simp add: good_def)
  have "\<exists>g' nd. insert_pass (en_ops E) (g, mN, mE) k = Some (g', mN + 1, mE + 2) \<and>
      split_edge g k e (mE + 1) (mE + 2) (mN + 1) nd g' \<and> is_pass nd"
    by (rule insert_pass_run[OF sound po e _ gid]) (use maxN maxE in blast)+
  then obtain g' nd where
    run: "insert_pass (en_ops E) (g, mN, mE) k = Some (g', mN + 1, mE + 2)"
    and sp: "split_edge g k e (mE + 1) (mE + 2) (mN + 1) nd g'" and ps: "is_pass nd" by blast
  obtain e1 e2 where abs: "dfg_abs g' = (dfg_abs g)(k := None, mE + 1 \<mapsto> e1, mE + 2 \<mapsto> e2)"
    using sp unfolding split_edge_def by blast
  have "bounded_ids g' (mN + 1) (mE + 2)"
    using maxN maxE split_has[OF sp] unfolding bounded_ids_def abs by (fastforce split: if_splits)
  moreover have "\<forall>j. j \<noteq> k \<longrightarrow> dfg_abs g j \<noteq> None \<longrightarrow> dfg_abs g' j = dfg_abs g j"
    using maxE unfolding abs by fastforce
  ultimately show ?thesis using run split_good[OF sp g po ps] sp ps by blast
qed

section \<open>The copy\<close>

lemma om_put_above: "\<forall>q \<in> set m. fst q < k \<Longrightarrow> om_put m k v = m @ [(k, v)]"
  by (induction m k v rule: om_put.induct) auto

lemma om_put_snoc: "om_wf (m @ (k, v) # xs) \<Longrightarrow> om_put m k v = m @ [(k, v)]"
  by (rule om_put_above) (auto simp: om_wf_def sorted_wrt_append)

lemma rebuild_map: "om_wf (m @ xs) \<Longrightarrow> foldl (\<lambda>m (k, v). om_put m k v) m xs = m @ xs"
proof (induction xs arbitrary: m)
  case (Cons x xs)
  then show ?case by (cases x) (simp add: om_put_snoc)
qed simp

lemma rebuild_nodes:
  assumes "om_wf xs" "\<And>k v. (k, v) \<in> set xs \<Longrightarrow> f k v = Some v"
  shows "mfold (\<lambda>m (k, v). map_option (om_put m k) (f k v)) [] xs = Some xs"
proof -
  have "om_wf (m @ ys) \<Longrightarrow> set ys \<subseteq> set xs \<Longrightarrow> mfold (\<lambda>m (k, v). map_option (om_put m k) (f k v)) m ys = Some (m @ ys)" for m ys
  proof (induction ys arbitrary: m)
    case (Cons y ys)
    obtain k v where y: "y = (k, v)" by (cases y)
    have "f k v = Some v" using assms(2) Cons.prems(2) y by simp
    moreover have "om_put m k v = m @ [(k, v)]" using om_put_snoc[of m k v ys] Cons.prems(1) y by simp
    ultimately show ?case using Cons y by simp
  qed simp
  from this[of "[]" xs] show ?thesis using assms(1) by simp
qed

lemma assign_copy:
  assumes "om_wf (df_nodes g)" "om_wf (df_edges g)"
    and "\<And>n nd. dfg_node g n = Some nd \<Longrightarrow> dn_io nd \<noteq> None \<longleftrightarrow> n \<in> set (df_ioNodes g)"
  shows "dfg_assign new_DFG g = Some g"
proof -
  let ?f = "\<lambda>nid n. if nid \<in> set (df_ioNodes g) then (if dn_io n = None then None else Some n) else Some (n\<lparr>dn_io := None\<rparr>)"
  have upd: "(if nid \<in> set (df_ioNodes g) then (case dn_io n of None \<Rightarrow> None | Some _ \<Rightarrow> Some (om_put m nid n))
      else Some (om_put m nid (n\<lparr>dn_io := None\<rparr>))) = map_option (om_put m nid) (?f nid n)" for m nid n
    by (cases "dn_io n") simp_all
  have "?f k v = Some v" if "(k, v) \<in> set (df_nodes g)" for k v
  proof -
    have "dn_io v \<noteq> None \<longleftrightarrow> k \<in> set (df_ioNodes g)" using that assms(3) om_get_mem[OF assms(1)] by (simp add: dfg_node_def)
    then show ?thesis by (cases v) auto
  qed
  from rebuild_nodes[OF assms(1) this]
  have "mfold (\<lambda>m (nid, n). if nid \<in> set (df_ioNodes g) then (case dn_io n of None \<Rightarrow> None | Some _ \<Rightarrow> Some (om_put m nid n))
      else Some (om_put m nid (n\<lparr>dn_io := None\<rparr>))) [] (df_nodes g) = Some (df_nodes g)"
    unfolding upd .
  moreover have "foldl (\<lambda>m (k, v). om_put m k v) [] (df_edges g) = df_edges g" using rebuild_map[of "[]"] assms(2) by simp
  ultimately show ?thesis by (simp add: dfg_assign_def new_DFG_def)
qed

lemma om_last_bound:
  assumes "om_wf m" "om_has m j"
  obtains k v where "om_last m = Some (k, v)" "\<And>i. om_has m i \<Longrightarrow> i \<le> k"
proof -
  have ne: "m \<noteq> []" using assms(2) by (auto simp: om_has_def)
  obtain xs k v where m: "m = xs @ [(k, v)]" using ne by (metis prod.exhaust rev_exhaust)
  have "i \<le> k" if "om_has m i" for i
    using that assms(1) m by (auto simp: om_has_set om_wf_def sorted_wrt_append)
  then show ?thesis using m by (intro that[of k v]) (simp_all add: om_last_def)
qed

section \<open>All PASS nodes\<close>

definition vio_list :: "dfg \<Rightarrow> mapping \<Rightarrow> bool" where
  "vio_list g m \<longleftrightarrow> distinct (mp_vioDfgEdges m) \<and> (\<forall>k \<in> set (mp_vioDfgEdges m). dfg_abs g k \<noteq> None)"

lemma insert_passes:
  assumes po: "pass_ok E a"
  shows "good a g \<Longrightarrow> bounded_ids g mN mE \<Longrightarrow> distinct ks \<Longrightarrow> \<forall>k \<in> set ks. dfg_abs g k \<noteq> None \<Longrightarrow>
    \<exists>g' x y. mfold (insert_pass (en_ops E)) (g, mN, mE) ks = Some (g', x, y) \<and> good a g'"
proof (induction ks arbitrary: g mN mE)
  case (Cons k ks)
  then obtain e where e: "dfg_abs g k = Some e" by auto
  from insert_pass_ok[OF Cons.prems(1) po e Cons.prems(2)] obtain g1 where
    g1: "insert_pass (en_ops E) (g, mN, mE) k = Some (g1, mN + 1, mE + 2)" "good a g1" "bounded_ids g1 (mN + 1) (mE + 2)"
      "\<forall>j. j \<noteq> k \<longrightarrow> dfg_abs g j \<noteq> None \<longrightarrow> dfg_abs g1 j = dfg_abs g j" by blast
  have "\<forall>j \<in> set ks. dfg_abs g1 j \<noteq> None" using g1(4) Cons.prems(3,4) by (metis distinct.simps(2) list.set_intros(2))
  from Cons.IH[OF g1(2,3) _ this] Cons.prems(3) show ?case using g1(1) by simp
qed simp

lemma insertPass_ok:
  assumes g: "good a g" and po: "pass_ok E a" and vl: "vio_list g m" and ed: "dfg_abs g j \<noteq> None"
  shows "\<exists>b g' l. insertPassDfgNodes (en_sort_vio E) (en_ops E) g a new_DFG m = Some (b, g', m\<lparr>mp_vioDfgEdges := l\<rparr>) \<and>
    mset l = mset (mp_vioDfgEdges m) \<and> (b \<longrightarrow> good a g')"
proof -
  let ?avail = "ag_numGpeNodes a - (int (length (df_nodes g)) - int (length (df_ioNodes g)))"
  have wf: "om_wf (df_nodes g)" "om_wf (df_edges g)" using g by (auto simp: good_def dfg_sound_def dfg_wf_def)
  have copy: "dfg_assign new_DFG g = Some g"
    using assign_copy[OF wf] g unfolding good_def node_good_def by blast
  obtain n0 where n0: "om_has (df_nodes g) n0" using g unfolding good_def by blast
  obtain mN nv where mN: "om_last (df_nodes g) = Some (mN, nv)" "\<And>i. om_has (df_nodes g) i \<Longrightarrow> i \<le> mN"
    using om_last_bound[OF wf(1) n0] by blast
  have ej: "om_has (df_edges g) j" using ed by (auto simp: dfg_abs_def om_has_iff)
  obtain mE ev where mE: "om_last (df_edges g) = Some (mE, ev)" "\<And>i. om_has (df_edges g) i \<Longrightarrow> i \<le> mE"
    using om_last_bound[OF wf(2) ej] by blast
  have bd: "bounded_ids g mN mE" using mN(2) mE(2) by (auto simp: bounded_ids_def dfg_abs_def om_has_iff)
  define l where "l = (if ?avail < int (length (mp_vioDfgEdges m))
    then en_sort_vio E (map (\<lambda>k. (k, ea_vio (deattr m k))) (mp_vioDfgEdges m)) else mp_vioDfgEdges m)"
  have l: "mset l = mset (mp_vioDfgEdges m)"
  proof -
    have "mset (en_sort_vio E x) = mset (map fst x)" for x using po unfolding pass_ok_def by blast
    then have "mset (en_sort_vio E (map (\<lambda>k. (k, f k)) xs)) = mset xs" for f :: "int \<Rightarrow> int" and xs
      by (simp add: comp_def del: mset_map)
    then show ?thesis by (simp add: l_def)
  qed
  then have dl: "distinct l" "set l = set (mp_vioDfgEdges m)"
    using vl by (metis mset_eq_imp_distinct_iff vio_list_def, metis mset_eq_setD)
  have "\<exists>g' x y. mfold (insert_pass (en_ops E)) (g, mN, mE) (take n l) = Some (g', x, y) \<and> good a g'" for n
    by (rule insert_passes[OF po g bd]) (use dl vl set_take_subset in \<open>fastforce simp: vio_list_def\<close>)+
  then obtain g' x y where run: "mfold (insert_pass (en_ops E)) (g, mN, mE) (take (nat ?avail) l) = Some (g', x, y)" "good a g'"
    by blast
  have m': "(if ?avail < int (length (mp_vioDfgEdges m))
      then m\<lparr>mp_vioDfgEdges := en_sort_vio E (map (\<lambda>k. (k, ea_vio (deattr m k))) (mp_vioDfgEdges m))\<rparr> else m) = m\<lparr>mp_vioDfgEdges := l\<rparr>"
    by (simp add: l_def)
  show ?thesis
  proof (cases "?avail \<le> 0")
    case True
    then show ?thesis by (intro exI[of _ False] exI[of _ new_DFG] exI[of _ "mp_vioDfgEdges m"]) (simp add: insertPassDfgNodes_def Let_def)
  next
    case False
    then show ?thesis
      using copy mN(1) mE(1) run l unfolding insertPassDfgNodes_def Let_def m'
      by (intro exI[of _ True] exI[of _ g'] exI[of _ l]) simp
  qed
qed

section \<open>Loading a DFG\<close>

definition staged :: "top_adg \<Rightarrow> dfg \<Rightarrow> bool" where
  "staged a g \<longleftrightarrow> good a g \<and> topo_ok g \<and> set (df_topoNodes g) = {n. om_has (df_nodes g) n}"

lemma good_topo [simp]: "good a (g\<lparr>df_topoNodes := t\<rparr>) = good a g"
proof -
  let ?g = "g\<lparr>df_topoNodes := t\<rparr>"
  have v: "in_edge ?g = in_edge g" "in_src ?g = in_src g" "out_edges ?g = out_edges g" "out_dsts ?g = out_dsts g"
    "has_node ?g = has_node g" "dfg_abs ?g = dfg_abs g" "dfg_node ?g = dfg_node g"
    by (simp_all add: dfg_views dfg_node_def fun_eq_iff)
  have "dfg_wf ?g = dfg_wf g" unfolding dfg_wf_def v by simp
  moreover have "dfg_dep ?g = dfg_dep g" "in_ports ?g = in_ports g" "is_out_node ?g = is_out_node g" "nodes_ok ?g = nodes_ok g"
    by (simp_all add: dfg_dep_def in_ports_def is_out_node_def nodes_ok_def v fun_eq_iff)
  ultimately show ?thesis unfolding good_def dfg_sound_def alive_def node_good_def v by simp
qed

lemma topoSort_good:
  assumes g: "good a g"
  shows "\<exists>t. dfg_topoSortNodes g = Some (g\<lparr>df_topoNodes := t\<rparr>) \<and> staged a (g\<lparr>df_topoNodes := t\<rparr>)"
proof -
  have sound: "dfg_sound g" and io: "\<forall>n \<in> set (df_ioNodes g). om_has (df_nodes g) n" using g by (simp_all add: good_def)
  note cl = dfg_closed_sound[OF sound]
  obtain g' where run: "dfg_topoSortNodes g = Some g'" using topoSort_total[OF cl io] by blast
  have pos: "\<forall>n nd. dfg_node g n = Some nd \<longrightarrow> 0 \<le> dn_opLatency nd" using g unfolding good_def node_good_def by blast
  have wf: "dfg_wf g" and ac: "acyclic (dfg_dep g)" and al: "alive g" using g by (simp_all add: good_def dfg_sound_def)
  note ok = topoSort_ok[OF run cl ac wf dfg_mappable_sound[OF sound] pos al[unfolded alive_def]]
  have "good a (g\<lparr>df_topoNodes := df_topoNodes g'\<rparr>)" using g by simp
  then have "good a g'" by (subst ok(1))
  moreover have "df_nodes g' = df_nodes g" by (subst ok(1)) simp
  ultimately have "staged a g'" using ok(2,3) by (simp add: staged_def)
  then show ?thesis using run ok(1) by metis
qed

lemma staged_parts:
  assumes "staged a g" "arch_ok a"
  shows "pnr_input a g" "topo_ok g" "df_topoNodes g \<noteq> []" "\<And>n. n \<in> set (df_topoNodes g) \<longleftrightarrow> om_has (df_nodes g) n" "good a g"
proof -
  have g: "good a g" "dfg_sound g" using assms by (simp_all add: staged_def good_def)
  then show "pnr_input a g"
    using assms(2) hosts_good dfg_mappable_sound ends_ok_sound by (auto simp: pnr_input_def arch_ok_def dfg_sound_def)
  show "topo_ok g" "\<And>n. n \<in> set (df_topoNodes g) \<longleftrightarrow> om_has (df_nodes g) n" "good a g"
    using assms by (auto simp: staged_def)
  obtain n where "om_has (df_nodes g) n" using g unfolding good_def by blast
  then show "df_topoNodes g \<noteq> []" using assms by (auto simp: staged_def)
qed

lemma initOpLeft_ok:
  assumes "arch_ok a" "om_wf (df_nodes g)"
  shows "\<exists>t. initOpLeft a g = Some t \<and> left_ok g t"
proof -
  let ?t = "foldl left_dfg [] (df_nodes g)"
  have mono: "om_has t x \<Longrightarrow> om_has (foldl left_dfg t xs) x" for t xs x
    by (induction xs arbitrary: t) (auto simp: left_dfg_def Let_def split: option.splits)
  have "(k, nd) \<in> set xs \<Longrightarrow> om_has (foldl left_dfg t xs) (dn_operation nd)" for t xs k nd
  proof (induction xs arbitrary: t)
    case (Cons y ys)
    have "om_has (left_dfg t (k, nd)) (dn_operation nd)" by (auto simp: left_dfg_def Let_def split: option.splits)
    then show ?case using Cons mono by auto
  qed simp
  then have start: "left_ok g ?t" using om_get_mem[OF assms(2)] unfolding left_ok_def dfg_node_def by blast
  show ?thesis
    unfolding initOpLeft_def
  proof (rule mfold_total)
    fix x t assume x: "x \<in> set (ag_nodes a)" and t: "left_ok g t"
    obtain k n where kn: "x = (k, n)" by (cases x)
    have "adg_node a k = Some n" using x kn om_get_mem[of "ag_nodes a" k n] assms(1) by (simp add: adg_node_def arch_ok_def)
    then have "is_fu n \<or> is_gib n" using assms(1) by (auto simp: arch_ok_def adg_ok_def anode_ok_def)
    then show "\<exists>v. (case x of (k, n) \<Rightarrow> if is_gib n then Some t
        else do { fu \<leftarrow> as_fu n; Some (foldl (left_adg_op 1) t (an_operations fu)) }) = Some v \<and> left_ok g v"
      using t kn by (auto simp: as_fu_def left_ok_def left_adg_ops_keys)
  qed (rule start)
qed

lemma setDFG_ok:
  assumes g: "good a g" and ar: "arch_ok a"
  shows "\<exists>s'. setDFG a g b s = Some s' \<and> staged a (mr_dfg s') \<and> mr_mapping s' = (mr_dfg s', new_Mapping) \<and>
    mr_placeOrder s' = df_topoNodes (mr_dfg s') \<and> left_ok (mr_dfg s') (mr_opLeft s')"
proof -
  obtain t where t: "dfg_topoSortNodes g = Some (g\<lparr>df_topoNodes := t\<rparr>)" "staged a (g\<lparr>df_topoNodes := t\<rparr>)"
    using topoSort_good[OF g] by blast
  let ?g = "g\<lparr>df_topoNodes := t\<rparr>"
  have "om_wf (df_nodes ?g)" using g by (simp add: good_def dfg_sound_def dfg_wf_def)
  from initOpLeft_ok[OF ar this] obtain l where l: "initOpLeft a ?g = Some l" "left_ok ?g l" by blast
  show ?thesis
    using t l by (auto simp: setDFG_def initializeDfg_def Let_def initOpLeftDfgAdgNum_def setDfgModified_def sortDfgNodeInPlaceOrder_def)
qed

end
