(* ===== verification/SaLoop.thy ===== *)
theory SaLoop
  imports PassInsert
begin

text \<open>
  The annealing loop \<open>pnrSync\<close> as a whole: whatever the random numbers, the clock and the
  rounding are, it returns, every mapping it holds satisfies the invariant of its DFG, and a
  reported success leaves a complete, legally routed and synchronised mapping.
\<close>

section \<open>States of the loop\<close>

definition mapped_in_sync :: "top_adg \<Rightarrow> dfg \<Rightarrow> mapping \<Rightarrow> bool" where
  "mapped_in_sync a g m \<longleftrightarrow> map_success g m \<and> capable g a m \<and> (\<forall>k e. dfg_edge g k = Some e \<longrightarrow>
     (\<exists>A B. mappedAdg m (ge_srcId e) = Some A \<and> mappedAdg m (ge_dstId e) = Some B \<and> A \<noteq> B \<and> route_ok g a e A B (links m k)) \<and>
     (\<exists>fu d. mapped_fu a m (ge_dstId e) = Some fu \<and> om_get (delays m (gn_id fu)) (ge_dstPortIdx e) = Some d \<and>
        lat m (ge_srcId e) + rlat m k + d = lat m (ge_dstId e) - opl g (ge_dstId e)))"

text \<open>The mapper between two calls.\<close>

definition sa_ready :: "top_adg \<Rightarrow> mapperSA \<Rightarrow> bool" where
  "sa_ready a s \<longleftrightarrow> staged a (mr_dfg s) \<and> fst (mr_mapping s) = mr_dfg s \<and> lay a (mr_dfg s) (snd (mr_mapping s)) \<and>
     mr_placeOrder s = df_topoNodes (mr_dfg s) \<and> left_ok (mr_dfg s) (mr_opLeft s)"

text \<open>The state inside the loop; \<open>Z\<close> bounds the DFGs it may come to.\<close>

definition loop_ok :: "top_adg \<Rightarrow> dfg set \<Rightarrow> mapperSA \<times> sync \<Rightarrow> bool" where
  "loop_ok a Z sy \<longleftrightarrow> (case sy of (s, y) \<Rightarrow> sa_ready a s \<and> mr_dfg s \<in> Z \<and> fst (sy_cur y) = mr_dfg s \<and> fst (sy_last y) = mr_dfg s \<and>
     lay a (mr_dfg s) (snd (sy_cur y)) \<and> lay a (mr_dfg s) (snd (sy_last y)) \<and> vio_list (mr_dfg s) (snd (sy_last y)) \<and>
     (sy_update y \<longrightarrow> vio_list (mr_dfg s) (snd (mr_mapping s))) \<and> sy_succeed y = 0)"

text \<open>What every iteration leaves when it ends the loop.\<close>

definition done_ok :: "top_adg \<Rightarrow> dfg set \<Rightarrow> mapperSA \<times> sync \<Rightarrow> bool" where
  "done_ok a Z sy \<longleftrightarrow> sa_ready a (fst sy) \<and> mr_dfg (fst sy) \<in> Z \<and> sy_succeed (snd sy) \<in> {-1, 0, 1} \<and>
     (sy_succeed (snd sy) = 1 \<longrightarrow> mapped_in_sync a (mr_dfg (fst sy)) (snd (mr_mapping (fst sy))))"

lemma loop_done: "loop_ok a Z sy \<Longrightarrow> done_ok a Z sy"
  by (cases sy) (auto simp: loop_ok_def done_ok_def)

lemma sa_ready_frame:
  assumes "sa_ready a s" "frame s s'" "left_ok (mr_dfg s) (mr_opLeft s')"
  shows "sa_ready a s'"
  using assms by (simp add: sa_ready_def frame_views)

lemma loop_ok_frame:
  assumes "loop_ok a Z (s, y)" "frame s s'" "left_ok (mr_dfg s) (mr_opLeft s')"
  shows "loop_ok a Z (s', y)"
  using assms sa_ready_frame[OF _ assms(2,3)] by (simp add: loop_ok_def frame_views)

lemma map_inv_reset: "map_inv g a (map_reset m)"
proof (rule map_inv_layout[OF _ map_inv_new])
  show "same_layout new_Mapping (map_reset m)" by (simp add: same_layout_def map_reset_def new_Mapping_def mappedAdg_def fun_eq_iff)
qed

lemma lay_fresh [simp]: "lay a g new_Mapping" "lay a g (map_reset m)" "vio_list g new_Mapping" "vio_list g (map_reset m)"
  using map_inv_new map_inv_reset by (simp_all add: new_Mapping_def map_reset_def vio_list_def capable_def mappedAdg_def)

lemma map_inv_vios: "map_inv g a m \<Longrightarrow> map_inv g a (m\<lparr>mp_vioDfgEdges := l\<rparr>)"
    "capable g a (m\<lparr>mp_vioDfgEdges := l\<rparr>) = capable g a m"
proof -
  have loc: "mappedAdg (m\<lparr>mp_vioDfgEdges := l\<rparr>) = mappedAdg m" by (simp add: mappedAdg_def fun_eq_iff)
  show "map_inv g a m \<Longrightarrow> map_inv g a (m\<lparr>mp_vioDfgEdges := l\<rparr>)"
    by (rule map_inv_layout[of m]) (simp_all add: same_layout_def loc)
  show "capable g a (m\<lparr>mp_vioDfgEdges := l\<rparr>) = capable g a m" by (rule capable_same[OF loc])
qed

section \<open>A scheduled mapping\<close>

lemma placed_sched_input:
  assumes st: "staged a g" and ar: "arch_ok a" and m: "lay a g m" and all: "\<forall>n \<in> set (df_topoNodes g). mappedAdg m n \<noteq> None"
  shows "sched_input g a m"
proof -
  note sp = staged_parts[OF st ar]
  show ?thesis
    using sp(2,3) pnr_parts[OF sp(1)] ar m all by (simp add: sched_input_def arch_ok_def)
qed

lemma scheduled_ok:
  assumes st: "staged a g" and ar: "arch_ok a" and m: "lay a g m" and all: "\<forall>n \<in> set (df_topoNodes g). mappedAdg m n \<noteq> None"
  shows "\<exists>m'. latencySchedule g a junk m = Some m' \<and> lay a g m' \<and> vio_list g m' \<and>
    (mp_totalViolation m' * numVioEdges m' = 0 \<longrightarrow> mapped_in_sync a g m') \<and>
    (mp_totalViolation m' * numVioEdges m' \<noteq> 0 \<longrightarrow> (\<exists>j. dfg_abs g j \<noteq> None))"
proof -
  note sp = staged_parts[OF st ar] and si = placed_sched_input[OF assms]
  obtain m' where run: "latencySchedule g a junk m = Some m'" using latencySchedule_ok[OF si] by blast
  have sl: "same_layout m m'" by (rule layout_latencySchedule[OF _ run]) (use m in simp)
  have mi: "lay a g m'" using map_inv_layout[OF sl] sl m capable_same[of m' m] by (simp add: same_layout_def)
  have vi: "distinct (mp_vioDfgEdges m')" "set (mp_vioDfgEdges m') \<subseteq> topo_edges g (set (df_topoNodes g))"
    "mp_totalViolation m' = (\<Sum>k \<leftarrow> mp_vioDfgEdges m'. vio m' k)"
    using latencySchedule_run(3)[OF si run] unfolding vio_inv_def by auto
  have vl: "vio_list g m'" using vi(1,2) by (auto simp: vio_list_def topo_edges_def dfg_edge_def dfg_abs_def)
  have loc: "mappedAdg m' = mappedAdg m" using sl by (simp add: same_layout_def)
  have sync: "mapped_in_sync a g m'" if z: "mp_totalViolation m' * numVioEdges m' = 0"
  proof -
    have tot: "mp_totalViolation m' = 0" using z vi(3) by (auto simp: numVioEdges_def)
    have "om_wf (df_nodes g)" using pnr_parts(7)[OF sp(1)] .
    moreover have "placed m' \<subseteq> fst ` set (df_nodes g)" using mi by (auto simp: map_inv_def placed_def om_has_set)
    ultimately have su: "map_success g m'"
      using map_success_iff[of m' g] mi all sp(4) by (simp add: map_inv_def isMappedDfg_iff loc)
    show ?thesis
      unfolding mapped_in_sync_def
    proof (intro conjI allI impI su)
      show "capable g a m'" using mi by simp
      fix k e assume e: "dfg_edge g k = Some e"
      then have d: "ge_dstId e \<in> set (df_topoNodes g)" using pnr_parts(4)[OF sp(1)] sp(4) unfolding dfg_mappable_def by blast
      have ne: "ge_srcId e \<noteq> ge_dstId e" using topo_in[OF sp(2) e d] by auto
      show "\<exists>A B. mappedAdg m' (ge_srcId e) = Some A \<and> mappedAdg m' (ge_dstId e) = Some B \<and> A \<noteq> B \<and> route_ok g a e A B (links m' k)"
        using success_routed[OF pnr_parts(3,4)[OF sp(1)] _ su e ne] mi by blast
      show "\<exists>fu d. mapped_fu a m' (ge_dstId e) = Some fu \<and> om_get (delays m' (gn_id fu)) (ge_dstPortIdx e) = Some d \<and>
          lat m' (ge_srcId e) + rlat m' k + d = lat m' (ge_dstId e) - opl g (ge_dstId e)"
        using no_violation_sync[OF si run tot e d] mapped_fu_cong[OF loc] by metis
    qed
  qed
  have "\<exists>j. dfg_abs g j \<noteq> None" if "mp_totalViolation m' * numVioEdges m' \<noteq> 0"
  proof -
    have "mp_vioDfgEdges m' \<noteq> []" using that by (auto simp: numVioEdges_def)
    then show ?thesis using vl by (metis last_in_set vio_list_def)
  qed
  then show ?thesis using run mi vl sync by blast
qed

section \<open>One iteration\<close>

lemma judge_ok:
  assumes lo: "loop_ok a Z (s, y)" and vl: "vio_list (mr_dfg s) (snd (sy_cur y))" and r: "sync_judge E iter newVio (s, y) = (s', y')"
  shows "loop_ok a Z (s', y')" "mr_dfg s' = mr_dfg s" "vio_list (mr_dfg s) (snd (sy_cur y'))"
proof -
  obtain acc s1 where m: "metropolis E (fp_int (en_fp E) (newVio - sy_oldVio y)) (fp_int (en_fp E) (sy_temp y)) s = (acc, s1)" by fastforce
  have s1: "s1 = s \<or> s1 = s\<lparr>sa_tick := Suc (sa_tick s)\<rparr>" using m by (auto simp: metropolis_def Let_def split: if_splits)
  then have lo1: "loop_ok a Z (s1, y)" "mr_dfg s1 = mr_dfg s" using lo by (auto simp: loop_ok_def sa_ready_def)
  show "loop_ok a Z (s', y')" "mr_dfg s' = mr_dfg s" "vio_list (mr_dfg s) (snd (sy_cur y'))"
    using r m lo1 vl
    by (auto simp: sync_judge_def Let_def loop_ok_def sa_ready_def split: if_splits)
qed

lemma stuck_ok:
  assumes E: "env_ok E" "arch_ok a" "pass_ok E a" and Z: "modifyDfg \<Longrightarrow> Z = UNIV" and lo: "loop_ok a Z (s, y)" and ed: "dfg_abs (mr_dfg s) j \<noteq> None"
  shows "\<exists>f sy'. sync_stuck E a restartIters initTemp modifyDfg iter (s, y) = Some (f, sy') \<and>
    (if f = Cont then loop_ok a Z sy' else done_ok a Z sy')"
proof -
  consider "sy_restart y < restartIters" | "\<not> sy_restart y < restartIters" "\<not> modifyDfg"
    | "\<not> sy_restart y < restartIters" modifyDfg by blast
  then show ?thesis
  proof cases
    case 1
    then show ?thesis using lo by (simp add: sync_stuck_def Let_def loop_ok_def sy_restarted_def)
  next
    case 2
    have "loop_ok a Z (s, y\<lparr>sy_restart := 0\<rparr>)" using lo by (simp add: loop_ok_def)
    then show ?thesis using 2 loop_done by (simp add: sync_stuck_def Let_def)
  next
    case 3
    let ?g = "mr_dfg s" and ?y = "y\<lparr>sy_restart := 0\<rparr>"
    let ?c = "if sy_update y then mr_mapping s else sy_last y"
    have st: "staged a ?g" and c: "fst ?c = ?g" "lay a ?g (snd ?c)" "vio_list ?g (snd ?c)"
      using lo by (auto simp: loop_ok_def sa_ready_def)
    have gd: "good a ?g" using st by (simp add: staged_def)
    from insertPass_ok[OF gd E(3) c(3) ed] obtain b g' l where
      ins: "insertPassDfgNodes (en_sort_vio E) (en_ops E) ?g a new_DFG (snd ?c) = Some (b, g', (snd ?c)\<lparr>mp_vioDfgEdges := l\<rparr>)"
        "b \<longrightarrow> good a g'" by blast
    define m' where "m' = (snd ?c)\<lparr>mp_vioDfgEdges := l\<rparr>"
    define s1 where "s1 = (if sy_update y then s\<lparr>mr_mapping := (?g, m')\<rparr> else s)"
    define y1 where "y1 = (if sy_update y then ?y else ?y\<lparr>sy_last := (?g, m')\<rparr>)"
    have cg: "?c = (?g, snd ?c)" using c(1) by (metis prod.collapse)
    have run: "sync_stuck E a restartIters initTemp modifyDfg iter (s, y) =
        (if \<not> b then Some (Brk, s1, y1\<lparr>sy_succeed := -1\<rparr>)
         else do { s2 \<leftarrow> setDFG a g' True s1;
            Some (Cont, s2, sy_restarted initTemp iter (y1\<lparr>sy_cur := (mr_dfg s2, new_Mapping), sy_last := (mr_dfg s2, new_Mapping)\<rparr>)) })"
      using 3 ins(1) cg unfolding sync_stuck_def s1_def y1_def m'_def
      by (cases "sy_update y") (auto simp: Let_def split: prod.splits)
    have rdy: "sa_ready a s1" "mr_dfg s1 \<in> Z" using lo c(2) map_inv_vios unfolding s1_def m'_def by (auto simp: loop_ok_def sa_ready_def)
    have suc: "sy_succeed y1 = 0" using lo by (simp add: y1_def loop_ok_def)
    show ?thesis
    proof (cases b)
      case True
      from setDFG_ok[OF _ E(2), of g' True s1] ins(2) True obtain s2 where
        s2: "setDFG a g' True s1 = Some s2" "staged a (mr_dfg s2)" "mr_mapping s2 = (mr_dfg s2, new_Mapping)"
          "mr_placeOrder s2 = df_topoNodes (mr_dfg s2)" "left_ok (mr_dfg s2) (mr_opLeft s2)" by blast
      then show ?thesis using True run suc Z 3 by (simp add: loop_ok_def sa_ready_def sy_restarted_def)
    next
      case False
      then show ?thesis using run rdy by (simp add: done_ok_def)
    qed
  qed
qed

lemma place_route_ok:
  assumes E: "env_ok E" "arch_ok a" and rdy: "sa_ready a s" and m: "lay a (mr_dfg s) m"
  shows "\<exists>ok s' m'. do { (s1, m1) \<leftarrow> unmapSA E a (mr_dfg s) temp (s, m); incrPnR E a (mr_dfg s) (s1, m1) } = Some (ok, s', m') \<and>
    frame s s' \<and> left_ok (mr_dfg s) (mr_opLeft s') \<and> lay a (mr_dfg s) m' \<and>
    (ok \<longrightarrow> (\<forall>n \<in> set (df_topoNodes (mr_dfg s)). mappedAdg m' n \<noteq> None))"
proof -
  let ?g = "mr_dfg s"
  have st: "staged a ?g" and l: "left_ok ?g (mr_opLeft s)" and po: "mr_placeOrder s = df_topoNodes ?g"
    using rdy by (simp_all add: sa_ready_def)
  note sp = staged_parts[OF st E(2)]
  from unmapSA_ok[OF sp(1) m l] obtain s1 m1 where
    s1: "unmapSA E a ?g temp (s, m) = Some (s1, m1)" "lay a ?g m1" "left_ok ?g (mr_opLeft s1)" "frame s s1" by blast
  have ns: "\<forall>n \<in> set (df_topoNodes ?g). om_has (df_nodes ?g) n" using sp(4) by blast
  from incr_from_ok[OF sp(1) E(1) s1(2,3) ns] obtain ok s2 m2 where
    s2: "incr_from E a ?g (df_topoNodes ?g) (s1, m1) = Some (ok, s2, m2)" "lay a ?g m2" "left_ok ?g (mr_opLeft s2)" "frame s1 s2"
      "ok \<longrightarrow> (\<forall>n \<in> set (df_topoNodes ?g). mappedAdg m2 n \<noteq> None)" by blast
  show ?thesis
    using s1(1) s2 po frame_views(3)[OF s1(4)] frame_trans[OF s1(4) s2(4)] by (auto simp: incrPnR_def)
qed

lemma iter_ok:
  assumes E: "env_ok E" "arch_ok a" "pass_ok E a" and Z: "modifyDfg \<Longrightarrow> Z = UNIV" and lo: "loop_ok a Z (s, y)"
  shows "\<exists>f sy'. sync_iter E a maxNoImprv restartIters initTemp modifyDfg iter (s, y) = Some (f, sy') \<and>
    (if f = Cont then loop_ok a Z sy' else done_ok a Z sy')"
proof -
  let ?s = "s\<lparr>sa_tick := Suc (sa_tick s)\<rparr>" and ?g = "mr_dfg s"
  have lo1: "loop_ok a Z (?s, y)" using lo by (simp add: loop_ok_def sa_ready_def)
  have g: "mr_dfg ?s = ?g" "fst (sy_cur y) = ?g" and rdy: "sa_ready a ?s" and m: "lay a (mr_dfg ?s) (snd (sy_cur y))"
    using lo1 by (simp_all add: loop_ok_def)
  from place_route_ok[OF E(1,2) rdy m, of "sy_temp y"] obtain s1 m1 ok s2 m2 where
    pr: "unmapSA E a ?g (sy_temp y) (?s, snd (sy_cur y)) = Some (s1, m1)" "incrPnR E a ?g (s1, m1) = Some (ok, s2, m2)"
      "frame ?s s2" "left_ok ?g (mr_opLeft s2)" "lay a ?g m2" "ok \<longrightarrow> (\<forall>n \<in> set (df_topoNodes ?g). mappedAdg m2 n \<noteq> None)"
    unfolding g by (auto split: bind_splits)
  have lo2: "loop_ok a Z (s2, y)" by (rule loop_ok_frame[OF lo1 pr(3)]) (use pr(4) in simp)
  have g2: "mr_dfg s2 = ?g" using frame_views(2)[OF pr(3)] by simp
  consider "en_late E (sa_tick s)" | "\<not> en_late E (sa_tick s)" "\<not> ok" | "\<not> en_late E (sa_tick s)" ok by blast
  then show ?thesis
  proof cases
    case 1
    then show ?thesis using loop_done[OF lo1] by (simp add: sync_iter_def Let_def)
  next
    case 2
    have "loop_ok a Z (s2, y\<lparr>sy_cur := (?g, m2)\<rparr>)" using lo2 pr(5) g2 by (simp add: loop_ok_def)
    then show ?thesis using 2 pr(1,2) g(2) by (simp add: sync_iter_def Let_def)
  next
    case 3
    have st: "staged a ?g" using rdy by (simp add: sa_ready_def)
    from scheduled_ok[OF st E(2) pr(5), of "en_junk E (sa_tick s2)"] pr(6) 3 obtain m3 where
      m3: "latencySchedule ?g a (en_junk E (sa_tick s2)) m2 = Some m3" "lay a ?g m3" "vio_list ?g m3"
        "mp_totalViolation m3 * numVioEdges m3 = 0 \<longrightarrow> mapped_in_sync a ?g m3"
        "mp_totalViolation m3 * numVioEdges m3 \<noteq> 0 \<longrightarrow> (\<exists>j. dfg_abs ?g j \<noteq> None)" by blast
    let ?y = "y\<lparr>sy_cur := (?g, m3)\<rparr>" and ?vio = "mp_totalViolation m3 * numVioEdges m3"
    have lo3: "loop_ok a Z (s2, ?y)" using lo2 m3(2) g2 by (simp add: loop_ok_def)
    obtain s4 y4 where j: "sync_judge E iter ?vio (s2, ?y) = (s4, y4)" by fastforce
    have run: "sync_iter E a maxNoImprv restartIters initTemp modifyDfg iter (s, y) =
        (if ?vio = 0 then Some (Brk, s2\<lparr>mr_mapping := (?g, m3)\<rparr>, ?y\<lparr>sy_succeed := 1\<rparr>)
         else if iter - sy_lastImprv y4 > maxNoImprv then sync_stuck E a restartIters initTemp modifyDfg iter (s4, y4)
         else Some (Cont, s4, y4))"
      using 3 pr(1,2) g(2) m3(1) j by (simp add: sync_iter_def Let_def)
    have "done_ok a Z (s2\<lparr>mr_mapping := (?g, m3)\<rparr>, ?y\<lparr>sy_succeed := 1\<rparr>)" if "?vio = 0"
      using that m3(2,4) lo2 g2 by (simp add: done_ok_def loop_ok_def sa_ready_def)
    moreover have "\<exists>f sy'. sync_stuck E a restartIters initTemp modifyDfg iter (s4, y4) = Some (f, sy') \<and>
        (if f = Cont then loop_ok a Z sy' else done_ok a Z sy')" "loop_ok a Z (s4, y4)" if nz: "?vio \<noteq> 0"
    proof -
      have vl: "vio_list (mr_dfg s2) (snd (sy_cur ?y))" using m3(3) g2 by simp
      note jo = judge_ok[OF lo3 vl j]
      show "loop_ok a Z (s4, y4)" by (rule jo(1))
      obtain i where "dfg_abs (mr_dfg s4) i \<noteq> None" using m3(5) nz jo(2) g2 by auto
      from stuck_ok[OF E Z jo(1) this] show "\<exists>f sy'. sync_stuck E a restartIters initTemp modifyDfg iter (s4, y4) = Some (f, sy') \<and>
        (if f = Cont then loop_ok a Z sy' else done_ok a Z sy')" .
    qed
    ultimately show ?thesis unfolding run by auto
  qed
qed

section \<open>The whole loop\<close>

definition anneal_inv :: "'f sa_env \<Rightarrow> top_adg \<Rightarrow> bool \<Rightarrow> dfg set \<Rightarrow> mapperSA \<times> sync \<Rightarrow> bool" where
  "anneal_inv E a modifyDfg Z sy \<longleftrightarrow> env_ok E \<and> arch_ok a \<and> pass_ok E a \<and> (modifyDfg \<longrightarrow> Z = UNIV) \<and> loop_ok a Z sy"

interpretation anneal: loop_body "sync_iter E a n r t md" "anneal_inv E a md Z" "done_ok a Z" for E a n r t md Z
proof unfold_locales
  fix sy i assume inv: "anneal_inv E a md Z sy"
  obtain s y where sy: "sy = (s, y)" by (cases sy)
  have "\<exists>f sy'. sync_iter E a n r t md i (s, y) = Some (f, sy') \<and> (if f = Cont then loop_ok a Z sy' else done_ok a Z sy')"
    by (rule iter_ok) (use inv sy in \<open>auto simp: anneal_inv_def\<close>)
  then obtain f sy' where "sync_iter E a n r t md i sy = Some (f, sy')" "if f = Cont then loop_ok a Z sy' else done_ok a Z sy'"
    using sy by blast
  then show "\<exists>f sy'. sync_iter E a n r t md i sy = Some (f, sy') \<and> (if f = Cont then anneal_inv E a md Z sy' else done_ok a Z sy')"
    using inv by (intro exI[of _ f] exI[of _ sy']) (simp add: anneal_inv_def)
qed (simp add: anneal_inv_def loop_done)

lemma pnrSync_ok:
  assumes E: "env_ok E" "arch_ok a" "pass_ok E a" and rdy: "sa_ready a s"
  shows "\<exists>r s'. pnrSync E a maxIters restartIters temp modifyDfg s = Some (r, s') \<and> sa_ready a s' \<and> r \<in> {-1, 0, 1} \<and>
    (r = 1 \<longrightarrow> mapped_in_sync a (mr_dfg s') (snd (mr_mapping s'))) \<and> (\<not> modifyDfg \<longrightarrow> mr_dfg s' = mr_dfg s)"
proof -
  let ?g = "fst (mr_mapping s)" and ?F = "\<lambda>n. sync_iter E a n restartIters temp modifyDfg"
  let ?y = "\<lparr>sy_cur = (?g, new_Mapping), sy_last = (?g, new_Mapping), sy_lastImprv = 0, sy_restart = 0, sy_temp = temp,
    sy_oldVio = int_inf, sy_minVio = int_inf, sy_update = False, sy_succeed = 0\<rparr>"
  let ?n = "30 + int (length (df_nodes ?g)) div 5"
  define Z where "Z = (if modifyDfg then UNIV else {mr_dfg s})"
  have lo: "loop_ok a Z (s, ?y)" using rdy by (simp add: loop_ok_def sa_ready_def Z_def)
  have inv: "anneal_inv E a modifyDfg Z (s, ?y)" using E lo by (simp add: anneal_inv_def Z_def)
  obtain sy where sy: "for_break (?F ?n) (iters maxIters) (s, ?y) = Some sy" "done_ok a Z sy"
    using anneal.loop_returns[OF inv] by blast
  obtain s' y' where p: "sy = (s', y')" by (cases sy)
  have "pnrSync E a maxIters restartIters temp modifyDfg s = Some (sy_succeed y', s')"
    using sy(1) p unfolding pnrSync_def Let_def by simp
  then show ?thesis using sy(2) p unfolding done_ok_def Z_def by (auto split: if_splits)
qed

text \<open>C4: The annealing loop is correct: for every order of random numbers, every moment the timeout
  strikes and every rounding, \<open>pnrSync\<close> returns without a failed assertion or a null pointer and
  leaves the mapper ready for the next call, also when it has replaced the DFG by one with PASS
  nodes, which it does only when allowed to; and when it reports success the mapping it leaves
  places every node on a functional unit that has its operation, routes every edge over a legal
  path, and every operand arrives in the cycle in which its consumer starts.\<close>

theorem pnrSync_correct:
  assumes "env_ok E" "arch_ok a" "pass_ok E a" "sa_ready a s"
  shows "\<exists>r s'. pnrSync E a maxIters restartIters temp modifyDfg s = Some (r, s') \<and> sa_ready a s' \<and> r \<in> {-1, 0, 1} \<and>
    (r = 1 \<longrightarrow> mapped_in_sync a (mr_dfg s') (snd (mr_mapping s'))) \<and> (\<not> modifyDfg \<longrightarrow> mr_dfg s' = mr_dfg s)"
  by (rule pnrSync_ok[OF assms])

end
