(* ===== verification/IoScheduler.thy ===== *)
theory IoScheduler
  imports Mapper
begin

text \<open>
  The I/O scheduler (\<open>src/mapper/io_scheduler.cpp\<close>): every input and output of the DFG gets a
  region in a scratchpad bank its I/O block reaches, chosen so that it conflicts as little as
  possible with the two tasks before; what conflict remains becomes a dependence of the load,
  the execution or the configuration command.

  Indices into the vectors of bank states that are out of range fail, as does a division by
  zero and the minimum of an empty vector. \<open>std::sort\<close> is the parameter \<open>srt\<close>: it leaves
  equivalent elements in any order. \<open>std::stable_sort\<close> is \<open>sort_key\<close>.
\<close>

section \<open>State\<close>

record bankStatus =
  bs_iob :: int
  bs_used :: int
  bs_start :: int
  bs_end :: int

record cfgStatus =
  cs_start :: int
  cs_end :: int

record ioInfo =
  ii_addr :: int
  ii_iobAddr :: int
  ii_dep :: int
  ii_isStore :: bool

record scheduler =
  sc_taskId :: int
  sc_cur :: "bankStatus list"
  sc_old :: "bankStatus list"
  sc_older :: "bankStatus list"
  sc_oldCfg :: cfgStatus
  sc_infos :: "(int, ioInfo) omap"
  sc_cfgNum :: int
  sc_cfgLen :: int
  sc_ldCfgDep :: int
  sc_exDep :: int
  sc_iobEns :: "64 word"
  sc_depCost :: int

definition LD_DEP_ST_LAST_TASK :: int where "LD_DEP_ST_LAST_TASK = 1"
definition LD_DEP_EX_LAST_TASK :: int where "LD_DEP_EX_LAST_TASK = 2"
definition LD_DEP_ST_LAST_SEC_TASK :: int where "LD_DEP_ST_LAST_SEC_TASK = 3"
definition EX_DEP_ST_LAST_TASK :: int where "EX_DEP_ST_LAST_TASK = 1"

definition free_bank :: bankStatus where
  "free_bank = \<lparr>bs_iob = 0, bs_used = 0, bs_start = 0, bs_end = 0\<rparr>"

text \<open>\<open>assign(banks, {0, 0, 0, 0})\<close>; a negative count becomes a huge one and throws.\<close>

definition free_banks :: "int \<Rightarrow> bankStatus list option" where
  "free_banks n = (if n < 0 then None else Some (replicate (nat n) free_bank))"

definition new_IOScheduler :: "top_adg \<Rightarrow> scheduler option" where
  "new_IOScheduler a = do {
     bs \<leftarrow> free_banks (ag_numIobNodes a);
     Some \<lparr>sc_taskId = 0, sc_cur = bs, sc_old = bs, sc_older = bs, sc_oldCfg = \<lparr>cs_start = 0, cs_end = 0\<rparr>,
       sc_infos = [], sc_cfgNum = 0, sc_cfgLen = 0, sc_ldCfgDep = 0, sc_exDep = 0, sc_iobEns = 0, sc_depCost = 0\<rparr> }"

definition bank_at :: "bankStatus list \<Rightarrow> int \<Rightarrow> bankStatus option" where
  "bank_at bs b = (if 0 \<le> b \<and> b < int (length bs) then Some (bs ! nat b) else None)"

section \<open>Order of the inputs and outputs\<close>

text \<open>\<open>dynamic_cast<DFGIONode*>(dfg->node(id))\<close>, dereferenced.\<close>

definition io_node :: "dfg \<Rightarrow> int \<Rightarrow> ioAttr option" where
  "io_node g n = do { nd \<leftarrow> dfg_node g n; dn_io nd }"

definition mem_count :: "dfg \<Rightarrow> (string, int) omap option" where
  "mem_count g = mfold (\<lambda>t n. do { io \<leftarrow> io_node g n; Some (count_op t (io_memRefName io)) }) [] (df_ioNodes g)"

definition io_before :: "dfg \<Rightarrow> (string, int) omap \<Rightarrow> int \<Rightarrow> int \<Rightarrow> bool" where
  "io_before g memNum ida idb = (case (io_node g ida, io_node g idb) of
     (Some x, Some y) \<Rightarrow>
       if io_memSize x > io_memSize y then True
       else if io_memSize x = io_memSize y
       then (if om_at 0 memNum (io_memRefName x) < om_at 0 memNum (io_memRefName y) then True
             else om_at 0 memNum (io_memRefName x) = om_at 0 memNum (io_memRefName y) \<and> io_memRefName x < io_memRefName y)
       else False
   | _ \<Rightarrow> False)"

definition sorted_ios :: "((int \<Rightarrow> int \<Rightarrow> bool) \<Rightarrow> int list \<Rightarrow> int list) \<Rightarrow> dfg \<Rightarrow> int oset \<Rightarrow> int list option" where
  "sorted_ios srt g outs = do {
     memNum \<leftarrow> mem_count g;
     Some (sort_key (\<lambda>n. if n \<in> set outs then 1 else 0 :: int) (srt (io_before g memNum) (df_ioNodes g))) }"

section \<open>One bank\<close>

text \<open>The status against the last task (0 free, 1 used but available, 2 not available) and the
  start it offers.\<close>

definition old_avail :: "int \<Rightarrow> bool \<Rightarrow> int \<Rightarrow> bankStatus \<Rightarrow> int \<times> int" where
  "old_avail sizeofBank isStore memSize old =
     (if bs_used old = 0 then (0, 0)
      else if (bs_used old = 1 \<and> \<not> isStore) \<or> (bs_used old = 2 \<and> isStore)
      then (if memSize \<le> sizeofBank - bs_end old then (1, bs_end old)
            else if memSize \<le> bs_start old then (1, 0)
            else (2, 0))
      else if bs_used old = 1 \<and> isStore then (0, 0)
      else (2, 0))"

definition older_avail :: "bool \<Rightarrow> bankStatus \<Rightarrow> int" where
  "older_avail isStore older = (if bs_used older = 2 \<and> \<not> isStore then 2 else 0)"

text \<open>0: both available; 1: old available, older not; 2: older available, old not; 3: neither.\<close>

definition bank_status :: "int \<Rightarrow> bool \<Rightarrow> int \<Rightarrow> bankStatus \<Rightarrow> bankStatus \<Rightarrow> int \<times> int" where
  "bank_status sizeofBank isStore memSize old older =
     (let (oldStatus, oldSelStart) = old_avail sizeofBank isStore memSize old;
          olderStatus = older_avail isStore older in
      if oldStatus < 2 \<and> olderStatus = 0 then (0, oldSelStart)
      else if oldStatus < 2 \<and> olderStatus = 2 then (1, oldSelStart)
      else if oldStatus = 2 \<and> olderStatus = 0 then (2, 0)
      else (3, 0))"

text \<open>The banks in order until one has status 0: that bank, or the status of each.\<close>

fun scan_banks ::
    "scheduler \<Rightarrow> int \<Rightarrow> bool \<Rightarrow> int \<Rightarrow> int list \<Rightarrow> (int \<times> int + (int \<times> int) list) option" where
  "scan_banks sc sizeofBank isStore memSize [] = Some (Inr [])"
| "scan_banks sc sizeofBank isStore memSize (b # bs) = do {
     old \<leftarrow> bank_at (sc_old sc) b;
     older \<leftarrow> bank_at (sc_older sc) b;
     let (status, selStart) = bank_status sizeofBank isStore memSize old older;
     (if status = 0 then Some (Inl (b, selStart))
      else do {
        r \<leftarrow> scan_banks sc sizeofBank isStore memSize bs;
        Some (case r of Inl x \<Rightarrow> Inl x | Inr sts \<Rightarrow> Inr ((status, selStart) # sts)) }) }"

section \<open>Choosing a bank with a dependence\<close>

text \<open>A dependence of one array is paid once, at its greatest cost; each rise is added in full.\<close>

definition raise_cost :: "string \<Rightarrow> int \<Rightarrow> (string, int) omap \<times> int \<Rightarrow> (string, int) omap \<times> int" where
  "raise_cost memName c mc = (case mc of (memDep, cost) \<Rightarrow>
     if \<not> om_has memDep memName \<or> om_at 0 memDep memName < c
     then (om_put memDep memName c, cost + c) else (memDep, cost))"

fun find_status1 :: "int list \<Rightarrow> (int \<times> int) list \<Rightarrow> (int \<times> int) option" where
  "find_status1 (b # bs) ((status, start) # sts) =
     (if status = 1 then Some (b, start) else find_status1 bs sts)"
| "find_status1 bs sts = None"

fun find_old_load :: "scheduler \<Rightarrow> int list \<Rightarrow> (int \<times> int) list \<Rightarrow> (int \<times> int) option" where
  "find_old_load sc (b # bs) ((status, start) # sts) =
     (case bank_at (sc_old sc) b of
        Some old \<Rightarrow> if bs_used old = 1 then Some (b, start) else find_old_load sc bs sts
      | None \<Rightarrow> None)"
| "find_old_load sc bs sts = None"

text \<open>The bank, the start, the dependence and what it costs.\<close>

definition forced_bank ::
    "scheduler \<Rightarrow> bool \<Rightarrow> int \<Rightarrow> int list \<Rightarrow> (int \<times> int) list \<Rightarrow> (int \<times> int \<times> int \<times> int) option" where
  "forced_bank sc isStore inNodeNum availBanks sts =
     (case find_status1 availBanks sts of
        Some (b, start) \<Rightarrow> do {
          older \<leftarrow> bank_at (sc_older sc) b;
          (if \<not> isStore \<and> bs_used older = 2 then Some (b, start, LD_DEP_ST_LAST_SEC_TASK, 1) else None) }
      | None \<Rightarrow>
          (if isStore then Some (hd availBanks, snd (hd sts), EX_DEP_ST_LAST_TASK, 0)
           else case find_old_load sc availBanks sts of
             Some (b, start) \<Rightarrow> Some (b, start, LD_DEP_EX_LAST_TASK, inNodeNum)
           | None \<Rightarrow> Some (hd availBanks, snd (hd sts), LD_DEP_ST_LAST_TASK, inNodeNum * inNodeNum * inNodeNum)))"

section \<open>One input or output\<close>

text \<open>\<open>1 << iobIdx\<close> is a 32-bit \<open>int\<close>, sign-extended to 64 bits; a shift by 32 or more is undefined.\<close>

definition iob_bit :: "int \<Rightarrow> 64 word option" where
  "iob_bit i = (if 0 \<le> i \<and> i < 32 then Some (scast (push_bit (nat i) 1 :: 32 word)) else None)"

definition align_up :: "int \<Rightarrow> int \<Rightarrow> int" where
  "align_up b x = (x + b - 1) sdiv b * b"

definition list_min :: "int list \<Rightarrow> int option" where
  "list_min xs = (if xs = [] then None else Some (Min (set xs)))"

definition mapped_iob :: "top_adg \<Rightarrow> mapping \<Rightarrow> int \<Rightarrow> anode option" where
  "mapped_iob a m n = do {
     k \<leftarrow> mappedAdg m n;
     iob \<leftarrow> adg_node a k;
     (if gn_type iob = ''IOB'' then Some iob else None) }"

definition avail_banks :: "scheduler \<Rightarrow> int list \<Rightarrow> int list option" where
  "avail_banks sc banks =
     mfold (\<lambda>av b. do { cur \<leftarrow> bank_at (sc_cur sc) b; Some (if bs_used cur = 0 then av @ [b] else av) }) [] banks"

definition take_bank :: "top_adg \<Rightarrow> int \<Rightarrow> int \<Rightarrow> int \<Rightarrow> bool \<Rightarrow> int \<Rightarrow> int \<Rightarrow> int \<Rightarrow> int \<Rightarrow> scheduler \<Rightarrow> scheduler" where
  "take_bank a ioId iobIdx minBank isStore memSize b start dep sc =
     sc\<lparr>sc_infos := om_put (sc_infos sc) ioId
          \<lparr>ii_addr = b * ag_iobSpadBankSize a + start,
           ii_iobAddr = ((b - minBank) * ag_iobSpadBankSize a + start) sdiv (g_bitWidth a sdiv 8),
           ii_dep = dep, ii_isStore = isStore\<rparr>,
        sc_cur := (sc_cur sc)[nat b := \<lparr>bs_iob = iobIdx, bs_used = (if isStore then 2 else 1),
           bs_start = start, bs_end = start + memSize\<rparr>]\<rparr>"

type_synonym io_state = "scheduler \<times> (string, int) omap"

text \<open>The name and aligned size of the array, the index and first bank of the I/O block, and the banks
  no other node of this DFG has.\<close>

record io_request =
  rq_memName :: string
  rq_memSize :: int
  rq_iobIdx :: int
  rq_minBank :: int
  rq_banks :: "int list"

definition io_prep :: "top_adg \<Rightarrow> dfg \<Rightarrow> mapping \<Rightarrow> scheduler \<Rightarrow> int \<Rightarrow> (io_request \<times> scheduler) option" where
  "io_prep a g m sc ioId = do {
     ionode \<leftarrow> io_node g ioId;
     let spadDataByte = ag_cfgSpadDataWidth a sdiv 8;
     (if spadDataByte = 0 then None else Some ());
     let memSize = align_up spadDataByte (io_memSize ionode);
     iob \<leftarrow> mapped_iob a m ioId;
     let iobIdx = an_index iob;
     bit \<leftarrow> iob_bit iobIdx;
     let banks = om_at [] (ag_iobToSpadBanks a) iobIdx;
     minBank \<leftarrow> list_min banks;
     availBanks \<leftarrow> avail_banks sc banks;
     (if availBanks = [] then None else Some ());
     Some (\<lparr>rq_memName = io_memRefName ionode, rq_memSize = memSize, rq_iobIdx = iobIdx, rq_minBank = minBank,
            rq_banks = availBanks\<rparr>, sc\<lparr>sc_iobEns := Bit_Operations.or (sc_iobEns sc) bit\<rparr>) }"

definition io_place :: "top_adg \<Rightarrow> bool \<Rightarrow> int \<Rightarrow> int \<Rightarrow> io_request \<Rightarrow> io_state \<Rightarrow> io_state option" where
  "io_place a isStore inNodeNum ioId rq st = (case st of (sc, memDep) \<Rightarrow> do {
     let take = take_bank a ioId (rq_iobIdx rq) (rq_minBank rq) isStore (rq_memSize rq);
     r \<leftarrow> scan_banks sc (ag_iobSpadBankSize a) isStore (rq_memSize rq) (rq_banks rq);
     (case r of
        Inl (b, start) \<Rightarrow> Some (take b start 0 sc, memDep)
      | Inr sts \<Rightarrow> do {
          (b, start, dep, c) \<leftarrow> forced_bank sc isStore inNodeNum (rq_banks rq) sts;
          Some (if isStore then (take b start dep (sc\<lparr>sc_exDep := EX_DEP_ST_LAST_TASK\<rparr>), memDep)
                else let (memDep', cost) = raise_cost (rq_memName rq) c (memDep, sc_depCost sc)
                     in (take b start dep (sc\<lparr>sc_depCost := cost\<rparr>), memDep')) }) })"

definition io_step ::
    "top_adg \<Rightarrow> dfg \<Rightarrow> mapping \<Rightarrow> int oset \<Rightarrow> int \<Rightarrow> io_state \<Rightarrow> int \<Rightarrow> io_state option" where
  "io_step a g m outs inNodeNum st ioId = do {
     (rq, sc) \<leftarrow> io_prep a g m (fst st) ioId;
     io_place a (ioId \<in> set outs) inNodeNum ioId rq (sc, snd st) }"

definition ioSchedule ::
    "((int \<Rightarrow> int \<Rightarrow> bool) \<Rightarrow> int list \<Rightarrow> int list) \<Rightarrow> top_adg \<Rightarrow> bmap \<Rightarrow> scheduler \<Rightarrow> scheduler option" where
  "ioSchedule srt a bm sc = (case bm of (g, m) \<Rightarrow> do {
     cur \<leftarrow> free_banks (ag_numIobNodes a);
     let sc1 = sc\<lparr>sc_infos := [], sc_exDep := 0, sc_iobEns := 0, sc_depCost := 0, sc_cur := cur\<rparr>;
     outs \<leftarrow> dfg_getOutNodes g;
     let inNodeNum = int (length (df_ioNodes g)) - int (length outs);
     (if g_bitWidth a sdiv 8 = 0 then None else Some ());
     ios \<leftarrow> sorted_ios srt g outs;
     (sc2, _) \<leftarrow> mfold (io_step a g m outs inNodeNum) (sc1, []) ios;
     Some (if sc_exDep sc2 > 0 then sc2\<lparr>sc_depCost := sc_depCost sc2 + inNodeNum * inNodeNum\<rparr> else sc2) })"

end
