(* ===== verification/IoCorrect.thy ===== *)
theory IoCorrect
  imports IoScheduler DfgTopo "HOL-Library.Multiset"
begin

text \<open>
  What the I/O scheduler promises: every input and output gets a bank of its own that its I/O
  block reaches, a dependence of 0 means there is no conflict with the two tasks before, and
  the assertion that a bank is free cannot fail when every group of I/O blocks has as many
  banks as blocks.
\<close>

section \<open>One bank\<close>

definition bank_wf :: "int \<Rightarrow> bankStatus \<Rightarrow> bool" where
  "bank_wf sz bs \<longleftrightarrow> bs_used bs \<in> {0, 1, 2} \<and> 0 \<le> bs_start bs \<and> bs_start bs \<le> bs_end bs \<and> bs_end bs \<le> sz"

text \<open>No conflict with the last task: the same operation uses other addresses, and a load does not
  read a bank the last task stores to.\<close>

definition no_old_conflict :: "bool \<Rightarrow> int \<Rightarrow> int \<Rightarrow> bankStatus \<Rightarrow> bool" where
  "no_old_conflict isStore start memSize old \<longleftrightarrow>
     (bs_used old = (if isStore then 2 else 1) \<longrightarrow> bs_end old \<le> start \<or> start + memSize \<le> bs_start old) \<and>
     (\<not> isStore \<longrightarrow> bs_used old \<noteq> 2)"

definition no_older_conflict :: "bool \<Rightarrow> bankStatus \<Rightarrow> bool" where
  "no_older_conflict isStore older \<longleftrightarrow> (\<not> isStore \<longrightarrow> bs_used older \<noteq> 2)"

lemma bank_status_ok:
  assumes old: "bank_wf sz old" and r: "bank_status sz isStore memSize old older = (status, start)"
  shows "status = 0 \<or> status = 1 \<Longrightarrow> no_old_conflict isStore start memSize old"
    "status = 0 \<Longrightarrow> no_older_conflict isStore older" "status = 1 \<Longrightarrow> \<not> isStore \<and> bs_used older = 2"
    "0 \<le> start" "memSize \<le> sz \<Longrightarrow> start + memSize \<le> sz"
  using old r
  by (auto simp: bank_status_def old_avail_def older_avail_def Let_def no_old_conflict_def no_older_conflict_def bank_wf_def
      split: if_splits)

lemma scan_ok:
  assumes "\<forall>b \<in> set bs. \<exists>old older. bank_at (sc_old sc) b = Some old \<and> bank_at (sc_older sc) b = Some older"
  shows "\<exists>r. scan_banks sc sz isStore memSize bs = Some r"
  using assms
proof (induction bs)
  case (Cons b bs)
  then obtain old older r where r: "bank_at (sc_old sc) b = Some old" "bank_at (sc_older sc) b = Some older"
    "scan_banks sc sz isStore memSize bs = Some r" by fastforce
  obtain st sel where "bank_status sz isStore memSize old older = (st, sel)" by fastforce
  then show ?case using r by (auto simp: Let_def split: sum.splits)
qed simp

text \<open>What a scan reports of a bank.\<close>

definition seen :: "scheduler \<Rightarrow> int \<Rightarrow> bool \<Rightarrow> int \<Rightarrow> int \<Rightarrow> int \<times> int \<Rightarrow> bool" where
  "seen sc sz isStore memSize b st \<longleftrightarrow> (\<exists>old older. bank_at (sc_old sc) b = Some old \<and> bank_at (sc_older sc) b = Some older \<and>
     bank_status sz isStore memSize old older = st)"

lemma scan_seen:
  "scan_banks sc sz isStore memSize bs = Some r \<Longrightarrow>
   (case r of Inl (b, start) \<Rightarrow> b \<in> set bs \<and> seen sc sz isStore memSize b (0, start)
    | Inr sts \<Rightarrow> list_all2 (seen sc sz isStore memSize) bs sts)"
proof (induction bs arbitrary: r)
  case (Cons b bs)
  then obtain old older st sel where b: "bank_at (sc_old sc) b = Some old" "bank_at (sc_older sc) b = Some older"
    "bank_status sz isStore memSize old older = (st, sel)" by (auto split: bind_splits prod.splits)
  then have sn: "seen sc sz isStore memSize b (st, sel)" by (auto simp: seen_def)
  show ?case
  proof (cases "st = 0")
    case True
    then show ?thesis using Cons.prems b sn by auto
  next
    case False
    then obtain r' where r': "scan_banks sc sz isStore memSize bs = Some r'"
        "r = (case r' of Inl x \<Rightarrow> Inl x | Inr sts \<Rightarrow> Inr ((st, sel) # sts))"
      using Cons.prems b by (auto split: bind_splits)
    then show ?thesis using Cons.IH[OF r'(1)] sn by (auto split: sum.splits)
  qed
qed simp

lemma find_seen:
  assumes "list_all2 (seen sc sz isStore memSize) bs sts"
  shows "find_status1 bs sts = Some (b, start) \<Longrightarrow> b \<in> set bs \<and> seen sc sz isStore memSize b (1, start)"
    "find_old_load sc bs sts = Some (b, start) \<Longrightarrow> b \<in> set bs \<and> (\<exists>st. seen sc sz isStore memSize b (st, start))"
  using assms
  by (induction bs sts rule: list_all2_induct) (auto split: if_splits option.splits)

text \<open>The dependence of a load in bank \<open>b\<close> says what it must wait for: it waits for the execution of the
  last task only where that task loaded data. A store can only wait for the stores of the last task.\<close>

definition honest :: "bankStatus list \<Rightarrow> bool \<Rightarrow> int \<Rightarrow> int \<Rightarrow> bool" where
  "honest olds isStore b dep \<longleftrightarrow> dep = 0 \<or> dep = LD_DEP_ST_LAST_TASK \<or> \<not> isStore \<and> (dep = LD_DEP_ST_LAST_SEC_TASK \<or>
     dep = LD_DEP_EX_LAST_TASK \<and> (\<exists>old. bank_at olds b = Some old \<and> bs_used old = 1))"

lemma find_old_load_used: "find_old_load sc bs sts = Some (b, start) \<Longrightarrow> \<exists>old. bank_at (sc_old sc) b = Some old \<and> bs_used old = 1"
  by (induction sc bs sts rule: find_old_load.induct) (auto split: option.splits if_splits)

lemma forced_seen:
  assumes sn: "list_all2 (seen sc sz isStore memSize) bs sts" and ne: "bs \<noteq> []"
    and r: "forced_bank sc isStore n bs sts = Some (b, start, dep, c)"
  shows "b \<in> set bs \<and> (\<exists>st. seen sc sz isStore memSize b (st, start) \<and> dep \<noteq> 0 \<and> (dep = LD_DEP_ST_LAST_SEC_TASK \<longrightarrow> st = 1)) \<and> honest (sc_old sc) isStore b dep"
proof -
  obtain b0 bs0 st0 s0 sts0 where "bs = b0 # bs0" "sts = (st0, s0) # sts0" "seen sc sz isStore memSize b0 (st0, s0)"
    using sn ne by (cases bs; cases sts) auto
  then have "b \<in> set bs \<and> (\<exists>st. seen sc sz isStore memSize b (st, start) \<and> dep \<noteq> 0 \<and> (dep = LD_DEP_ST_LAST_SEC_TASK \<longrightarrow> st = 1))"
    using r find_seen[OF sn]
    by (fastforce simp: forced_bank_def LD_DEP_ST_LAST_TASK_def LD_DEP_EX_LAST_TASK_def LD_DEP_ST_LAST_SEC_TASK_def
        EX_DEP_ST_LAST_TASK_def split: option.splits bind_splits if_splits)
  moreover have "honest (sc_old sc) isStore b dep"
    using r find_old_load_used[of sc bs sts]
    by (fastforce simp: forced_bank_def honest_def LD_DEP_ST_LAST_TASK_def EX_DEP_ST_LAST_TASK_def split: option.splits bind_splits if_splits)
  ultimately show ?thesis by blast
qed

lemma forced_total:
  assumes sn: "list_all2 (seen sc sz isStore memSize) bs sts" and old: "\<forall>b old. bank_at (sc_old sc) b = Some old \<longrightarrow> bank_wf sz old"
  shows "\<exists>x. forced_bank sc isStore n bs sts = Some x"
proof (cases "find_status1 bs sts")
  case None
  then show ?thesis by (auto simp: forced_bank_def split: option.splits)
next
  case (Some x)
  obtain b start where x: "x = (b, start)" by (cases x)
  obtain o1 o2 where o: "bank_at (sc_old sc) b = Some o1" "bank_at (sc_older sc) b = Some o2" "bank_status sz isStore memSize o1 o2 = (1, start)"
    using find_seen(1)[OF sn, of b start] Some x by (auto simp: seen_def)
  have "\<not> isStore \<and> bs_used o2 = 2" by (rule bank_status_ok(3)[OF _ o(3)]) (use old o(1) in auto)
  then show ?thesis using Some x o by (auto simp: forced_bank_def)
qed

section \<open>The loop over inputs and outputs\<close>

definition io_size :: "top_adg \<Rightarrow> dfg \<Rightarrow> int \<Rightarrow> int" where
  "io_size a g n = (case io_node g n of None \<Rightarrow> 0 | Some io \<Rightarrow> align_up (ag_cfgSpadDataWidth a sdiv 8) (io_memSize io))"

definition io_idx :: "top_adg \<Rightarrow> mapping \<Rightarrow> int \<Rightarrow> int" where
  "io_idx a m n = (case mapped_iob a m n of None \<Rightarrow> 0 | Some iob \<Rightarrow> an_index iob)"

definition io_banks :: "top_adg \<Rightarrow> mapping \<Rightarrow> int \<Rightarrow> int list" where
  "io_banks a m n = om_at [] (ag_iobToSpadBanks a) (io_idx a m n)"

text \<open>Node \<open>n\<close> has its region in bank \<open>b\<close>, described by the scheduler's tables.\<close>

definition region_ok :: "top_adg \<Rightarrow> dfg \<Rightarrow> mapping \<Rightarrow> int oset \<Rightarrow> scheduler \<Rightarrow> int \<Rightarrow> int \<Rightarrow> bool" where
  "region_ok a g m outs sc n b \<longleftrightarrow> b \<in> set (io_banks a m n) \<and>
     (\<exists>info cur old older. om_get (sc_infos sc) n = Some info \<and> bank_at (sc_cur sc) b = Some cur \<and>
        bank_at (sc_old sc) b = Some old \<and> bank_at (sc_older sc) b = Some older \<and>
        ii_isStore info = (n \<in> set outs) \<and> honest (sc_old sc) (n \<in> set outs) b (ii_dep info) \<and> bs_used cur = (if n \<in> set outs then 2 else 1) \<and>
        ii_addr info = b * ag_iobSpadBankSize a + bs_start cur \<and> 0 \<le> bs_start cur \<and>
        bs_end cur = bs_start cur + io_size a g n \<and>
        (io_size a g n \<le> ag_iobSpadBankSize a \<longrightarrow> bs_end cur \<le> ag_iobSpadBankSize a) \<and>
        (ii_dep info = 0 \<longrightarrow> no_older_conflict (n \<in> set outs) older) \<and>
        (ii_dep info = 0 \<or> ii_dep info = LD_DEP_ST_LAST_SEC_TASK \<longrightarrow>
           no_old_conflict (n \<in> set outs) (bs_start cur) (io_size a g n) old))"

definition old_ok :: "top_adg \<Rightarrow> scheduler \<Rightarrow> bool" where
  "old_ok a sc \<longleftrightarrow> length (sc_old sc) = nat (ag_numIobNodes a) \<and> length (sc_older sc) = nat (ag_numIobNodes a) \<and>
     (\<forall>b old. bank_at (sc_old sc) b = Some old \<longrightarrow> bank_wf (ag_iobSpadBankSize a) old)"

lemma free_bank_wf: "0 \<le> sz \<Longrightarrow> bank_wf sz free_bank"
  by (simp add: bank_wf_def free_bank_def)

lemma new_IOScheduler_ok:
  assumes "0 \<le> ag_numIobNodes a" "0 \<le> ag_iobSpadBankSize a"
  shows "\<exists>sc. new_IOScheduler a = Some sc \<and> old_ok a sc"
  using assms free_bank_wf[OF assms(2)]
  by (auto simp: new_IOScheduler_def free_banks_def old_ok_def bank_at_def split: if_splits)

definition io_inv :: "top_adg \<Rightarrow> dfg \<Rightarrow> mapping \<Rightarrow> int oset \<Rightarrow> scheduler \<Rightarrow> int set \<Rightarrow> scheduler \<Rightarrow> bool" where
  "io_inv a g m outs sc0 D sc \<longleftrightarrow> sc_old sc = sc_old sc0 \<and> sc_older sc = sc_older sc0 \<and>
     length (sc_cur sc) = nat (ag_numIobNodes a) \<and> om_wf (sc_infos sc) \<and> (\<forall>n. om_has (sc_infos sc) n \<longleftrightarrow> n \<in> D) \<and>
     (\<forall>b cur. bank_at (sc_cur sc) b = Some cur \<longrightarrow> bs_used cur = 0 \<longrightarrow> cur = free_bank) \<and>
     (\<forall>n info. om_get (sc_infos sc) n = Some info \<longrightarrow> ii_isStore info \<longrightarrow> ii_dep info \<noteq> 0 \<longrightarrow> sc_exDep sc = EX_DEP_ST_LAST_TASK) \<and>
     (\<exists>bk. inj_on bk D \<and> (\<forall>n \<in> D. region_ok a g m outs sc n (bk n)) \<and>
        (\<forall>b cur. bank_at (sc_cur sc) b = Some cur \<longrightarrow> bs_used cur \<noteq> 0 \<longrightarrow> b \<in> bk ` D))"

lemma bank_at_upd:
  "0 \<le> b \<Longrightarrow> bank_at (xs[nat b := x]) c = (if c = b \<and> b < int (length xs) then Some x else bank_at xs c)"
  by (auto simp: bank_at_def nth_list_update nat_eq_iff)

lemma avail_ok:
  assumes "avail_banks sc bs = Some av" "b \<in> set av"
  shows "b \<in> set bs \<and> (\<exists>cur. bank_at (sc_cur sc) b = Some cur \<and> bs_used cur = 0)"
proof -
  have "\<forall>b \<in> set av. b \<in> set bs \<and> (\<exists>cur. bank_at (sc_cur sc) b = Some cur \<and> bs_used cur = 0)"
    using assms(1) unfolding avail_banks_def
    by (rule mfold_inv) (auto split: bind_splits if_splits)
  then show ?thesis using assms(2) by blast
qed

lemma take_bank_inv:
  assumes inv: "io_inv a g m outs sc0 D sc" and n: "n \<notin> D" and b: "b \<in> set (io_banks a m n)"
    and cur: "bank_at (sc_cur sc) b = Some cur" "bs_used cur = 0" and dep: "dep = 0 \<Longrightarrow> st = 0" "dep = LD_DEP_ST_LAST_SEC_TASK \<Longrightarrow> st = 1"
    and ho: "honest (sc_old sc) (n \<in> set outs) b dep" and ex: "n \<in> set outs \<Longrightarrow> dep \<noteq> 0 \<Longrightarrow> sc_exDep sc = EX_DEP_ST_LAST_TASK"
    and sn: "seen sc (ag_iobSpadBankSize a) (n \<in> set outs) (io_size a g n) b (st, start)" and old: "old_ok a sc0"
  shows "io_inv a g m outs sc0 (insert n D) (take_bank a n idx mb (n \<in> set outs) (io_size a g n) b start dep sc)" (is "io_inv _ _ _ _ _ _ ?sc")
proof -
  let ?new = "\<lparr>bs_iob = idx, bs_used = (if n \<in> set outs then 2 else 1), bs_start = start, bs_end = start + io_size a g n\<rparr>"
  obtain bk where bk: "inj_on bk D" "\<forall>k \<in> D. region_ok a g m outs sc k (bk k)"
      "\<forall>b cur. bank_at (sc_cur sc) b = Some cur \<longrightarrow> bs_used cur \<noteq> 0 \<longrightarrow> b \<in> bk ` D"
    using inv unfolding io_inv_def by blast
  have b0: "0 \<le> b" "b < int (length (sc_cur sc))" using cur by (auto simp: bank_at_def split: if_splits)
  have at: "bank_at (sc_cur ?sc) c = (if c = b then Some ?new else bank_at (sc_cur sc) c)" for c
    using b0 by (simp add: take_bank_def bank_at_upd)
  have same: "sc_old ?sc = sc_old sc" "sc_older ?sc = sc_older sc" by (simp_all add: take_bank_def)
  have infos: "om_get (sc_infos ?sc) k = om_get (sc_infos sc) k" if "k \<noteq> n" for k using that by (simp add: take_bank_def)
  have nb: "b \<notin> bk ` D"
  proof
    assume "b \<in> bk ` D"
    then obtain k where k: "k \<in> D" "b = bk k" by blast
    then have "region_ok a g m outs sc k b" using bk(2) by blast
    then show False using cur by (auto simp: region_ok_def split: if_splits)
  qed
  have region: "region_ok a g m outs ?sc n b"
  proof -
    obtain old older where oo: "bank_at (sc_old sc) b = Some old" "bank_at (sc_older sc) b = Some older"
        "bank_status (ag_iobSpadBankSize a) (n \<in> set outs) (io_size a g n) old older = (st, start)"
      using sn by (auto simp: seen_def)
    have wf: "bank_wf (ag_iobSpadBankSize a) old" using old oo(1) inv by (simp add: old_ok_def io_inv_def)
    note bo = bank_status_ok[OF wf oo(3)]
    show ?thesis
      unfolding region_ok_def at same using b oo bo dep ho
      by (auto simp: take_bank_def)
  qed
  have rest: "region_ok a g m outs ?sc k (bk k)" if "k \<in> D" for k
  proof -
    have "bk k \<noteq> b" "k \<noteq> n" using nb n that by blast+
    then show ?thesis using bk(2) that unfolding region_ok_def at same infos[OF \<open>k \<noteq> n\<close>] by auto
  qed
  let ?bk = "bk(n := b)"
  have "inj_on ?bk (insert n D)" using bk(1) nb n by (auto simp: inj_on_def)
  moreover have "\<forall>k \<in> insert n D. region_ok a g m outs ?sc k (?bk k)" using region rest n by auto
  moreover have "\<forall>c cur. bank_at (sc_cur ?sc) c = Some cur \<longrightarrow> bs_used cur \<noteq> 0 \<longrightarrow> c \<in> ?bk ` insert n D"
    unfolding at using bk(3) n by (auto split: if_splits)
  moreover have "length (sc_cur ?sc) = nat (ag_numIobNodes a)" "om_wf (sc_infos ?sc)" "\<forall>k. om_has (sc_infos ?sc) k \<longleftrightarrow> k \<in> insert n D"
    using inv by (auto simp: take_bank_def io_inv_def)
  moreover have "\<forall>c cur. bank_at (sc_cur ?sc) c = Some cur \<longrightarrow> bs_used cur = 0 \<longrightarrow> cur = free_bank"
    using inv unfolding at io_inv_def by (auto split: if_splits)
  moreover have "\<forall>k info. om_get (sc_infos ?sc) k = Some info \<longrightarrow> ii_isStore info \<longrightarrow> ii_dep info \<noteq> 0 \<longrightarrow> sc_exDep ?sc = EX_DEP_ST_LAST_TASK"
    using inv ex by (auto simp: take_bank_def io_inv_def)
  moreover have "sc_old ?sc = sc_old sc0" "sc_older ?sc = sc_older sc0" using inv same by (simp_all add: io_inv_def)
  ultimately show ?thesis unfolding io_inv_def by blast
qed

section \<open>One step\<close>

lemma region_upd [simp]:
  "region_ok a g m outs (sc\<lparr>sc_iobEns := x\<rparr>) = region_ok a g m outs sc"
  "region_ok a g m outs (sc\<lparr>sc_depCost := c\<rparr>) = region_ok a g m outs sc"
  "region_ok a g m outs (sc\<lparr>sc_exDep := e\<rparr>) = region_ok a g m outs sc"
  by (simp_all add: region_ok_def fun_eq_iff)

lemma io_inv_upd [simp]:
  "io_inv a g m outs sc0 D (sc\<lparr>sc_iobEns := x\<rparr>) = io_inv a g m outs sc0 D sc"
  "io_inv a g m outs sc0 D (sc\<lparr>sc_depCost := c\<rparr>) = io_inv a g m outs sc0 D sc"
  "io_inv a g m outs sc0 D sc \<Longrightarrow> io_inv a g m outs sc0 D (sc\<lparr>sc_exDep := EX_DEP_ST_LAST_TASK\<rparr>)"
  by (simp_all add: io_inv_def)

lemma seen_upd [simp]:
  "seen (sc\<lparr>sc_iobEns := x\<rparr>) = seen sc" "seen (sc\<lparr>sc_depCost := c\<rparr>) = seen sc" "seen (sc\<lparr>sc_exDep := e\<rparr>) = seen sc"
  by (auto simp: seen_def fun_eq_iff)

lemma io_prep_run:
  assumes "io_prep a g m sc n = Some (rq, sc')"
  shows "\<exists>x. sc' = sc\<lparr>sc_iobEns := x\<rparr>" "rq_memSize rq = io_size a g n" "rq_banks rq \<noteq> []"
    "avail_banks sc (io_banks a m n) = Some (rq_banks rq)"
  using assms by (auto simp: io_prep_def Let_def io_size_def io_banks_def io_idx_def split: bind_splits if_splits)

lemma avail_of_prep:
  assumes "io_prep a g m sc n = Some (rq, sc')" "b \<in> set (rq_banks rq)"
  obtains cur where "b \<in> set (io_banks a m n)" "bank_at (sc_cur sc') b = Some cur" "bs_used cur = 0"
proof -
  obtain x where "sc' = sc\<lparr>sc_iobEns := x\<rparr>" using io_prep_run(1)[OF assms(1)] by blast
  then show ?thesis using avail_ok[OF io_prep_run(4)[OF assms(1)] assms(2)] that by auto
qed

lemma io_place_run:
  assumes "io_place a isStore inNum n rq (sc, md) = Some (sc', md')" "rq_banks rq \<noteq> []"
  obtains b st start dep sc1 where "b \<in> set (rq_banks rq)" "seen sc (ag_iobSpadBankSize a) isStore (rq_memSize rq) b (st, start)"
    "dep = 0 \<Longrightarrow> st = 0" "dep = LD_DEP_ST_LAST_SEC_TASK \<Longrightarrow> st = 1" "sc1 = sc \<or> (\<exists>c. sc1 = sc\<lparr>sc_depCost := c\<rparr>) \<or> sc1 = sc\<lparr>sc_exDep := EX_DEP_ST_LAST_TASK\<rparr>"
    "honest (sc_old sc) isStore b dep" "isStore \<Longrightarrow> dep \<noteq> 0 \<Longrightarrow> sc_exDep sc1 = EX_DEP_ST_LAST_TASK"
    "sc' = take_bank a n (rq_iobIdx rq) (rq_minBank rq) isStore (rq_memSize rq) b start dep sc1"
proof -
  obtain r where sb: "scan_banks sc (ag_iobSpadBankSize a) isStore (rq_memSize rq) (rq_banks rq) = Some r"
    using assms(1) by (auto simp: io_place_def Let_def split: bind_splits)
  note sn = scan_seen[OF sb]
  show ?thesis
  proof (cases r)
    case (Inl x)
    obtain b start where x: "x = (b, start)" by (cases x)
    show ?thesis
      by (rule that[of b 0 start 0 sc]) (use sn Inl x assms(1) sb in \<open>auto simp: io_place_def Let_def LD_DEP_ST_LAST_SEC_TASK_def honest_def\<close>)
  next
    case (Inr sts)
    then obtain b start dep c where f: "forced_bank sc isStore inNum (rq_banks rq) sts = Some (b, start, dep, c)"
      using assms(1) sb by (auto simp: io_place_def Let_def split: bind_splits)
    from forced_seen[OF _ assms(2) f] sn Inr obtain st where
      s: "b \<in> set (rq_banks rq)" "seen sc (ag_iobSpadBankSize a) isStore (rq_memSize rq) b (st, start)" "dep \<noteq> 0"
        "dep = LD_DEP_ST_LAST_SEC_TASK \<longrightarrow> st = 1" "honest (sc_old sc) isStore b dep" by auto
    show ?thesis
    proof (cases isStore)
      case True
      show ?thesis
        by (rule that[of b st start dep "sc\<lparr>sc_exDep := EX_DEP_ST_LAST_TASK\<rparr>"])
          (use s f Inr assms(1) sb True in \<open>auto simp: io_place_def Let_def\<close>)
    next
      case False
      show ?thesis
        by (rule that[of b st start dep "sc\<lparr>sc_depCost := snd (raise_cost (rq_memName rq) c (md, sc_depCost sc))\<rparr>"])
          (use s f Inr assms(1) sb False in \<open>auto simp: io_place_def Let_def split: prod.splits\<close>)
    qed
  qed
qed

lemma io_step_inv:
  assumes inv: "io_inv a g m outs sc0 D sc" and n: "n \<notin> D" and old: "old_ok a sc0"
    and r: "io_step a g m outs inNum (sc, md) n = Some (sc', md')"
  shows "io_inv a g m outs sc0 (insert n D) sc'"
proof -
  obtain rq sc1 where pr: "io_prep a g m sc n = Some (rq, sc1)" and pl: "io_place a (n \<in> set outs) inNum n rq (sc1, md) = Some (sc', md')"
    using r by (auto simp: io_step_def split: bind_splits)
  have inv1: "io_inv a g m outs sc0 D sc1" using io_prep_run(1)[OF pr] inv by auto
  obtain b st start dep sc2 where b: "b \<in> set (rq_banks rq)" "seen sc1 (ag_iobSpadBankSize a) (n \<in> set outs) (rq_memSize rq) b (st, start)"
    "dep = 0 \<Longrightarrow> st = 0" "dep = LD_DEP_ST_LAST_SEC_TASK \<Longrightarrow> st = 1" "sc2 = sc1 \<or> (\<exists>c. sc2 = sc1\<lparr>sc_depCost := c\<rparr>) \<or> sc2 = sc1\<lparr>sc_exDep := EX_DEP_ST_LAST_TASK\<rparr>"
    "honest (sc_old sc1) (n \<in> set outs) b dep" "n \<in> set outs \<Longrightarrow> dep \<noteq> 0 \<Longrightarrow> sc_exDep sc2 = EX_DEP_ST_LAST_TASK"
    and sc': "sc' = take_bank a n (rq_iobIdx rq) (rq_minBank rq) (n \<in> set outs) (rq_memSize rq) b start dep sc2"
    by (rule io_place_run[OF pl io_prep_run(3)[OF pr]]) blast
  obtain cur where c: "b \<in> set (io_banks a m n)" "bank_at (sc_cur sc1) b = Some cur" "bs_used cur = 0"
    by (rule avail_of_prep[OF pr b(1)])
  have inv2: "io_inv a g m outs sc0 D sc2" "bank_at (sc_cur sc2) b = Some cur"
      "seen sc2 (ag_iobSpadBankSize a) (n \<in> set outs) (io_size a g n) b (st, start)" "honest (sc_old sc2) (n \<in> set outs) b dep"
    using b(2,5,6) inv1 c(2) io_prep_run(2)[OF pr] by auto
  show ?thesis
    unfolding sc' io_prep_run(2)[OF pr] by (rule take_bank_inv[OF inv2(1) n c(1) inv2(2) c(3) b(3,4) inv2(4) b(7) inv2(3) old])
qed

text \<open>The hardware the scheduler needs: I/O blocks with their own index below 32, and for each block
  at least as many banks as there are blocks that share one with it.\<close>

definition iob_sharing :: "top_adg \<Rightarrow> int list \<Rightarrow> int set" where
  "iob_sharing a banks = {i. \<exists>k iob. adg_node a k = Some iob \<and> gn_type iob = ''IOB'' \<and> an_index iob = i \<and>
     set (om_at [] (ag_iobToSpadBanks a) i) \<inter> set banks \<noteq> {}}"

definition banks_ok :: "top_adg \<Rightarrow> bool" where
  "banks_ok a \<longleftrightarrow> ag_cfgSpadDataWidth a sdiv 8 \<noteq> 0 \<and> g_bitWidth a sdiv 8 \<noteq> 0 \<and> 0 \<le> ag_numIobNodes a \<and>
     (\<forall>k iob. adg_node a k = Some iob \<longrightarrow> gn_type iob = ''IOB'' \<longrightarrow>
        (let bs = om_at [] (ag_iobToSpadBanks a) (an_index iob) in
         0 \<le> an_index iob \<and> an_index iob < 32 \<and> bs \<noteq> [] \<and> (\<forall>b \<in> set bs. 0 \<le> b \<and> b < ag_numIobNodes a) \<and>
         card (iob_sharing a bs) \<le> card (set bs))) \<and>
     (\<forall>k k' x y. adg_node a k = Some x \<longrightarrow> adg_node a k' = Some y \<longrightarrow> gn_type x = ''IOB'' \<longrightarrow> gn_type y = ''IOB'' \<longrightarrow>
        an_index x = an_index y \<longrightarrow> k = k')"

definition ios_placed :: "top_adg \<Rightarrow> dfg \<Rightarrow> mapping \<Rightarrow> bool" where
  "ios_placed a g m \<longleftrightarrow> distinct (df_ioNodes g) \<and> (\<forall>n \<in> set (df_ioNodes g). (\<exists>io. io_node g n = Some io) \<and> (\<exists>iob. mapped_iob a m n = Some iob)) \<and>
     (\<forall>n n' k. mappedAdg m n = Some k \<longrightarrow> mappedAdg m n' = Some k \<longrightarrow> n = n')"

lemma finite_sharing: "finite (iob_sharing a bs)"
proof -
  have "iob_sharing a bs \<subseteq> (\<lambda>(k, n). an_index n) ` set (ag_nodes a)"
    unfolding iob_sharing_def adg_node_def by (force dest: map_of_SomeD)
  then show ?thesis by (rule finite_subset) simp
qed

text \<open>A bank is free for the next node: each bank taken among those it reaches belongs to another
  node, on another block that shares a bank with it.\<close>

lemma bank_free:
  assumes hw: "banks_ok a" and pl: "ios_placed a g m" and D: "D \<subseteq> set (df_ioNodes g)" and n: "n \<in> set (df_ioNodes g)" "n \<notin> D"
    and inv: "io_inv a g m outs sc0 D sc"
  shows "\<exists>b \<in> set (io_banks a m n). \<exists>cur. bank_at (sc_cur sc) b = Some cur \<and> bs_used cur = 0"
proof (rule ccontr)
  assume no: "\<not> ?thesis"
  let ?B = "io_banks a m n"
  obtain bk where bk: "inj_on bk D" "\<forall>k \<in> D. region_ok a g m outs sc k (bk k)"
      "\<forall>b cur. bank_at (sc_cur sc) b = Some cur \<longrightarrow> bs_used cur \<noteq> 0 \<longrightarrow> b \<in> bk ` D"
    using inv unfolding io_inv_def by blast
  have iob: "\<exists>k iob. mappedAdg m x = Some k \<and> adg_node a k = Some iob \<and> gn_type iob = ''IOB'' \<and> io_idx a m x = an_index iob \<and>
      mapped_iob a m x = Some iob" if "x \<in> set (df_ioNodes g)" for x
    using pl that unfolding ios_placed_def mapped_iob_def io_idx_def by (fastforce split: bind_splits if_splits)
  have inj: "x = y" if "x \<in> set (df_ioNodes g)" "y \<in> set (df_ioNodes g)" "io_idx a m x = io_idx a m y" for x y
    using iob[OF that(1)] iob[OF that(2)] that(3) hw pl unfolding banks_ok_def ios_placed_def by metis
  obtain k0 iob0 where i0: "adg_node a k0 = Some iob0" "gn_type iob0 = ''IOB''" "io_idx a m n = an_index iob0"
    using iob[OF n(1)] by blast
  then have B: "?B \<noteq> []" "\<forall>b \<in> set ?B. 0 \<le> b \<and> b < ag_numIobNodes a" "card (iob_sharing a ?B) \<le> card (set ?B)"
    using hw unfolding banks_ok_def io_banks_def Let_def by metis+
  have "length (sc_cur sc) = nat (ag_numIobNodes a)" using inv by (simp add: io_inv_def)
  then have "\<exists>cur. bank_at (sc_cur sc) b = Some cur" if "b \<in> set ?B" for b
    using B(2) that by (auto simp: bank_at_def)
  then have taken: "set ?B \<subseteq> bk ` D" using no bk(3) by blast
  let ?D = "{k \<in> D. bk k \<in> set ?B}"
  have "set ?B = bk ` ?D" using taken by blast
  moreover have "inj_on bk ?D" using bk(1) by (rule inj_on_subset) blast
  ultimately have c1: "card (set ?B) = card ?D" using card_image by metis
  have "io_idx a m ` ?D \<subseteq> iob_sharing a ?B - {io_idx a m n}"
  proof clarify
    fix k assume k: "k \<in> D" "bk k \<in> set ?B"
    then have kn: "k \<in> set (df_ioNodes g)" "k \<noteq> n" using D n by auto
    have "bk k \<in> set (io_banks a m k)" using bk(2) k(1) by (auto simp: region_ok_def)
    then have "set (om_at [] (ag_iobToSpadBanks a) (io_idx a m k)) \<inter> set ?B \<noteq> {}" using k(2) by (auto simp: io_banks_def)
    then have "io_idx a m k \<in> iob_sharing a ?B" using iob[OF kn(1)] unfolding iob_sharing_def mem_Collect_eq by metis
    then show "io_idx a m k \<in> iob_sharing a ?B - {io_idx a m n}" using inj[OF kn(1) n(1)] kn(2) by blast
  qed
  then have "card (io_idx a m ` ?D) \<le> card (iob_sharing a ?B - {io_idx a m n})"
    by (intro card_mono) (simp_all add: finite_sharing)
  moreover have "card (io_idx a m ` ?D) = card ?D" using inj D by (intro card_image inj_onI) blast
  moreover have "io_idx a m n \<in> iob_sharing a ?B"
    using i0 B(1) unfolding iob_sharing_def io_banks_def by auto
  then have "card (iob_sharing a ?B - {io_idx a m n}) < card (iob_sharing a ?B)"
    by (intro card_Diff1_less finite_sharing)
  ultimately show False using c1 B(3) by simp
qed

section \<open>The whole schedule\<close>

lemma io_step_total:
  assumes hw: "banks_ok a" and pl: "ios_placed a g m" and D: "D \<subseteq> set (df_ioNodes g)" and n: "n \<in> set (df_ioNodes g)" "n \<notin> D"
    and inv: "io_inv a g m outs sc0 D sc" and old: "old_ok a sc0"
  shows "\<exists>st. io_step a g m outs inNum (sc, md) n = Some st"
proof -
  obtain io iob where io: "io_node g n = Some io" "mapped_iob a m n = Some iob" using pl n(1) unfolding ios_placed_def by blast
  then obtain k where k: "adg_node a k = Some iob" "gn_type iob = ''IOB''" by (auto simp: mapped_iob_def split: bind_splits if_splits)
  let ?B = "om_at [] (ag_iobToSpadBanks a) (an_index iob)"
  have B: "io_banks a m n = ?B" "0 \<le> an_index iob" "an_index iob < 32" "?B \<noteq> []" "\<forall>b \<in> set ?B. 0 \<le> b \<and> b < ag_numIobNodes a"
      "ag_cfgSpadDataWidth a sdiv 8 \<noteq> 0"
  proof -
    show "io_banks a m n = ?B" using io by (simp add: io_banks_def io_idx_def)
    show "ag_cfgSpadDataWidth a sdiv 8 \<noteq> 0" using hw by (simp add: banks_ok_def)
    show "0 \<le> an_index iob" "an_index iob < 32" "?B \<noteq> []" "\<forall>b \<in> set ?B. 0 \<le> b \<and> b < ag_numIobNodes a"
      using hw k unfolding banks_ok_def Let_def by blast+
  qed
  have at: "\<exists>x. bank_at xs b = Some x" if "b \<in> set ?B" "length xs = nat (ag_numIobNodes a)" for b xs
    using B(5) that by (auto simp: bank_at_def)
  have len: "length (sc_cur sc) = nat (ag_numIobNodes a)" "length (sc_old sc) = nat (ag_numIobNodes a)"
      "length (sc_older sc) = nat (ag_numIobNodes a)"
    using inv old by (simp_all add: io_inv_def old_ok_def)
  have "\<exists>av. avail_banks sc ?B = Some av \<and> (\<forall>b \<in> set ?B. (\<exists>cur. bank_at (sc_cur sc) b = Some cur \<and> bs_used cur = 0) \<longrightarrow> b \<in> set av)"
    unfolding avail_banks_def
  proof (rule mfold_prefix[where J = "\<lambda>us av. \<forall>b \<in> set us. (\<exists>cur. bank_at (sc_cur sc) b = Some cur \<and> bs_used cur = 0) \<longrightarrow> b \<in> set av"])
    fix us b vs av assume "?B = us @ b # vs"
      and J: "\<forall>b \<in> set us. (\<exists>cur. bank_at (sc_cur sc) b = Some cur \<and> bs_used cur = 0) \<longrightarrow> b \<in> set av"
    then have "b \<in> set ?B" by simp
    then obtain cur where "bank_at (sc_cur sc) b = Some cur" using at len(1) by blast
    then show "\<exists>av'. do { cur \<leftarrow> bank_at (sc_cur sc) b; Some (if bs_used cur = 0 then av @ [b] else av) } = Some av' \<and>
        (\<forall>c \<in> set (us @ [b]). (\<exists>cur. bank_at (sc_cur sc) c = Some cur \<and> bs_used cur = 0) \<longrightarrow> c \<in> set av')"
      using J by auto
  qed simp
  then obtain av where av: "avail_banks sc ?B = Some av"
      "\<forall>b \<in> set ?B. (\<exists>cur. bank_at (sc_cur sc) b = Some cur \<and> bs_used cur = 0) \<longrightarrow> b \<in> set av" by blast
  then have ne: "av \<noteq> []" using bank_free[OF hw pl D n inv] B(1) by force
  obtain bit mb where "iob_bit (an_index iob) = Some bit" "list_min ?B = Some mb" using B by (simp add: iob_bit_def list_min_def)
  then obtain rq sc1 where pr: "io_prep a g m sc n = Some (rq, sc1)"
    using io av(1) ne B(6) by (simp add: io_prep_def Let_def)
  obtain x where sc1: "sc1 = sc\<lparr>sc_iobEns := x\<rparr>" using io_prep_run(1)[OF pr] by blast
  have rb: "rq_banks rq = av" using io_prep_run(4)[OF pr] av(1) B(1) by simp
  have "\<forall>b \<in> set av. \<exists>o1 o2. bank_at (sc_old sc1) b = Some o1 \<and> bank_at (sc_older sc1) b = Some o2"
    using avail_ok[OF av(1)] at len sc1 by auto
  from scan_ok[OF this] obtain r where
    r: "scan_banks sc1 (ag_iobSpadBankSize a) (n \<in> set outs) (rq_memSize rq) av = Some r" by blast
  have wf: "\<forall>b o1. bank_at (sc_old sc1) b = Some o1 \<longrightarrow> bank_wf (ag_iobSpadBankSize a) o1"
    using old inv sc1 by (simp add: old_ok_def io_inv_def)
  have "\<exists>st. io_place a (n \<in> set outs) inNum n rq (sc1, md) = Some st"
  proof (cases r)
    case (Inl y)
    then show ?thesis using r rb by (cases y) (simp add: io_place_def Let_def)
  next
    case (Inr sts)
    have "list_all2 (seen sc1 (ag_iobSpadBankSize a) (n \<in> set outs) (rq_memSize rq)) av sts" using scan_seen[OF r] Inr by simp
    from forced_total[OF this wf, of inNum] obtain y where "forced_bank sc1 (n \<in> set outs) inNum av sts = Some y" by blast
    then show ?thesis using r rb Inr by (cases y) (auto simp: io_place_def Let_def split: prod.splits)
  qed
  then show ?thesis using pr by (simp add: io_step_def)
qed

lemma sorted_ios_ok:
  assumes pl: "ios_placed a g m" and srt: "\<And>c xs. mset (srt c xs) = mset xs"
  shows "\<exists>ios. sorted_ios srt g outs = Some ios \<and> mset ios = mset (df_ioNodes g)"
proof -
  have "\<exists>t. mem_count g = Some t \<and> True"
    unfolding mem_count_def by (rule mfold_total[where P = "\<lambda>_. True"]) (use pl in \<open>force simp: ios_placed_def\<close>)+
  then show ?thesis using srt by (auto simp: sorted_ios_def)
qed

lemma ioSchedule_ok:
  assumes hw: "banks_ok a" and pl: "ios_placed a g m" and old: "old_ok a sc" and srt: "\<And>c xs. mset (srt c xs) = mset xs"
  shows "\<exists>sc' outs. ioSchedule srt a (g, m) sc = Some sc' \<and> dfg_getOutNodes g = Some outs \<and>
    io_inv a g m outs sc (set (df_ioNodes g)) sc'"
proof -
  have "\<exists>outs. dfg_getOutNodes g = Some outs"
    by (rule getOutNodes_total) (use pl in \<open>force simp: ios_placed_def io_node_def dfg_node_def om_has_iff split: bind_splits\<close>)
  then obtain outs where outs: "dfg_getOutNodes g = Some outs" by blast
  obtain ios where ios: "sorted_ios srt g outs = Some ios" "mset ios = mset (df_ioNodes g)" using sorted_ios_ok[where srt = srt, OF pl srt] by blast
  have di: "distinct ios" "set ios = set (df_ioNodes g)"
    using ios(2) pl by (metis ios_placed_def mset_eq_imp_distinct_iff, metis mset_eq_setD)
  let ?n = "int (length (df_ioNodes g)) - int (length outs)"
  let ?sc = "sc\<lparr>sc_infos := [], sc_exDep := 0, sc_iobEns := 0, sc_depCost := 0, sc_cur := replicate (nat (ag_numIobNodes a)) free_bank\<rparr>"
  let ?J = "\<lambda>D st. D \<subseteq> set (df_ioNodes g) \<and> io_inv a g m outs sc D (fst st)"
  have start: "io_inv a g m outs sc {} ?sc"
    by (auto simp: io_inv_def bank_at_def free_bank_def om_has_def)
  have "\<exists>st. mfold (io_step a g m outs ?n) (?sc, []) ios = Some st \<and> ?J ({} \<union> (\<lambda>x. x) ` set ios) st"
  proof (rule mfold_ghost)
    fix x D and st :: io_state assume x: "x \<in> set ios" "x \<notin> D" and J: "?J D st"
    obtain sc1 md where st: "st = (sc1, md)" by (cases st)
    have xi: "x \<in> set (df_ioNodes g)" using x di by simp
    from io_step_total[OF hw pl _ xi x(2), of outs sc sc1 ?n md] J st old obtain sc2 md2 where
      r: "io_step a g m outs ?n (sc1, md) x = Some (sc2, md2)" by auto
    have "io_inv a g m outs sc (insert x D) sc2" by (rule io_step_inv[OF _ x(2) old r]) (use J st in simp)
    then show "\<exists>s'. io_step a g m outs ?n st x = Some s' \<and> ?J (insert x D) s'" using r st J xi by auto
  qed (use di start in simp_all)
  then obtain sc2 md where run: "mfold (io_step a g m outs ?n) (?sc, []) ios = Some (sc2, md)"
      "io_inv a g m outs sc (set (df_ioNodes g)) sc2" using di by auto
  have "ag_numIobNodes a \<ge> 0" "g_bitWidth a sdiv 8 \<noteq> 0" using hw by (simp_all add: banks_ok_def)
  then have "ioSchedule srt a (g, m) sc = Some (if sc_exDep sc2 > 0 then sc2\<lparr>sc_depCost := sc_depCost sc2 + ?n * ?n\<rparr> else sc2)"
    using outs ios(1) run(1) by (simp add: ioSchedule_def free_banks_def Let_def)
  moreover have "io_inv a g m outs sc (set (df_ioNodes g)) (if sc_exDep sc2 > 0 then sc2\<lparr>sc_depCost := sc_depCost sc2 + ?n * ?n\<rparr> else sc2)"
    using run(2) by simp
  ultimately show ?thesis using outs by blast
qed

section \<open>Properties\<close>

text \<open>C7: The I/O scheduler returns: when every input and output is placed on an I/O block of its own
  and every block has at least as many banks as there are blocks that share one with it, no
  assertion of \<open>ioSchedule\<close> fails, and every input and output gets an entry.\<close>

theorem ioSchedule_returns:
  assumes "banks_ok a" "ios_placed a g m" "old_ok a sc" "\<forall>c xs. mset (srt c xs) = mset xs"
  shows "\<exists>sc'. ioSchedule srt a (g, m) sc = Some sc' \<and> (\<forall>n. om_has (sc_infos sc') n \<longleftrightarrow> n \<in> set (df_ioNodes g))"
proof -
  have "\<And>c xs. mset (srt c xs) = mset xs" using assms(4) by blast
  from ioSchedule_ok[where srt = srt, OF assms(1-3) this] show ?thesis by (auto simp: io_inv_def)
qed

lemma ioSchedule_run:
  assumes "banks_ok a" "ios_placed a g m" "old_ok a sc" "\<forall>c xs. mset (srt c xs) = mset xs"
    "ioSchedule srt a (g, m) sc = Some sc'"
  obtains outs bk where "dfg_getOutNodes g = Some outs" "inj_on bk (set (df_ioNodes g))"
    "\<And>n. n \<in> set (df_ioNodes g) \<Longrightarrow> region_ok a g m outs sc' n (bk n)" "sc_old sc' = sc_old sc" "sc_older sc' = sc_older sc"
    "io_inv a g m outs sc (set (df_ioNodes g)) sc'"
proof -
  have "\<And>c xs. mset (srt c xs) = mset xs" using assms(4) by blast
  from ioSchedule_ok[where srt = srt, OF assms(1-3) this] assms(5) obtain outs where
    o: "dfg_getOutNodes g = Some outs" "io_inv a g m outs sc (set (df_ioNodes g)) sc'" by auto
  obtain bk where "inj_on bk (set (df_ioNodes g))" "\<forall>n \<in> set (df_ioNodes g). region_ok a g m outs sc' n (bk n)"
    using o(2) unfolding io_inv_def by blast
  moreover have "sc_old sc' = sc_old sc" "sc_older sc' = sc_older sc" using o(2) by (simp_all add: io_inv_def)
  ultimately show ?thesis using that o by blast
qed

text \<open>C5: Two inputs or outputs of one DFG never share scratchpad memory: their address ranges are
  disjoint, as long as each array fits a bank.\<close>

theorem io_regions_disjoint:
  assumes "banks_ok a" "ios_placed a g m" "old_ok a sc" "\<forall>c xs. mset (srt c xs) = mset xs"
    "ioSchedule srt a (g, m) sc = Some sc'" and S: "0 \<le> ag_iobSpadBankSize a"
    and n: "n \<in> set (df_ioNodes g)" "n' \<in> set (df_ioNodes g)" "n \<noteq> n'"
    and fit: "io_size a g n \<le> ag_iobSpadBankSize a" "io_size a g n' \<le> ag_iobSpadBankSize a"
    and info: "om_get (sc_infos sc') n = Some x" "om_get (sc_infos sc') n' = Some x'"
  shows "ii_addr x + io_size a g n \<le> ii_addr x' \<or> ii_addr x' + io_size a g n' \<le> ii_addr x"
proof -
  obtain outs bk where bk: "inj_on bk (set (df_ioNodes g))" "\<And>n. n \<in> set (df_ioNodes g) \<Longrightarrow> region_ok a g m outs sc' n (bk n)"
    by (rule ioSchedule_run[OF assms(1-5)]) blast
  let ?S = "ag_iobSpadBankSize a"
  have r: "bk k * ?S \<le> ii_addr y \<and> ii_addr y + io_size a g k \<le> (bk k + 1) * ?S"
    if "k \<in> set (df_ioNodes g)" "om_get (sc_infos sc') k = Some y" "io_size a g k \<le> ?S" for k y
    using bk(2)[OF that(1)] that(2,3) by (auto simp: region_ok_def algebra_simps)
  have ne: "bk n \<noteq> bk n'" using bk(1) n by (auto dest: inj_onD)
  have step: "(i + 1) * ?S \<le> j * ?S" if "i < j" for i j using that S by (intro mult_right_mono) auto
  consider "bk n < bk n'" | "bk n' < bk n" using ne by linarith
  then show ?thesis
    using r[OF n(1) info(1) fit(1)] r[OF n(2) info(2) fit(2)] step by cases fastforce+
qed

text \<open>C6: A dependence of 0 is honest: an input or output with \<open>dep = 0\<close> has its region in a bank its
  I/O block reaches, where no load or store of the last task that runs alongside touches the
  same bytes, a load never reads a bank the last task stores to, nor one the task before that
  may still be storing to.\<close>

theorem no_dependence_no_conflict:
  assumes "banks_ok a" "ios_placed a g m" "old_ok a sc" "\<forall>c xs. mset (srt c xs) = mset xs"
    "ioSchedule srt a (g, m) sc = Some sc'" "n \<in> set (df_ioNodes g)" "om_get (sc_infos sc') n = Some x" "ii_dep x = 0"
  shows "\<exists>b start old older. b \<in> set (io_banks a m n) \<and> ii_addr x = b * ag_iobSpadBankSize a + start \<and> 0 \<le> start \<and>
    bank_at (sc_old sc) b = Some old \<and> bank_at (sc_older sc) b = Some older \<and>
    no_old_conflict (ii_isStore x) start (io_size a g n) old \<and> no_older_conflict (ii_isStore x) older"
proof -
  obtain outs bk where r: "\<And>n. n \<in> set (df_ioNodes g) \<Longrightarrow> region_ok a g m outs sc' n (bk n)" "sc_old sc' = sc_old sc" "sc_older sc' = sc_older sc"
    by (rule ioSchedule_run[OF assms(1-5)]) blast
  show ?thesis using r(1)[OF assms(6)] r(2,3) assms(7,8) by (auto simp: region_ok_def)
qed

end
