(* ===== verification/MapperOpt.thy ===== *)
theory MapperOpt
  imports SaLoop IoCorrect
begin

text \<open>
  The outer loop of the mapper (\<open>src/mapper/mapper_sa.cpp\<close>, \<open>src/mapper/mapper.cpp\<close>): the objective
  of a mapping, the optimisation of it over repeated calls of \<open>pnrSync\<close>, and the entry points
  \<open>mapper\<close> and \<open>mapperTimed\<close>. The state is the mapper with its I/O scheduler.

  \<open>float\<close> and \<open>double\<close> are the one parameter type of \<open>fp\<close>. What the loop relies on is that the
  first objective, 1 or 1 - 0.6, is below the start value 10 (\<open>fp_ok\<close>).
\<close>

section \<open>The objective\<close>

type_synonym opt_state = "mapperSA \<times> scheduler"

definition objFunc ::
    "'f sa_env \<Rightarrow> top_adg \<Rightarrow> bmap \<Rightarrow> bool \<Rightarrow> opt_state \<Rightarrow> ('f \<times> opt_state) option" where
  "objFunc E a bm init ss = (case ss of (s, sc) \<Rightarrow> do {
     let F = en_fp E;
     let m = snd bm;
     let w_lat = fp_dec F 15 100;
     let w_node = fp_dec F 25 100;
     let w_dep = fp_dec F 6 10;
     sc' \<leftarrow> ioSchedule (\<lambda>c xs. map (\<lambda>i. xs ! i) (en_sort E (\<lambda>i j. c (xs ! i) (xs ! j)) [0..<length xs])) a bm sc;
     Some (if init then
         let s' = s\<lparr>sa_dfgLat := mp_maxLat m, sa_mappedAdgNodeNum := getMappedAdgNodeNum m, sa_ioDeps := sc_depCost sc'\<rparr>
         in (if sa_ioDeps s' = 0 then fp_sub F (fp_dec F 1 1) w_dep else fp_dec F 1 1, s', sc')
       else
         let obj = fp_add F (fp_div F (fp_mul F w_lat (fp_int F (mp_maxLat m))) (fp_int F (sa_dfgLat s)))
                     (fp_div F (fp_mul F w_node (fp_int F (getMappedAdgNodeNum m))) (fp_int F (sa_mappedAdgNodeNum s)))
         in (if sa_ioDeps s > 0
             then fp_add F obj (fp_div F (fp_mul F w_dep (fp_int F (sc_depCost sc'))) (fp_int F (sa_ioDeps s)))
             else fp_add F obj (fp_int F (sc_depCost sc')), s, sc')) })"

section \<open>Optimisation\<close>

record 'f opt =
  op_best :: bmap
  op_last :: bmap
  op_temp :: int
  op_pnrRestart :: int
  op_lastImprv :: int
  op_lastRestart :: int
  op_oldObj :: 'f
  op_minObj :: 'f
  op_succeed :: bool
  op_init :: bool

text \<open>A new mapping with its objective is accepted, perhaps as the best one, or given up.\<close>

definition opt_judge :: "'f sa_env \<Rightarrow> int \<Rightarrow> 'f \<Rightarrow> mapperSA \<times> 'f opt \<Rightarrow> mapperSA \<times> 'f opt" where
  "opt_judge E iter newObj so = (case so of (s, p) \<Rightarrow>
     let F = en_fp E;
         (acc, s1) = metropolis E (fp_sub F newObj (op_oldObj p)) (fp_int F (op_temp p)) s in
     if acc then
       let p1 = (if fp_less F newObj (op_minObj p)
             then p\<lparr>op_minObj := newObj, op_best := mr_mapping s1, op_lastImprv := iter, op_lastRestart := iter,
                    op_temp := (if op_init p then op_temp p else annealFunc E (op_temp p))\<rparr>
             else p)
       in (s1, p1\<lparr>op_last := mr_mapping s1, op_oldObj := newObj\<rparr>)
     else (s1\<lparr>mr_mapping := op_last p\<rparr>, p))"

definition opt_iter ::
    "'f sa_env \<Rightarrow> top_adg \<Rightarrow> int \<Rightarrow> opt_state \<times> 'f opt \<Rightarrow> (flow \<times> opt_state \<times> 'f opt) option" where
  "opt_iter E a iter so = (case so of ((s, sc), p) \<Rightarrow> do {
     (res, s1) \<leftarrow> pnrSync E a 2000 (op_pnrRestart p) (op_temp p) (\<not> op_succeed p) s;
     (if res = 0 then Some (Cont, (s1, sc), p)
      else if res = -1 then Some (Brk, (s1, sc), p)
      else do {
        let p1 = p\<lparr>op_succeed := True, op_pnrRestart := 0\<rparr>;
        (newObj, s2, sc2) \<leftarrow> objFunc E a (mr_mapping s1) (op_init p1) (s1, sc);
        let (s3, p2) = opt_judge E iter newObj (s2, p1);
        let p3 = p2\<lparr>op_init := False\<rparr>;
        Some (if iter - op_lastImprv p3 > 30 then (Brk, (s3, sc2), p3)
              else if iter - op_lastRestart p3 > 10
              then (Cont, (s3\<lparr>mr_mapping := op_best p3\<rparr>, sc2), p3\<lparr>op_lastRestart := iter\<rparr>)
              else (Cont, (s3, sc2), p3)) }) })"

definition pnrSyncOpt :: "'f sa_env \<Rightarrow> top_adg \<Rightarrow> opt_state \<Rightarrow> (bool \<times> opt_state) option" where
  "pnrSyncOpt E a ss = do {
     let F = en_fp E;
     let c = (mr_dfg (fst ss), new_Mapping);
     let ten = fp_dec F 10 1;
     ((s, sc), p) \<leftarrow> for_break (opt_iter E a) (iters (sa_maxIters (fst ss)))
        (ss, \<lparr>op_best = c, op_last = c, op_temp = MAX_TEMP, op_pnrRestart = 30, op_lastImprv = 0, op_lastRestart = 0,
              op_oldObj = ten, op_minObj = ten, op_succeed = False, op_init = True\<rparr>);
     Some (op_succeed p, s\<lparr>mr_mapping := op_best p\<rparr>, sc) }"

section \<open>Entry points\<close>

definition run_mapper :: "'f sa_env \<Rightarrow> top_adg \<Rightarrow> opt_state \<Rightarrow> (bool \<times> opt_state) option" where
  "run_mapper E a ss =
     (if sa_objOpt (fst ss) then pnrSyncOpt E a ss
      else do {
        (r, s) \<leftarrow> pnrSync E a (sa_maxIters (fst ss)) 30 MAX_TEMP True (fst ss);
        Some (r = 1, s, snd ss) })"

definition mapperTimed :: "'f sa_env \<Rightarrow> top_adg \<Rightarrow> opt_state \<Rightarrow> (bool \<times> opt_state) option" where
  "mapperTimed E a ss = do {
     ok \<leftarrow> preMapCheck a (mr_dfg (fst ss)) (fst ss);
     (if \<not> ok then Some (False, ss) else run_mapper E a ss) }"

end
