(* ===== verification/MapperCorrect.thy ===== *)
theory MapperCorrect
  imports MapperOpt
begin

text \<open>
  The mapper as a whole: whatever the optimisation does, when \<open>mapper\<close> or \<open>mapperTimed\<close> says the
  DFG is mapped, the mapping it leaves is complete, legally routed and synchronised; and it
  always says something.
\<close>

section \<open>The objective of a mapping\<close>

definition fp_ok :: "'f fp \<Rightarrow> bool" where
  "fp_ok F \<longleftrightarrow> (\<forall>x \<in> {fp_dec F 1 1, fp_sub F (fp_dec F 1 1) (fp_dec F 6 10)}.
     fp_less F (fp_sub F x (fp_dec F 10 1)) (fp_int F 0) \<and> fp_less F x (fp_dec F 10 1))"

lemma sort_by_index:
  assumes "env_ok E"
  shows "mset (map (\<lambda>i. xs ! i) (en_sort E c [0..<length xs])) = mset xs"
proof -
  have "mset (en_sort E c [0..<length xs]) = mset [0..<length xs]" using assms by (simp add: env_ok_def)
  then have "mset (map (\<lambda>i. xs ! i) (en_sort E c [0..<length xs])) = mset (map (\<lambda>i. xs ! i) [0..<length xs])"
    by (simp only: mset_map)
  then show ?thesis by (simp add: map_nth)
qed

lemma mapped_ios:
  assumes st: "staged a g" and ms: "mapped_in_sync a g m" and mi: "lay a g m"
  shows "ios_placed a g m"
proof -
  have gd: "good a g" and wf: "om_wf (df_nodes g)" using st by (auto simp: staged_def good_def dfg_sound_def dfg_wf_def)
  have pl: "place_inv m" and su: "map_success g m" using mi ms by (simp_all add: map_inv_def mapped_in_sync_def)
  have "placed m \<subseteq> fst ` set (df_nodes g)" using mi by (auto simp: map_inv_def placed_def om_has_set)
  then have all: "om_has (df_nodes g) n \<Longrightarrow> mappedAdg m n \<noteq> None" for n
    using map_success_iff[OF pl wf] su by (simp add: isMappedDfg_iff)
  have one: "(\<exists>io. io_node g n = Some io) \<and> (\<exists>iob. mapped_iob a m n = Some iob)" if n: "n \<in> set (df_ioNodes g)" for n
  proof -
    have "om_has (df_nodes g) n" using gd n by (simp add: good_def)
    then obtain nd k where nd: "dfg_node g n = Some nd" "mappedAdg m n = Some k" using all by (force simp: om_has_iff dfg_node_def)
    then have ng: "node_good a g n nd" using gd unfolding good_def by blast
    obtain fu where fu: "adg_node a k = Some fu" "is_fu fu" "fu_opCapable fu (dn_operation nd)"
      using mi nd unfolding capable_def by fastforce
    have io: "dn_io nd \<noteq> None" using ng n by (simp add: node_good_def)
    then have "gn_type fu = ''IOB''" using ng fu unfolding node_good_def io_only_def by blast
    then show ?thesis using nd fu io by (auto simp: io_node_def mapped_iob_def)
  qed
  moreover have "n = n'" if "mappedAdg m n = Some k" "mappedAdg m n' = Some k" for n n' k
    using pl that unfolding place_inv_def by (metis option.inject)
  ultimately show ?thesis using gd unfolding ios_placed_def good_def by blast
qed

lemma objFunc_ok:
  assumes E: "env_ok E" and hw: "banks_ok a" and pl: "ios_placed a (fst bm) (snd bm)" and old: "old_ok a sc"
  shows "\<exists>obj s' sc'. objFunc E a bm init (s, sc) = Some (obj, s', sc') \<and> old_ok a sc' \<and>
    mr_dfg s' = mr_dfg s \<and> mr_mapping s' = mr_mapping s \<and> mr_placeOrder s' = mr_placeOrder s \<and> mr_opLeft s' = mr_opLeft s \<and>
    (init \<longrightarrow> obj \<in> {fp_dec (en_fp E) 1 1, fp_sub (en_fp E) (fp_dec (en_fp E) 1 1) (fp_dec (en_fp E) 6 10)})"
proof -
  let ?srt = "\<lambda>c xs. map (\<lambda>i. xs ! i) (en_sort E (\<lambda>i j. c (xs ! i) (xs ! j)) [0..<length xs])"
  have srt: "\<And>c (xs :: int list). mset (?srt c xs) = mset xs" by (rule sort_by_index[OF E])
  from ioSchedule_ok[where srt = ?srt, OF hw pl old srt] obtain sc' outs where
    sc': "ioSchedule ?srt a bm sc = Some sc'" "io_inv a (fst bm) (snd bm) outs sc (set (df_ioNodes (fst bm))) sc'" by auto
  have "old_ok a sc'" using sc'(2) old by (simp add: io_inv_def old_ok_def)
  then show ?thesis using sc'(1) unfolding objFunc_def by (cases init) (simp_all add: Let_def)
qed

section \<open>The optimisation loop\<close>

definition cached :: "top_adg \<Rightarrow> dfg \<Rightarrow> bmap \<Rightarrow> bool" where
  "cached a g bm \<longleftrightarrow> fst bm = g \<and> lay a g (snd bm) \<and> mapped_in_sync a g (snd bm)"

definition opt_ok :: "'f sa_env \<Rightarrow> top_adg \<Rightarrow> opt_state \<times> 'f opt \<Rightarrow> bool" where
  "opt_ok E a so \<longleftrightarrow> (case so of ((s, sc), p) \<Rightarrow> sa_ready a s \<and> old_ok a sc \<and>
     (if op_succeed p then cached a (mr_dfg s) (op_best p) \<and> cached a (mr_dfg s) (op_last p)
      else op_init p \<and> op_oldObj p = fp_dec (en_fp E) 10 1 \<and> op_minObj p = fp_dec (en_fp E) 10 1))"

lemma sa_ready_cached: "sa_ready a s \<Longrightarrow> cached a (mr_dfg s) bm \<Longrightarrow> sa_ready a (s\<lparr>mr_mapping := bm\<rparr>)"
  by (simp add: sa_ready_def cached_def)

lemma sa_ready_same:
  assumes "sa_ready a s" "mr_dfg s' = mr_dfg s" "mr_mapping s' = mr_mapping s" "mr_placeOrder s' = mr_placeOrder s" "mr_opLeft s' = mr_opLeft s"
  shows "sa_ready a s'"
  using assms by (simp add: sa_ready_def)

lemma opt_judge_ok:
  assumes rdy: "sa_ready a s" and cur: "cached a (mr_dfg s) (mr_mapping s)"
    and old: "(cached a (mr_dfg s) (op_best p) \<and> cached a (mr_dfg s) (op_last p)) \<or>
      (fp_less (en_fp E) (fp_sub (en_fp E) obj (op_oldObj p)) (fp_int (en_fp E) 0) \<and> fp_less (en_fp E) obj (op_minObj p))"
    and r: "opt_judge E iter obj (s, p) = (s', p')"
  shows "sa_ready a s'" "mr_dfg s' = mr_dfg s" "cached a (mr_dfg s) (op_best p')" "cached a (mr_dfg s) (op_last p')"
    "op_succeed p' = op_succeed p"
proof -
  obtain acc s1 where m: "metropolis E (fp_sub (en_fp E) obj (op_oldObj p)) (fp_int (en_fp E) (op_temp p)) s = (acc, s1)" by fastforce
  have s1: "s1 = s \<or> s1 = s\<lparr>sa_tick := Suc (sa_tick s)\<rparr>" using m by (auto simp: metropolis_def Let_def split: if_splits)
  then have v: "sa_ready a s1" "mr_dfg s1 = mr_dfg s" "mr_mapping s1 = mr_mapping s" using rdy by (auto simp: sa_ready_def)
  have first: "acc \<and> fp_less (en_fp E) obj (op_minObj p)" if "\<not> (cached a (mr_dfg s) (op_best p) \<and> cached a (mr_dfg s) (op_last p))"
    using old that m by (auto simp: metropolis_def Let_def split: if_splits)
  have run: "(s', p') = (if acc then
      (s1, (if fp_less (en_fp E) obj (op_minObj p)
             then p\<lparr>op_minObj := obj, op_best := mr_mapping s1, op_lastImprv := iter, op_lastRestart := iter,
                    op_temp := (if op_init p then op_temp p else annealFunc E (op_temp p))\<rparr>
             else p)\<lparr>op_last := mr_mapping s1, op_oldObj := obj\<rparr>)
    else (s1\<lparr>mr_mapping := op_last p\<rparr>, p))"
    using r m by (auto simp: opt_judge_def Let_def split: if_splits)
  consider "acc" "fp_less (en_fp E) obj (op_minObj p)" | "acc" "cached a (mr_dfg s) (op_best p)"
      "\<not> fp_less (en_fp E) obj (op_minObj p)" | "\<not> acc" "cached a (mr_dfg s) (op_best p)" "cached a (mr_dfg s) (op_last p)"
    using first by blast
  then show "sa_ready a s'" "mr_dfg s' = mr_dfg s" "cached a (mr_dfg s) (op_best p')" "cached a (mr_dfg s) (op_last p')"
    "op_succeed p' = op_succeed p"
    using run v cur sa_ready_cached[OF v(1), of "op_last p"] by (cases; simp)+
qed

lemma opt_iter_ok:
  assumes E: "env_ok E" "arch_ok a" "pass_ok E a" and hw: "banks_ok a" and fp: "fp_ok (en_fp E)" and ok: "opt_ok E a so"
  shows "\<exists>f so'. opt_iter E a iter so = Some (f, so') \<and> opt_ok E a so'"
proof -
  obtain s sc p where so: "so = ((s, sc), p)" by (metis prod.collapse)
  have rdy: "sa_ready a s" and old: "old_ok a sc" using ok so by (simp_all add: opt_ok_def)
  from pnrSync_ok[OF E rdy, of 2000 "op_pnrRestart p" "op_temp p" "\<not> op_succeed p"] obtain res s1 where
    r: "pnrSync E a 2000 (op_pnrRestart p) (op_temp p) (\<not> op_succeed p) s = Some (res, s1)" "sa_ready a s1" "res \<in> {-1, 0, 1}"
      "res = 1 \<longrightarrow> mapped_in_sync a (mr_dfg s1) (snd (mr_mapping s1))" "op_succeed p \<longrightarrow> mr_dfg s1 = mr_dfg s" by auto
  show ?thesis
  proof (cases "res = 1")
    case False
    have "opt_ok E a ((s1, sc), p)" using ok so r(2,5) by (auto simp: opt_ok_def)
    then show ?thesis using so r(1,3) False by (auto simp: opt_iter_def)
  next
    case True
    have st: "staged a (mr_dfg s1)" and cur: "cached a (mr_dfg s1) (mr_mapping s1)"
      using r(2,4) True by (simp_all add: sa_ready_def cached_def)
    have "ios_placed a (fst (mr_mapping s1)) (snd (mr_mapping s1))" using mapped_ios[OF st] cur by (simp add: cached_def)
    from objFunc_ok[OF E(1) hw this old, of "op_init p" s1] obtain obj s2 sc2 where
      o2: "objFunc E a (mr_mapping s1) (op_init p) (s1, sc) = Some (obj, s2, sc2)" "old_ok a sc2"
        "mr_dfg s2 = mr_dfg s1" "mr_mapping s2 = mr_mapping s1" "mr_placeOrder s2 = mr_placeOrder s1" "mr_opLeft s2 = mr_opLeft s1"
        "op_init p \<longrightarrow> obj \<in> {fp_dec (en_fp E) 1 1, fp_sub (en_fp E) (fp_dec (en_fp E) 1 1) (fp_dec (en_fp E) 6 10)}" by blast
    have rdy2: "sa_ready a s2" by (rule sa_ready_same[OF r(2) o2(3-6)])
    let ?p1 = "p\<lparr>op_succeed := True, op_pnrRestart := 0\<rparr>"
    have prev: "(cached a (mr_dfg s2) (op_best ?p1) \<and> cached a (mr_dfg s2) (op_last ?p1)) \<or>
        (fp_less (en_fp E) (fp_sub (en_fp E) obj (op_oldObj ?p1)) (fp_int (en_fp E) 0) \<and> fp_less (en_fp E) obj (op_minObj ?p1))"
    proof (cases "op_succeed p")
      case True
      then show ?thesis using ok so r(5) o2(3) by (simp add: opt_ok_def)
    next
      case False
      then have "op_init p" "op_oldObj p = fp_dec (en_fp E) 10 1" "op_minObj p = fp_dec (en_fp E) 10 1"
        using ok so by (simp_all add: opt_ok_def)
      then show ?thesis using fp o2(7) by (auto simp: fp_ok_def)
    qed
    obtain s3 p2 where j: "opt_judge E iter obj (s2, ?p1) = (s3, p2)" by fastforce
    note jo = opt_judge_ok[OF rdy2 _ prev j]
    have cur2: "cached a (mr_dfg s2) (mr_mapping s2)" using cur o2(3,4) by simp
    let ?p3 = "p2\<lparr>op_init := False\<rparr>"
    have ok3: "opt_ok E a ((s3, sc2), ?p3)" using jo[OF cur2] o2(2) by (simp add: opt_ok_def)
    have "sa_ready a (s3\<lparr>mr_mapping := op_best ?p3\<rparr>)" using sa_ready_cached[OF jo(1)[OF cur2]] jo(2,3)[OF cur2] by simp
    then have ok4: "opt_ok E a ((s3\<lparr>mr_mapping := op_best ?p3\<rparr>, sc2), ?p3\<lparr>op_lastRestart := iter\<rparr>)"
      using ok3 jo(5)[OF cur2] by (simp add: opt_ok_def)
    show ?thesis using so r(1) True o2(1) j ok3 ok4 by (simp add: opt_iter_def Let_def)
  qed
qed

definition optimise_inv :: "'f sa_env \<Rightarrow> top_adg \<Rightarrow> opt_state \<times> 'f opt \<Rightarrow> bool" where
  "optimise_inv E a so \<longleftrightarrow> env_ok E \<and> arch_ok a \<and> pass_ok E a \<and> banks_ok a \<and> fp_ok (en_fp E) \<and> opt_ok E a so"

interpretation optimise: loop_body "opt_iter E a" "optimise_inv E a" "opt_ok E a" for E a
proof unfold_locales
  fix so i assume inv: "optimise_inv E a so"
  then have "\<exists>f so'. opt_iter E a i so = Some (f, so') \<and> opt_ok E a so'" by (intro opt_iter_ok) (simp_all add: optimise_inv_def)
  then obtain f so' where "opt_iter E a i so = Some (f, so')" "opt_ok E a so'" by blast
  then show "\<exists>f so'. opt_iter E a i so = Some (f, so') \<and> (if f = Cont then optimise_inv E a so' else opt_ok E a so')"
    using inv by (intro exI[of _ f] exI[of _ so']) (simp add: optimise_inv_def)
qed (simp add: optimise_inv_def)

lemma pnrSyncOpt_ok:
  assumes E: "env_ok E" "arch_ok a" "pass_ok E a" "banks_ok a" "fp_ok (en_fp E)" and rdy: "sa_ready a s" and old: "old_ok a sc"
  shows "\<exists>ok s' sc'. pnrSyncOpt E a (s, sc) = Some (ok, s', sc') \<and> old_ok a sc' \<and>
    (ok \<longrightarrow> sa_ready a s' \<and> mapped_in_sync a (mr_dfg s') (snd (mr_mapping s')))"
proof -
  let ?c = "(mr_dfg s, new_Mapping)"
  let ?p = "\<lparr>op_best = ?c, op_last = ?c, op_temp = MAX_TEMP, op_pnrRestart = 30, op_lastImprv = 0, op_lastRestart = 0,
    op_oldObj = fp_dec (en_fp E) 10 1, op_minObj = fp_dec (en_fp E) 10 1, op_succeed = False, op_init = True\<rparr>"
  have start: "opt_ok E a ((s, sc), ?p)" using rdy old by (simp add: opt_ok_def)
  have "optimise_inv E a ((s, sc), ?p)" using E start by (simp add: optimise_inv_def)
  from optimise.loop_returns[OF this] obtain s' sc' p' where r: "for_break (opt_iter E a) (iters (sa_maxIters s)) ((s, sc), ?p) = Some ((s', sc'), p')"
      "opt_ok E a ((s', sc'), p')" by (metis prod.collapse)
  have run: "pnrSyncOpt E a (s, sc) = Some (op_succeed p', s'\<lparr>mr_mapping := op_best p'\<rparr>, sc')"
    using r(1) by (simp add: pnrSyncOpt_def Let_def)
  have "sa_ready a (s'\<lparr>mr_mapping := op_best p'\<rparr>) \<and> mapped_in_sync a (mr_dfg s') (snd (op_best p'))" if "op_succeed p'"
    using r(2) that sa_ready_cached[of a s' "op_best p'"] by (auto simp: opt_ok_def cached_def)
  then show ?thesis using run r(2) by (auto simp: opt_ok_def)
qed

lemma run_mapper_ok:
  assumes E: "env_ok E" "arch_ok a" "pass_ok E a" "banks_ok a" "fp_ok (en_fp E)" and rdy: "sa_ready a s" and old: "old_ok a sc"
  shows "\<exists>ok s' sc'. run_mapper E a (s, sc) = Some (ok, s', sc') \<and> old_ok a sc' \<and>
    (ok \<longrightarrow> sa_ready a s' \<and> mapped_in_sync a (mr_dfg s') (snd (mr_mapping s')))"
proof (cases "sa_objOpt s")
  case True
  then show ?thesis using pnrSyncOpt_ok[OF E rdy old] by (simp add: run_mapper_def)
next
  case False
  from pnrSync_ok[OF E(1-3) rdy, of "sa_maxIters s" 30 MAX_TEMP True] obtain r s' where
    "pnrSync E a (sa_maxIters s) 30 MAX_TEMP True s = Some (r, s')" "sa_ready a s'"
    "r = 1 \<longrightarrow> mapped_in_sync a (mr_dfg s') (snd (mr_mapping s'))" by blast
  then show ?thesis using False old by (simp add: run_mapper_def)
qed

end
