(* ===== verification/MapperCheck.thy ===== *)
theory MapperCheck
  imports MapperCorrect
begin

text \<open>
  The check before mapping: its counts are exact, it never fails, and it rejects no DFG that
  some placement could map. With the mapping loop this gives the contract of \<open>mapperTimed\<close>.
\<close>

section \<open>Counting operations\<close>

definition tally :: "(string, int) omap \<Rightarrow> string list \<Rightarrow> bool" where
  "tally t ops \<longleftrightarrow> om_wf t \<and> (\<forall>x. om_get t x = (if x \<in> set ops then Some (int (count_list ops x)) else None))"

lemma tally_Nil [simp]: "tally [] []"
  by (simp add: tally_def)

lemma tally_at: "tally t ops \<Longrightarrow> om_at 0 t x = int (count_list ops x)"
  by (simp add: tally_def om_at_def)

lemma tally_count:
  assumes "tally t ops"
  shows "tally (count_op t op) (ops @ [op])"
proof (cases "op \<in> set ops")
  case True
  then have "om_has t op" using assms by (simp add: tally_def om_has_iff)
  then show ?thesis using assms True by (auto simp: tally_at[OF assms] count_op_def) (auto simp: tally_def)
next
  case False
  then have "\<not> om_has t op" "count_list ops op = 0" using assms by (auto simp: tally_def om_has_iff)
  then show ?thesis using assms by (auto simp: count_op_def tally_def)
qed

lemma tally_counts: "tally t ops \<Longrightarrow> tally (foldl count_op t new) (ops @ new)"
proof (induction new arbitrary: t ops)
  case (Cons x new)
  from Cons.IH[OF tally_count[OF Cons.prems, of x]] show ?case by simp
qed simp

definition named :: "dfg \<Rightarrow> bool" where
  "named g \<longleftrightarrow> (\<forall>n nd. dfg_node g n = Some nd \<longrightarrow> dn_operation nd \<noteq> [])"

definition dfg_ops :: "dfg \<Rightarrow> string list" where
  "dfg_ops g = map (\<lambda>p. dn_operation (snd p)) (df_nodes g)"

definition adg_ops :: "top_adg \<Rightarrow> string list" where
  "adg_ops a = concat (map (\<lambda>p. if is_gib (snd p) then [] else an_operations (snd p)) (ag_nodes a))"

lemma dfgOpCnt_ok:
  assumes "om_wf (df_nodes g)" "named g"
  shows "\<exists>t. dfgOpCnt g = Some t \<and> tally t (dfg_ops g)"
  unfolding dfgOpCnt_def dfg_ops_def
proof (rule mfold_prefix[where J = "\<lambda>us t. tally t (map (\<lambda>p. dn_operation (snd p)) us)"])
  fix us x vs and t :: "(string, int) omap"
  assume x: "df_nodes g = us @ x # vs" and t: "tally t (map (\<lambda>p. dn_operation (snd p)) us)"
  have "x \<in> set (df_nodes g)" using x by simp
  then have "dfg_node g (fst x) = Some (snd x)" using om_get_mem[OF assms(1), of "fst x" "snd x"] by (simp add: dfg_node_def)
  then have "dn_operation (snd x) \<noteq> []" using assms(2) unfolding named_def by blast
  then show "\<exists>t'. (case x of (k, n) \<Rightarrow> if dn_operation n = [] then None else Some (count_op t (dn_operation n))) = Some t' \<and>
      tally t' (map (\<lambda>p. dn_operation (snd p)) (us @ [x]))"
    using tally_count[OF t] by (cases x) simp
qed simp

lemma calAdgOpCnt_ok:
  assumes ar: "arch_ok a" and s: "mr_adgOpCnt s = []"
  shows "\<exists>t. calAdgOpCnt a s = Some (s\<lparr>mr_adgOpCnt := t\<rparr>) \<and> tally t (adg_ops a)"
proof -
  let ?f = "\<lambda>t (k, n). if is_gib n then Some t else do { fu \<leftarrow> as_fu n; Some (foldl count_op t (an_operations fu)) }"
  let ?ops = "\<lambda>p. if is_gib (snd p) then [] else an_operations (snd p)"
  have "\<exists>t. mfold ?f [] (ag_nodes a) = Some t \<and> tally t (concat (map ?ops (ag_nodes a)))"
  proof (rule mfold_prefix[where J = "\<lambda>us t. tally t (concat (map ?ops us))"])
    fix us x vs and t :: "(string, int) omap"
    assume x: "ag_nodes a = us @ x # vs" and t: "tally t (concat (map ?ops us))"
    have "x \<in> set (ag_nodes a)" using x by simp
    then have "adg_node a (fst x) = Some (snd x)" using om_get_mem[of "ag_nodes a" "fst x" "snd x"] ar by (simp add: adg_node_def arch_ok_def)
    then have "is_fu (snd x) \<or> is_gib (snd x)" using ar unfolding arch_ok_def adg_ok_def anode_ok_def by blast
    then show "\<exists>t'. ?f t x = Some t' \<and> tally t' (concat (map ?ops (us @ [x])))"
      using tally_counts[OF t] t by (auto simp: as_fu_def split: prod.splits)
  qed simp
  then show ?thesis using s by (auto simp: calAdgOpCnt_def adg_ops_def)
qed

section \<open>The check\<close>

text \<open>No count is so large that its conversion to 64 bits changes it.\<close>

definition small_counts :: "top_adg \<Rightarrow> dfg \<Rightarrow> bool" where
  "small_counts a g \<longleftrightarrow> 0 \<le> ag_numIobNodes a \<and> ag_numIobNodes a < 2 ^ 64 \<and> 0 \<le> ag_numGpeNodes a \<and> ag_numGpeNodes a < 2 ^ 64 \<and>
     length (df_ioNodes g) \<le> length (df_nodes g) \<and> int (length (df_nodes g)) < 2 ^ 64"

definition enough :: "top_adg \<Rightarrow> dfg \<Rightarrow> bool" where
  "enough a g \<longleftrightarrow> int (length (df_ioNodes g)) \<le> ag_numIobNodes a \<and>
     int (length (df_nodes g) - length (df_ioNodes g)) \<le> ag_numGpeNodes a \<and>
     (\<forall>op. count_list (dfg_ops g) op \<le> count_list (adg_ops a) op)"

lemma preMapCheck_ok:
  assumes sm: "small_counts a g" and g: "om_wf (df_nodes g)" "named g" and s: "tally (mr_adgOpCnt s) (adg_ops a)"
  shows "preMapCheck a g s = Some (enough a g)"
proof -
  obtain t where t: "dfgOpCnt g = Some t" "tally t (dfg_ops g)" using dfgOpCnt_ok[OF g] by blast
  have wf: "om_wf t" using t(2) by (simp add: tally_def)
  have "list_all (\<lambda>(op, n). \<not> om_at 0 (mr_adgOpCnt s) op < n) t \<longleftrightarrow> (\<forall>op n. om_get t op = Some n \<longrightarrow> n \<le> int (count_list (adg_ops a) op))"
    unfolding list_all_iff om_get_mem[OF wf, symmetric] by (auto simp: tally_at[OF s] not_less)
  also have "\<dots> \<longleftrightarrow> (\<forall>op. count_list (dfg_ops g) op \<le> count_list (adg_ops a) op)"
  proof -
    have "count_list (dfg_ops g) op = 0" if "op \<notin> set (dfg_ops g)" for op using that by simp
    then show ?thesis using t(2) unfolding tally_def by (metis (no_types, lifting) of_nat_le_iff option.inject option.distinct(1) le0)
  qed
  finally have cnt: "list_all (\<lambda>(op, n). \<not> om_at 0 (mr_adgOpCnt s) op < n) t \<longleftrightarrow>
      (\<forall>op. count_list (dfg_ops g) op \<le> count_list (adg_ops a) op)" .
  have "size_t (ag_numIobNodes a) = ag_numIobNodes a" "size_t (ag_numGpeNodes a) = ag_numGpeNodes a"
    "size_t (int (length (df_ioNodes g))) = int (length (df_ioNodes g))"
    "size_t (int (length (df_nodes g)) - int (length (df_ioNodes g))) = int (length (df_nodes g) - length (df_ioNodes g))"
    using sm by (simp_all add: small_counts_def size_t_def of_nat_diff)
  then show ?thesis using t(1) cnt by (auto simp: preMapCheck_def enough_def Let_def)
qed

section \<open>Nothing mappable is rejected\<close>

lemma card_entries:
  assumes "om_wf t"
  shows "card {k. \<exists>v. om_get t k = Some v \<and> P v} = length (filter (\<lambda>p. P (snd p)) t)"
proof -
  have d: "distinct (map fst (filter (\<lambda>p. P (snd p)) t))" using om_wf_distinct[OF assms] by (simp add: distinct_map_filter)
  have "{k. \<exists>v. om_get t k = Some v \<and> P v} = fst ` set (filter (\<lambda>p. P (snd p)) t)"
    using om_get_mem[OF assms] by force
  then show ?thesis using distinct_card[OF d] by simp
qed

lemma count_map_filter: "count_list (map f xs) y = length (filter (\<lambda>x. f x = y) xs)"
  by (induction xs) auto

lemma count_concat: "(\<And>x. x \<in> set xs \<Longrightarrow> P x \<Longrightarrow> y \<in> set (f x)) \<Longrightarrow> length (filter P xs) \<le> count_list (concat (map f xs)) y"
proof (induction xs)
  case (Cons x xs)
  have "P x \<Longrightarrow> 0 < count_list (f x) y" using Cons.prems[of x] count_list_0_iff[of "f x" y] by (simp del: count_list_0_iff)
  then show ?case using Cons by fastforce
qed simp

text \<open>The counters of the ADG are those of its nodes, and computing operations are on GPEs only.\<close>

definition counters_ok :: "top_adg \<Rightarrow> bool" where
  "counters_ok a \<longleftrightarrow> ag_numIobNodes a = int (card {k. \<exists>n. adg_node a k = Some n \<and> gn_type n = ''IOB''}) \<and>
     ag_numGpeNodes a = int (card {k. \<exists>n. adg_node a k = Some n \<and> gn_type n = ''GPE''})"

definition gpe_only :: "top_adg \<Rightarrow> dfg \<Rightarrow> bool" where
  "gpe_only a g \<longleftrightarrow> (\<forall>n nd k fu. dfg_node g n = Some nd \<longrightarrow> dn_io nd = None \<longrightarrow> adg_node a k = Some fu \<longrightarrow> is_fu fu \<longrightarrow>
     fu_opCapable fu (dn_operation nd) \<longrightarrow> gn_type fu = ''GPE'')"

lemma enough_if_mapped:
  assumes ar: "arch_ok a" and co: "counters_ok a" "gpe_only a g" and gd: "good a g"
    and m: "place_inv m" "placed m \<subseteq> fst ` set (df_nodes g)" "capable g a m" "map_success g m"
  shows "enough a g"
proof -
  have wf: "om_wf (df_nodes g)" using gd by (simp add: good_def dfg_sound_def dfg_wf_def)
  have awf: "om_wf (ag_nodes a)" using ar by (simp add: arch_ok_def)
  let ?at = "\<lambda>n. the (mappedAdg m n)"
  have all: "om_has (df_nodes g) n \<Longrightarrow> mappedAdg m n \<noteq> None" for n
    using map_success_iff[OF m(1) wf m(2)] m(4) by (simp add: isMappedDfg_iff)
  have fu: "\<exists>fu. adg_node a (?at n) = Some fu \<and> is_fu fu \<and> fu_opCapable fu (dn_operation nd)" if "dfg_node g n = Some nd" for n nd
  proof -
    have "om_has (df_nodes g) n" using that by (simp add: dfg_node_def om_has_iff)
    then obtain k where "mappedAdg m n = Some k" using all by blast
    then show ?thesis using m(3) that unfolding capable_def by fastforce
  qed
  have le: "card X \<le> card Y" if X: "\<And>n. n \<in> X \<Longrightarrow> om_has (df_nodes g) n \<and> ?at n \<in> Y"
      and Y: "Y \<subseteq> fst ` set (ag_nodes a)" for X Y
  proof (rule card_inj_on_le)
    have "n = n'" if "mappedAdg m n = Some k" "mappedAdg m n' = Some k" for n n' k
      using m(1) that unfolding place_inv_def by (metis option.inject)
    then show "inj_on ?at X" using X all unfolding inj_on_def by (metis option.collapse)
    show "?at ` X \<subseteq> Y" using X by blast
    show "finite Y" by (rule finite_subset[OF Y]) simp
  qed
  have node: "om_has (df_nodes g) n \<longleftrightarrow> (\<exists>nd. dfg_node g n = Some nd)" for n by (simp add: dfg_node_def om_has_iff)
  have ng: "node_good a g n nd" if "dfg_node g n = Some nd" for n nd using gd that unfolding good_def by blast
  have adg_sub: "{k. \<exists>n. adg_node a k = Some n \<and> P n} \<subseteq> fst ` set (ag_nodes a)" for P
    using om_has_set[of "ag_nodes a"] by (auto simp: adg_node_def om_has_iff)
  have io: "n \<in> set (df_ioNodes g) \<Longrightarrow> om_has (df_nodes g) n" for n using gd unfolding good_def by blast
  have "card (set (df_ioNodes g)) \<le> card {k. \<exists>n. adg_node a k = Some n \<and> gn_type n = ''IOB''}"
  proof (rule le[OF _ adg_sub])
    fix n assume n: "n \<in> set (df_ioNodes g)"
    then obtain nd where nd: "dfg_node g n = Some nd" using io node by blast
    then obtain f where f: "adg_node a (?at n) = Some f" "is_fu f" "fu_opCapable f (dn_operation nd)" using fu by blast
    then have "gn_type f = ''IOB''" using ng[OF nd] n unfolding node_good_def io_only_def by blast
    then show "om_has (df_nodes g) n \<and> ?at n \<in> {k. \<exists>n. adg_node a k = Some n \<and> gn_type n = ''IOB''}" using f nd node by blast
  qed
  moreover have "card (set (df_ioNodes g)) = length (df_ioNodes g)" using gd by (simp add: good_def distinct_card)
  moreover have "card (fst ` set (df_nodes g) - set (df_ioNodes g)) \<le> card {k. \<exists>n. adg_node a k = Some n \<and> gn_type n = ''GPE''}"
  proof (rule le[OF _ adg_sub])
    fix n assume n: "n \<in> fst ` set (df_nodes g) - set (df_ioNodes g)"
    then obtain nd where nd: "dfg_node g n = Some nd" using node om_has_set by (metis DiffE)
    then obtain f where f: "adg_node a (?at n) = Some f" "is_fu f" "fu_opCapable f (dn_operation nd)" using fu by blast
    have "dn_io nd = None" using ng[OF nd] n unfolding node_good_def by blast
    then have "gn_type f = ''GPE''" using co(2) nd f unfolding gpe_only_def by blast
    then show "om_has (df_nodes g) n \<and> ?at n \<in> {k. \<exists>n. adg_node a k = Some n \<and> gn_type n = ''GPE''}" using f nd node by blast
  qed
  moreover have "card (fst ` set (df_nodes g) - set (df_ioNodes g)) = length (df_nodes g) - length (df_ioNodes g)"
  proof -
    have "card (fst ` set (df_nodes g)) = length (df_nodes g)"
      using om_wf_distinct[OF wf] by (metis distinct_card length_map set_map)
    moreover have "set (df_ioNodes g) \<subseteq> fst ` set (df_nodes g)" using io unfolding om_has_set by blast
    ultimately show ?thesis using gd by (simp add: card_Diff_subset good_def distinct_card)
  qed
  moreover have "count_list (dfg_ops g) op \<le> count_list (adg_ops a) op" for op
  proof -
    have "count_list (dfg_ops g) op = card {n. \<exists>nd. dfg_node g n = Some nd \<and> dn_operation nd = op}"
      unfolding dfg_ops_def count_map_filter dfg_node_def card_entries[OF wf] ..
    also have "\<dots> \<le> card {k. \<exists>n. adg_node a k = Some n \<and> is_fu n \<and> fu_opCapable n op}"
    proof (rule le[OF _ adg_sub])
      fix n assume "n \<in> {n. \<exists>nd. dfg_node g n = Some nd \<and> dn_operation nd = op}"
      then obtain nd where nd: "dfg_node g n = Some nd" "dn_operation nd = op" by blast
      then show "om_has (df_nodes g) n \<and> ?at n \<in> {k. \<exists>n. adg_node a k = Some n \<and> is_fu n \<and> fu_opCapable n op}"
        using fu[OF nd(1)] node by auto
    qed
    also have "\<dots> = length (filter (\<lambda>p. is_fu (snd p) \<and> fu_opCapable (snd p) op) (ag_nodes a))"
      unfolding adg_node_def by (rule card_entries[OF awf])
    also have "\<dots> \<le> count_list (adg_ops a) op"
      unfolding adg_ops_def by (rule count_concat) (auto simp: fu_opCapable_def dest: fu_not_gib)
    finally show ?thesis .
  qed
  ultimately show ?thesis using co(1) by (simp add: enough_def counters_ok_def)
qed

section \<open>The contract of the mapper\<close>

lemma mapperTimed_ok:
  assumes E: "env_ok E" "arch_ok a" "pass_ok E a" "banks_ok a" "fp_ok (en_fp E)" and rdy: "sa_ready a s" and old: "old_ok a sc"
    and pre: "small_counts a (mr_dfg s)" "named (mr_dfg s)" "tally (mr_adgOpCnt s) (adg_ops a)"
  shows "\<exists>ok s' sc'. mapperTimed E a (s, sc) = Some (ok, s', sc') \<and> old_ok a sc' \<and>
    (ok \<longrightarrow> sa_ready a s' \<and> mapped_in_sync a (mr_dfg s') (snd (mr_mapping s')))"
proof -
  have "om_wf (df_nodes (mr_dfg s))" using rdy by (simp add: sa_ready_def staged_def good_def dfg_sound_def dfg_wf_def)
  from preMapCheck_ok[OF pre(1) this pre(2,3)] have p: "preMapCheck a (mr_dfg s) s = Some (enough a (mr_dfg s))" .
  show ?thesis
    using run_mapper_ok[OF E rdy old] p old by (cases "enough a (mr_dfg s)") (auto simp: mapperTimed_def)
qed

text \<open>C1: \<open>mapperTimed\<close> always returns, with or without the optimisation loop, and when it returns
  true the mapping it leaves is complete, every node is on a functional unit that has its
  operation, every DFG edge is routed over a legal path and every operand arrives exactly when
  its consumer starts, in spite of the PASS nodes inserted and the mappings restored meanwhile.\<close>

theorem mapperTimed_correct:
  assumes "env_ok E" "arch_ok a" "pass_ok E a" "banks_ok a" "fp_ok (en_fp E)" "sa_ready a s" "old_ok a sc"
    "small_counts a (mr_dfg s)" "named (mr_dfg s)" "tally (mr_adgOpCnt s) (adg_ops a)"
  shows "\<exists>ok s' sc'. mapperTimed E a (s, sc) = Some (ok, s', sc') \<and> old_ok a sc' \<and>
    (ok \<longrightarrow> sa_ready a s' \<and> mapped_in_sync a (mr_dfg s') (snd (mr_mapping s')))"
  by (rule mapperTimed_ok[OF assms])

text \<open>C23: The check before mapping is exact: it returns true just when there are enough I/O blocks,
  enough processing elements, and for every operation at least as many units as DFG nodes.\<close>

theorem preMapCheck_exact:
  assumes "small_counts a g" "om_wf (df_nodes g)" "named g" "tally (mr_adgOpCnt s) (adg_ops a)"
  shows "preMapCheck a g s = Some (int (length (df_ioNodes g)) \<le> ag_numIobNodes a \<and>
     int (length (df_nodes g) - length (df_ioNodes g)) \<le> ag_numGpeNodes a \<and>
     (\<forall>op. count_list (dfg_ops g) op \<le> count_list (adg_ops a) op))"
  using preMapCheck_ok[OF assms] by (simp add: enough_def)

text \<open>C24: The check before mapping rejects nothing that can be mapped: if any one-to-one placement
  puts every node on a unit with its operation, the check passes with the counts of
  \<open>calAdgOpCnt\<close>.\<close>

theorem preMapCheck_keeps_mappable:
  assumes "arch_ok a" "counters_ok a" "gpe_only a g" "good a g" "small_counts a g" "named g"
    and s: "mr_adgOpCnt s0 = []" "calAdgOpCnt a s0 = Some s"
    and m: "place_inv m" "placed m \<subseteq> fst ` set (df_nodes g)" "capable g a m" "map_success g m"
  shows "preMapCheck a g s = Some True"
proof -
  have "tally (mr_adgOpCnt s) (adg_ops a)" using calAdgOpCnt_ok[OF assms(1) s(1)] s(2) by auto
  moreover have "om_wf (df_nodes g)" using assms(4) by (simp add: good_def dfg_sound_def dfg_wf_def)
  ultimately show ?thesis
    using preMapCheck_ok[OF assms(5) _ assms(6)] enough_if_mapped[OF assms(1-4) m] by simp
qed

text \<open>C22: \<open>setDFG\<close> prepares the mapper for any well-formed acyclic DFG: it returns, the DFG gets a
  topological order of all its nodes, the mapping is empty and refers to it, and every operation
  of the DFG has its count.\<close>

theorem setDFG_ready:
  assumes "good a g" "arch_ok a"
  shows "\<exists>s'. setDFG a g b s = Some s' \<and> sa_ready a s' \<and> mr_mapping s' = (mr_dfg s', new_Mapping)"
proof -
  from setDFG_ok[OF assms] obtain s' where "setDFG a g b s = Some s'" "staged a (mr_dfg s')"
    "mr_mapping s' = (mr_dfg s', new_Mapping)" "mr_placeOrder s' = df_topoNodes (mr_dfg s')" "left_ok (mr_dfg s') (mr_opLeft s')" by blast
  then show ?thesis by (simp add: sa_ready_def)
qed

end
