(* ===== verification/MapperDist.thy ===== *)
theory MapperDist
  imports Mapper RouteSearch
begin

text \<open>
  The distance table of the mapper is the table of shortest paths: \<open>calAdgNodeDist\<close> records for
  two functional units the least number of hops over interconnect blocks (a registered link
  between two blocks counts two), or the largest \<open>int\<close> when there is no path.
\<close>

section \<open>One step of Floyd's algorithm\<close>

definition relaxed :: "nat \<Rightarrow> matrix \<Rightarrow> nat \<Rightarrow> nat \<Rightarrow> int" where
  "relaxed k M i j = (if M i k < int_inf \<and> M k j < int_inf \<and> M i j > M i k + M k j then M i k + M k j else M i j)"

lemma mat_set_at: "mat_set i j x M x1 y1 = (if x1 = i \<and> y1 = j then x else M x1 y1)"
  by (simp add: mat_set_def)

lemma relax_at: "relax k i M j x y = (if x = i \<and> y = j then relaxed k M i j else M x y)"
  by (auto simp: relax_def relaxed_def mat_set_at)

text \<open>Updating in place is harmless: neither row \<open>k\<close> nor column \<open>k\<close> changes in step \<open>k\<close>.\<close>

lemma relaxed_pivot:
  "M k k = 0 \<Longrightarrow> relaxed k M i k = M i k" "M k k = 0 \<Longrightarrow> relaxed k M k j = M k j"
  by (simp_all add: relaxed_def)

lemma row_at:
  assumes "M k k = 0"
  shows "foldl (relax k i) M js x y = (if x = i \<and> y \<in> set js then relaxed k M i y else M x y)"
proof (induction js arbitrary: x y rule: rev_induct)
  case (snoc j js)
  let ?N = "foldl (relax k i) M js"
  have piv: "?N i k = M i k" "?N k j = M k j" using snoc[of i k] snoc[of k j] relaxed_pivot[where M = M and k = k, OF assms] by auto
  have "relaxed k ?N i j = relaxed k M i j"
    using snoc[of i j] piv by (auto simp: relaxed_def)
  moreover have "foldl (relax k i) M (js @ [j]) x y = relax k i ?N j x y" by simp
  ultimately show ?case using snoc[of x y] unfolding relax_at[of k i ?N j x y] by auto
qed simp

lemma rows_at:
  assumes "M k k = 0"
  shows "foldl (floyd_row n k) M is x y = (if x \<in> set is \<and> y < n then relaxed k M x y else M x y)"
proof (induction "is" arbitrary: x y rule: rev_induct)
  case (snoc i "is")
  let ?N = "foldl (floyd_row n k) M is"
  have kk: "?N k k = 0" using snoc[of k k] relaxed_pivot[where M = M and k = k, OF assms] assms by simp
  have piv: "?N x k = M x k" "?N k y = M k y" for x y using snoc[of x k] snoc[of k y] relaxed_pivot[where M = M and k = k, OF assms] by auto
  have "relaxed k ?N i y = relaxed k M i y"
    using snoc[of i y] piv by (auto simp: relaxed_def)
  moreover have "foldl (floyd_row n k) M (is @ [i]) x y = foldl (relax k i) ?N [0..<n] x y"
    unfolding foldl_append foldl_Cons foldl_Nil by (simp only: floyd_row_def)
  ultimately show ?case using snoc[of x y] row_at[where M = ?N and k = k, OF kk, of i "[0..<n]" x y] by auto
qed simp

lemma step_at:
  assumes "M k k = 0"
  shows "floyd_step n gib M k x y = (if gib k \<and> x < n \<and> y < n then relaxed k M x y else M x y)"
  by (simp add: floyd_step_def rows_at[where M = M and k = k, OF assms])

section \<open>Walks\<close>

fun walk_len :: "matrix \<Rightarrow> nat \<Rightarrow> nat list \<Rightarrow> nat \<Rightarrow> int" where
  "walk_len M i [] j = M i j"
| "walk_len M i (v # vs) j = M i v + walk_len M v vs j"

fun walk_ok :: "matrix \<Rightarrow> nat \<Rightarrow> nat list \<Rightarrow> nat \<Rightarrow> bool" where
  "walk_ok M i [] j = (M i j < int_inf)"
| "walk_ok M i (v # vs) j = (M i v < int_inf \<and> walk_ok M v vs j)"

lemma walk_len_append: "walk_len M i (vs @ k # ws) j = walk_len M i vs k + walk_len M k ws j"
  by (induction vs arbitrary: i) auto

lemma walk_ok_append: "walk_ok M i (vs @ k # ws) j \<longleftrightarrow> walk_ok M i vs k \<and> walk_ok M k ws j"
  by (induction vs arbitrary: i) auto

lemma walk_len_nonneg: "(\<And>i j. 0 \<le> M i j) \<Longrightarrow> 0 \<le> walk_len M i vs j"
  by (induction vs arbitrary: i) (auto simp: add_nonneg_nonneg)

text \<open>\<open>M\<close> holds the shortest walks whose inner nodes are in \<open>K\<close>.\<close>

definition shortest :: "nat \<Rightarrow> matrix \<Rightarrow> nat set \<Rightarrow> matrix \<Rightarrow> bool" where
  "shortest n W K M \<longleftrightarrow> (\<forall>i j. 0 \<le> M i j \<and> M i j \<le> int_inf) \<and> (\<forall>i < n. M i i = 0) \<and>
     (\<forall>i j. i < n \<longrightarrow> j < n \<longrightarrow>
        (\<forall>vs. set vs \<subseteq> K \<longrightarrow> M i j \<le> walk_len W i vs j) \<and>
        (M i j < int_inf \<longrightarrow> (\<exists>vs. set vs \<subseteq> K \<and> walk_ok W i vs j \<and> walk_len W i vs j = M i j)))"

lemma shortest_start:
  assumes "\<forall>i j. 0 \<le> W i j \<and> W i j \<le> int_inf" "\<forall>i < n. W i i = 0"
  shows "shortest n W {} W"
  using assms unfolding shortest_def by (auto intro!: exI[of _ "[]"])

lemma shortest_step:
  assumes W: "\<And>i j. 0 \<le> W i j" and s: "shortest n W K M" and K: "K \<subseteq> {..<n}" and k: "k < n" "gib k"
  shows "shortest n W (insert k K) (floyd_step n gib M k)"
proof -
  have kk: "M k k = 0" and bnd: "0 \<le> M i j" "M i j \<le> int_inf" and diag: "i < n \<Longrightarrow> M i i = 0"
    and low: "i < n \<Longrightarrow> j < n \<Longrightarrow> set vs \<subseteq> K \<Longrightarrow> M i j \<le> walk_len W i vs j"
    and att: "i < n \<Longrightarrow> j < n \<Longrightarrow> M i j < int_inf \<Longrightarrow> \<exists>vs. set vs \<subseteq> K \<and> walk_ok W i vs j \<and> walk_len W i vs j = M i j" for i j vs
    using s k(1) unfolding shortest_def by blast+
  let ?N = "floyd_step n gib M k"
  have N: "?N i j = relaxed k M i j" if "i < n" "j < n" for i j using step_at[where M = M and k = k, OF kk] k(2) that by simp
  have out: "?N i j = M i j" if "\<not> (i < n \<and> j < n)" for i j using step_at[where M = M and k = k, OF kk] that by auto
  have le: "relaxed k M i j \<le> M i j" "0 \<le> relaxed k M i j" for i j using bnd by (auto simp: relaxed_def)
  have "0 \<le> ?N i j \<and> ?N i j \<le> int_inf" for i j
    using N[of i j] out[of i j] le[of i j] bnd[of i j] by (cases "i < n \<and> j < n") auto
  moreover have "?N i i = 0" if "i < n" for i using N[OF that that] le[of i i] diag[OF that] by simp
  moreover have "?N i j \<le> walk_len W i vs j" if ij: "i < n" "j < n" and vs: "set vs \<subseteq> insert k K" for i j vs
  proof (cases "k \<in> set vs")
    case False
    then have "M i j \<le> walk_len W i vs j" using low[OF ij] vs by blast
    then show ?thesis using N[OF ij] le(1)[of i j] by simp
  next
    case True
    then obtain as rest where v: "vs = as @ k # rest" "k \<notin> set as" using split_list_first by metis
    obtain cs where cs: "set cs \<subseteq> set rest - {k}" "walk_len W k cs j \<le> walk_len W k rest j"
    proof (cases "k \<in> set rest")
      case True
      then obtain bs cs where r: "rest = bs @ k # cs" "k \<notin> set cs" using split_list_last by metis
      have "0 \<le> walk_len W k bs k" by (rule walk_len_nonneg) (rule W)
      then show ?thesis using that[of cs] r by (auto simp: walk_len_append)
    qed (use that[of rest] in auto)
    have a: "M i k \<le> walk_len W i as k" using low[OF ij(1) k(1), of as] v vs by auto
    have b: "M k j \<le> walk_len W k cs j" using low[OF k(1) ij(2), of cs] v vs cs(1) by auto
    have tot: "walk_len W i vs j = walk_len W i as k + walk_len W k rest j" by (simp add: v(1) walk_len_append)
    have "relaxed k M i j \<le> M i k + M k j"
      using bnd(2)[of i j] bnd(1)[of i k] bnd(1)[of k j] by (auto simp: relaxed_def)
    then show ?thesis using N[OF ij] a b cs(2) tot by linarith
  qed
  moreover have "\<exists>vs. set vs \<subseteq> insert k K \<and> walk_ok W i vs j \<and> walk_len W i vs j = ?N i j"
    if ij: "i < n" "j < n" and fin: "?N i j < int_inf" for i j
  proof (cases "M i k < int_inf \<and> M k j < int_inf \<and> M i j > M i k + M k j")
    case True
    then have eq: "?N i j = M i k + M k j" using N[OF ij] by (simp add: relaxed_def)
    obtain vs where vs: "set vs \<subseteq> K" "walk_ok W i vs k" "walk_len W i vs k = M i k"
      using att[OF ij(1) k(1)] True by blast
    obtain ws where ws: "set ws \<subseteq> K" "walk_ok W k ws j" "walk_len W k ws j = M k j"
      using att[OF k(1) ij(2)] True by blast
    show ?thesis
      using vs ws eq by (intro exI[of _ "vs @ k # ws"]) (auto simp: walk_len_append walk_ok_append)
  next
    case False
    then have "?N i j = M i j" using N[OF ij] by (auto simp: relaxed_def)
    then show ?thesis using att[OF ij] fin by fastforce
  qed
  ultimately show ?thesis unfolding shortest_def by blast
qed

lemma floyd_shortest:
  assumes W: "\<forall>i j. 0 \<le> W i j \<and> W i j \<le> int_inf" "\<forall>i < n. W i i = 0"
  shows "shortest n W {k. k < n \<and> gib k} (floyd n gib W)"
proof -
  have "m \<le> n \<Longrightarrow> shortest n W {k. k < m \<and> gib k} (foldl (floyd_step n gib) W [0..<m])" for m
  proof (induction m)
    case 0
    then show ?case using shortest_start[OF W] by simp
  next
    case (Suc m)
    then have ih: "shortest n W {k. k < m \<and> gib k} (foldl (floyd_step n gib) W [0..<m])" and m: "m < n" by auto
    show ?case
    proof (cases "gib m")
      case True
      have "{k. k < Suc m \<and> gib k} = insert m {k. k < m \<and> gib k}" using True by (auto simp: less_Suc_eq)
      moreover have "{k. k < m \<and> gib k} \<subseteq> {..<n}" using m by auto
      ultimately show ?thesis using shortest_step[where W = W and M = "foldl (floyd_step n gib) W [0..<m]" and gib = gib, OF _ ih _ m True] W(1) m by auto
    next
      case False
      then have "{k. k < Suc m \<and> gib k} = {k. k < m \<and> gib k}" by (auto simp: less_Suc_eq)
      then show ?thesis using ih False by (simp add: floyd_step_def[of n gib _ m])
    qed
  qed
  then show ?thesis unfolding floyd_def by blast
qed

section \<open>The direct links\<close>

text \<open>What the code takes for the distance of two neighbours: the lowest input port of \<open>t\<close> that \<open>s\<close>
  drives decides; there is no distance without a link.\<close>

definition link_dist :: "top_adg \<Rightarrow> int \<Rightarrow> int \<Rightarrow> int" where
  "link_dist a s t = (if s = t then 0
     else case adg_node a t of None \<Rightarrow> int_inf
       | Some T \<Rightarrow> (case find (\<lambda>(p, (i, q)). i = s) (gn_inputs T) of None \<Rightarrow> int_inf
           | Some (p, (i, q)) \<Rightarrow>
               (case adg_node a s of None \<Rightarrow> 1
                | Some S \<Rightarrow> if is_gib S \<and> is_gib T \<and> gib_outReged S q then 2 else 1)))"

definition adg_linked :: "top_adg \<Rightarrow> bool" where
  "adg_linked a \<longleftrightarrow> om_wf (ag_nodes a) \<and>
     (\<forall>t T. adg_node a t = Some T \<longrightarrow> (\<forall>(p, (i, q)) \<in> set (gn_inputs T). om_has (ag_nodes a) i))"

lemma has_key: "om_has m k \<longleftrightarrow> k \<in> set (map fst m)"
  by (simp add: om_has_set)

lemma node_idx_less: "om_has (ag_nodes a) k \<Longrightarrow> node_idx a k < length (ag_nodes a)"
proof -
  assume "om_has (ag_nodes a) k"
  then have k: "k \<in> set (map fst (ag_nodes a))" by (rule iffD1[OF has_key])
  show ?thesis unfolding node_idx_def Let_def if_P[OF k] using idx_less[OF k] by simp
qed

lemma node_idx_inj:
  assumes "om_has (ag_nodes a) k" "om_has (ag_nodes a) l" "node_idx a k = node_idx a l"
  shows "k = l"
proof -
  have k: "k \<in> set (map fst (ag_nodes a))" and l: "l \<in> set (map fst (ag_nodes a))"
    by (rule iffD1[OF has_key], rule assms)+
  have "node_idx a k = index_of (map fst (ag_nodes a)) k" "node_idx a l = index_of (map fst (ag_nodes a)) l"
    unfolding node_idx_def Let_def if_P[OF k] if_P[OF l] by (rule refl)+
  then show ?thesis using nth_idx[OF k] nth_idx[OF l] assms(3) by metis
qed

text \<open>The columns of the processed nodes \<open>P\<close> are filled, the others are not touched.\<close>

definition links_in :: "top_adg \<Rightarrow> int set \<Rightarrow> matrix \<Rightarrow> bool" where
  "links_in a P M \<longleftrightarrow> (\<forall>s t. om_has (ag_nodes a) s \<longrightarrow> om_has (ag_nodes a) t \<longrightarrow>
     M (node_idx a s) (node_idx a t) = (if t \<in> P then link_dist a s t else int_inf)) \<and>
     (\<forall>i j. 0 \<le> M i j \<and> M i j \<le> int_inf)"

text \<open>The inputs of one node, with the ones already seen in \<open>us\<close>.\<close>

definition col_in :: "top_adg \<Rightarrow> int \<Rightarrow> anode \<Rightarrow> (int \<times> int \<times> int) list \<Rightarrow> matrix \<Rightarrow> bool" where
  "col_in a t T us M \<longleftrightarrow> (\<forall>s. om_has (ag_nodes a) s \<longrightarrow> M (node_idx a s) (node_idx a t) =
     (if s = t then 0 else case find (\<lambda>(p, (i, q)). i = s) us of None \<Rightarrow> int_inf
      | Some (p, (i, q)) \<Rightarrow> (case adg_node a s of None \<Rightarrow> 1
          | Some S \<Rightarrow> if is_gib S \<and> is_gib T \<and> gib_outReged S q then 2 else 1)))"

lemma find_snoc: "find P (xs @ [x]) = (case find P xs of None \<Rightarrow> if P x then Some x else None | Some y \<Rightarrow> Some y)"
  by (induction xs) auto

lemma dist_input_ok:
  assumes t: "om_has (ag_nodes a) t" and src: "om_has (ag_nodes a) (fst (snd x))" and M: "col_in a t T us M"
  shows "\<exists>M'. dist_input a T (node_idx a t) M x = Some M' \<and> col_in a t T (us @ [x]) M' \<and>
    (\<forall>i j. j \<noteq> node_idx a t \<longrightarrow> M' i j = M i j) \<and> (\<forall>i j. 0 \<le> M i j \<and> M i j \<le> int_inf \<longrightarrow> 0 \<le> M' i j \<and> M' i j \<le> int_inf)"
proof -
  obtain p i q where x: "x = (p, i, q)" by (cases x)
  obtain S where S: "adg_node a i = Some S" using src x by (auto simp: om_has_iff adg_node_def)
  let ?d = "if is_gib S \<and> is_gib T \<and> gib_outReged S q then 2 else 1"
  let ?c = "M (node_idx a i) (node_idx a t)"
  have c: "?c = (if i = t then 0 else case find (\<lambda>(p, (i', q)). i' = i) us of None \<Rightarrow> int_inf
      | Some (p, (i', q)) \<Rightarrow> if is_gib S \<and> is_gib T \<and> gib_outReged S q then 2 else 1)"
    using M src x S by (auto simp: col_in_def split: option.splits)
  show ?thesis
  proof (cases "?c = int_inf")
    case True
    let ?M = "mat_set (node_idx a i) (node_idx a t) ?d M"
    have new: "find (\<lambda>(p, (i', q)). i' = i) us = None" "i \<noteq> t"
      using c True by (auto split: if_splits option.splits prod.splits)
    have "col_in a t T (us @ [x]) ?M"
      unfolding col_in_def
    proof (intro allI impI)
      fix s assume s: "om_has (ag_nodes a) s"
      show "?M (node_idx a s) (node_idx a t) = (if s = t then 0 else case find (\<lambda>(p, (i, q)). i = s) (us @ [x]) of None \<Rightarrow> int_inf
        | Some (p, (i, q)) \<Rightarrow> (case adg_node a s of None \<Rightarrow> 1
            | Some S \<Rightarrow> if is_gib S \<and> is_gib T \<and> gib_outReged S q then 2 else 1))"
      proof (cases "s = i")
        case True
        then show ?thesis using new x S by (simp add: mat_set_at find_snoc)
      next
        case False
        then have "node_idx a s \<noteq> node_idx a i" using node_idx_inj[of a s i] s src x by auto
        then show ?thesis using M s False x by (auto simp: mat_set_at col_in_def find_snoc split: option.splits)
      qed
    qed
    moreover have "dist_input a T (node_idx a t) M x = Some ?M" using True x S by (simp add: dist_input_def Let_def)
    ultimately show ?thesis by (auto simp: mat_set_at)
  next
    case False
    have "col_in a t T (us @ [x]) M"
      using M c False x unfolding col_in_def find_snoc by (auto split: option.splits if_splits)
    then show ?thesis using False x by (simp add: dist_input_def Let_def)
  qed
qed

lemma dist_node_ok:
  assumes ok: "adg_linked a" and T: "adg_node a t = Some T" "t \<notin> P" and M: "links_in a P M"
  shows "\<exists>M'. dist_node a M (t, T) = Some M' \<and> links_in a (insert t P) M'"
proof -
  have has: "om_has (ag_nodes a) t" using T(1) by (simp add: adg_node_def om_has_iff)
  let ?i = "node_idx a t"
  let ?M0 = "mat_set ?i ?i 0 M"
  let ?J = "\<lambda>us M'. col_in a t T us M' \<and> (\<forall>i j. j \<noteq> ?i \<longrightarrow> M' i j = M i j) \<and> (\<forall>i j. 0 \<le> M' i j \<and> M' i j \<le> int_inf)"
  have "\<exists>M'. mfold (dist_input a T ?i) ?M0 (gn_inputs T) = Some M' \<and> ?J (gn_inputs T) M'"
  proof (rule mfold_prefix[where J = ?J])
    have "node_idx a s = ?i \<longleftrightarrow> s = t" if "om_has (ag_nodes a) s" for s using node_idx_inj[OF that has] by auto
    then show "?J [] ?M0" using M T(2) has by (auto simp: col_in_def mat_set_at links_in_def)
    fix us x vs s assume split: "gn_inputs T = us @ x # vs" and J: "?J us s"
    have "x \<in> set (gn_inputs T)" using split by simp
    then have "om_has (ag_nodes a) (fst (snd x))" using ok T(1) unfolding adg_linked_def by fastforce
    from dist_input_ok[OF has this, of T us s] show "\<exists>s'. dist_input a T ?i s x = Some s' \<and> ?J (us @ [x]) s'"
      using J by (smt (verit, best))
  qed
  then obtain M' where M': "mfold (dist_input a T ?i) ?M0 (gn_inputs T) = Some M'" "?J (gn_inputs T) M'" by blast
  have "links_in a (insert t P) M'"
    unfolding links_in_def
  proof (intro conjI allI impI)
    fix s u assume s: "om_has (ag_nodes a) s" and u: "om_has (ag_nodes a) u"
    show "M' (node_idx a s) (node_idx a u) = (if u \<in> insert t P then link_dist a s u else int_inf)"
    proof (cases "u = t")
      case True
      then show ?thesis using M'(2) s T(1) by (auto simp: col_in_def link_dist_def)
    next
      case False
      then have "node_idx a u \<noteq> ?i" using node_idx_inj[OF u has] by auto
      then show ?thesis using M'(2) M s u False by (auto simp: links_in_def)
    qed
  qed (use M'(2) in auto)
  then show ?thesis using M'(1) by (auto simp: dist_node_def Let_def)
qed

lemma dist_init_ok:
  assumes ok: "adg_linked a"
  shows "\<exists>M. dist_init a = Some M \<and> links_in a {t. om_has (ag_nodes a) t} M"
proof -
  have wf: "om_wf (ag_nodes a)" using ok by (simp add: adg_linked_def)
  have "\<exists>M. mfold (dist_node a) (\<lambda>i j. int_inf) (ag_nodes a) = Some M \<and> links_in a ({} \<union> fst ` set (ag_nodes a)) M"
  proof (rule mfold_ghost[where J = "links_in a"])
    show "distinct (map fst (ag_nodes a))" by (rule om_wf_distinct[OF wf])
    show "links_in a {} (\<lambda>i j. int_inf)" by (simp add: links_in_def)
    fix x P M assume x: "x \<in> set (ag_nodes a)" "fst x \<notin> P" and M: "links_in a P M"
    have "adg_node a (fst x) = Some (snd x)" using x(1) om_get_mem[OF wf, of "fst x" "snd x"] by (simp add: adg_node_def)
    from dist_node_ok[OF ok this x(2) M] show "\<exists>M'. dist_node a M x = Some M' \<and> links_in a (insert (fst x) P) M'" by simp
  qed simp
  moreover have "{} \<union> fst ` set (ag_nodes a) = {t. om_has (ag_nodes a) t}"
    using om_get_mem[OF wf] by (force simp: om_has_iff)
  ultimately show ?thesis unfolding dist_init_def by simp
qed

section \<open>The table\<close>

lemma fold_put_fun:
  "om_get (foldl (\<lambda>t x. if c x then t else om_put t (key x) (val (key x))) t xs) y =
     (if \<exists>x \<in> set xs. \<not> c x \<and> key x = y then Some (val y) else om_get t y)"
  by (induction xs arbitrary: t) (auto simp: om_get_put)

definition dist_pair :: "anode \<Rightarrow> anode \<Rightarrow> bool" where
  "dist_pair s t \<longleftrightarrow> \<not> is_gib s \<and> \<not> is_gib t \<and> \<not> (gn_type s = ''IOB'' \<and> gn_type t = ''IOB'')"

lemma node_dists_get:
  assumes wf: "om_wf (ag_nodes a)" and s: "adg_node a i = Some s" and t: "adg_node a j = Some t" and p: "dist_pair s t"
  shows "om_get (node_dists a M tab) (i, j) = Some (M (node_idx a i) (node_idx a j))"
proof -
  let ?val = "\<lambda>(i, j). M (node_idx a i) (node_idx a j)"
  let ?row = "\<lambda>tab (ik, inode). if is_gib inode then tab else foldl (\<lambda>t (jk, jnode).
      if is_gib jnode \<or> (gn_type inode = ''IOB'' \<and> gn_type jnode = ''IOB'') then t
      else om_put t (ik, jk) (M (node_idx a ik) (node_idx a jk))) tab (ag_nodes a)"
  have row: "om_get (?row tab (ik, inode)) y =
      (if \<exists>(jk, jnode) \<in> set (ag_nodes a). dist_pair inode jnode \<and> (ik, jk) = y then Some (?val y) else om_get tab y)"
    for tab ik inode y
  proof -
    let ?c = "\<lambda>(jk, jnode). is_gib jnode \<or> (gn_type inode = ''IOB'' \<and> gn_type jnode = ''IOB'')"
    have eq: "(\<lambda>t (jk, jnode). if is_gib jnode \<or> (gn_type inode = ''IOB'' \<and> gn_type jnode = ''IOB'') then t
        else om_put t (ik, jk) (M (node_idx a ik) (node_idx a jk))) =
        (\<lambda>t x. if ?c x then t else om_put t (ik, fst x) (?val (ik, fst x)))"
      by (auto simp: fun_eq_iff)
    show ?thesis
      using fold_put_fun[of ?c "\<lambda>x. (ik, fst x)" ?val tab "ag_nodes a" y] unfolding prod.case eq
      by (auto simp: dist_pair_def)
  qed
  have "om_get (foldl ?row tab xs) y = (if \<exists>(ik, inode) \<in> set xs. \<exists>(jk, jnode) \<in> set (ag_nodes a).
      dist_pair inode jnode \<and> (ik, jk) = y then Some (?val y) else om_get tab y)" for xs tab y
  proof (induction xs arbitrary: tab)
    case (Cons x xs)
    obtain ik inode where x: "x = (ik, inode)" by (cases x)
    show ?case unfolding foldl_Cons Cons.IH x row by auto
  qed simp
  moreover have "(i, s) \<in> set (ag_nodes a)" "(j, t) \<in> set (ag_nodes a)"
    using s t om_get_mem[OF wf] by (simp_all add: adg_node_def)
  ultimately show ?thesis using p unfolding node_dists_def by fastforce
qed

text \<open>Walks over the architecture graph whose inner nodes are interconnect blocks.\<close>

fun hops :: "top_adg \<Rightarrow> int \<Rightarrow> int list \<Rightarrow> int \<Rightarrow> int" where
  "hops a i [] j = link_dist a i j"
| "hops a i (v # vs) j = link_dist a i v + hops a v vs j"

definition gib_ids :: "top_adg \<Rightarrow> int set" where
  "gib_ids a = {k. \<exists>n. adg_node a k = Some n \<and> is_gib n}"

lemma hops_walk:
  assumes M: "links_in a {t. om_has (ag_nodes a) t} M"
  shows "om_has (ag_nodes a) i \<Longrightarrow> om_has (ag_nodes a) j \<Longrightarrow> set vs \<subseteq> {t. om_has (ag_nodes a) t} \<Longrightarrow>
    walk_len M (node_idx a i) (map (node_idx a) vs) (node_idx a j) = hops a i vs j"
  using M by (induction vs arbitrary: i) (auto simp: links_in_def)

lemma idx_gib_ids:
  assumes wf: "om_wf (ag_nodes a)"
  shows "{k. k < length (ag_nodes a) \<and> idx_gib a k} = node_idx a ` gib_ids a"
proof (intro equalityI subsetI)
  fix i assume "i \<in> {k. k < length (ag_nodes a) \<and> idx_gib a k}"
  then have i: "i < length (ag_nodes a)" "is_gib (snd (ag_nodes a ! i))" by (auto simp: idx_gib_def)
  let ?k = "fst (ag_nodes a ! i)"
  have "(?k, snd (ag_nodes a ! i)) \<in> set (ag_nodes a)" using i(1) by simp
  then have "adg_node a ?k = Some (snd (ag_nodes a ! i))"
    unfolding adg_node_def using om_get_mem[OF wf, of ?k "snd (ag_nodes a ! i)"] by blast
  then have "?k \<in> gib_ids a" using i(2) by (auto simp: gib_ids_def)
  moreover have "node_idx a ?k = i"
    using idx_nth[OF om_wf_distinct[OF wf], of i] i(1) by (auto simp: node_idx_def)
  ultimately show "i \<in> node_idx a ` gib_ids a" by (metis imageI)
next
  fix i assume "i \<in> node_idx a ` gib_ids a"
  then obtain k n where k: "i = node_idx a k" "adg_node a k = Some n" "is_gib n" by (auto simp: gib_ids_def)
  have h: "om_has (ag_nodes a) k" using k(2) by (simp add: om_has_iff adg_node_def)
  have less: "i < length (ag_nodes a)" using node_idx_less[OF h] k(1) by simp
  have "map fst (ag_nodes a) ! i = k" using nth_idx[of k "map fst (ag_nodes a)"] h k(1) by (simp add: node_idx_def has_key)
  then have "fst (ag_nodes a ! i) = k" using less by simp
  then have "(k, snd (ag_nodes a ! i)) \<in> set (ag_nodes a)" using less by (metis nth_mem prod.collapse)
  then have "snd (ag_nodes a ! i) = n" using om_get_mem[OF wf, of k] k(2) by (simp add: adg_node_def)
  then show "i \<in> {k. k < length (ag_nodes a) \<and> idx_gib a k}" using less k(3) by (simp add: idx_gib_def)
qed

text \<open>C21: The distance \<open>calAdgNodeDist\<close> records for two functional units (not both I/O blocks) is the
  length of a shortest walk over interconnect blocks: no walk is shorter, and a distance below
  the largest \<open>int\<close> is the length of a walk. The update in place of Floyd's loop and the way the
  initial matrix is filled do not matter.\<close>

theorem calAdgNodeDist_shortest:
  assumes ok: "adg_linked a" and s: "adg_node a i = Some S" and t: "adg_node a j = Some T" and p: "dist_pair S T"
  shows "\<exists>r. calAdgNodeDist a m = Some r \<and> (\<forall>vs. set vs \<subseteq> gib_ids a \<longrightarrow> getAdgNodeDist r i j \<le> hops a i vs j) \<and>
    (getAdgNodeDist r i j = int_inf \<or> (\<exists>vs. set vs \<subseteq> gib_ids a \<and> hops a i vs j = getAdgNodeDist r i j))"
proof -
  have wf: "om_wf (ag_nodes a)" using ok by (simp add: adg_linked_def)
  obtain M where M: "dist_init a = Some M" "links_in a {t. om_has (ag_nodes a) t} M" using dist_init_ok[OF ok] by blast
  let ?n = "length (ag_nodes a)" and ?G = "{k. k < length (ag_nodes a) \<and> idx_gib a k}"
  let ?F = "floyd ?n (idx_gib a) M"
  let ?r = "m\<lparr>mr_node2node := node_dists a ?F (mr_node2node m)\<rparr>"
  have G: "?G = node_idx a ` gib_ids a" by (rule idx_gib_ids[OF wf])
  have has: "om_has (ag_nodes a) i" "om_has (ag_nodes a) j" "\<And>k. k \<in> gib_ids a \<Longrightarrow> om_has (ag_nodes a) k"
    using s t by (auto simp: om_has_iff adg_node_def gib_ids_def)
  let ?i = "node_idx a i" and ?j = "node_idx a j"
  have lt: "?i < ?n" "?j < ?n" using node_idx_less has by blast+
  have diag: "M x x = 0" if x: "x < ?n" for x
  proof -
    let ?k = "map fst (ag_nodes a) ! x"
    have k: "?k \<in> set (map fst (ag_nodes a))" using x by (metis length_map nth_mem)
    then have "om_has (ag_nodes a) ?k" by (rule iffD2[OF has_key])
    moreover have "node_idx a ?k = x"
      unfolding node_idx_def Let_def if_P[OF k] using idx_nth[OF om_wf_distinct[OF wf], of x] x by simp
    moreover have "M (node_idx a ?k) (node_idx a ?k) = 0" if "om_has (ag_nodes a) ?k"
      using M(2) that unfolding links_in_def by (simp add: link_dist_def)
    ultimately show ?thesis by metis
  qed
  have W: "\<forall>i j. 0 \<le> M i j \<and> M i j \<le> int_inf" "\<forall>i < ?n. M i i = 0" using M(2) diag by (auto simp: links_in_def)
  note sh = floyd_shortest[OF W, of "idx_gib a", unfolded shortest_def]
  have d: "getAdgNodeDist ?r i j = ?F ?i ?j"
    using node_dists_get[OF wf s t p] by (simp add: getAdgNodeDist_def om_at_def)
  have len: "walk_len M ?i (map (node_idx a) vs) ?j = hops a i vs j" if "set vs \<subseteq> gib_ids a" for vs
    by (rule hops_walk[OF M(2) has(1,2)]) (use that has(3) in auto)
  have "?F ?i ?j \<le> hops a i vs j" if vs: "set vs \<subseteq> gib_ids a" for vs
  proof -
    have "set (map (node_idx a) vs) \<subseteq> ?G" unfolding G using vs by auto
    then have "?F ?i ?j \<le> walk_len M ?i (map (node_idx a) vs) ?j" using sh lt by blast
    then show ?thesis using len[OF vs] by simp
  qed
  moreover have "?F ?i ?j = int_inf \<or> (\<exists>vs. set vs \<subseteq> gib_ids a \<and> hops a i vs j = ?F ?i ?j)"
  proof (cases "?F ?i ?j < int_inf")
    case True
    then obtain ws where ws: "set ws \<subseteq> ?G" "walk_len M ?i ws ?j = ?F ?i ?j" using sh lt by blast
    have "\<exists>vs. set vs \<subseteq> gib_ids a \<and> ws = map (node_idx a) vs"
    proof -
      have "\<forall>w \<in> set ws. \<exists>v. v \<in> gib_ids a \<and> node_idx a v = w" using ws(1) unfolding G by auto
      then obtain f where f: "\<forall>w \<in> set ws. f w \<in> gib_ids a \<and> node_idx a (f w) = w" using bchoice by metis
      then have "map (node_idx a) (map f ws) = ws" by (simp add: map_idI)
      then show ?thesis using f by (intro exI[of _ "map f ws"]) auto
    qed
    then show ?thesis using ws(2) len by metis
  next
    case False
    have "?F ?i ?j \<le> int_inf" using sh by blast
    then show ?thesis using False by auto
  qed
  moreover have "calAdgNodeDist a m = Some ?r" using M(1) by (simp add: calAdgNodeDist_def)
  ultimately show ?thesis unfolding d[symmetric] by blast
qed

end
