(* ===== verification/Examples.thy ===== *)
theory Examples
  imports Violation
begin

text \<open>
  A small DFG and a small ADG on which the hypotheses of the theorems hold: one input that two
  outputs read, and three I/O blocks around one interconnect block. The theorems at the end
  apply each property of the development to them, so that none of them holds vacuously.
\<close>

section \<open>The DFG\<close>

definition ex_node :: "int \<Rightarrow> string \<Rightarrow> dnode" where
  "ex_node n op = new_DFGNode\<lparr>gn_id := n, dn_operation := op, dn_io := Some (new_ioAttr\<lparr>io_memSize := 60\<rparr>)\<rparr>"

definition ex_edge :: "int \<Rightarrow> int \<Rightarrow> gedge" where
  "ex_edge k dst = \<lparr>ge_id = k, ge_srcPortIdx = 0, ge_dstPortIdx = 0, ge_srcId = 1, ge_dstId = dst\<rparr>"

definition ex_nodes :: dfg where
  "ex_nodes = new_DFG\<lparr>df_nodes := [(1, ex_node 1 ''INPUT''), (2, ex_node 2 ''OUTPUT''), (3, ex_node 3 ''OUTPUT'')],
     df_ioNodes := [1, 2, 3], df_topoNodes := [1, 2, 3]\<rparr>"

definition ex_n1 :: dnode where
  "ex_n1 = (ex_node 1 ''INPUT'')\<lparr>gn_outputs := [(0, [(2, 0), (3, 0)])], gn_outputEdges := [(0, [1, 2])]\<rparr>"

definition ex_sink :: "int \<Rightarrow> int \<Rightarrow> dnode" where
  "ex_sink n k = (ex_node n ''OUTPUT'')\<lparr>gn_inputs := [(0, (1, 0))], gn_inputEdges := [(0, k)]\<rparr>"

definition ex_dfg :: dfg where
  "ex_dfg = ex_nodes\<lparr>df_nodes := [(1, ex_n1), (2, ex_sink 2 1), (3, ex_sink 3 2)],
     df_edges := [(1, ex_edge 1 2), (2, ex_edge 2 3)]\<rparr>"

lemmas ex_defs = ex_node_def ex_n1_def ex_sink_def ex_edge_def ex_nodes_def ex_dfg_def new_DFG_def
  new_DFGNode_def new_ioAttr_def

lemma ex_dfg_node:
  "dfg_node ex_dfg n = Some nd \<longleftrightarrow> n = 1 \<and> nd = ex_n1 \<or> n = 2 \<and> nd = ex_sink 2 1 \<or> n = 3 \<and> nd = ex_sink 3 2"
  by (auto simp: dfg_node_def ex_dfg_def)

lemma ex_dfg_edge:
  "dfg_edge ex_dfg k = Some e \<longleftrightarrow> k = 1 \<and> e = ex_edge 1 2 \<or> k = 2 \<and> e = ex_edge 2 3"
  by (auto simp: dfg_edge_def ex_dfg_def)

lemma ex_dfg_has: "om_has (df_nodes ex_dfg) n \<longleftrightarrow> n = 1 \<or> n = 2 \<or> n = 3"
  by (auto simp: ex_dfg_def om_has_set)

lemma ex_dfg_built: "Option.bind (dfg_addEdge (ex_edge 1 2) ex_nodes) (dfg_addEdge (ex_edge 2 3)) = Some ex_dfg"
  by code_simp

lemma ex_nodes_wf: "dfg_wf ex_nodes"
  by (rule dfg_wf_edgeless) (auto simp: ex_defs om_wf_def split: if_splits)

lemma ex_nodes_facts:
  "dfg_abs ex_nodes = Map.empty" "has_node ex_nodes n \<longleftrightarrow> n = 0 \<or> n = 1 \<or> n = 2 \<or> n = 3" "in_edge ex_nodes n p = None"
proof -
  show abs: "dfg_abs ex_nodes = Map.empty" by (simp add: dfg_abs_def ex_defs fun_eq_iff)
  show "has_node ex_nodes n \<longleftrightarrow> n = 0 \<or> n = 1 \<or> n = 2 \<or> n = 3" by (auto simp: has_node_def ex_defs om_has_set)
  show "in_edge ex_nodes n p = None"
    using dfg_wf_reads(1)[OF ex_nodes_wf, of n p] abs by (cases "in_edge ex_nodes n p") auto
qed

lemma ex_edge_sel [simp]:
  "ge_id (ex_edge k d) = k" "ge_srcId (ex_edge k d) = 1" "ge_dstId (ex_edge k d) = d"
  "ge_srcPortIdx (ex_edge k d) = 0" "ge_dstPortIdx (ex_edge k d) = 0"
  by (simp_all add: ex_edge_def)

lemma ex_dfg_wf: "dfg_wf ex_dfg"
proof -
  obtain g1 where g1: "dfg_addEdge (ex_edge 1 2) ex_nodes = Some g1" "dfg_wf g1"
      "dfg_abs g1 = (dfg_abs ex_nodes)(1 \<mapsto> ex_edge 1 2)" "has_node g1 = has_node ex_nodes"
    using addEdge_ok[OF ex_nodes_wf, of "ex_edge 1 2"] ex_nodes_facts by auto
  have "in_edge g1 3 0 \<noteq> Some k" for k
    unfolding dfg_wf_reads(1)[OF g1(2)] g1(3) ex_nodes_facts by auto
  then have "in_edge g1 3 0 = None" by (cases "in_edge g1 3 0") auto
  then obtain g2 where "dfg_addEdge (ex_edge 2 3) g1 = Some g2" "dfg_wf g2"
    using addEdge_ok[OF g1(2), of "ex_edge 2 3"] g1(3,4) ex_nodes_facts by auto
  then show ?thesis using ex_dfg_built g1(1) by simp
qed

lemma ex_dfg_mappable: "dfg_mappable ex_dfg"
  unfolding dfg_mappable_def ex_dfg_edge ex_dfg_node ex_dfg_has
  by (auto simp: ex_dfg_def ex_nodes_def new_DFG_def ex_n1_def ex_sink_def ex_node_def new_DFGNode_def om_wf_def
      split: if_splits)

section \<open>The ADG\<close>

definition ex_anode :: "int \<Rightarrow> string \<Rightarrow> anode" where
  "ex_anode n ty = \<lparr>gn_id = n, gn_name = [], gn_type = ty, gn_bitWidth = 32, gn_inputs = [], gn_outputs = [],
     gn_inputEdges = [], gn_outputEdges = [], an_cfgBlkIdx = 0, an_x = 0, an_y = 0, an_configInfo = [],
     an_subADG = None, an_maxDelay = 0, an_numOperands = 0, an_operations = [], an_operandInputs = [],
     an_cfgIdMap = [], an_index = 0, an_trackReged = False, an_outReged = [], an_out2ins = [], an_in2outs = []\<rparr>"

text \<open>The inside of the blocks: a multiplexer and a delay unit before the controller of an I/O block, a
  multiplexer for every output of the interconnect block.\<close>

definition ex_module :: "int \<Rightarrow> string \<Rightarrow> (int, int \<times> int) omap \<Rightarrow> (int, (int \<times> int) oset) omap \<Rightarrow> gnode" where
  "ex_module n ty pin pout = \<lparr>gn_id = n, gn_name = [], gn_type = ty, gn_bitWidth = 32, gn_inputs = pin, gn_outputs = pout,
     gn_inputEdges = [], gn_outputEdges = []\<rparr>"

definition ex_sub :: "(int, (int \<times> int) oset) omap \<Rightarrow> (int, int \<times> int) omap \<Rightarrow> (int, gnode) omap \<Rightarrow> sub_adg" where
  "ex_sub pin pout ns = \<lparr>g_id = 0, g_bitWidth = 32, g_inputNames = [], g_outputNames = [], g_inputs = pin, g_outputs = pout,
     g_inputEdges = [], g_outputEdges = [], ag_numGpeNodes = 0, ag_numIobNodes = 0, ag_cfgDataWidth = 32,
     ag_cfgAddrWidth = 8, ag_cfgBlkOffset = 2, ag_cfgSpadDataWidth = 64, ag_cfgSpadSize = 0,
     ag_iobAgNestLevels = 0, ag_iobSpadBankSize = 0, ag_iobToSpadBanks = [], ag_nodes = ns, ag_edges = []\<rparr>"

definition ex_iob_sub :: sub_adg where
  "ex_iob_sub = ex_sub [(0, [(1, 0)])] [(0, (3, 0))]
     [(1, ex_module 1 ''Muxn'' [(0, (0, 0))] [(0, [(2, 0)])]), (2, ex_module 2 ''RDU'' [(0, (1, 0))] [(0, [(3, 0)])]),
      (3, ex_module 3 ''IOController'' [(0, (2, 0))] [(0, [(0, 0)])])]"

definition ex_gib_sub :: sub_adg where
  "ex_gib_sub = ex_sub [(0, [(2, 0), (3, 0)]), (1, [(1, 0), (3, 1)]), (2, [(1, 1), (2, 1)])] [(0, (1, 0)), (1, (2, 0)), (2, (3, 0))]
     [(1, ex_module 1 ''Muxn'' [(0, (0, 1)), (1, (0, 2))] [(0, [(0, 0)])]),
      (2, ex_module 2 ''Muxn'' [(0, (0, 0)), (1, (0, 2))] [(0, [(0, 1)])]),
      (3, ex_module 3 ''Muxn'' [(0, (0, 0)), (1, (0, 1))] [(0, [(0, 2)])])]"

definition ex_loc :: "int \<Rightarrow> int \<Rightarrow> cfgDataLoc" where
  "ex_loc lo hi = \<lparr>cl_low = lo, cl_high = hi\<rparr>"

definition ex_iob :: "int \<Rightarrow> int \<Rightarrow> anode" where
  "ex_iob n p = (ex_anode n ''IOB'')\<lparr>gn_inputs := [(0, (4, p))], gn_outputs := [(0, [(4, p)])],
     an_index := n - 1, an_numOperands := 1, an_operations := [''INPUT'', ''OUTPUT''], an_operandInputs := [[0]],
     an_cfgBlkIdx := n, an_subADG := Some ex_iob_sub,
     an_configInfo := [(1, ex_loc 0 0), (2, ex_loc 1 4), (10, ex_loc 5 15), (11, ex_loc 16 23), (12, ex_loc 24 31), (13, ex_loc 32 39),
       (14, ex_loc 40 47), (15, ex_loc 48 55), (16, ex_loc 56 63), (17, ex_loc 64 67), (18, ex_loc 68 75), (19, ex_loc 76 76)],
     an_cfgIdMap := [(''BaseAddr'', 10), (''Cycles0'', 12), (''Cycles1'', 14), (''Cycles2'', 16), (''II'', 17), (''IsStore'', 19),
       (''Latency'', 18), (''Stride0'', 11), (''Stride1'', 13), (''Stride2'', 15)]\<rparr>"

definition ex_gib :: anode where
  "ex_gib = (ex_anode 4 ''GIB'')\<lparr>gn_inputs := [(0, (1, 0)), (1, (2, 0)), (2, (3, 0))],
     gn_outputs := [(0, [(1, 0)]), (1, [(2, 0)]), (2, [(3, 0)])],
     an_out2ins := [(0, [1, 2]), (1, [0, 2]), (2, [0, 1])], an_in2outs := [(0, [1, 2]), (1, [0, 2]), (2, [0, 1])],
     an_cfgBlkIdx := 4, an_subADG := Some ex_gib_sub,
     an_configInfo := [(1, ex_loc 0 0), (2, ex_loc 1 1), (3, ex_loc 2 2)]\<rparr>"

definition ex_adg :: top_adg where
  "ex_adg = \<lparr>g_id = 0, g_bitWidth = 32, g_inputNames = [], g_outputNames = [], g_inputs = [], g_outputs = [],
     g_inputEdges = [], g_outputEdges = [], ag_numGpeNodes = 0, ag_numIobNodes = 3, ag_cfgDataWidth = 32,
     ag_cfgAddrWidth = 8, ag_cfgBlkOffset = 2, ag_cfgSpadDataWidth = 64, ag_cfgSpadSize = 1024,
     ag_iobAgNestLevels = 3, ag_iobSpadBankSize = 1024, ag_iobToSpadBanks = [(0, [0, 1]), (1, [0, 1]), (2, [2])],
     ag_nodes = [(1, ex_iob 1 0), (2, ex_iob 2 1), (3, ex_iob 3 2), (4, ex_gib)], ag_edges = []\<rparr>"

lemmas ex_adefs = ex_adg_def ex_iob_def ex_gib_def ex_anode_def

lemma ex_adg_node:
  "adg_node ex_adg k = Some n \<longleftrightarrow> (k = 1 \<and> n = ex_iob 1 0) \<or> (k = 2 \<and> n = ex_iob 2 1) \<or> (k = 3 \<and> n = ex_iob 3 2) \<or>
     (k = 4 \<and> n = ex_gib)"
  by (auto simp: ex_adg_def adg_node_def)

lemma ex_adg_has: "om_has (ag_nodes ex_adg) k \<longleftrightarrow> k = 1 \<or> k = 2 \<or> k = 3 \<or> k = 4"
  by (auto simp: ex_adg_def om_has_set)

lemma ex_iob_ok: "0 \<le> p \<Longrightarrow> anode_ok ex_adg (ex_iob n p)"
  by (auto simp: anode_ok_def is_fu_def gib_out2ins_def ex_iob_def ex_anode_def om_has_set[of "[(0, (4, p))]"] ex_adg_has om_at_def
      split: if_splits)

lemma ex_gib_ok: "anode_ok ex_adg ex_gib"
  unfolding anode_ok_def
proof (intro conjI allI impI ballI)
  show "is_fu ex_gib \<or> is_gib ex_gib" by (simp add: is_gib_def ex_gib_def ex_anode_def)
  fix p d assume "om_get (gn_inputs ex_gib) p = Some d"
  then show "0 \<le> p" "om_has (ag_nodes ex_adg) (fst d)" "0 \<le> snd d"
    by (auto simp: ex_gib_def ex_adg_has split: if_splits)
next
  fix q p assume "p \<in> set (gib_out2ins ex_gib q)"
  then show "om_has (gn_inputs ex_gib) p"
    by (auto simp: gib_out2ins_def om_at_def ex_gib_def om_has_set split: if_splits)
next
  fix s p assume "s \<in> set (an_operandInputs ex_gib)" "p \<in> set s"
  then show "om_has (gn_inputs ex_gib) p" by (simp add: ex_gib_def ex_anode_def)
qed

lemma ex_adg_ok: "adg_ok ex_adg"
proof -
  have "gn_id (ex_iob n p) = n" "gn_id ex_gib = 4" for n p by (simp_all add: ex_iob_def ex_gib_def ex_anode_def)
  then show ?thesis unfolding adg_ok_def ex_adg_node using ex_gib_ok ex_iob_ok by auto
qed

lemma ex_fu: "is_fu_id ex_adg k \<longleftrightarrow> k = 1 \<or> k = 2 \<or> k = 3"
proof -
  have "is_fu (ex_iob n p)" "\<not> is_fu ex_gib" for n p by (simp_all add: is_fu_def ex_iob_def ex_gib_def ex_anode_def)
  then show ?thesis unfolding is_fu_id_def ex_adg_node by blast
qed

lemma ex_host: "k = 1 \<or> k = 2 \<or> k = 3 \<Longrightarrow> can_host ex_dfg ex_adg n k"
  unfolding can_host_def ex_fu ex_adg_node ex_dfg_node
  by (auto simp: ex_n1_def ex_sink_def ex_node_def new_DFGNode_def ex_iob_def ex_anode_def)

lemma ex_may_place:
  "mappedAdg m d = None \<Longrightarrow> mappedDfg m t = None \<Longrightarrow> d \<in> {1, 2, 3} \<Longrightarrow> t \<in> {1, 2, 3} \<Longrightarrow> may_place ex_dfg ex_adg m d t"
  by (auto simp: may_place_def ex_dfg_has intro!: ex_host)

section \<open>The mapping\<close>

definition ex_run :: "nat \<Rightarrow> mapping" where
  "ex_run n = foldl (\<lambda>m k. snd (the (mapDfgNode ex_dfg ex_adg k k m))) new_Mapping (take n [1, 2, 3])"

lemma ex_run_facts:
  "map_option fst (mapDfgNode ex_dfg ex_adg 1 1 (ex_run 0)) = Some True"
  "map_option fst (mapDfgNode ex_dfg ex_adg 2 2 (ex_run 1)) = Some True"
  "map_option fst (mapDfgNode ex_dfg ex_adg 3 3 (ex_run 2)) = Some True"
  "map_success ex_dfg (ex_run 3)"
  by code_simp+

lemma ex_run_step:
  assumes "map_inv ex_dfg ex_adg m" "mappedAdg m k = None" "mappedDfg m k = None" "k \<in> {1, 2, 3}"
  shows "map_inv ex_dfg ex_adg (snd (the (mapDfgNode ex_dfg ex_adg k k m)))"
  using mapDfgNode_ok[OF ex_adg_ok ex_dfg_wf ex_dfg_mappable assms(1) ex_may_place[OF assms(2,3,4,4)]] by auto

lemma ex_run_inv: "map_inv ex_dfg ex_adg (ex_run 0)" "map_inv ex_dfg ex_adg (ex_run 1)"
  "map_inv ex_dfg ex_adg (ex_run 2)" "map_inv ex_dfg ex_adg (ex_run 3)"
proof -
  show 0: "map_inv ex_dfg ex_adg (ex_run 0)" by (simp add: ex_run_def map_inv_new)
  have "mappedAdg (ex_run 0) 1 = None" "mappedDfg (ex_run 0) 1 = None" by code_simp+
  from ex_run_step[OF 0 this] show 1: "map_inv ex_dfg ex_adg (ex_run 1)" by (simp add: ex_run_def)
  have "mappedAdg (ex_run 1) 2 = None" "mappedDfg (ex_run 1) 2 = None" by code_simp+
  from ex_run_step[OF 1 this] show 2: "map_inv ex_dfg ex_adg (ex_run 2)" by (simp add: ex_run_def numeral_2_eq_2)
  have "mappedAdg (ex_run 2) 3 = None" "mappedDfg (ex_run 2) 3 = None" by code_simp+
  from ex_run_step[OF 2 this] show 3: "map_inv ex_dfg ex_adg (ex_run 3)" by (simp add: ex_run_def eval_nat_numeral)
qed

end
