(* ===== verification/Witnesses.thy ===== *)
theory Witnesses
  imports Examples
begin

text \<open>
  Every property with hypotheses applied at a concrete input at which the hypotheses hold.
\<close>

section \<open>Mapping\<close>

lemma ex_link1: "mk_link 0 1 4 \<in> set (links (ex_run 3) 1)"
  by code_simp

lemma ex_link2: "mk_link 0 2 4 \<in> set (links (ex_run 3) 2)"
  by code_simp



theorem mapDfgNode_correct_witness:
  "\<exists>ok m'. mapDfgNode ex_dfg ex_adg 2 2 (ex_run 1) = Some (ok, m') \<and> map_inv ex_dfg ex_adg m' \<and>
    (if ok then mappedAdg m' = (mappedAdg (ex_run 1))(2 \<mapsto> 2) \<and>
       (\<forall>k. links (ex_run 1) k = [] \<or> links m' k = links (ex_run 1) k)
     else mappedAdg m' = mappedAdg (ex_run 1) \<and> (\<forall>k. links m' k = links (ex_run 1) k))"
proof -
  have "mappedAdg (ex_run 1) 2 = None" "mappedDfg (ex_run 1) 2 = None" by code_simp+
  then have "may_place ex_dfg ex_adg (ex_run 1) 2 2" by (intro ex_may_place) auto
  from mapDfgNode_correct[OF ex_adg_ok ex_dfg_wf ex_dfg_mappable ex_run_inv(2) this]
  show ?thesis by metis
qed

theorem unmapDfgNode_correct_witness:
  "\<exists>m'. unmapDfgNode ex_dfg 3 (ex_run 3) = Some m' \<and> map_inv ex_dfg ex_adg m' \<and>
    mappedAdg m' = (mappedAdg (ex_run 3))(3 := None) \<and> links m' 1 = links (ex_run 3) 1 \<and> links m' 2 = []"
proof -
  have "om_has (df_nodes ex_dfg) 3" by (simp add: ex_dfg_has)
  from unmapDfgNode_correct[OF ex_dfg_wf ex_dfg_mappable ex_run_inv(4) this]
  obtain m' where "unmapDfgNode ex_dfg 3 (ex_run 3) = Some m'" "map_inv ex_dfg ex_adg m'"
      "mappedAdg m' = (mappedAdg (ex_run 3))(3 := None)"
      "\<And>k e. dfg_edge ex_dfg k = Some e \<Longrightarrow>
        links m' k = (if ge_srcId e = 3 \<or> ge_dstId e = 3 then [] else links (ex_run 3) k)" by blast
  moreover from this(4)[of 1] this(4)[of 2] have "links m' 1 = links (ex_run 3) 1" "links m' 2 = []"
    by (simp_all add: ex_dfg_edge)
  ultimately show ?thesis by blast
qed

section \<open>Graphs\<close>

theorem addEdge_refines_witness:
  "\<exists>g'. dfg_addEdge (ex_edge 1 2) ex_nodes = Some g' \<and> dfg_wf g' \<and>
    dfg_abs g' = (dfg_abs ex_nodes)(1 \<mapsto> ex_edge 1 2) \<and> has_node g' = has_node ex_nodes"
  using addEdge_refines[OF ex_nodes_wf, of "ex_edge 1 2"] by (simp add: ex_nodes_facts)

theorem delEdge_refines_witness:
  "\<exists>g'. dfg_delEdge 1 ex_dfg = Some g' \<and> dfg_wf g' \<and> dfg_abs g' = (dfg_abs ex_dfg)(1 := None) \<and>
    has_node g' = has_node ex_dfg"
  using delEdge_refines[OF ex_dfg_wf, of 1 "ex_edge 1 2"] by (simp add: ex_dfg_edge[unfolded dfg_edge_def] dfg_abs_def)

section \<open>Order and schedule\<close>

lemma ex_topo: "dfg_topoSortNodes ex_dfg = Some ex_dfg"
  by code_simp

lemma ex_topo_list: "df_topoNodes ex_dfg = [1, 2, 3]"
  by (simp add: ex_dfg_def ex_nodes_def)

lemma ex_gets: "om_get (df_nodes ex_dfg) n = Some nd \<longleftrightarrow> n = 1 \<and> nd = ex_n1 \<or> n = 2 \<and> nd = ex_sink 2 1 \<or> n = 3 \<and> nd = ex_sink 3 2"
  using ex_dfg_node[of n nd] by (simp add: dfg_node_def)

lemma ex_dep: "dfg_dep ex_dfg = {(1, 2), (1, 3)}"
  by (auto simp: dfg_dep_def ex_gets ex_n1_def ex_sink_def ex_node_def new_DFGNode_def ex_dfg_def ex_nodes_def new_DFG_def)

lemma ex_acyclic: "acyclic (dfg_dep ex_dfg)"
  unfolding ex_dep by (rule acyclicI_order[where f = "\<lambda>x. - x"]) auto

lemma ex_closed: "dfg_closed ex_dfg"
  unfolding dfg_closed_def ex_gets
  by (auto simp: ex_n1_def ex_sink_def ex_node_def new_DFGNode_def ex_dfg_has om_wf_def) (simp add: ex_dfg_def)

lemma ex_out: "is_out_node ex_dfg 2" "is_out_node ex_dfg 3"
  by (auto simp: is_out_node_def ex_gets ex_sink_def ex_node_def new_DFGNode_def ex_dfg_def ex_nodes_def)

lemma ex_latency: "dfg_node ex_dfg n = Some nd \<Longrightarrow> 0 \<le> dn_opLatency nd"
  by (auto simp: ex_dfg_node ex_n1_def ex_sink_def ex_node_def new_DFGNode_def)

theorem topoSort_returns_witness: "\<exists>g'. dfg_topoSortNodes ex_dfg = Some g'"
proof -
  have "\<forall>n \<in> set (df_ioNodes ex_dfg). om_has (df_nodes ex_dfg) n" by (simp add: ex_dfg_has) (simp add: ex_dfg_def ex_nodes_def)
  from topoSort_returns[OF ex_closed this] show ?thesis .
qed

theorem topoSort_correct_witness:
  "distinct (df_topoNodes ex_dfg) \<and> dep_ordered (dfg_dep ex_dfg) (df_topoNodes ex_dfg) \<and>
    set (df_topoNodes ex_dfg) = {m. \<exists>n. is_out_node ex_dfg n \<and> (m, n) \<in> (dfg_dep ex_dfg)\<^sup>*}"
  by (rule topoSort_correct[OF ex_topo ex_closed ex_acyclic])

lemma ex_live: "om_has (df_nodes ex_dfg) n \<Longrightarrow> \<exists>r. is_out_node ex_dfg r \<and> (n, r) \<in> (dfg_dep ex_dfg)\<^sup>*"
proof -
  have "(1, 2) \<in> (dfg_dep ex_dfg)\<^sup>*" by (simp add: ex_dep r_into_rtrancl)
  then show "om_has (df_nodes ex_dfg) n \<Longrightarrow> ?thesis" using ex_out by (auto simp: ex_dfg_has)
qed

lemma ex_topo_ok: "topo_ok ex_dfg"
  unfolding topo_ok_def ex_topo_list ex_dfg_edge ex_dfg_has
  by (auto simp: index_of_def opl_def split: option.splits dest: ex_latency)


lemma ex_sched_input: "sched_input ex_dfg ex_adg (ex_run 3)"
  unfolding sched_input_def
proof (intro conjI allI impI)
  show "om_wf (mp_dfgEdgeAttr (ex_run 3))" by code_simp
  have "mappedAdg (ex_run 3) 1 = Some 1" "mappedAdg (ex_run 3) 2 = Some 2" "mappedAdg (ex_run 3) 3 = Some 3"
    by code_simp+
  then show "\<forall>n \<in> set (df_topoNodes ex_dfg). mappedAdg (ex_run 3) n \<noteq> None" by (simp add: ex_topo_list)
  fix k fu assume "adg_node ex_adg k = Some fu"
  then show "0 \<le> an_maxDelay fu" by (auto simp: ex_adg_node ex_iob_def ex_gib_def ex_anode_def)
qed (use ex_dfg_wf ex_dfg_mappable ex_topo_ok ex_topo_list ex_adg_ok ex_run_inv in simp_all)

definition ex_sched :: mapping where
  "ex_sched = the (latencySchedule ex_dfg ex_adg 0 (ex_run 3))"

lemma ex_sched_run: "latencySchedule ex_dfg ex_adg 0 (ex_run 3) = Some ex_sched"
  using latencySchedule_ok[OF ex_sched_input, of 0] by (auto simp: ex_sched_def)

theorem latencySchedule_returns_witness: "\<exists>m'. latencySchedule ex_dfg ex_adg 5 (ex_run 3) = Some m'"
  by (rule latencySchedule_returns[OF ex_sched_input])

lemma ex_edge1: "dfg_edge ex_dfg 1 = Some (ex_edge 1 2)" "ge_dstId (ex_edge 1 2) \<in> set (df_topoNodes ex_dfg)"
  by (simp_all add: ex_dfg_edge ex_topo_list)

theorem latencySchedule_in_sync_witness:
  "\<exists>fu d r. mapped_fu ex_adg (ex_run 3) 2 = Some fu \<and> links_lat ex_adg (links (ex_run 3) 1) = Some r \<and>
    om_get (delays ex_sched (gn_id fu)) 0 = Some d \<and> 0 \<le> d \<and> 0 \<le> vio ex_sched 1 \<and>
    lat ex_sched 1 + r + d + vio ex_sched 1 + opl ex_dfg 2 = lat ex_sched 2"
  using latencySchedule_in_sync[OF ex_sched_input ex_sched_run ex_edge1] by simp

theorem latencySchedule_budget_witness:
  "0 \<le> (0::int) \<and> (\<Sum>x \<leftarrow> delays ex_sched 2. snd x) \<le> an_maxDelay (ex_iob 2 1)"
proof -
  have u: "mapped_fu ex_adg (ex_run 3) 2 = Some (ex_iob 2 1)" by code_simp
  have d: "om_get (delays ex_sched (gn_id (ex_iob 2 1))) 0 = Some 0" unfolding ex_sched_def by code_simp
  have "gn_id (ex_iob 2 1) = 2" by (simp add: ex_iob_def ex_anode_def)
  then show ?thesis using latencySchedule_budget[OF ex_sched_input ex_sched_run _ u d] by (simp add: ex_topo_list)
qed

theorem latencySchedule_violations_witness:
  "distinct (mp_vioDfgEdges ex_sched) \<and> mp_totalViolation ex_sched = (\<Sum>k \<leftarrow> mp_vioDfgEdges ex_sched. vio ex_sched k) \<and>
    mp_maxViolation ex_sched = Max (insert 0 (vio ex_sched ` set (mp_vioDfgEdges ex_sched)))"
  using latencySchedule_violations[OF ex_sched_input ex_sched_run] by blast

theorem zero_violation_synchronised_witness:
  "\<exists>fu d. mapped_fu ex_adg (ex_run 3) 2 = Some fu \<and> om_get (delays ex_sched (gn_id fu)) 0 = Some d \<and>
    lat ex_sched 1 + rlat ex_sched 1 + d = lat ex_sched 2 - opl ex_dfg 2"
proof -
  have "mp_totalViolation ex_sched = 0" unfolding ex_sched_def by code_simp
  from zero_violation_synchronised[OF ex_sched_input ex_sched_run this ex_edge1] show ?thesis by simp
qed

theorem latencyBound_longest_path_witness:
  "\<exists>m'. latencyBound ex_dfg (ex_run 3) = Some m' \<and> recurrence ex_dfg m' 2 \<and> lat m' (mp_maxLatNodeId m') = mp_maxLat m'"
  using latencyBound_longest_path[OF sched_input_ready(1)[OF ex_sched_input]] by (auto simp: ex_topo_list)

section \<open>Operation table\<close>

definition ex_ops :: json where
  "ex_ops = JObj [(''Operations'', JArr [JObj [(''OPC'', JInt 1), (''latency'', JInt 1), (''name'', JStr ''ADD'')]])]"

lemma ex_ops_at: "j_at ex_ops ''Operations'' = Some (JArr [JObj [(''OPC'', JInt 1), (''latency'', JInt 1), (''name'', JStr ''ADD'')]])"
  by (simp add: ex_ops_def om_at_def)

lemma ex_ops_parse: "parse_operations ex_ops = Some [(''ADD'', \<lparr>oi_OPC = 1, oi_numOperands = -1, oi_numRes = -1,
    oi_latency = 1, oi_bitWidth = -1, oi_commutative = False, oi_accumulative = False\<rparr>)]"
  by code_simp

theorem parse_operations_capable_witness:
  "op_opCapable (the (parse_operations ex_ops)) ''ADD'' \<and> \<not> op_opCapable (the (parse_operations ex_ops)) ''MUL''"
  using parse_operations_capable[OF ex_ops_parse ex_ops_at, of "''ADD''"]
    parse_operations_capable[OF ex_ops_parse ex_ops_at, of "''MUL''"]
  by (simp add: ex_ops_parse j_str_at_def om_at_def)

end
