(* ===== verification/MapperExamples.thy ===== *)
theory MapperExamples
  imports MapperCheck MapperDist Witnesses Complex_Main
begin

text \<open>
  The mapper on the small DFG and ADG: the hypotheses of its theorems hold there, and each
  property of the mapper and of the I/O scheduler is applied to them.
\<close>

section \<open>The DFG and the ADG\<close>

lemma ex_abs: "dfg_abs ex_dfg k = Some e \<longleftrightarrow> k = 1 \<and> e = ex_edge 1 2 \<or> k = 2 \<and> e = ex_edge 2 3"
  using ex_dfg_edge by (simp add: dfg_abs_def dfg_edge_def)

lemma ex_sound: "dfg_sound ex_dfg"
proof -
  have "nodes_ok ex_dfg"
    unfolding nodes_ok_def ex_dfg_node by (auto simp: tables_ok_def ex_n1_def ex_sink_def ex_node_def new_DFGNode_def os_wf_def)
  moreover have "\<not> om_has (df_nodes ex_dfg) (g_id ex_dfg)" by (simp add: ex_dfg_has) (simp add: ex_dfg_def ex_nodes_def new_DFG_def)
  ultimately show ?thesis using ex_dfg_wf unfolding dfg_sound_def ex_abs ex_dfg_has by auto
qed

lemma ex_ios: "df_ioNodes ex_dfg = [1, 2, 3]" "g_id ex_dfg = 0"
  by (simp_all add: ex_dfg_def ex_nodes_def new_DFG_def)

lemma ex_iob_simps [simp]: "gn_type (ex_iob n p) = ''IOB''" "an_index (ex_iob n p) = n - 1" "an_operandInputs (ex_iob n p) = [[0]]"
    "is_fu (ex_iob n p)" "\<not> is_fu ex_gib" "gn_type ex_gib = ''GIB''" "an_maxDelay (ex_iob n p) = 0"
    "an_operations (ex_iob n p) = [''INPUT'', ''OUTPUT'']"
  by (simp_all add: ex_iob_def ex_gib_def ex_anode_def is_fu_def)

lemma ex_alive: "alive ex_dfg"
proof -
  have r: "is_out_node ex_dfg n" if "n = 2 \<or> n = 3" for n
    using that by (auto simp: is_out_node_def ex_dfg_def ex_nodes_def new_DFG_def ex_sink_def ex_node_def new_DFGNode_def)
  have "(1, 2) \<in> dfg_dep ex_dfg" by (simp add: ex_dep)
  then show ?thesis unfolding alive_def ex_dfg_has using r by blast
qed

lemma ex_good: "good ex_adg ex_dfg"
proof -
  have p: "in_ports ex_dfg n \<subseteq> {0}" for n unfolding in_ports_def ex_abs by auto
  have "node_good ex_adg ex_dfg n nd" if "dfg_node ex_dfg n = Some nd" for n nd
  proof -
    have "dn_io nd \<noteq> None" "dn_opLatency nd = 1" "\<not> dn_commutative nd" "n \<in> {1, 2, 3}"
      using that unfolding ex_dfg_node by (auto simp: ex_n1_def ex_sink_def ex_node_def new_DFGNode_def)
    moreover have "operands_fit ex_adg nd (in_ports ex_dfg n)"
      using p[of n] calculation(3) unfolding operands_fit_def ex_adg_node by auto
    ultimately show ?thesis unfolding node_good_def io_only_def ex_adg_node by (auto simp: ex_ios)
  qed
  then show ?thesis using ex_sound ex_acyclic ex_alive by (auto simp: good_def ex_ios ex_dfg_has)
qed

lemma ex_arch: "arch_ok ex_adg"
  using ex_adg_ok unfolding arch_ok_def ex_adg_node by (auto simp: ex_adg_def)

lemma ex_sharing: "iob_sharing ex_adg bs \<subseteq> {i. (i = 0 \<or> i = 1) \<and> (0 \<in> set bs \<or> 1 \<in> set bs) \<or> i = 2 \<and> 2 \<in> set bs}"
  unfolding iob_sharing_def ex_adg_node by (auto simp: om_at_def) (auto simp: ex_adg_def)

lemma ex_banks: "banks_ok ex_adg"
proof -
  have "iob_sharing ex_adg [0, 1] \<subseteq> {0, 1}" "iob_sharing ex_adg [2] \<subseteq> {2}" using ex_sharing by fastforce+
  then have "card (iob_sharing ex_adg [0, 1]) \<le> card {0, 1 :: int}" "card (iob_sharing ex_adg [2]) \<le> card {2 :: int}"
    by (intro card_mono; simp)+
  moreover have "om_at [] (ag_iobToSpadBanks ex_adg) 0 = [0, 1]" "om_at [] (ag_iobToSpadBanks ex_adg) 1 = [0, 1]"
    "om_at [] (ag_iobToSpadBanks ex_adg) 2 = [2]" "ag_numIobNodes ex_adg = 3" "g_bitWidth ex_adg = 32" "ag_cfgSpadDataWidth ex_adg = 64"
    by (simp_all add: ex_adg_def om_at_def)
  ultimately show ?thesis unfolding banks_ok_def ex_adg_node Let_def by (auto simp: signed_divide_int_def)
qed

section \<open>The mapper\<close>

definition ex_fp :: "rat fp" where
  "ex_fp = \<lparr>fp_int = of_int, fp_dec = \<lambda>n d. of_int n / of_int d, fp_add = (+), fp_sub = (-), fp_mul = (*), fp_div = (/),
     fp_less = (<), fp_exp = \<lambda>x. 1 + x, fp_trunc = \<lambda>x. if 0 \<le> x then \<lfloor>x\<rfloor> else - \<lfloor>- x\<rfloor>\<rparr>"

definition ex_ops :: op_table where
  "ex_ops = [(''PASS'', \<lparr>oi_OPC = 0, oi_numOperands = 1, oi_numRes = 1, oi_latency = 1, oi_bitWidth = 32,
     oi_commutative = False, oi_accumulative = False\<rparr>)]"

definition ex_env :: "rat sa_env" where
  "ex_env = \<lparr>en_fp = ex_fp, en_rand = \<lambda>t. int t mod 10000, en_late = \<lambda>t. False, en_junk = \<lambda>t. 0, en_shuffle = \<lambda>t xs. rev xs,
     en_sort = \<lambda>c xs. xs, en_sort_vio = map fst, en_ops = ex_ops\<rparr>"

definition ex_start :: mapperSA where
  "ex_start = \<lparr>mr_dfg = new_DFG, mr_dfgModified = None, mr_isDfgModified = False, mr_node2node = [], mr_mapping = (new_DFG, new_Mapping),
     mr_placeOrder = [], mr_adgOpCnt = [(''INPUT'', 3), (''OUTPUT'', 3)], mr_opLeft = [], sa_maxIters = 100, sa_objOpt = True,
     sa_dfgLat = 0, sa_mappedAdgNodeNum = 0, sa_ioDeps = 0, sa_tick = 0\<rparr>"

definition ex_sa :: mapperSA where
  "ex_sa = the (setDFG ex_adg ex_dfg False ex_start)"

definition ex_sched :: scheduler where
  "ex_sched = the (new_IOScheduler ex_adg)"

lemma ex_env_ok: "env_ok ex_env" "pass_ok ex_env ex_adg" "fp_ok (en_fp ex_env)"
proof -
  show "env_ok ex_env" by (simp add: env_ok_def ex_env_def)
  show "pass_ok ex_env ex_adg" unfolding pass_ok_def ex_adg_node
    by (auto simp: ex_env_def ex_ops_def op_opCapable_def op_latency_def om_has_def fu_opCapable_def)
  show "fp_ok (en_fp ex_env)" by (simp add: fp_ok_def ex_env_def ex_fp_def)
qed

lemma ex_sa_ok: "setDFG ex_adg ex_dfg False ex_start = Some ex_sa" "sa_ready ex_adg ex_sa"
proof -
  from setDFG_ok[OF ex_good ex_arch, of False ex_start] obtain s' where s: "setDFG ex_adg ex_dfg False ex_start = Some s'"
    "staged ex_adg (mr_dfg s')" "mr_mapping s' = (mr_dfg s', new_Mapping)" "mr_placeOrder s' = df_topoNodes (mr_dfg s')"
    "left_ok (mr_dfg s') (mr_opLeft s')" by blast
  then show "setDFG ex_adg ex_dfg False ex_start = Some ex_sa" "sa_ready ex_adg ex_sa"
    by (simp_all add: ex_sa_def sa_ready_def)
qed

lemma ex_sched_ok: "old_ok ex_adg ex_sched"
proof -
  have "0 \<le> ag_numIobNodes ex_adg" "0 \<le> ag_iobSpadBankSize ex_adg" by (simp_all add: ex_adg_def)
  from new_IOScheduler_ok[OF this] show ?thesis by (auto simp: ex_sched_def)
qed

lemma ex_counts: "small_counts ex_adg (mr_dfg ex_sa)" "named (mr_dfg ex_sa)" "tally (mr_adgOpCnt ex_sa) (adg_ops ex_adg)"
    "small_counts ex_adg ex_dfg" "named ex_dfg"
proof -
  have v: "df_nodes (mr_dfg ex_sa) = df_nodes ex_dfg" "df_ioNodes (mr_dfg ex_sa) = df_ioNodes ex_dfg"
      "mr_adgOpCnt ex_sa = [(''INPUT'', 3), (''OUTPUT'', 3)]"
    by code_simp+
  show n: "named ex_dfg" unfolding named_def ex_dfg_node by (auto simp: ex_n1_def ex_sink_def ex_node_def)
  then show "named (mr_dfg ex_sa)" by (simp add: named_def dfg_node_def v)
  show sm: "small_counts ex_adg ex_dfg" by (simp add: small_counts_def ex_adg_def ex_dfg_def ex_nodes_def new_DFG_def)
  then show "small_counts ex_adg (mr_dfg ex_sa)" by (simp add: small_counts_def v)
  have "adg_ops ex_adg = [''INPUT'', ''OUTPUT'', ''INPUT'', ''OUTPUT'', ''INPUT'', ''OUTPUT'']" by code_simp
  then show "tally (mr_adgOpCnt ex_sa) (adg_ops ex_adg)" by (simp add: tally_def v)
qed

theorem setDFG_ready_witness:
  "\<exists>s'. setDFG ex_adg ex_dfg False ex_start = Some s' \<and> sa_ready ex_adg s' \<and> mr_mapping s' = (mr_dfg s', new_Mapping)"
  by (rule setDFG_ready[OF ex_good ex_arch])

theorem pnrSync_correct_witness:
  "\<exists>r s'. pnrSync ex_env ex_adg 100 5 10000 True ex_sa = Some (r, s') \<and> sa_ready ex_adg s' \<and> r \<in> {-1, 0, 1} \<and>
    (r = 1 \<longrightarrow> mapped_in_sync ex_adg (mr_dfg s') (snd (mr_mapping s')))"
  using pnrSync_correct[OF ex_env_ok(1) ex_arch ex_env_ok(2) ex_sa_ok(2), of 100 5 10000 True] by blast

theorem mapperTimed_correct_witness:
  "\<exists>ok s' sc'. mapperTimed ex_env ex_adg (ex_sa, ex_sched) = Some (ok, s', sc') \<and> old_ok ex_adg sc' \<and>
    (ok \<longrightarrow> sa_ready ex_adg s' \<and> mapped_in_sync ex_adg (mr_dfg s') (snd (mr_mapping s')))"
  by (rule mapperTimed_correct[OF ex_env_ok(1) ex_arch ex_env_ok(2) ex_banks ex_env_ok(3) ex_sa_ok(2) ex_sched_ok ex_counts(1-3)])

theorem preMapCheck_exact_witness:
  "preMapCheck ex_adg ex_dfg ex_sa = Some True"
proof -
  have "om_wf (df_nodes ex_dfg)" using ex_dfg_wf by (simp add: dfg_wf_def)
  moreover have "adg_ops ex_adg = [''INPUT'', ''OUTPUT'', ''INPUT'', ''OUTPUT'', ''INPUT'', ''OUTPUT'']"
    "dfg_ops ex_dfg = [''INPUT'', ''OUTPUT'', ''OUTPUT'']" by code_simp+
  moreover have "length (df_nodes ex_dfg) = 3" "length (df_ioNodes ex_dfg) = 3" "ag_numIobNodes ex_adg = 3" "ag_numGpeNodes ex_adg = 0"
    by code_simp+
  ultimately show ?thesis using preMapCheck_exact[OF ex_counts(4) _ ex_counts(5,3)] by simp
qed

lemma ex_run_placed: "mappedAdg (ex_run 3) n = (if n = 1 \<or> n = 2 \<or> n = 3 then Some n else None)"
proof -
  have "fst ` set (mp_dfgNodeAttr (ex_run 3)) \<subseteq> {1, 2, 3}" by code_simp
  then have "mappedAdg (ex_run 3) n = None" if "n \<notin> {1, 2, 3}" using that placed_subset[of "ex_run 3"] unfolding placed_def by blast
  moreover have "mappedAdg (ex_run 3) 1 = Some 1" "mappedAdg (ex_run 3) 2 = Some 2" "mappedAdg (ex_run 3) 3 = Some 3" by code_simp+
  ultimately show ?thesis by auto
qed

lemma ex_capable: "capable ex_dfg ex_adg (ex_run 3)"
  unfolding capable_def ex_run_placed ex_dfg_node ex_adg_node
  by (auto simp: fu_opCapable_def ex_n1_def ex_sink_def ex_node_def split: if_splits)

theorem preMapCheck_keeps_mappable_witness:
  "preMapCheck ex_adg ex_dfg (the (calAdgOpCnt ex_adg (ex_start\<lparr>mr_adgOpCnt := []\<rparr>))) = Some True"
proof -
  have "counters_ok ex_adg"
  proof -
    have i: "{k. \<exists>n. adg_node ex_adg k = Some n \<and> gn_type n = ''IOB''} = {1, 2, 3}" unfolding ex_adg_node by auto
    have g: "{k. \<exists>n. adg_node ex_adg k = Some n \<and> gn_type n = ''GPE''} = {}" unfolding ex_adg_node by auto
    show ?thesis unfolding counters_ok_def i g by (simp add: ex_adg_def)
  qed
  moreover have "gpe_only ex_adg ex_dfg"
    unfolding gpe_only_def ex_dfg_node by (auto simp: ex_n1_def ex_sink_def ex_node_def)
  moreover obtain t where "calAdgOpCnt ex_adg (ex_start\<lparr>mr_adgOpCnt := []\<rparr>) = Some (ex_start\<lparr>mr_adgOpCnt := t\<rparr>)"
    using calAdgOpCnt_ok[OF ex_arch, of "ex_start\<lparr>mr_adgOpCnt := []\<rparr>"] by auto
  moreover have "place_inv (ex_run 3)" "placed (ex_run 3) \<subseteq> fst ` set (df_nodes ex_dfg)"
    using ex_run_inv(4) by (auto simp: map_inv_def placed_def om_has_set)
  ultimately show ?thesis
    using preMapCheck_keeps_mappable[OF ex_arch _ _ ex_good ex_counts(4,5) _ _ _ _ ex_capable ex_run_facts(4),
        of "ex_start\<lparr>mr_adgOpCnt := []\<rparr>"] by simp
qed

text \<open>An I/O block, an interconnect block with registered outputs and a processing element in a row.\<close>

definition ex_line :: top_adg where
  "ex_line = ex_adg\<lparr>ag_nodes := [(1, (ex_anode 1 ''IOB'')\<lparr>gn_outputs := [(0, [(4, 0)])]\<rparr>),
     (4, (ex_anode 4 ''GIB'')\<lparr>gn_inputs := [(0, (1, 0))], gn_outputs := [(0, [(5, 0)])], an_outReged := [(0, True)]\<rparr>),
     (5, (ex_anode 5 ''GPE'')\<lparr>gn_inputs := [(0, (4, 0))]\<rparr>)]\<rparr>"

theorem calAdgNodeDist_shortest_witness:
  "\<exists>r. calAdgNodeDist ex_line ex_start = Some r \<and> getAdgNodeDist r 1 5 \<le> 2"
proof -
  have n: "adg_node ex_line k = Some T \<longleftrightarrow> (k = 1 \<and> T = (ex_anode 1 ''IOB'')\<lparr>gn_outputs := [(0, [(4, 0)])]\<rparr>) \<or>
     (k = 4 \<and> T = (ex_anode 4 ''GIB'')\<lparr>gn_inputs := [(0, (1, 0))], gn_outputs := [(0, [(5, 0)])], an_outReged := [(0, True)]\<rparr>) \<or>
     (k = 5 \<and> T = (ex_anode 5 ''GPE'')\<lparr>gn_inputs := [(0, (4, 0))]\<rparr>)" for k T
    by (auto simp: ex_line_def adg_node_def)
  have "adg_linked ex_line" unfolding adg_linked_def n by (auto simp: ex_line_def ex_anode_def om_has_set)
  note d = calAdgNodeDist_shortest[OF this, of 1 _ 5 _ ex_start, unfolded n]
  have "\<exists>r. calAdgNodeDist ex_line ex_start = Some r \<and> (\<forall>vs. set vs \<subseteq> gib_ids ex_line \<longrightarrow> getAdgNodeDist r 1 5 \<le> hops ex_line 1 vs 5)"
    using d[OF disjI1[OF conjI[OF refl refl]] disjI2[OF disjI2[OF conjI[OF refl refl]]]]
    by (auto simp: dist_pair_def is_gib_def ex_anode_def)
  moreover have "set [4] \<subseteq> gib_ids ex_line" by (simp add: gib_ids_def n is_gib_def ex_anode_def)
  moreover have "hops ex_line 1 [4] 5 = 2" by code_simp
  ultimately show ?thesis by metis
qed

section \<open>The I/O scheduler\<close>

definition ex_io :: scheduler where
  "ex_io = the (ioSchedule (\<lambda>c xs. xs) ex_adg (ex_dfg, ex_run 3) ex_sched)"

lemma ex_ios_placed: "ios_placed ex_adg ex_dfg (ex_run 3)"
proof -
  have "mapped_iob ex_adg (ex_run 3) 1 \<noteq> None" "mapped_iob ex_adg (ex_run 3) 2 \<noteq> None" "mapped_iob ex_adg (ex_run 3) 3 \<noteq> None"
    "io_node ex_dfg 1 \<noteq> None" "io_node ex_dfg 2 \<noteq> None" "io_node ex_dfg 3 \<noteq> None" by code_simp+
  then show ?thesis by (auto simp: ios_placed_def ex_ios ex_run_placed split: if_splits)
qed

theorem ioSchedule_returns_witness:
  "\<exists>sc'. ioSchedule (\<lambda>c xs. xs) ex_adg (ex_dfg, ex_run 3) ex_sched = Some sc' \<and> (\<forall>n. om_has (sc_infos sc') n \<longleftrightarrow> n \<in> {1, 2, 3})"
  using ioSchedule_returns[OF ex_banks ex_ios_placed ex_sched_ok, of "\<lambda>c xs. xs"] by (simp add: ex_ios)

lemma ex_io_run: "ioSchedule (\<lambda>c xs. xs) ex_adg (ex_dfg, ex_run 3) ex_sched = Some ex_io"
proof -
  have "ioSchedule (\<lambda>c xs. xs) ex_adg (ex_dfg, ex_run 3) ex_sched \<noteq> None" by code_simp
  then show ?thesis by (auto simp: ex_io_def)
qed

theorem io_regions_disjoint_witness:
  "\<exists>x x'. om_get (sc_infos ex_io) 1 = Some x \<and> om_get (sc_infos ex_io) 2 = Some x' \<and>
    (ii_addr x + 64 \<le> ii_addr x' \<or> ii_addr x' + 64 \<le> ii_addr x)"
proof -
  have "om_get (sc_infos ex_io) 1 \<noteq> None" "om_get (sc_infos ex_io) 2 \<noteq> None" by code_simp+
  moreover have "io_size ex_adg ex_dfg 1 = 64" "io_size ex_adg ex_dfg 2 = 64" "ag_iobSpadBankSize ex_adg = 1024" by code_simp+
  ultimately show ?thesis
    using io_regions_disjoint[OF ex_banks ex_ios_placed ex_sched_ok _ ex_io_run, of 1 2] by (force simp: ex_ios)
qed

theorem no_dependence_no_conflict_witness:
  "\<exists>x b start old. om_get (sc_infos ex_io) 1 = Some x \<and> b \<in> set (io_banks ex_adg (ex_run 3) 1) \<and> ii_addr x = b * 1024 + start \<and>
    bank_at (sc_old ex_io) b = Some old \<and> no_old_conflict False start 64 old"
proof -
  have d: "map_option ii_dep (om_get (sc_infos ex_io) 1) = Some 0" "map_option ii_isStore (om_get (sc_infos ex_io) 1) = Some False"
    by code_simp+
  then obtain x where x: "om_get (sc_infos ex_io) 1 = Some x" "ii_dep x = 0" "\<not> ii_isStore x" by auto
  have v: "io_size ex_adg ex_dfg 1 = 64" "ag_iobSpadBankSize ex_adg = 1024" "sc_old ex_sched = sc_old ex_io" by code_simp+
  from no_dependence_no_conflict[OF ex_banks ex_ios_placed ex_sched_ok _ ex_io_run _ x(1,2)] show ?thesis
    using x by (fastforce simp: ex_ios v)
qed

end
