(* ===== verification/CfgPack.thy ===== *)
theory CfgPack
  imports Adg "HOL-Library.Word" "HOL-Library.Signed_Division"
begin

text \<open>
  How the configuration of one node is packed (\<open>Configuration::getNodeCfgData\<close> in
  \<open>src/mapper/configuration.cpp\<close>): the fields, each at its lowest bit, are ORed into 32-bit words,
  and every word of the width of the configuration bus that a field touches becomes a packet
  with its address. Indices that are out of range, shifts by a negative or too large amount and
  a division by zero fail.
\<close>

unbundle bit_operations_syntax

section \<open>Fields and packets\<close>

record cfgData =
  cd_len :: int
  cd_data :: "32 word list"

record cfgPacket =
  cp_addr :: "32 word"
  cp_data :: "32 word list"

type_synonym cfg_map = "(int, cfgData) omap"

definition cfg_word :: "int \<Rightarrow> 32 word \<Rightarrow> cfgData" where
  "cfg_word len d = \<lparr>cd_len = len, cd_data = [d]\<rparr>"

text \<open>One field, from bit \<open>offset\<close> of word \<open>ti\<close> on. The next data word is shifted as the 32-bit
  number it is, so that its high bits are lost; a field of at most 32 bits has no next word.\<close>

function pack_loop ::
    "32 word list \<Rightarrow> int \<Rightarrow> int \<Rightarrow> int \<Rightarrow> 64 word \<Rightarrow> nat \<Rightarrow> int \<Rightarrow> 32 word list \<Rightarrow> 32 word list option" where
  "pack_loop data len offset ti tmp di left vec =
     (if len \<le> 0 then Some vec
      else if offset < 0 \<or> 32 \<le> offset \<or> ti < 0 \<or> int (length vec) \<le> ti then None
      else let vec' = vec[nat ti := (vec ! nat ti) OR ucast (push_bit (nat offset) tmp)] in
        if len \<le> 32 - offset then Some vec'
        else let left' = left - (32 - offset); tmp' = drop_bit (nat (32 - offset)) tmp in
          if di + 1 < length data
          then if left' < 0 \<or> 32 \<le> left' then None
            else pack_loop data (len - (32 - offset)) 0 (ti + 1) (tmp' OR ucast (push_bit (nat left') (data ! (di + 1))))
                   (di + 1) (left' + 32) vec'
          else pack_loop data (len - (32 - offset)) 0 (ti + 1) tmp' (di + 1) left' vec')"
  by pat_completeness auto
termination by (relation "measure (\<lambda>(data, len, offset, ti, tmp, di, left, vec). nat len)") auto

declare pack_loop.simps [simp del]

definition pack_field :: "32 word list \<Rightarrow> int \<times> cfgData \<Rightarrow> 32 word list option" where
  "pack_field vec elem = (case elem of (lsb, cd) \<Rightarrow>
     if cd_data cd = [] then None
     else pack_loop (cd_data cd) (cd_len cd) (lsb smod 32) (lsb sdiv 32) (ucast (hd (cd_data cd))) 0 32 vec)"

text \<open>The addresses a field touches, as \<open>uint32_t\<close>.\<close>

definition add_addrs :: "int \<Rightarrow> 32 word oset \<Rightarrow> int \<times> cfgData \<Rightarrow> 32 word oset" where
  "add_addrs W addrs elem = (case elem of (lsb, cd) \<Rightarrow>
     let target = word_of_int (lsb sdiv W);
         num = (cd_len cd + lsb smod W + W - 1) sdiv W
     in foldl (\<lambda>s i. os_ins s (target + word_of_nat i)) addrs [0..<nat num])"

section \<open>Packets\<close>

definition wide_word :: "32 word list \<Rightarrow> 32 word \<Rightarrow> 32 word option" where
  "wide_word vec u = (let idx = sint u in
     if int (length vec) \<le> idx then Some 0 else if idx < 0 then None else Some (vec ! nat idx))"

definition node_packet :: "int \<Rightarrow> 32 word list \<Rightarrow> 32 word \<Rightarrow> 32 word \<Rightarrow> cfgPacket option" where
  "node_packet W vec high addr =
     (if 32 \<le> W then do {
        ds \<leftarrow> mfold (\<lambda>ds i. do { d \<leftarrow> wide_word vec (addr * word_of_int (W sdiv 32) + word_of_nat i); Some (ds @ [d]) }) [] [0..<nat (W sdiv 32)];
        Some \<lparr>cp_addr = high OR addr, cp_data = ds\<rparr> }
      else
        let n = word_of_int (32 sdiv W); idx = unat (addr div n) in
        if length vec \<le> idx then None
        else Some \<lparr>cp_addr = high OR addr,
          cp_data = [drop_bit (unat ((addr mod n) * word_of_int W)) (vec ! idx) AND mask (nat W)]\<rparr>)"

text \<open>\<open>cfgBlkIdx << cfgBlkOffset\<close>.\<close>

definition high_addr :: "int \<Rightarrow> int \<Rightarrow> 32 word option" where
  "high_addr blk off = (if 0 \<le> off \<and> off < 32 then Some (push_bit (nat off) (word_of_int blk)) else None)"

definition node_packets :: "int \<Rightarrow> int \<Rightarrow> int \<Rightarrow> cfg_map \<Rightarrow> cfgPacket list option" where
  "node_packets W off blk cfg = do {
     (lsb, cd) \<leftarrow> om_last cfg;
     let num = (lsb + cd_len cd + 31) sdiv 32;
     (if num < 0 \<or> W \<le> 0 then None else Some ());
     vec \<leftarrow> mfold pack_field (replicate (nat num) 0) cfg;
     let addrs = foldl (add_addrs W) [] cfg;
     high \<leftarrow> high_addr blk off;
     (if (if 32 \<le> W then W smod 32 \<noteq> 0 else 32 smod W \<noteq> 0) then None else Some ());
     mfold (\<lambda>pks addr. do { pk \<leftarrow> node_packet W vec high addr; Some (pks @ [pk]) }) [] addrs }"

section \<open>The bits of the fields\<close>

definition field_ok :: "int \<times> cfgData \<Rightarrow> bool" where
  "field_ok f \<longleftrightarrow> 0 \<le> fst f \<and> 1 \<le> cd_len (snd f) \<and> cd_len (snd f) \<le> 32 \<and>
     (\<exists>d. cd_data (snd f) = [d] \<and> (\<forall>j. cd_len (snd f) \<le> int j \<longrightarrow> \<not> bit d j))"

definition field_bit :: "int \<times> cfgData \<Rightarrow> nat \<Rightarrow> bool" where
  "field_bit f i \<longleftrightarrow> fst f \<le> int i \<and> int i < fst f + cd_len (snd f) \<and> bit (hd (cd_data (snd f))) (nat (int i - fst f))"

definition vec_bit :: "32 word list \<Rightarrow> nat \<Rightarrow> bool" where
  "vec_bit vec i \<longleftrightarrow> bit (vec ! (i div 32)) (i mod 32)"

lemma ucast_bit: "bit (ucast (x :: 64 word) :: 32 word) b \<longleftrightarrow> b < 32 \<and> bit x b"
  by (simp add: bit_ucast_iff)

lemma ucast_up_bit: "bit (ucast (x :: 32 word) :: 64 word) b \<longleftrightarrow> bit x b"
  using bit_imp_le_length[of x b] by (auto simp: bit_ucast_iff)

lemma vec_bit_upd:
  assumes "ti < length vec"
  shows "vec_bit (vec[ti := (vec ! ti) OR x]) i \<longleftrightarrow> vec_bit vec i \<or> i div 32 = ti \<and> bit x (i mod 32)"
  using assms by (auto simp: vec_bit_def nth_list_update bit_or_iff)

lemma pack_field_ok:
  assumes f: "field_ok f" and fin: "fst f + cd_len (snd f) \<le> 32 * int (length vec)"
  shows "\<exists>vec'. pack_field vec f = Some vec' \<and> length vec' = length vec \<and> (\<forall>i. vec_bit vec' i \<longleftrightarrow> vec_bit vec i \<or> field_bit f i)"
proof -
  obtain lsb len d where fv: "f = (lsb, \<lparr>cd_len = len, cd_data = [d]\<rparr>)" "0 \<le> lsb" "1 \<le> len" "len \<le> 32" "\<And>j. bit d j \<Longrightarrow> int j < len"
    using f by (cases f; cases "snd f") (force simp: field_ok_def not_le)
  define ti off where "ti = nat lsb div 32" and "off = nat lsb mod 32"
  have lo: "lsb = int (32 * ti + off)" "off < 32" using fv(2) by (auto simp: ti_def off_def)
  have sd: "lsb sdiv 32 = int ti" "lsb smod 32 = int off"
    using fv(2) by (simp_all add: sgn_if ti_def off_def signed_divide_int_def signed_modulo_int_def zdiv_int zmod_int)
  have fb: "field_bit f (32 * q + b) \<longleftrightarrow> 32 * ti + off \<le> 32 * q + b \<and> bit d (32 * q + b - (32 * ti + off))" for q b
  proof -
    have "nat (int x - int y) = x - y" for x y :: nat by simp
    then show ?thesis using fv(5)[of "32 * q + b - (32 * ti + off)"] fv(1) lo(1) unfolding field_bit_def
      by (auto simp del: of_nat_add of_nat_mult)
  qed
  let ?w = "ucast (push_bit off (ucast d :: 64 word)) :: 32 word"
  let ?v = "drop_bit (32 - off) (ucast d :: 64 word)"
  have w: "bit ?w b \<longleftrightarrow> b < 32 \<and> off \<le> b \<and> bit d (b - off)" for b
    by (auto simp: ucast_bit bit_push_bit_iff ucast_up_bit)
  have v: "bit (ucast (push_bit 0 ?v) :: 32 word) b \<longleftrightarrow> b < 32 \<and> bit d (b + (32 - off))" for b
    by (simp add: ucast_bit bit_drop_bit_eq ucast_up_bit add.commute)
  have t: "ti < length vec" using fin fv lo by simp
  have parts: "P i" if "\<And>q b. b < 32 \<Longrightarrow> P (32 * q + b)" for P :: "nat \<Rightarrow> bool" and i
    using that[of "i mod 32" "i div 32"] by simp
  show ?thesis
  proof (cases "len \<le> 32 - int off")
    case True
    let ?vec = "vec[ti := (vec ! ti) OR ?w]"
    have "pack_field vec f = Some ?vec"
      using fv(1,3) sd lo(2) t True by (simp add: pack_field_def pack_loop.simps[of _ len] Let_def)
    moreover have one: "q = ti \<and> bit ?w b \<longleftrightarrow> field_bit f (32 * q + b)" if "b < 32" for q b
    proof -
      have "32 * q + b - (32 * ti + off) < 32 - off \<Longrightarrow> 32 * ti + off \<le> 32 * q + b \<Longrightarrow> q = ti" using that by arith
      then show ?thesis using fv(5)[of "32 * q + b - (32 * ti + off)"] True that unfolding fb w by (cases "q = ti") auto
    qed
    moreover have "vec_bit ?vec i \<longleftrightarrow> vec_bit vec i \<or> field_bit f i" for i
      by (rule parts) (use vec_bit_upd[OF t, of ?w] one in simp)
    ultimately show ?thesis by auto
  next
    case False
    let ?v1 = "vec[ti := (vec ! ti) OR ?w]"
    let ?v2 = "?v1[Suc ti := (?v1 ! Suc ti) OR ucast (push_bit 0 ?v)]"
    have t1: "Suc ti < length ?v1" using fin fv lo False by simp
    have "nat (int ti + 1) = Suc ti" by simp
    then have rest: "pack_loop [d] (len - (32 - int off)) 0 (int ti + 1) ?v 1 (32 - (32 - int off)) ?v1 = Some ?v2"
      using fv(4) lo(2) t1 False by (subst pack_loop.simps) (simp add: Let_def)
    have "pack_field vec f = Some ?v2"
      using fv(1,3) sd lo(2) t False rest by (simp add: pack_field_def pack_loop.simps[of _ len] Let_def nat_diff_distrib)
    moreover have two: "q = ti \<and> bit ?w b \<or> q = Suc ti \<and> bit (ucast (push_bit 0 ?v) :: 32 word) b \<longleftrightarrow> field_bit f (32 * q + b)"
      if "b < 32" for q b
    proof -
      have "32 * q + b - (32 * ti + off) < 32 \<Longrightarrow> 32 * ti + off \<le> 32 * q + b \<Longrightarrow> q = ti \<or> q = Suc ti" using that lo(2) by arith
      moreover have "32 * Suc ti + b - (32 * ti + off) = b + (32 - off)" using lo(2) by simp
      ultimately show ?thesis using fv(4) fv(5)[of "32 * q + b - (32 * ti + off)"] that lo(2) unfolding fb w v
        by (cases "q = ti"; cases "q = Suc ti") auto
    qed
    moreover have "vec_bit ?v2 i \<longleftrightarrow> vec_bit vec i \<or> field_bit f i" for i
      by (rule parts) (use vec_bit_upd[OF t, of ?w] vec_bit_upd[OF t1, of "ucast (push_bit 0 ?v)"] two in auto)
    ultimately show ?thesis by auto
  qed
qed

section \<open>All fields of a node\<close>

text \<open>The fields of a node: none is wider than a data word, none overlaps another.\<close>

definition cfg_fields :: "cfg_map \<Rightarrow> bool" where
  "cfg_fields cfg \<longleftrightarrow> cfg \<noteq> [] \<and> (\<forall>f \<in> set cfg. field_ok f) \<and> sorted_wrt (\<lambda>f f'. fst f + cd_len (snd f) \<le> fst f') cfg"

definition cfg_end :: "cfg_map \<Rightarrow> int" where
  "cfg_end cfg = fst (last cfg) + cd_len (snd (last cfg))"

definition cfg_bit :: "cfg_map \<Rightarrow> nat \<Rightarrow> bool" where
  "cfg_bit cfg i \<longleftrightarrow> (\<exists>f \<in> set cfg. field_bit f i)"

lemma cfg_end_max:
  assumes "cfg_fields cfg" "f \<in> set cfg"
  shows "fst f + cd_len (snd f) \<le> cfg_end cfg"
proof -
  obtain xs x where cfg: "cfg = xs @ [x]" using assms by (cases cfg rule: rev_cases) auto
  have "1 \<le> cd_len (snd x)" using assms(1) cfg by (auto simp: cfg_fields_def field_ok_def)
  then show ?thesis using assms cfg by (auto simp: cfg_fields_def cfg_end_def sorted_wrt_append)
qed

lemma cfg_bit_end: "cfg_fields cfg \<Longrightarrow> cfg_bit cfg i \<Longrightarrow> int i < cfg_end cfg"
  using cfg_end_max by (force simp: cfg_bit_def field_bit_def)

lemma pack_fields_ok:
  assumes "\<forall>f \<in> set cfg. field_ok f \<and> fst f + cd_len (snd f) \<le> 32 * int (length vec)"
  shows "\<exists>vec'. mfold pack_field vec cfg = Some vec' \<and> length vec' = length vec \<and>
    (\<forall>i. vec_bit vec' i \<longleftrightarrow> vec_bit vec i \<or> cfg_bit cfg i)"
  using assms
proof (induction cfg arbitrary: vec)
  case (Cons f cfg)
  from pack_field_ok[of f vec] Cons.prems obtain v1 where
    v1: "pack_field vec f = Some v1" "length v1 = length vec" "\<And>i. vec_bit v1 i \<longleftrightarrow> vec_bit vec i \<or> field_bit f i" by auto
  from Cons.IH[of v1] Cons.prems v1(2) obtain v2 where "mfold pack_field v1 cfg = Some v2" "length v2 = length v1"
    "\<And>i. vec_bit v2 i \<longleftrightarrow> vec_bit v1 i \<or> cfg_bit cfg i" by auto
  then show ?case using v1 by (auto simp: cfg_bit_def)
qed (simp add: cfg_bit_def)

lemma span_blocks:
  fixes L n W a :: nat
  assumes W: "0 < W" and n: "0 < n"
  shows "(\<exists>k < (n + L mod W + W - 1) div W. a = L div W + k) \<longleftrightarrow> (\<exists>i. L \<le> i \<and> i < L + n \<and> i div W = a)"
proof -
  define q r where "q = L div W" and "r = L mod W"
  have L: "L = q * W + r" "r < W" using W by (simp_all add: q_def r_def)
  have up: "k < (n + r + W - 1) div W \<longleftrightarrow> k * W < n + r" for k
  proof -
    have "k < (n + r + W - 1) div W \<longleftrightarrow> Suc k * W \<le> n + r + W - 1" using less_eq_div_iff_mult_less_eq[OF W, of "Suc k" "n + r + W - 1"] by (simp only: Suc_le_eq)
    also have "\<dots> \<longleftrightarrow> k * W < n + r" using n by auto
    finally show ?thesis .
  qed
  show ?thesis unfolding q_def[symmetric] r_def[symmetric] up
  proof
    assume "\<exists>k. k * W < n + r \<and> a = q + k"
    then obtain k where k: "k * W < n + r" "a = q + k" by blast
    show "\<exists>i. L \<le> i \<and> i < L + n \<and> i div W = a"
    proof (cases k)
      case 0
      then show ?thesis by (intro exI[of _ L]) (use k(2) n q_def in simp)
    next
      case (Suc j)
      then have "L \<le> a * W \<and> a * W < L + n" using k L by (simp add: algebra_simps)
      then show ?thesis using W by (intro exI[of _ "a * W"]) simp
    qed
  next
    assume "\<exists>i. L \<le> i \<and> i < L + n \<and> i div W = a"
    then obtain i where i: "L \<le> i" "i < L + n" "i div W = a" by blast
    have "q \<le> a" using i div_le_mono[OF i(1), of W] by (simp add: q_def)
    moreover have "a * W \<le> i" using i(3) by (metis div_times_less_eq_dividend)
    moreover have "(a - q) * W = a * W - q * W" by (rule diff_mult_distrib)
    ultimately have "(a - q) * W < n + r" using i(2) L(1) n by linarith
    then show "\<exists>k. k * W < n + r \<and> a = q + k" using \<open>q \<le> a\<close> by (intro exI[of _ "a - q"]) simp
  qed
qed

text \<open>The addresses are those of the bits of the fields.\<close>

definition covered :: "cfg_map \<Rightarrow> nat \<Rightarrow> nat set" where
  "covered cfg W = (\<Union>f \<in> set cfg. (\<lambda>i. i div W) ` {i. fst f \<le> int i \<and> int i < fst f + cd_len (snd f)})"

lemma add_addrs_set:
  assumes W: "0 < W" and f: "field_ok f"
  shows "set (add_addrs W s f) = set s \<union> word_of_nat ` covered [f] (nat W)"
proof -
  obtain lsb cd where fv: "f = (lsb, cd)" "0 \<le> lsb" "1 \<le> cd_len cd" using f by (cases f) (auto simp: field_ok_def)
  define L n V where "L = nat lsb" and "n = nat (cd_len cd)" and "V = nat W"
  have v: "lsb = int L" "cd_len cd = int n" "W = int V" "0 < n" "0 < V" using fv W by (simp_all add: L_def n_def V_def)
  have sd: "int x sdiv int y = int (x div y)" "int x smod int y = int (x mod y)" if "0 < y" for x y
    using that by (simp_all add: signed_divide_int_def signed_modulo_int_def sgn_if zdiv_int zmod_int)
  let ?N = "(n + L mod V + V - 1) div V"
  have num: "(cd_len cd + lsb smod W + W - 1) sdiv W = int ?N"
    using v sd(1)[of V "n + L mod V + V - 1"] sd(2)[of V L] by (simp add: of_nat_diff)
  have target: "word_of_int (lsb sdiv W) + word_of_nat i = (word_of_nat (L div V + i) :: 32 word)" for i
    using v sd(1)[of V L] by simp
  have ins: "set (foldl (\<lambda>s i. os_ins s (h i)) s is) = set s \<union> h ` set is" for h :: "nat \<Rightarrow> 32 word" and s "is"
    by (induction "is" arbitrary: s) auto
  have "add_addrs W s f = foldl (\<lambda>s i. os_ins s (word_of_nat (L div V + i))) s [0..<?N]"
    by (simp only: add_addrs_def fv(1) prod.case Let_def num target nat_int)
  then have "set (add_addrs W s f) = set s \<union> (\<lambda>k. word_of_nat (L div V + k)) ` {k. k < ?N}"
    unfolding ins by (simp only: ins set_upt atLeast0LessThan lessThan_def)
  also have "(\<lambda>k. word_of_nat (L div V + k)) ` {k. k < (n + L mod V + V - 1) div V} =
      (word_of_nat ` {L div V + k | k. k < (n + L mod V + V - 1) div V} :: 32 word set)" by blast
  also have "{L div V + k | k. k < (n + L mod V + V - 1) div V} = covered [f] V"
  proof (rule set_eqI)
    fix a
    have "{i. fst f \<le> int i \<and> int i < fst f + cd_len (snd f)} = {i. L \<le> i \<and> i < L + n}"
      using v(1,2) fv(1) by auto
    then have "a \<in> covered [f] V \<longleftrightarrow> (\<exists>i. L \<le> i \<and> i < L + n \<and> i div V = a)" by (auto simp: covered_def)
    moreover have "a \<in> {L div V + k | k. k < ?N} \<longleftrightarrow> (\<exists>k < ?N. a = L div V + k)" by blast
    ultimately show "a \<in> {L div V + k | k. k < ?N} \<longleftrightarrow> a \<in> covered [f] V" by (simp only: span_blocks[OF v(5,4)])
  qed
  finally show ?thesis by (simp add: V_def)
qed

lemma addrs_set:
  assumes "0 < W" "\<forall>f \<in> set cfg. field_ok f"
  shows "set (foldl (add_addrs W) s cfg) = set s \<union> word_of_nat ` covered cfg (nat W)"
  using assms(2)
proof (induction cfg arbitrary: s)
  case (Cons f cfg)
  have "covered (f # cfg) (nat W) = covered [f] (nat W) \<union> covered cfg (nat W)" by (simp add: covered_def)
  then show ?case using Cons add_addrs_set[OF assms(1), of f s] by auto
qed (simp add: covered_def)

section \<open>The packets of a node\<close>

text \<open>The configuration bus is as wide as a power of two below 32 or as some words.\<close>

definition bus_ok :: "int \<Rightarrow> bool" where
  "bus_ok W \<longleftrightarrow> 0 < W \<and> (if 32 \<le> W then W mod 32 = 0 else 32 mod W = 0)"

definition packet_bit :: "cfgPacket \<Rightarrow> nat \<Rightarrow> bool" where
  "packet_bit pk r \<longleftrightarrow> bit (cp_data pk ! (r div 32)) (r mod 32)"

lemma unat_small: "n < 2 ^ 32 \<Longrightarrow> unat (word_of_nat n :: 32 word) = n"
  by (simp add: unat_of_nat take_bit_nat_eq_self)

lemma sint_small: "n < 2 ^ 31 \<Longrightarrow> sint (word_of_nat n :: 32 word) = int n"
  by (simp add: signed_of_nat signed_take_bit_int_eq_self)

lemma wide_packet:
  assumes W: "32 \<le> W" "W mod 32 = 0" and a: "int a * W + W \<le> 2 ^ 31"
  shows "\<exists>pk. node_packet W vec high (word_of_nat a) = Some pk \<and> cp_addr pk = high OR word_of_nat a \<and>
    (\<forall>r < nat W. packet_bit pk r \<longleftrightarrow> a * nat W + r < 32 * length vec \<and> vec_bit vec (a * nat W + r))"
proof -
  obtain n where n: "nat W = 32 * n" "W = int (32 * n)"
  proof -
    obtain k where "W = 32 * k" using W(2) by (auto simp: mod_eq_0_iff_dvd)
    then show thesis using W(1) by (intro that[of "nat k"]) auto
  qed
  have q: "W sdiv 32 = int n" using n(2) by (simp add: signed_divide_int_def sgn_if)
  let ?d = "\<lambda>i. if length vec \<le> a * n + i then 0 else vec ! (a * n + i)"
  have b: "a * n + i < 2 ^ 31" if "i < n" for i
  proof -
    have "int (32 * (a * n + n)) \<le> int (2 ^ 31)" using a n(2) by (simp add: algebra_simps)
    then have "32 * (a * n + n) \<le> 2 ^ 31" by (simp only: of_nat_le_iff)
    then show ?thesis using that by simp
  qed
  have w: "wide_word vec (word_of_nat a * word_of_int (W sdiv 32) + word_of_nat i) = Some (?d i)" if "i < n" for i
  proof -
    have "(word_of_nat a * word_of_int (W sdiv 32) + word_of_nat i :: 32 word) = word_of_nat (a * n + i)" using q by simp
    then show ?thesis using sint_small[OF b[OF that]] by (simp add: wide_word_def Let_def del: of_nat_add of_nat_mult)
  qed
  have "\<exists>t. mfold (\<lambda>ds i. do { d \<leftarrow> wide_word vec (word_of_nat a * word_of_int (W sdiv 32) + word_of_nat i); Some (ds @ [d]) }) [] [0..<nat (W sdiv 32)] = Some t \<and>
      t = map ?d [0..<nat (W sdiv 32)]"
  proof (rule mfold_prefix[where J = "\<lambda>us t. t = map ?d us"])
    fix us x vs and t :: "32 word list"
    assume us: "[0..<nat (W sdiv 32)] = us @ x # vs" and t: "t = map ?d us"
    have "x \<in> set [0..<nat (W sdiv 32)]" unfolding us by simp
    then have "x < n" using q by simp
    then show "\<exists>s'. do { d \<leftarrow> wide_word vec (word_of_nat a * word_of_int (W sdiv 32) + word_of_nat x); Some (t @ [d]) } = Some s' \<and> s' = map ?d (us @ [x])"
      using w[of x] t by simp
  qed simp
  then have "node_packet W vec high (word_of_nat a) = Some \<lparr>cp_addr = high OR word_of_nat a, cp_data = map ?d [0..<n]\<rparr>"
    using W(1) q by (simp add: node_packet_def)
  moreover have "bit (map ?d [0..<n] ! (r div 32)) (r mod 32) \<longleftrightarrow> a * nat W + r < 32 * length vec \<and> vec_bit vec (a * nat W + r)" if "r < nat W" for r
  proof -
    have "r div 32 < n" using that n(1) by (simp add: less_mult_imp_div_less mult.commute)
    moreover have "(a * nat W + r) div 32 = a * n + r div 32" "(a * nat W + r) mod 32 = r mod 32" using n(1) by (simp_all add: mult.left_commute[of a 32])
    moreover have "a * nat W + r < 32 * length vec \<longleftrightarrow> a * n + r div 32 < length vec"
      using calculation(2) by (metis less_mult_imp_div_less mult.commute nat_less_le div_less_iff_less_mult zero_less_numeral)
    ultimately show ?thesis by (auto simp: vec_bit_def)
  qed
  ultimately show ?thesis by (simp add: packet_bit_def)
qed

lemma narrow_packet:
  assumes W: "0 < W" "W < 32" "32 mod W = 0" and a: "a < 2 ^ 32" "a * nat W < 32 * length vec"
  shows "\<exists>pk. node_packet W vec high (word_of_nat a) = Some pk \<and> cp_addr pk = high OR word_of_nat a \<and>
    (\<forall>r < nat W. packet_bit pk r \<longleftrightarrow> vec_bit vec (a * nat W + r))"
proof -
  define V n where "V = nat W" and "n = 32 div nat W"
  have v: "W = int V" "0 < V" "V < 32" using W by (auto simp: V_def)
  have "int (32 mod V) = 0" using W(3) v(1) by (simp add: zmod_int)
  then have nV: "32 = n * V" using div_mult_mod_eq[of 32 V] by (simp add: n_def V_def)
  have n: "0 < n" "n \<le> 32" using nV v(2) by (auto intro: Nat.gr0I simp: n_def)
  have q: "word_of_int (32 sdiv W) = (word_of_nat n :: 32 word)"
  proof -
    have "32 sdiv W = int n" using v(1,2) zdiv_int[of 32 V] by (simp add: signed_divide_int_def sgn_if n_def V_def[symmetric])
    then show ?thesis by simp
  qed
  have un: "unat (word_of_nat n :: 32 word) = n" using n(2) by (simp add: unat_small)
  have idx: "unat (word_of_nat a div word_of_nat n :: 32 word) = a div n" using unat_small[OF a(1)] un by (simp add: unat_div)
  have sm: "(a mod n) * V < 32" using nV v(2) n(1) by (metis mod_less_divisor mult_less_mono1)
  have "(word_of_nat a mod word_of_nat n * word_of_int W :: 32 word) = word_of_nat ((a mod n) * V)"
  proof -
    have "(word_of_nat a mod word_of_nat n :: 32 word) = word_of_nat (a mod n)"
    proof (rule iffD2[OF word_unat_eq_iff])
      have "a mod n < n" using n(1) by simp
      then have "unat (word_of_nat (a mod n) :: 32 word) = a mod n" using n(2) by (intro unat_small) simp
      then show "unat (word_of_nat a mod word_of_nat n :: 32 word) = unat (word_of_nat (a mod n) :: 32 word)"
        using unat_small[OF a(1)] un by (simp add: unat_mod)
    qed
    then show ?thesis using v(1) by simp
  qed
  then have sh: "unat (word_of_nat a mod word_of_nat n * word_of_int W :: 32 word) = (a mod n) * V"
    using unat_small[of "(a mod n) * V"] sm by simp
  have split: "a * V + r = 32 * (a div n) + ((a mod n) * V + r)" for r
  proof -
    have "a * V = (n * (a div n) + a mod n) * V" by (simp only: mult_div_mod_eq)
    also have "\<dots> = (n * V) * (a div n) + (a mod n) * V" by (simp only: add_mult_distrib) (simp only: mult_ac)
    finally show ?thesis by (simp add: nV[symmetric])
  qed
  have lt: "(a mod n) * V + r < 32" if "r < V" for r
  proof -
    have "(a mod n) * V + r < Suc (a mod n) * V" using that by simp
    also have "\<dots> \<le> n * V" using n(1) by (intro mult_le_mono1) (simp add: Suc_le_eq)
    finally show ?thesis by (simp add: nV[symmetric])
  qed
  have "a div n < length vec" using a(2) split[of 0] v(1) by simp
  then have run: "node_packet W vec high (word_of_nat a) =
      Some \<lparr>cp_addr = high OR word_of_nat a, cp_data = [drop_bit ((a mod n) * V) (vec ! (a div n)) AND mask V]\<rparr>"
    using W(2) by (simp add: node_packet_def q idx sh Let_def V_def[symmetric])
  have "bit (drop_bit ((a mod n) * V) (vec ! (a div n)) AND mask V) r \<longleftrightarrow> vec_bit vec (a * V + r)" if "r < V" for r
  proof -
    have "(a * V + r) div 32 = a div n" "(a * V + r) mod 32 = (a mod n) * V + r"
      using lt[OF that] unfolding split[of r] by simp_all
    then show ?thesis using that v(3) by (simp add: vec_bit_def bit_and_iff bit_drop_bit_eq bit_mask_iff)
  qed
  then show ?thesis using run v(3) by (simp add: packet_bit_def V_def[symmetric])
qed

lemma packet_ok:
  assumes W: "bus_ok W" and a: "int a * W + W \<le> 2 ^ 31" "a * nat W < 32 * length vec"
  shows "\<exists>pk. node_packet W vec high (word_of_nat a) = Some pk \<and> cp_addr pk = high OR word_of_nat a \<and>
    (\<forall>r < nat W. packet_bit pk r \<longleftrightarrow> a * nat W + r < 32 * length vec \<and> vec_bit vec (a * nat W + r))"
proof (cases "32 \<le> W")
  case True
  then show ?thesis using wide_packet[OF True _ a(1)] W by (simp add: bus_ok_def)
next
  case False
  then have w: "0 < W" "W < 32" "32 mod W = 0" using W by (auto simp: bus_ok_def)
  have "int a \<le> int a * W" using w(1) by (simp add: mult_le_cancel_left1)
  then have "int a < 2 ^ 31" using a(1) w(1) by linarith
  then have "a < 2 ^ 32" by simp
  from narrow_packet[OF w this a(2)] show ?thesis
  proof -
    have "a * nat W + r < 32 * length vec" if "r < nat W" for r
    proof -
      define V where "V = nat W"
      have "int (32 mod V) = 0" using w by (simp add: zmod_int V_def)
      then obtain n where nV: "32 = V * n" by (metis of_nat_eq_0_iff mod_eq_0_iff_dvd dvd_def)
      have "V * a < V * (n * length vec)" using a(2) nV by (simp add: V_def[symmetric] mult.commute mult.left_commute)
      then have "Suc a \<le> n * length vec" by simp
      then have "V * Suc a \<le> 32 * length vec" unfolding nV mult.assoc by (rule mult_le_mono2)
      then show ?thesis using that by (simp add: V_def mult.commute)
    qed
    then show ?thesis using narrow_packet[OF w \<open>a < 2 ^ 32\<close> a(2), of high] by fastforce
  qed
qed

section \<open>What the packets load\<close>

text \<open>Bit \<open>j\<close> of the configuration memory of a block, after the packets are written.\<close>

definition loaded :: "int \<Rightarrow> cfgPacket list \<Rightarrow> 32 word \<Rightarrow> nat \<Rightarrow> bool" where
  "loaded W pks base j \<longleftrightarrow> (\<exists>pk \<in> set pks. cp_addr pk = base OR word_of_nat (j div nat W) \<and> packet_bit pk (j mod nat W))"

lemma node_packets_run:
  fixes blk :: int
  assumes W: "bus_ok W" and off: "0 \<le> off" "off < 32" and cfg: "cfg_fields cfg" and fin: "cfg_end cfg + W \<le> 2 ^ 31"
  defines "high \<equiv> push_bit (nat off) (word_of_int blk)"
  shows "\<exists>pks. node_packets W off blk cfg = Some pks \<and>
    (\<forall>pk \<in> set pks. \<exists>a \<in> covered cfg (nat W). cp_addr pk = high OR word_of_nat a \<and> (\<forall>r < nat W. packet_bit pk r \<longleftrightarrow> cfg_bit cfg (a * nat W + r))) \<and>
    (\<forall>a \<in> covered cfg (nat W). \<exists>pk \<in> set pks. cp_addr pk = high OR word_of_nat a)"
proof -
  have W0: "0 < W" using W by (simp add: bus_ok_def)
  have fo: "\<forall>f \<in> set cfg. field_ok f" and ne: "cfg \<noteq> []" using cfg by (simp_all add: cfg_fields_def)
  obtain lsb cd where l: "last cfg = (lsb, cd)" by (cases "last cfg")
  have e: "cfg_end cfg = lsb + cd_len cd" by (simp add: cfg_end_def l)
  have "field_ok (lsb, cd)" using fo ne l by (metis last_in_set)
  then have e1: "1 \<le> cfg_end cfg" by (auto simp: e field_ok_def)
  define num where "num = (nat (cfg_end cfg) + 31) div 32"
  have num: "(lsb + cd_len cd + 31) sdiv 32 = int num"
  proof -
    have "lsb + cd_len cd + 31 = int (nat (cfg_end cfg) + 31)" using e e1 by simp
    then show ?thesis unfolding num_def zdiv_int by (simp add: signed_divide_int_def sgn_if)
  qed
  have big: "cfg_end cfg \<le> 32 * int num"
  proof -
    have "nat (cfg_end cfg) \<le> 32 * num" unfolding num_def by arith
    then show ?thesis using e1 by simp
  qed
  let ?z = "replicate num (0 :: 32 word)"
  have "\<forall>f \<in> set cfg. field_ok f \<and> fst f + cd_len (snd f) \<le> 32 * int (length ?z)"
    using fo cfg_end_max[OF cfg] big by fastforce
  from pack_fields_ok[OF this] obtain vec where vec: "mfold pack_field ?z cfg = Some vec" "length vec = num"
    "\<And>i. vec_bit vec i \<longleftrightarrow> vec_bit ?z i \<or> cfg_bit cfg i" by auto
  have vb: "i < 32 * num \<and> vec_bit vec i \<longleftrightarrow> cfg_bit cfg i" for i
  proof -
    have "i < 32 * num \<Longrightarrow> \<not> vec_bit ?z i" by (simp add: vec_bit_def less_mult_imp_div_less mult.commute)
    moreover have "cfg_bit cfg i \<Longrightarrow> i < 32 * num" using cfg_bit_end[OF cfg, of i] big by simp
    ultimately show ?thesis using vec(3) by blast
  qed
  define addrs where "addrs = foldl (add_addrs W) [] cfg"
  have addrs: "set addrs = word_of_nat ` covered cfg (nat W)" using addrs_set[OF W0 fo, of "[]"] by (simp add: addrs_def)
  have pk: "\<exists>pk. node_packet W vec high (word_of_nat a) = Some pk \<and> cp_addr pk = high OR word_of_nat a \<and>
      (\<forall>r < nat W. packet_bit pk r \<longleftrightarrow> cfg_bit cfg (a * nat W + r))" if "a \<in> covered cfg (nat W)" for a
  proof -
    from that obtain f i where i: "f \<in> set cfg" "fst f \<le> int i" "int i < fst f + cd_len (snd f)" "a = i div nat W"
      unfolding covered_def by blast
    have lt: "int i < cfg_end cfg" using cfg_end_max[OF cfg i(1)] i(3) by simp
    have le: "a * nat W \<le> i" using i(4) by simp
    then have "int a * W \<le> int i" using W0 by (metis int_nat_eq of_nat_le_iff of_nat_mult less_le)
    then have "int a * W + W \<le> 2 ^ 31" using lt fin by simp
    moreover have "a * nat W < 32 * length vec" using le lt big vec(2) by simp
    ultimately show ?thesis using packet_ok[OF W, of a vec high] vb vec(2) by auto
  qed
  let ?Q = "\<lambda>us pks. (\<forall>pk \<in> set pks. \<exists>a \<in> covered cfg (nat W). cp_addr pk = high OR word_of_nat a \<and> (\<forall>r < nat W. packet_bit pk r \<longleftrightarrow> cfg_bit cfg (a * nat W + r))) \<and>
    (\<forall>addr \<in> set us. \<exists>pk \<in> set pks. cp_addr pk = high OR addr)"
  have "\<exists>pks. mfold (\<lambda>pks addr. do { pk \<leftarrow> node_packet W vec high addr; Some (pks @ [pk]) }) [] addrs = Some pks \<and> ?Q addrs pks"
  proof (rule mfold_prefix[where J = ?Q])
    fix us x vs pks assume us: "addrs = us @ x # vs" and q: "?Q us pks"
    have "x \<in> set addrs" by (simp add: us)
    then obtain a where a: "a \<in> covered cfg (nat W)" "x = word_of_nat a" using addrs by blast
    from pk[OF a(1)] q a show "\<exists>s'. do { pk \<leftarrow> node_packet W vec high x; Some (pks @ [pk]) } = Some s' \<and> ?Q (us @ [x]) s'" by auto
  qed simp
  then obtain pks where run: "mfold (\<lambda>pks addr. do { pk \<leftarrow> node_packet W vec high addr; Some (pks @ [pk]) }) [] addrs = Some pks" "?Q addrs pks" by blast
  have "\<not> (if 32 \<le> W then W smod 32 \<noteq> 0 else 32 smod W \<noteq> 0)"
    using W by (simp add: bus_ok_def signed_modulo_int_def sgn_if)
  then have "node_packets W off blk cfg = Some pks"
    using ne l num vec(1) run(1) W0 off by (simp add: node_packets_def om_last_def high_addr_def Let_def addrs_def[symmetric] high_def[symmetric])
  moreover have "\<exists>pk \<in> set pks. cp_addr pk = high OR word_of_nat a" if "a \<in> covered cfg (nat W)" for a
    using run(2) addrs that by blast
  ultimately show ?thesis using run(2) by blast
qed

text \<open>Addresses below \<open>2 ^ off\<close> leave the block index alone.\<close>

lemma addr_parts:
  assumes "off < 32" "a < 2 ^ off"
  shows "take_bit off (push_bit off x OR word_of_nat a :: 32 word) = word_of_nat a"
    "drop_bit off (push_bit off x OR word_of_nat a :: 32 word) = drop_bit off (push_bit off x)"
proof -
  have "take_bit off (word_of_nat a :: 32 word) = word_of_nat a"
    using assms(2) by (metis take_bit_nat_eq_self take_bit_of_nat)
  then show "take_bit off (push_bit off x OR word_of_nat a :: 32 word) = word_of_nat a"
    by (simp add: take_bit_or take_bit_push_bit)
  have "drop_bit off (word_of_nat a :: 32 word) = 0"
  proof (rule bit_word_eqI)
    fix n assume n: "n < LENGTH(32)"
    have "\<not> bit a (off + n)" using assms(2) by (metis bit_take_bit_iff not_add_less1 take_bit_nat_eq_self)
    then show "bit (drop_bit off (word_of_nat a :: 32 word)) n = bit (0 :: 32 word) n"
      by (simp add: bit_drop_bit_eq bit_of_nat_iff)
  qed
  then show "drop_bit off (push_bit off x OR word_of_nat a :: 32 word) = drop_bit off (push_bit off x)"
    by (simp add: drop_bit_or)
qed

text \<open>The fields of a block fit its addresses.\<close>

definition block_fits :: "int \<Rightarrow> int \<Rightarrow> cfg_map \<Rightarrow> bool" where
  "block_fits W off cfg \<longleftrightarrow> bus_ok W \<and> 0 \<le> off \<and> off < 32 \<and> cfg_fields cfg \<and> cfg_end cfg + W \<le> 2 ^ 31 \<and> cfg_end cfg \<le> W * 2 ^ nat off"

lemma covered_small:
  assumes "block_fits W off cfg" "a \<in> covered cfg (nat W)"
  shows "a < 2 ^ nat off"
proof -
  obtain f i where i: "f \<in> set cfg" "int i < fst f + cd_len (snd f)" "a = i div nat W" using assms(2) unfolding covered_def by blast
  have W: "0 < W" and c: "cfg_fields cfg" "cfg_end cfg \<le> W * 2 ^ nat off" using assms(1) by (auto simp: block_fits_def bus_ok_def)
  have "int i < W * 2 ^ nat off" using cfg_end_max[OF c(1) i(1)] i(2) c(2) by simp
  then have "int i < int (2 ^ nat off * nat W)" using W by (simp add: mult.commute)
  then have "i < 2 ^ nat off * nat W" by (simp only: of_nat_less_iff)
  then show ?thesis using i(3) by (simp add: less_mult_imp_div_less)
qed

lemma covered_bit:
  assumes "0 < V" "cfg_bit cfg j"
  shows "j div V \<in> covered cfg V"
  using assms unfolding cfg_bit_def field_bit_def covered_def by blast

lemma node_packets_ok:
  assumes fit: "block_fits W off cfg"
  shows "\<exists>pks. node_packets W off blk cfg = Some pks \<and>
    (\<forall>pk \<in> set pks. drop_bit (nat off) (cp_addr pk) = drop_bit (nat off) (push_bit (nat off) (word_of_int blk))) \<and>
    (\<forall>j < nat W * 2 ^ nat off. loaded W pks (push_bit (nat off) (word_of_int blk)) j \<longleftrightarrow> cfg_bit cfg j)"
proof -
  let ?h = "push_bit (nat off) (word_of_int blk) :: 32 word"
  have p: "bus_ok W" "0 \<le> off" "off < 32" "cfg_fields cfg" "cfg_end cfg + W \<le> 2 ^ 31" using fit by (simp_all add: block_fits_def)
  have o32: "nat off < 32" and V: "0 < nat W" using p(1-3) by (auto simp: bus_ok_def)
  from node_packets_run[OF p, of blk] obtain pks where run: "node_packets W off blk cfg = Some pks"
    and all: "\<And>pk. pk \<in> set pks \<Longrightarrow> \<exists>a \<in> covered cfg (nat W). cp_addr pk = ?h OR word_of_nat a \<and> (\<forall>r < nat W. packet_bit pk r \<longleftrightarrow> cfg_bit cfg (a * nat W + r))"
    and each: "\<And>a. a \<in> covered cfg (nat W) \<Longrightarrow> \<exists>pk \<in> set pks. cp_addr pk = ?h OR word_of_nat a" by blast
  have same: "a = b" if "?h OR word_of_nat a = ?h OR word_of_nat b" "a < 2 ^ nat off" "b < 2 ^ nat off" for a b
  proof -
    have "(word_of_nat a :: 32 word) = word_of_nat b"
      using arg_cong[OF that(1), of "take_bit (nat off)"] addr_parts(1)[OF o32 that(2)] addr_parts(1)[OF o32 that(3)] by metis
    moreover have "(2 :: nat) ^ nat off < 2 ^ 32" using o32 by (rule power_strict_increasing) simp
    then have "a < 2 ^ 32" "b < 2 ^ 32" using that(2,3) by linarith+
    ultimately show ?thesis by (metis unat_small)
  qed
  have "loaded W pks ?h j \<longleftrightarrow> cfg_bit cfg j" if j: "j < nat W * 2 ^ nat off" for j
  proof
    have jd: "j div nat W < 2 ^ nat off" using j by (simp add: less_mult_imp_div_less mult.commute)
    have jm: "j div nat W * nat W + j mod nat W = j" "j mod nat W < nat W" using V by simp_all
    {
      assume "loaded W pks ?h j"
      then obtain pk where pk: "pk \<in> set pks" "cp_addr pk = ?h OR word_of_nat (j div nat W)" "packet_bit pk (j mod nat W)"
        unfolding loaded_def by blast
      from all[OF pk(1)] obtain a where a: "a \<in> covered cfg (nat W)" "cp_addr pk = ?h OR word_of_nat a"
        "\<And>r. r < nat W \<Longrightarrow> packet_bit pk r \<longleftrightarrow> cfg_bit cfg (a * nat W + r)" by blast
      have "a = j div nat W" using same[OF _ covered_small[OF fit a(1)] jd] a(2) pk(2) by simp
      then show "cfg_bit cfg j" using a(3)[OF jm(2)] pk(3) jm(1) by simp
    next
      assume c: "cfg_bit cfg j"
      from each[OF covered_bit[OF V c]] obtain pk where pk: "pk \<in> set pks" "cp_addr pk = ?h OR word_of_nat (j div nat W)" by blast
      from all[OF pk(1)] obtain a where a: "a \<in> covered cfg (nat W)" "cp_addr pk = ?h OR word_of_nat a"
        "\<And>r. r < nat W \<Longrightarrow> packet_bit pk r \<longleftrightarrow> cfg_bit cfg (a * nat W + r)" by blast
      have "a = j div nat W" using same[OF _ covered_small[OF fit a(1)] jd] a(2) pk(2) by simp
      then show "loaded W pks ?h j" using a(3)[OF jm(2)] pk c jm(1) unfolding loaded_def by auto
    }
  qed
  moreover have "drop_bit (nat off) (cp_addr pk) = drop_bit (nat off) ?h" if "pk \<in> set pks" for pk
    using all[OF that] covered_small[OF fit] addr_parts(2)[OF o32] by metis
  ultimately show ?thesis using run by blast
qed

text \<open>A field of the configuration reads back as it was written.\<close>

lemma cfg_bit_field:
  assumes c: "cfg_fields cfg" and f: "f \<in> set cfg" and k: "int k < cd_len (snd f)"
  shows "cfg_bit cfg (nat (fst f) + k) \<longleftrightarrow> bit (hd (cd_data (snd f))) k"
proof -
  have f0: "0 \<le> fst f" using c f unfolding cfg_fields_def field_ok_def by blast
  have "f' = f" if f': "f' \<in> set cfg" "fst f' \<le> fst f + int k" "fst f + int k < fst f' + cd_len (snd f')" for f'
  proof -
    have so: "sorted_wrt (\<lambda>f f'. fst f + cd_len (snd f) \<le> fst f') cfg" using c by (simp add: cfg_fields_def)
    obtain i where "i < length cfg" "cfg ! i = f" using f by (auto simp: in_set_conv_nth)
    moreover obtain i' where "i' < length cfg" "cfg ! i' = f'" using f'(1) by (auto simp: in_set_conv_nth)
    ultimately have i: "i < length cfg" "cfg ! i = f" "i' < length cfg" "cfg ! i' = f'" by blast+
    consider "i < i'" | "i' < i" | "i = i'" by linarith
    then show ?thesis
    proof cases
      case 1
      then have "fst f + cd_len (snd f) \<le> fst f'" using sorted_wrt_nth_less[OF so 1 i(3)] i by simp
      then show ?thesis using f' k by simp
    next
      case 2
      then have "fst f' + cd_len (snd f') \<le> fst f" using sorted_wrt_nth_less[OF so 2 i(1)] i by simp
      then show ?thesis using f' k by simp
    qed (use i in simp)
  qed
  then have uniq: "f' = f" if "f' \<in> set cfg" "field_bit f' (nat (fst f) + k)" for f'
    using that f0 by (simp add: field_bit_def)
  have "field_bit f (nat (fst f) + k) \<longleftrightarrow> bit (hd (cd_data (snd f))) k"
    using f0 k by (simp add: field_bit_def)
  then show ?thesis unfolding cfg_bit_def using f uniq by blast
qed

end
