(* ===== verification/Configuration.thy ===== *)
theory Configuration
  imports CfgPack Timing
begin

text \<open>
  The configuration of the mapped ADG (\<open>src/mapper/configuration.cpp\<close>): for every node the map
  from the lowest bit of a configuration field to its value, then the packets of all nodes.

  A node of the sub-ADG is found by id, null if there is none; reading through null, taking the
  first element of an empty set, the last link of an edge that has none, and a field without a
  location (an assertion) fail, as do the assertions on strides and nesting levels.
\<close>

section \<open>Fields\<close>

definition first_of :: "'a list \<Rightarrow> 'a option" where
  "first_of xs = (case xs of [] \<Rightarrow> None | x # _ \<Rightarrow> Some x)"

definition loc_len :: "cfgDataLoc \<Rightarrow> int" where
  "loc_len loc = cl_high loc - cl_low loc + 1"

definition put_field :: "anode \<Rightarrow> int \<Rightarrow> 32 word \<Rightarrow> cfg_map \<Rightarrow> cfg_map option" where
  "put_field node cid d cfg = do {
     loc \<leftarrow> anode_configInfo node cid;
     Some (om_put cfg (cl_low loc) (cfg_word (loc_len loc) d)) }"

text \<open>A configuration item of a known name; an unknown name is item 0.\<close>

definition put_item :: "anode \<Rightarrow> string \<Rightarrow> int \<Rightarrow> cfg_map \<Rightarrow> cfg_map option" where
  "put_item node name v cfg = put_field node (om_at 0 (an_cfgIdMap node) name) (word_of_int v) cfg"

text \<open>A 64-bit constant. The shift of the value in the loop is an expression without effect, so
  every word of the field is the low word of the value; a shift of 1 by 64 is undefined.\<close>

definition wide_words :: "int \<Rightarrow> 64 word \<Rightarrow> 32 word list option" where
  "wide_words len v =
     (if len < 0 \<or> 64 \<le> len then None
      else Some (replicate (nat ((len + 31) sdiv 32)) (ucast (v AND mask (nat len)))))"

definition put_const :: "anode \<Rightarrow> int \<Rightarrow> 64 word \<Rightarrow> cfg_map \<Rightarrow> cfg_map option" where
  "put_const node cid v cfg = do {
     loc \<leftarrow> anode_configInfo node cid;
     ds \<leftarrow> wide_words (loc_len loc) v;
     Some (om_put cfg (cl_low loc) \<lparr>cd_len = loc_len loc, cd_data = ds\<rparr>) }"

section \<open>The operand path of a functional unit\<close>

definition last_link :: "mapping \<Rightarrow> int \<Rightarrow> edgeLink option" where
  "last_link m eid = (let ls = ea_edgeLinks (deattr m eid) in if ls = [] then None else Some (last ls))"

record operandPath =
  op_mux :: int
  op_sel :: int
  op_rdu :: int
  op_rduPort :: int

definition operand_path :: "sub_adg \<Rightarrow> int \<Rightarrow> operandPath option" where
  "operand_path sub inputIdx = do {
     (muxId, muxData) \<leftarrow> first_of (graph_input sub inputIdx);
     mux \<leftarrow> adg_node sub muxId;
     (rduId, rduPort) \<leftarrow> first_of (gnode_output mux 0);
     Some \<lparr>op_mux = muxId, op_sel = muxData, op_rdu = rduId, op_rduPort = rduPort\<rparr> }"

text \<open>The delays of the ports side by side; a shift by a negative amount or by 32 and more is
  undefined.\<close>

definition put_delay :: "int \<Rightarrow> 32 word \<Rightarrow> int \<times> int \<Rightarrow> 32 word option" where
  "put_delay each w elem = (case elem of (port, d) \<Rightarrow>
     if each * port < 0 \<or> 32 \<le> each * port then None
     else Some (w OR push_bit (nat (each * port)) (word_of_int d)))"

definition delay_word :: "int \<Rightarrow> (int, int) omap \<Rightarrow> 32 word option" where
  "delay_word each used = mfold (put_delay each) 0 used"

definition put_delays :: "anode \<Rightarrow> int \<Rightarrow> (int, int) omap \<Rightarrow> cfg_map \<Rightarrow> cfg_map option" where
  "put_delays node rduId used cfg = do {
     loc \<leftarrow> anode_configInfo node rduId;
     (if an_numOperands node = 0 then None else Some ());
     w \<leftarrow> delay_word (loc_len loc sdiv an_numOperands node) used;
     put_field node rduId w cfg }"

section \<open>Processing elements\<close>

record gpe_scan =
  gs_cfg :: cfg_map
  gs_alu :: int
  gs_rdu :: int
  gs_used :: "int oset"
  gs_delay :: "(int, int) omap"

definition gpe_edge :: "mapping \<Rightarrow> anode \<Rightarrow> sub_adg \<Rightarrow> gpe_scan \<Rightarrow> int \<times> int \<Rightarrow> gpe_scan option" where
  "gpe_edge m node sub s elem = do {
     let eid = snd elem;
     l \<leftarrow> last_link m eid;
     p \<leftarrow> operand_path sub (el_srcPort l);
     rdu \<leftarrow> adg_node sub (op_rdu p);
     (aluId, aluPort) \<leftarrow> first_of (gnode_output rdu (op_rduPort p));
     cfg \<leftarrow> put_field node (op_mux p) (word_of_int (op_sel p)) (gs_cfg s);
     Some \<lparr>gs_cfg = cfg, gs_alu = aluId, gs_rdu = op_rdu p, gs_used = os_ins (gs_used s) aluPort,
           gs_delay = om_put (gs_delay s) (op_rduPort p) (ea_delay (deattr m eid))\<rparr> }"

definition gpe_no_input :: "sub_adg \<Rightarrow> gpe_scan \<Rightarrow> gpe_scan option" where
  "gpe_no_input sub s =
     (if gs_alu s \<noteq> -1 then Some s
      else do {
        p \<leftarrow> operand_path sub 0;
        rdu \<leftarrow> adg_node sub (op_rdu p);
        (aluId, _) \<leftarrow> first_of (gnode_output rdu 0);
        Some (s\<lparr>gs_alu := aluId, gs_rdu := op_rdu p\<rparr>) })"

definition gpe_acc :: "dnode \<Rightarrow> int \<Rightarrow> anode \<Rightarrow> cfg_map \<Rightarrow> cfg_map option" where
  "gpe_acc nd latency node cfg = do {
     c1 \<leftarrow> put_const node (om_at 0 (an_cfgIdMap node) ''InitVal'') (dn_initVal nd) cfg;
     c2 \<leftarrow> put_item node ''WI'' (dn_interval nd) c1;
     c3 \<leftarrow> put_item node ''Latency'' latency c2;
     c4 \<leftarrow> put_item node ''Cycles'' (dn_cycles nd) c3;
     c5 \<leftarrow> put_item node ''Repeats'' (dn_repeats nd) c4;
     put_item node ''SkipFirst'' (if dn_isAccFirst nd then 0 else 1) c5 }"

text \<open>The first input of the multiplexer that comes from a \<open>Const\<close>: its index and the constant.\<close>

fun const_input :: "sub_adg \<Rightarrow> (int \<times> int \<times> int) list \<Rightarrow> (int \<times> int) option option" where
  "const_input sub [] = Some None"
| "const_input sub ((p, (i, q)) # srcs) =
     (if i = g_id sub then const_input sub srcs
      else do {
        n \<leftarrow> adg_node sub i;
        (if gn_type n = ''Const'' then Some (Some (p, i)) else const_input sub srcs) })"

definition gpe_imm :: "dnode \<Rightarrow> anode \<Rightarrow> sub_adg \<Rightarrow> gpe_scan \<Rightarrow> cfg_map \<Rightarrow> cfg_map option" where
  "gpe_imm nd node sub s cfg = do {
     i \<leftarrow> find (\<lambda>i. i \<notin> set (gs_used s)) (map int [0..<nat (dnode_numInputs nd)]);
     rdu \<leftarrow> adg_node sub (gs_rdu s);
     let muxId = fst (gnode_input rdu i);
     mux \<leftarrow> adg_node sub muxId;
     r \<leftarrow> const_input sub (gn_inputs mux);
     (case r of None \<Rightarrow> Some cfg
      | Some (p, cid) \<Rightarrow> do {
          c1 \<leftarrow> put_field node muxId (word_of_int p) cfg;
          put_const node cid (dn_imm nd) c1 }) }"

definition getGpeCfgData :: "op_table \<Rightarrow> dfg \<Rightarrow> mapping \<Rightarrow> anode \<Rightarrow> cfg_map option" where
  "getGpeCfgData ops g m node =
     (if \<not> isMappedAdg m (gn_id node) then Some []
      else do {
        n \<leftarrow> aa_dfgNode (anattr m (gn_id node));
        nd \<leftarrow> dfg_node g n;
        sub \<leftarrow> an_subADG node;
        s0 \<leftarrow> mfold (gpe_edge m node sub) \<lparr>gs_cfg = [], gs_alu = -1, gs_rdu = 0, gs_used = [], gs_delay = []\<rparr> (gn_inputEdges nd);
        s \<leftarrow> gpe_no_input sub s0;
        c1 \<leftarrow> put_field node (gs_alu s) (word_of_int (op_OPC ops (dn_operation nd))) (gs_cfg s);
        c2 \<leftarrow> put_delays node (gs_rdu s) (gs_delay s) c1;
        c3 \<leftarrow> (if dn_accumulative nd then gpe_acc nd (lat m (gn_id nd) - dn_opLatency nd) node c2 else Some c2);
        (if dnode_hasImm nd then gpe_imm nd node sub s c3 else Some c3) })"

section \<open>I/O blocks\<close>

definition iob_stride :: "anode \<Rightarrow> string \<Rightarrow> int \<Rightarrow> cfg_map \<Rightarrow> cfg_map option" where
  "iob_stride node name stride cfg = do {
     let cid = om_at 0 (an_cfgIdMap node) name;
     loc \<leftarrow> anode_configInfo node cid;
     (if loc_len loc < 0 \<or> 32 \<le> loc_len loc then None
      else put_field node cid (word_of_int stride AND (push_bit (nat (loc_len loc)) 1 - 1)) cfg) }"

definition iob_level :: "anode \<Rightarrow> int \<Rightarrow> (int \<times> int) list \<Rightarrow> cfg_map \<Rightarrow> nat \<Rightarrow> cfg_map option" where
  "iob_level node dataBytes pattern cfg i = do {
     let (stride, cycles) = (if i < length pattern then pattern ! i else (0, 0));
     (if i < length pattern \<and> stride smod dataBytes \<noteq> 0 then None else Some ());
     c1 \<leftarrow> iob_stride node (''Stride'' @ int_to_string (int i)) (if i < length pattern then stride sdiv dataBytes else 0) cfg;
     put_item node (''Cycles'' @ int_to_string (int i)) cycles c1 }"

definition iob_edge :: "mapping \<Rightarrow> anode \<Rightarrow> sub_adg \<Rightarrow> cfg_map \<times> int \<times> (int, int) omap \<Rightarrow> int \<times> int \<Rightarrow>
    (cfg_map \<times> int \<times> (int, int) omap) option" where
  "iob_edge m node sub s elem = (case s of (cfg, _, used) \<Rightarrow> do {
     let eid = snd elem;
     let delay = ea_delay (deattr m eid);
     l \<leftarrow> last_link m eid;
     p \<leftarrow> operand_path sub (el_srcPort l);
     c1 \<leftarrow> put_field node (op_mux p) (word_of_int (op_sel p)) cfg;
     rdu \<leftarrow> adg_node sub (op_rdu p);
     (if gn_type rdu = ''RDU''
      then do {
        c2 \<leftarrow> put_field node (op_rdu p) (word_of_int delay) c1;
        Some (c2, op_rdu p, om_put used (op_rduPort p) delay) }
      else Some (c1, op_rdu p, used)) })"

definition iob_inputs :: "mapping \<Rightarrow> anode \<Rightarrow> sub_adg \<Rightarrow> dnode \<Rightarrow> cfg_map \<Rightarrow> cfg_map option" where
  "iob_inputs m node sub nd cfg = do {
     (c1, rduId, used) \<leftarrow> mfold (iob_edge m node sub) (cfg, 0, []) (gn_inputEdges nd);
     (if used = [] then Some c1 else put_delays node rduId used c1) }"

definition getIobCfgData :: "top_adg \<Rightarrow> (int, int) omap \<Rightarrow> dfg \<Rightarrow> mapping \<Rightarrow> anode \<Rightarrow> cfg_map option" where
  "getIobCfgData a spadAddrs g m node =
     (if \<not> isMappedAdg m (gn_id node) then Some []
      else do {
        sub \<leftarrow> an_subADG node;
        n \<leftarrow> aa_dfgNode (anattr m (gn_id node));
        nd \<leftarrow> dfg_node g n;
        io \<leftarrow> dn_io nd;
        outs \<leftarrow> dfg_getOutNodes g;
        let isStore = (if gn_id nd \<in> set outs then 1 else 0);
        let latency = lat m (gn_id nd) - dn_opLatency nd;
        let dataBytes = g_bitWidth a sdiv 8;
        (if dataBytes = 0 then None else Some ());
        let baseAddr = om_at 0 spadAddrs (gn_id nd);
        c1 \<leftarrow> put_item node ''BaseAddr'' (baseAddr + io_reducedMemOffset io sdiv dataBytes) [];
        (if ag_iobAgNestLevels a < int (length (io_pattern io)) then None else Some ());
        c2 \<leftarrow> mfold (iob_level node dataBytes (io_pattern io)) c1 [0..<nat (ag_iobAgNestLevels a)];
        c3 \<leftarrow> put_item node ''II'' 1 c2;
        c4 \<leftarrow> put_item node ''Latency'' latency c3;
        c5 \<leftarrow> put_item node ''IsStore'' isStore c4;
        c6 \<leftarrow> (if om_has (an_cfgIdMap node) ''UseAddr''
               then put_item node ''UseAddr'' (if dn_operation nd = ''LOAD'' \<or> dn_operation nd = ''STORE'' then 1 else 0) c5
               else Some c5);
        (if dn_operation nd \<noteq> ''INPUT'' then iob_inputs m node sub nd c6 else Some c6) })"

section \<open>Interconnect blocks\<close>

definition gib_pass :: "anode \<Rightarrow> sub_adg \<Rightarrow> cfg_map \<Rightarrow> edgePass \<Rightarrow> cfg_map option" where
  "gib_pass node sub cfg pass = (let muxId = fst (graph_output sub (ep_dstPort pass)) in
     if muxId = g_id sub then Some cfg
     else do {
       mux \<leftarrow> adg_node sub muxId;
       (case find (\<lambda>(p, (i, q)). q = ep_srcPort pass) (gn_inputs mux) of
          None \<Rightarrow> Some cfg
        | Some (p, _) \<Rightarrow> put_field node muxId (word_of_int p) cfg) })"

definition getGibCfgData :: "mapping \<Rightarrow> anode \<Rightarrow> cfg_map option" where
  "getGibCfgData m node =
     (let passEdges = aa_dfgEdgePass (anattr m (gn_id node)) in
      if passEdges = [] then Some []
      else do { sub \<leftarrow> an_subADG node; mfold (gib_pass node sub) [] passEdges })"

section \<open>The whole ADG\<close>

text \<open>The mapping with its DFG, and the operation table; \<open>_dfgIoSpadAddrs\<close> is set by the scheduler.\<close>

record configuration =
  cf_ops :: op_table
  cf_adg :: top_adg
  cf_dfg :: dfg
  cf_mapping :: mapping
  cf_spadAddrs :: "(int, int) omap"

definition setDfgIoSpadAddr :: "int \<Rightarrow> int \<Rightarrow> configuration \<Rightarrow> configuration" where
  "setDfgIoSpadAddr nid addr c = c\<lparr>cf_spadAddrs := om_put (cf_spadAddrs c) nid addr\<rparr>"

definition node_cfg :: "configuration \<Rightarrow> anode \<Rightarrow> cfg_map option" where
  "node_cfg c node =
     (if gn_type node = ''GPE'' then getGpeCfgData (cf_ops c) (cf_dfg c) (cf_mapping c) node
      else if gn_type node = ''GIB'' then getGibCfgData (cf_mapping c) node
      else if gn_type node = ''IOB'' then getIobCfgData (cf_adg c) (cf_spadAddrs c) (cf_dfg c) (cf_mapping c) node
      else Some [])"

definition getNodeCfgData :: "configuration \<Rightarrow> anode \<Rightarrow> cfgPacket list \<Rightarrow> cfgPacket list option" where
  "getNodeCfgData c node cfg = do {
     cfgMap \<leftarrow> node_cfg c node;
     (if cfgMap = [] then Some cfg
      else do {
        pks \<leftarrow> node_packets (ag_cfgDataWidth (cf_adg c)) (ag_cfgBlkOffset (cf_adg c)) (an_cfgBlkIdx node) cfgMap;
        Some (cfg @ pks) }) }"

definition getCfgData :: "configuration \<Rightarrow> cfgPacket list option" where
  "getCfgData c = mfold (\<lambda>cfg elem. getNodeCfgData c (snd elem) cfg) [] (ag_nodes (cf_adg c))"

section \<open>The file of configuration data\<close>

fun hex_digits :: "nat \<Rightarrow> string" where
  "hex_digits n = (let d = (\<lambda>k. if k < 10 then char_of (48 + k) else char_of (87 + k)) in
     if n < 16 then [d n] else hex_digits (n div 16) @ [d (n mod 16)])"

declare hex_digits.simps [simp del]

text \<open>\<open>std::hex << std::setw(w) << std::setfill('0')\<close>.\<close>

definition hex_pad :: "int \<Rightarrow> nat \<Rightarrow> string" where
  "hex_pad w n = (let s = hex_digits n in replicate (nat w - length s) (CHR ''0'') @ s)"

definition packet_line :: "int \<Rightarrow> int \<Rightarrow> cfgPacket \<Rightarrow> string" where
  "packet_line addrHex dataHex pk = hex_pad addrHex (unat (cp_addr pk)) @ '' '' @
     concat (map (\<lambda>d. hex_pad dataHex (unat d)) (rev (cp_data pk))) @ [CHR 0x0A]"

definition dumpCfgData :: "configuration \<Rightarrow> string option" where
  "dumpCfgData c = do {
     cfg \<leftarrow> getCfgData c;
     let addrHex = (ag_cfgAddrWidth (cf_adg c) + 3) sdiv 4;
     let dataHex = min (ag_cfgDataWidth (cf_adg c) sdiv 4) 8;
     Some (concat (map (packet_line addrHex dataHex) cfg)) }"

end
