(* ===== verification/ConfigCorrect.thy ===== *)
theory ConfigCorrect
  imports Configuration SaLoop
begin

text \<open>
  What the configuration does: written to the ADG, every field of every node reads back as it
  was computed, the multiplexers of the interconnect blocks connect exactly the routed edges,
  and the delays of a functional unit can be told apart.
\<close>

section \<open>The packets of the whole ADG\<close>

definition blk_word :: "int \<Rightarrow> anode \<Rightarrow> 32 word" where
  "blk_word off node = push_bit (nat off) (word_of_int (an_cfgBlkIdx node))"

text \<open>Every node has a configuration that fits its block, and no two configured nodes share one.\<close>

definition blocks_ok :: "configuration \<Rightarrow> bool" where
  "blocks_ok c \<longleftrightarrow> (let a = cf_adg c; W = ag_cfgDataWidth a; off = ag_cfgBlkOffset a in
     om_wf (ag_nodes a) \<and>
     (\<forall>k n. adg_node a k = Some n \<longrightarrow> (\<exists>cfg. node_cfg c n = Some cfg \<and>
        (cfg \<noteq> [] \<longrightarrow> block_fits W off cfg \<and> 0 \<le> an_cfgBlkIdx n \<and> an_cfgBlkIdx n < 2 ^ (32 - nat off)))) \<and>
     (\<forall>k n k' n'. adg_node a k = Some n \<longrightarrow> adg_node a k' = Some n' \<longrightarrow> node_cfg c n \<noteq> Some [] \<longrightarrow> node_cfg c n' \<noteq> Some [] \<longrightarrow>
        an_cfgBlkIdx n = an_cfgBlkIdx n' \<longrightarrow> k = k'))"

lemma loaded_append: "loaded W (xs @ ys) base j \<longleftrightarrow> loaded W xs base j \<or> loaded W ys base j"
  by (auto simp: loaded_def)

lemma blk_word_drop:
  assumes "0 \<le> off" "off < 32" "0 \<le> b" "b < 2 ^ (32 - nat off)"
  shows "drop_bit (nat off) (push_bit (nat off) (word_of_int b :: 32 word)) = word_of_int b"
proof (rule bit_word_eqI)
  fix i assume i: "i < LENGTH(32)"
  have "\<not> bit b i" if "32 - nat off \<le> i"
  proof -
    have "take_bit (32 - nat off) b = b" using assms(3,4) by (simp add: take_bit_int_eq_self)
    then show ?thesis using that by (metis bit_take_bit_iff not_le)
  qed
  then show "bit (drop_bit (nat off) (push_bit (nat off) (word_of_int b :: 32 word))) i = bit (word_of_int b :: 32 word) i"
    using i assms(2) by (cases "32 - nat off \<le> i") (auto simp: bit_drop_bit_eq bit_push_bit_iff bit_word_of_int_iff)
qed

lemma blk_inj:
  assumes "0 \<le> off" "off < 32" "0 \<le> b" "b < 2 ^ (32 - nat off)" "0 \<le> b'" "b' < 2 ^ (32 - nat off)"
    "drop_bit (nat off) (push_bit (nat off) (word_of_int b :: 32 word)) = drop_bit (nat off) (push_bit (nat off) (word_of_int b'))"
  shows "b = b'"
proof -
  have "(word_of_int b :: 32 word) = word_of_int b'" using blk_word_drop assms by metis
  moreover have "(2 :: int) ^ (32 - nat off) \<le> 2 ^ 32" by (rule power_increasing) auto
  ultimately show ?thesis using assms(3-6) by (simp add: word_of_int_eq_iff take_bit_int_eq_self)
qed

lemma getCfgData_ok:
  assumes ok: "blocks_ok c"
  defines "a \<equiv> cf_adg c" and "W \<equiv> ag_cfgDataWidth (cf_adg c)" and "off \<equiv> ag_cfgBlkOffset (cf_adg c)"
  shows "\<exists>pks. getCfgData c = Some pks \<and> (\<forall>k n cfg. adg_node a k = Some n \<longrightarrow> node_cfg c n = Some cfg \<longrightarrow> cfg \<noteq> [] \<longrightarrow>
    (\<forall>j < nat W * 2 ^ nat off. loaded W pks (blk_word off n) j \<longleftrightarrow> cfg_bit cfg j))"
proof -
  let ?on = "\<lambda>n. \<exists>cfg. node_cfg c n = Some cfg \<and> cfg \<noteq> []"
  let ?mem = "\<lambda>us n. \<exists>k. (k, n) \<in> set us"
  let ?J = "\<lambda>us pks. (\<forall>pk \<in> set pks. \<exists>k n. (k, n) \<in> set us \<and> ?on n \<and> drop_bit (nat off) (cp_addr pk) = drop_bit (nat off) (blk_word off n)) \<and>
     (\<forall>k n cfg. (k, n) \<in> set us \<longrightarrow> node_cfg c n = Some cfg \<longrightarrow> cfg \<noteq> [] \<longrightarrow>
        (\<forall>j < nat W * 2 ^ nat off. loaded W pks (blk_word off n) j \<longleftrightarrow> cfg_bit cfg j))"
  have wf: "om_wf (ag_nodes a)" using ok by (simp add: blocks_ok_def a_def Let_def)
  have node: "(k, n) \<in> set (ag_nodes a) \<longleftrightarrow> adg_node a k = Some n" for k n using om_get_mem[OF wf] by (simp add: adg_node_def)
  have fit: "\<exists>cfg. node_cfg c n = Some cfg \<and> (cfg \<noteq> [] \<longrightarrow> block_fits W off cfg \<and> 0 \<le> an_cfgBlkIdx n \<and> an_cfgBlkIdx n < 2 ^ (32 - nat off))"
    if "adg_node a k = Some n" for k n
    using ok that unfolding blocks_ok_def Let_def a_def W_def off_def by blast
  have dis: "k = k'" if "adg_node a k = Some n" "adg_node a k' = Some n'" "an_cfgBlkIdx n = an_cfgBlkIdx n'" "node_cfg c n \<noteq> Some []"
      "node_cfg c n' \<noteq> Some []" for k n k' n'
    using ok that unfolding blocks_ok_def Let_def a_def by blast
  have uniq: "k = k'" if "adg_node a k = Some n" "adg_node a k' = Some n'" "?on n" "?on n'"
      "drop_bit (nat off) (blk_word off n) = drop_bit (nat off) (blk_word off n')" for k k' n n'
  proof -
    have b: "0 \<le> off" "off < 32" "0 \<le> an_cfgBlkIdx n" "an_cfgBlkIdx n < 2 ^ (32 - nat off)" "0 \<le> an_cfgBlkIdx n'" "an_cfgBlkIdx n' < 2 ^ (32 - nat off)"
      using fit[OF that(1)] fit[OF that(2)] that(3,4) by (auto simp: block_fits_def)
    have "an_cfgBlkIdx n = an_cfgBlkIdx n'" by (rule blk_inj[OF b]) (use that(5) in \<open>simp add: blk_word_def\<close>)
    then show ?thesis by (rule dis[OF that(1,2)]) (use that(3,4) in auto)
  qed
  have loaded_drop: "\<exists>pk \<in> set pks. drop_bit (nat off) (cp_addr pk) = drop_bit (nat off) (blk_word off n)"
    if "loaded W pks (blk_word off n) j" "j < nat W * 2 ^ nat off" "0 \<le> off" "off < 32" for pks n j
  proof -
    have "j div nat W < 2 ^ nat off" using that(2) by (simp add: less_mult_imp_div_less mult.commute)
    moreover have "nat off < 32" using that(3,4) by simp
    ultimately show ?thesis using that(1) addr_parts(2)[of "nat off" "j div nat W"] unfolding loaded_def blk_word_def by metis
  qed
  have "\<exists>pks. getCfgData c = Some pks \<and> ?J (ag_nodes a) pks"
    unfolding getCfgData_def a_def[symmetric]
  proof (rule mfold_prefix[where J = ?J])
    fix us x vs pks assume us: "ag_nodes a = us @ x # vs" and J: "?J us pks"
    obtain k n where x: "x = (k, n)" by (cases x)
    have kn: "adg_node a k = Some n" using node[of k n] us x by simp
    have prev: "adg_node a k' = Some n'" if "(k', n') \<in> set us" for k' n' using node[of k' n'] us that by simp
    obtain cfg where cfg: "node_cfg c n = Some cfg" "cfg \<noteq> [] \<Longrightarrow> block_fits W off cfg" using fit[OF kn] by blast
    show "\<exists>s'. getNodeCfgData c (snd x) pks = Some s' \<and> ?J (us @ [x]) s'"
    proof (cases "cfg = []")
      case True
      then show ?thesis using J cfg x by (fastforce simp: getNodeCfgData_def)
    next
      case False
      from node_packets_ok[OF cfg(2)[OF False], of "an_cfgBlkIdx n"] obtain new where
        new: "node_packets W off (an_cfgBlkIdx n) cfg = Some new"
          "\<And>pk. pk \<in> set new \<Longrightarrow> drop_bit (nat off) (cp_addr pk) = drop_bit (nat off) (blk_word off n)"
          "\<And>j. j < nat W * 2 ^ nat off \<Longrightarrow> loaded W new (blk_word off n) j \<longleftrightarrow> cfg_bit cfg j" by (auto simp: blk_word_def)
      have off: "0 \<le> off" "off < 32" using cfg(2)[OF False] by (simp_all add: block_fits_def)
      have fresh: "k' \<noteq> k" if "(k', n') \<in> set us" for k' n'
        using om_wf_distinct[OF wf] us x that by (auto simp: image_iff)
      have old: "\<not> loaded W pks (blk_word off n) j" if j: "j < nat W * 2 ^ nat off" for j
      proof
        assume "loaded W pks (blk_word off n) j"
        from loaded_drop[OF this j off] J obtain k' n' where o: "(k', n') \<in> set us" "?on n'"
          "drop_bit (nat off) (blk_word off n') = drop_bit (nat off) (blk_word off n)" by metis
        have "k' = k" by (rule uniq[OF prev[OF o(1)] kn o(2) _ o(3)]) (use cfg False in blast)
        then show False using fresh[OF o(1)] by simp
      qed
      have other: "\<not> loaded W new (blk_word off n') j" if j: "j < nat W * 2 ^ nat off" and o: "(k', n') \<in> set us" "?on n'" for j k' n'
      proof
        assume "loaded W new (blk_word off n') j"
        from loaded_drop[OF this j off] new(2) have "drop_bit (nat off) (blk_word off n) = drop_bit (nat off) (blk_word off n')" by metis
        then have "k' = k" using uniq[OF prev[OF o(1)] kn o(2)] cfg False by metis
        then show False using fresh[OF o(1)] by simp
      qed
      have run: "getNodeCfgData c (snd x) pks = Some (pks @ new)"
        using cfg(1) False new(1) x by (simp add: getNodeCfgData_def W_def off_def)
      have "?J (us @ [x]) (pks @ new)"
      proof (intro conjI ballI allI impI)
        fix pk assume "pk \<in> set (pks @ new)"
        then show "\<exists>k n. (k, n) \<in> set (us @ [x]) \<and> ?on n \<and> drop_bit (nat off) (cp_addr pk) = drop_bit (nat off) (blk_word off n)"
          using J new(2) cfg(1) False x by (fastforce simp: Un_iff)
      next
        fix k1 n1 cfg1 j assume h: "(k1, n1) \<in> set (us @ [x])" "node_cfg c n1 = Some cfg1" "cfg1 \<noteq> []" "j < nat W * 2 ^ nat off"
        show "loaded W (pks @ new) (blk_word off n1) j \<longleftrightarrow> cfg_bit cfg1 j"
        proof (cases "(k1, n1) \<in> set us")
          case True
          then have "loaded W pks (blk_word off n1) j \<longleftrightarrow> cfg_bit cfg1 j" using J h(2-4) by blast
          then show ?thesis using other[OF h(4) True] h(2,3) by (auto simp: loaded_append)
        next
          case False
          then have "n1 = n" using h(1) x by simp
          then show ?thesis using h cfg(1) old[OF h(4)] new(3)[OF h(4)] by (simp add: loaded_append)
        qed
      qed
      then show ?thesis using run by blast
    qed
  qed simp
  then obtain pks where "getCfgData c = Some pks" and J: "?J (ag_nodes a) pks" by blast
  moreover have "loaded W pks (blk_word off n) j \<longleftrightarrow> cfg_bit cfg j"
    if "adg_node a k = Some n" "node_cfg c n = Some cfg" "cfg \<noteq> []" "j < nat W * 2 ^ nat off" for k n cfg j
    using J[THEN conjunct2, rule_format, OF _ that(2-4)] node[of k n] that(1) by simp
  ultimately show ?thesis by blast
qed

text \<open>C27: Configuration round trip over the whole ADG: the packets of \<open>getCfgData\<close>, written to their
  addresses, put into the block of every node exactly the value of every field of its
  configuration, bit by bit. No node disturbs another, for every width of the configuration bus.\<close>

theorem getCfgData_roundtrip:
  assumes "blocks_ok c" "adg_node (cf_adg c) k = Some n" "node_cfg c n = Some cfg" "f \<in> set cfg" "int i < cd_len (snd f)"
  shows "\<exists>pks. getCfgData c = Some pks \<and>
    (loaded (ag_cfgDataWidth (cf_adg c)) pks (blk_word (ag_cfgBlkOffset (cf_adg c)) n) (nat (fst f) + i) \<longleftrightarrow> bit (hd (cd_data (snd f))) i)"
proof -
  let ?W = "ag_cfgDataWidth (cf_adg c)" and ?off = "ag_cfgBlkOffset (cf_adg c)"
  have ne: "cfg \<noteq> []" using assms(4) by auto
  have fit: "block_fits ?W ?off cfg" using assms(1-3) ne unfolding blocks_ok_def Let_def by fastforce
  then have cf: "cfg_fields cfg" "cfg_end cfg \<le> ?W * 2 ^ nat ?off" "0 < ?W" by (auto simp: block_fits_def bus_ok_def)
  have "field_ok f" using cf(1) assms(4) by (simp add: cfg_fields_def)
  then have "int (nat (fst f) + i) < ?W * 2 ^ nat ?off"
    using cfg_end_max[OF cf(1) assms(4)] assms(5) cf(2) by (simp add: field_ok_def)
  also have "\<dots> = int (nat ?W * 2 ^ nat ?off)" using cf(3) by simp
  finally have lt: "nat (fst f) + i < nat ?W * 2 ^ nat ?off" by (simp only: of_nat_less_iff)
  obtain pks where "getCfgData c = Some pks"
    "\<forall>j < nat ?W * 2 ^ nat ?off. loaded ?W pks (blk_word ?off n) j \<longleftrightarrow> cfg_bit cfg j"
    using getCfgData_ok[OF assms(1)] assms(2,3) ne by blast
  then show ?thesis using lt cfg_bit_field[OF cf(1) assms(4,5)] by blast
qed

section \<open>The interconnect blocks connect what is routed\<close>

text \<open>Output \<open>q\<close> of the block is driven by a multiplexer.\<close>

definition out_mux :: "sub_adg \<Rightarrow> int \<Rightarrow> int option" where
  "out_mux sub q = (let k = fst (graph_output sub q) in if k = g_id sub then None else Some k)"

text \<open>Every output of the crossbar is wired to its only input, or has a multiplexer of its own with a
  place in the configuration and an input for every port of the crossbar.\<close>

definition gib_layout :: "anode \<Rightarrow> sub_adg \<Rightarrow> bool" where
  "gib_layout node sub \<longleftrightarrow>
     (\<forall>q p. p \<in> set (gib_out2ins node q) \<longrightarrow> (case out_mux sub q of
        None \<Rightarrow> snd (graph_output sub q) = p
      | Some k \<Rightarrow> \<exists>M loc i. adg_node sub k = Some M \<and> anode_configInfo node k = Some loc \<and> (i, (g_id sub, p)) \<in> set (gn_inputs M) \<and>
          (\<forall>x \<in> set (gn_inputs M). fst (snd x) = g_id sub))) \<and>
     (\<forall>q q' k k' loc loc'. out_mux sub q = Some k \<longrightarrow> out_mux sub q' = Some k' \<longrightarrow> anode_configInfo node k = Some loc \<longrightarrow>
        anode_configInfo node k' = Some loc' \<longrightarrow> cl_low loc = cl_low loc' \<longrightarrow> q = q')"

text \<open>Output \<open>q\<close> of the block carries what arrives at its input \<open>p\<close>: a wire, or a multiplexer that
  selects an input from port \<open>p\<close>.\<close>

definition selects :: "anode \<Rightarrow> sub_adg \<Rightarrow> cfg_map \<Rightarrow> int \<Rightarrow> int \<Rightarrow> bool" where
  "selects node sub cfg p q \<longleftrightarrow> (case out_mux sub q of
     None \<Rightarrow> snd (graph_output sub q) = p
   | Some k \<Rightarrow> \<exists>M loc i. adg_node sub k = Some M \<and> anode_configInfo node k = Some loc \<and> (i, (g_id sub, p)) \<in> set (gn_inputs M) \<and>
       om_get cfg (cl_low loc) = Some (cfg_word (loc_len loc) (word_of_int i)))"

lemma gib_layoutD:
  assumes "gib_layout node sub" "p \<in> set (gib_out2ins node q)"
  shows "case out_mux sub q of None \<Rightarrow> snd (graph_output sub q) = p
    | Some k \<Rightarrow> \<exists>M loc i. adg_node sub k = Some M \<and> anode_configInfo node k = Some loc \<and> (i, (g_id sub, p)) \<in> set (gn_inputs M) \<and>
        (\<forall>x \<in> set (gn_inputs M). fst (snd x) = g_id sub)"
  using assms unfolding gib_layout_def by blast

lemma gib_pass_step:
  assumes lay: "gib_layout node sub" and cross: "ep_srcPort y \<in> set (gib_out2ins node (ep_dstPort y))"
  shows "\<exists>cfg'. gib_pass node sub cfg y = Some cfg' \<and> selects node sub cfg' (ep_srcPort y) (ep_dstPort y) \<and>
    (\<forall>p q. q \<noteq> ep_dstPort y \<longrightarrow> selects node sub cfg p q \<longrightarrow> selects node sub cfg' p q) \<and>
    (\<forall>b v. om_get cfg' b = Some v \<longrightarrow> om_get cfg b = Some v \<or>
       (\<exists>k loc. out_mux sub (ep_dstPort y) = Some k \<and> anode_configInfo node k = Some loc \<and> b = cl_low loc))"
proof (cases "out_mux sub (ep_dstPort y)")
  case None
  then have "snd (graph_output sub (ep_dstPort y)) = ep_srcPort y" using gib_layoutD[OF lay cross] by simp
  moreover have "gib_pass node sub cfg y = Some cfg" using None by (simp add: gib_pass_def out_mux_def Let_def split: if_splits)
  ultimately show ?thesis using None by (simp add: selects_def)
next
  case (Some k)
  then have k: "fst (graph_output sub (ep_dstPort y)) = k" "k \<noteq> g_id sub" by (auto simp: out_mux_def Let_def split: if_splits)
  have "\<exists>M loc i. adg_node sub k = Some M \<and> anode_configInfo node k = Some loc \<and> (i, (g_id sub, ep_srcPort y)) \<in> set (gn_inputs M) \<and>
      (\<forall>x \<in> set (gn_inputs M). fst (snd x) = g_id sub)" using gib_layoutD[OF lay cross] Some by simp
  then obtain M loc i where M: "adg_node sub k = Some M" "anode_configInfo node k = Some loc"
    "(i, (g_id sub, ep_srcPort y)) \<in> set (gn_inputs M)" "\<forall>x \<in> set (gn_inputs M). fst (snd x) = g_id sub" by blast
  let ?is = "\<lambda>(p :: int, (i :: int, q)). q = ep_srcPort y"
  have "find ?is (gn_inputs M) \<noteq> None"
  proof
    assume "find ?is (gn_inputs M) = None"
    then have "\<not> (\<exists>x. x \<in> set (gn_inputs M) \<and> ?is x)" by (simp only: find_None_iff not_False_eq_True)
    then show False using M(3) by fastforce
  qed
  then obtain p r where f: "find ?is (gn_inputs M) = Some (p, r)" by auto
  then have "(p, r) \<in> set (gn_inputs M)" "snd r = ep_srcPort y" by (auto simp: find_Some_iff in_set_conv_nth)
  then have sel: "(p, (g_id sub, ep_srcPort y)) \<in> set (gn_inputs M)" using M(4) by (cases r) fastforce
  let ?cfg = "om_put cfg (cl_low loc) (cfg_word (loc_len loc) (word_of_int p))"
  have run: "gib_pass node sub cfg y = Some ?cfg" using k M f by (simp add: gib_pass_def put_field_def)
  have "selects node sub ?cfg (ep_srcPort y) (ep_dstPort y)" using Some M(1,2) sel unfolding selects_def by auto
  moreover have "selects node sub ?cfg p' q" if q: "q \<noteq> ep_dstPort y" "selects node sub cfg p' q" for p' q
  proof (cases "out_mux sub q")
    case None
    then show ?thesis using q(2) by (simp add: selects_def)
  next
    case (Some k')
    then obtain M' loc' i' where o: "adg_node sub k' = Some M'" "anode_configInfo node k' = Some loc'" "(i', (g_id sub, p')) \<in> set (gn_inputs M')"
      "om_get cfg (cl_low loc') = Some (cfg_word (loc_len loc') (word_of_int i'))" using q(2) unfolding selects_def by auto
    have "cl_low loc' \<noteq> cl_low loc" using lay Some \<open>out_mux sub (ep_dstPort y) = Some k\<close> o(2) M(2) q(1) unfolding gib_layout_def by metis
    then show ?thesis using Some o by (auto simp: selects_def)
  qed
  moreover have "om_get ?cfg b = Some v \<Longrightarrow> om_get cfg b = Some v \<or> b = cl_low loc" for b v by (auto split: if_splits)
  ultimately show ?thesis using run Some M(2) by blast
qed

lemma getGibCfgData_ok:
  assumes mi: "map_inv g a m" and ok: "adg_ok a" and n: "adg_node a t = Some node" "is_gib node" "an_subADG node = Some sub"
    and lay: "gib_layout node sub"
  shows "\<exists>cfg. getGibCfgData m node = Some cfg \<and>
    (\<forall>k e l. dfg_edge g k = Some e \<longrightarrow> l \<in> set (links m k) \<longrightarrow> el_adgNode l = t \<longrightarrow> selects node sub cfg (el_srcPort l) (el_dstPort l)) \<and>
    (\<forall>b v. om_get cfg b = Some v \<longrightarrow> (\<exists>k l mx loc. l \<in> set (links m k) \<and> el_adgNode l = t \<and> out_mux sub (el_dstPort l) = Some mx \<and>
       anode_configInfo node mx = Some loc \<and> b = cl_low loc))"
proof -
  have ri: "routed_ok g a (mappedAdg m) m" "passes_from g m" "links_pass g a m" "ports_ok a m" using mi by (simp_all add: map_inv_def route_inv_def)
  have id: "gn_id node = t" using adg_ok_id[OF ok n(1)] .
  have nf: "is_nonfu a t" using n(1,2) fu_not_gib unfolding is_nonfu_def by blast
  have pl: "mk_link (ep_srcPort y) (ep_dstPort y) t \<in> set (links m (ge_id (ep_edge y)))" if "y \<in> set (passes m t)" for y
    using ri(2) that unfolding passes_from_def by blast
  have cross: "ep_srcPort y \<in> set (gib_out2ins node (ep_dstPort y))" if y: "y \<in> set (passes m t)" for y
  proof -
    let ?l = "mk_link (ep_srcPort y) (ep_dstPort y) t" and ?k = "ge_id (ep_edge y)"
    have "links m ?k \<noteq> []" using pl[OF y] by auto
    then obtain e A B q mid where sh: "route_shape a e A B q mid (links m ?k)" using ri(1) unfolding routed_ok_def route_ok_def by blast
    have "?l \<in> set mid"
    proof -
      have "is_fu_id a A" "is_fu_id a B" using sh by (simp_all add: route_shape_def)
      then have "t \<noteq> A" "t \<noteq> B" using nonfu_fu[OF nf] by auto
      then show ?thesis using pl[OF y] sh by (auto simp: route_shape_def)
    qed
    then show ?thesis using sh n(1) by (auto simp: route_shape_def crossbar_def)
  qed
  let ?J = "\<lambda>us cfg. (\<forall>y \<in> set us. selects node sub cfg (ep_srcPort y) (ep_dstPort y)) \<and>
    (\<forall>b v. om_get cfg b = Some v \<longrightarrow> (\<exists>y \<in> set us. \<exists>k loc. out_mux sub (ep_dstPort y) = Some k \<and> anode_configInfo node k = Some loc \<and> b = cl_low loc))"
  have "\<exists>cfg. mfold (gib_pass node sub) [] (passes m t) = Some cfg \<and> ?J (passes m t) cfg"
  proof (rule mfold_prefix[where J = ?J])
    fix us y vs cfg assume us: "passes m t = us @ y # vs" and J: "?J us cfg"
    have y: "y \<in> set (passes m t)" using us by simp
    from gib_pass_step[OF lay cross[OF y], of cfg] obtain cfg' where s: "gib_pass node sub cfg y = Some cfg'"
      "selects node sub cfg' (ep_srcPort y) (ep_dstPort y)"
      "\<And>p q. q \<noteq> ep_dstPort y \<Longrightarrow> selects node sub cfg p q \<Longrightarrow> selects node sub cfg' p q"
      "\<And>b v. om_get cfg' b = Some v \<Longrightarrow> om_get cfg b = Some v \<or>
         (\<exists>k loc. out_mux sub (ep_dstPort y) = Some k \<and> anode_configInfo node k = Some loc \<and> b = cl_low loc)" by blast
    have "selects node sub cfg' (ep_srcPort z) (ep_dstPort z)" if z: "z \<in> set us" for z
    proof (cases "ep_dstPort z = ep_dstPort y")
      case True
      have "z \<in> set (passes m t)" using us z by simp
      then have "compat z y" using ri(4) nf y unfolding ports_ok_def by blast
      then show ?thesis using True s(2) by (simp add: compat_def)
    next
      case False
      then show ?thesis using s(3) J z by blast
    qed
    moreover have "\<exists>z \<in> set (us @ [y]). \<exists>k loc. out_mux sub (ep_dstPort z) = Some k \<and> anode_configInfo node k = Some loc \<and> b = cl_low loc"
      if "om_get cfg' b = Some v" for b v
      using s(4)[OF that] J by fastforce
    ultimately have "?J (us @ [y]) cfg'" using s(2) by (intro conjI allI impI ballI) (auto simp del: set_append simp: Un_iff set_append)
    then show "\<exists>s'. gib_pass node sub cfg y = Some s' \<and> ?J (us @ [y]) s'" using s(1) by blast
  qed simp
  then obtain cfg where cfg: "mfold (gib_pass node sub) [] (passes m t) = Some cfg" "?J (passes m t) cfg" by blast
  have "getGibCfgData m node = Some cfg" using cfg(1) n(3) id by (cases "passes m t = []") (simp_all add: getGibCfgData_def)
  moreover have "selects node sub cfg (el_srcPort l) (el_dstPort l)" if l: "dfg_edge g k = Some e" "l \<in> set (links m k)" "el_adgNode l = t" for k e l
  proof -
    have "mk_pass e l \<in> set (passes m t)" using ri(3)[unfolded links_pass_def, rule_format, OF l(1,2)] l(3) nf by simp
    then show ?thesis using cfg(2) by fastforce
  qed
  moreover have "\<exists>k l mx loc. l \<in> set (links m k) \<and> el_adgNode l = t \<and> out_mux sub (el_dstPort l) = Some mx \<and>
       anode_configInfo node mx = Some loc \<and> b = cl_low loc" if b: "om_get cfg b = Some v" for b v
  proof -
    obtain y k loc where y: "y \<in> set (passes m t)" "out_mux sub (ep_dstPort y) = Some k" "anode_configInfo node k = Some loc" "b = cl_low loc"
      using cfg(2) b by blast
    then show ?thesis using pl[OF y(1)] by - (rule exI[of _ "ge_id (ep_edge y)"], rule exI[of _ "mk_link (ep_srcPort y) (ep_dstPort y) t"], simp)
  qed
  ultimately show ?thesis by blast
qed

text \<open>C26: The configuration of an interconnect block realises the routes through it: for every link of
  every routed edge the link's output is wired to its source port or its multiplexer selects an
  input from there, whatever other edges pass, and no multiplexer is configured that no route
  uses.\<close>

theorem getGibCfgData_realises:
  assumes "map_inv g a m" "adg_ok a" "adg_node a t = Some node" "is_gib node" "an_subADG node = Some sub" "gib_layout node sub"
  shows "\<exists>cfg. getGibCfgData m node = Some cfg \<and>
    (\<forall>k e l. dfg_edge g k = Some e \<longrightarrow> l \<in> set (links m k) \<longrightarrow> el_adgNode l = t \<longrightarrow> selects node sub cfg (el_srcPort l) (el_dstPort l)) \<and>
    (\<forall>b v. om_get cfg b = Some v \<longrightarrow> (\<exists>k l mx loc. l \<in> set (links m k) \<and> el_adgNode l = t \<and> out_mux sub (el_dstPort l) = Some mx \<and>
       anode_configInfo node mx = Some loc \<and> b = cl_low loc))"
  by (rule getGibCfgData_ok[OF assms])

section \<open>The delays of a functional unit\<close>

lemma delay_field:
  fixes d :: int
  assumes "0 \<le> d" "d < 2 ^ n" "s + n \<le> 32"
  shows "bit (push_bit s (word_of_int d :: 32 word)) j \<longleftrightarrow> s \<le> j \<and> j < s + n \<and> bit d (j - s)"
proof -
  have "bit d i \<Longrightarrow> i < n" for i
    using assms(1,2) by (metis bit_take_bit_iff take_bit_int_eq_self)
  then show ?thesis using assms(3) by (fastforce simp: bit_push_bit_iff bit_word_of_int_iff)
qed

lemma share_end:
  assumes "0 < each" "0 \<le> p" "each * (p + 1) \<le> (n :: int)"
  shows "0 \<le> each * p" "each * p + each \<le> n" "nat (each * p) + nat each \<le> nat n"
proof -
  show p: "0 \<le> each * p" using assms(1,2) by simp
  show e: "each * p + each \<le> n" using assms(3) by (simp add: algebra_simps)
  have "nat (each * p) + nat each = nat (each * p + each)" using p assms(1) by simp
  then show "nat (each * p) + nat each \<le> nat n" using e by simp
qed

lemma delay_word_ok:
  fixes used :: "(int, int) omap"
  assumes each: "0 < each" and ok: "\<forall>(p, d) \<in> set used. 0 \<le> p \<and> each * (p + 1) \<le> 32 \<and> 0 \<le> d \<and> d < 2 ^ nat each"
  shows "\<exists>w. delay_word each used = Some w \<and>
    (\<forall>j. bit w j \<longleftrightarrow> (\<exists>(p, d) \<in> set used. nat (each * p) \<le> j \<and> j < nat (each * p) + nat each \<and> bit d (j - nat (each * p))))"
  unfolding delay_word_def
proof (rule mfold_prefix[where J = "\<lambda>us w. \<forall>j. bit w j \<longleftrightarrow>
    (\<exists>(p, d) \<in> set us. nat (each * p) \<le> j \<and> j < nat (each * p) + nat each \<and> bit d (j - nat (each * p)))"])
  fix us x vs and w :: "32 word"
  assume us: "used = us @ x # vs" and J: "\<forall>j. bit w j \<longleftrightarrow>
    (\<exists>(p, d) \<in> set us. nat (each * p) \<le> j \<and> j < nat (each * p) + nat each \<and> bit d (j - nat (each * p)))"
  obtain p d where x: "x = (p, d)" by (cases x)
  have b: "0 \<le> p" "each * (p + 1) \<le> 32" "0 \<le> d" "d < 2 ^ nat each" using ok us x by auto
  have s: "0 \<le> each * p" "each * p < 32" "nat (each * p) + nat each \<le> 32" using share_end[OF each b(1,2)] each by simp_all
  show "\<exists>s'. put_delay each w x = Some s' \<and> (\<forall>j. bit s' j \<longleftrightarrow>
    (\<exists>(p, d) \<in> set (us @ [x]). nat (each * p) \<le> j \<and> j < nat (each * p) + nat each \<and> bit d (j - nat (each * p))))"
    using s delay_field[OF b(3,4) s(3)] J by (simp add: put_delay_def x bit_or_iff) blast
qed simp

text \<open>C29: The delays of the operands of one functional unit, packed into one field, can be read back:
  as long as every delay fits its share of the field, the bits of a port are its delay.\<close>

theorem delay_word_roundtrip:
  fixes used :: "(int, int) omap"
  assumes "0 < each" "om_wf used" "\<forall>(p, d) \<in> set used. 0 \<le> p \<and> each * (p + 1) \<le> 32 \<and> 0 \<le> d \<and> d < 2 ^ nat each" "om_get used p = Some d"
  shows "\<exists>w. delay_word each used = Some w \<and> take_bit (nat each) (drop_bit (nat (each * p)) w) = word_of_int d"
proof -
  from delay_word_ok[OF assms(1,3)] obtain w where w: "delay_word each used = Some w"
    "\<And>j. bit w j \<longleftrightarrow> (\<exists>(p, d) \<in> set used. nat (each * p) \<le> j \<and> j < nat (each * p) + nat each \<and> bit d (j - nat (each * p)))" by blast
  have pd: "(p, d) \<in> set used" using om_get_mem[OF assms(2)] assms(4) by blast
  then have b: "0 \<le> p" "each * (p + 1) \<le> 32" "0 \<le> d" "d < 2 ^ nat each" using assms(3) by auto
  have dn: "bit d i \<Longrightarrow> i < nat each" for i using b(3,4) by (metis bit_take_bit_iff take_bit_int_eq_self)
  have "bit (take_bit (nat each) (drop_bit (nat (each * p)) w)) i = bit (word_of_int d :: 32 word) i" if i: "i < 32" for i
  proof (cases "i < nat each")
    case False
    then show ?thesis using dn[of i] i by (auto simp: bit_take_bit_iff bit_word_of_int_iff)
  next
    case True
    have near: "p' = p" if "(p', d') \<in> set used" "nat (each * p') \<le> nat (each * p) + i" "nat (each * p) + i < nat (each * p') + nat each" for p' d'
    proof -
      have p': "0 \<le> p'" using assms(3) that(1) by auto
      have "0 \<le> each * p'" "0 \<le> each * p" using p' b(1) assms(1) by simp_all
      then have "each * p' < each * (p + 1)" "each * p < each * (p' + 1)" using that(2,3) True by (auto simp: algebra_simps)
      then show ?thesis using assms(1) by (simp add: mult_less_cancel_left_pos)
    qed
    have one: "d' = d" if "(p', d') \<in> set used" "nat (each * p') \<le> nat (each * p) + i" "nat (each * p) + i < nat (each * p') + nat each" "p' = p" for p' d'
      using that om_get_mem[OF assms(2), of p d'] assms(4) by simp
    have "bit w (nat (each * p) + i) \<longleftrightarrow> bit d i"
    proof
      assume "bit w (nat (each * p) + i)"
      then obtain p' d' where o: "(p', d') \<in> set used" "nat (each * p') \<le> nat (each * p) + i" "nat (each * p) + i < nat (each * p') + nat each"
        "bit d' (nat (each * p) + i - nat (each * p'))" unfolding w(2) by blast
      then show "bit d i" using near[OF o(1-3)] one[OF o(1-3)] by simp
    next
      assume "bit d i"
      then show "bit w (nat (each * p) + i)" unfolding w(2) using pd True by (intro bexI[of _ "(p, d)"]) simp_all
    qed
    then show ?thesis using True i by (simp add: bit_take_bit_iff bit_drop_bit_eq bit_word_of_int_iff add.commute)
  qed
  then have "take_bit (nat each) (drop_bit (nat (each * p)) w) = word_of_int d" by (intro bit_word_eqI) simp
  then show ?thesis using w(1) by blast
qed

end
