(* ===== verification/PassValues.thy ===== *)
theory PassValues
  imports PassInsert
begin

text \<open>
  What a DFG computes, for any meaning of the operations in which PASS copies its operand, and
  that inserting PASS nodes does not change it: the solutions of the new DFG are those of the
  old one, with the values of the PASS nodes added.
\<close>

section \<open>The values of a DFG\<close>

text \<open>A value for every output port of every node, and what an operation makes of its operands.\<close>

type_synonym 'v vals = "int \<Rightarrow> int \<Rightarrow> 'v"
type_synonym 'v meaning = "dnode \<Rightarrow> (int \<Rightarrow> 'v option) \<Rightarrow> int \<Rightarrow> 'v"

definition operands :: "dfg \<Rightarrow> 'v vals \<Rightarrow> int \<Rightarrow> int \<Rightarrow> 'v option" where
  "operands g val n p = map_option (\<lambda>(s, q). val s q) (in_src g n p)"

definition computes :: "'v meaning \<Rightarrow> dfg \<Rightarrow> 'v vals \<Rightarrow> bool" where
  "computes f g val \<longleftrightarrow> (\<forall>n nd. dfg_node g n = Some nd \<longrightarrow> (\<forall>q. val n q = f (core nd) (operands g val n) q))"

definition pass_copies :: "'v meaning \<Rightarrow> bool" where
  "pass_copies f \<longleftrightarrow> (\<forall>nd ops v. dn_operation nd = ''PASS'' \<longrightarrow> ops 0 = Some v \<longrightarrow> f nd ops 0 = v)"

text \<open>The nodes of \<open>g\<close> have the same values in \<open>g'\<close>.\<close>

definition same_values :: "'v meaning \<Rightarrow> dfg \<Rightarrow> dfg \<Rightarrow> bool" where
  "same_values f g g' \<longleftrightarrow> (\<forall>n. om_has (df_nodes g) n \<longrightarrow> om_has (df_nodes g') n) \<and>
     (\<forall>val. computes f g' val \<longrightarrow> computes f g val) \<and>
     (\<forall>val. computes f g val \<longrightarrow> (\<exists>val'. computes f g' val' \<and> (\<forall>n. om_has (df_nodes g) n \<longrightarrow> val' n = val n)))"

lemma same_values_refl [simp]: "same_values f g g"
  by (auto simp: same_values_def)

lemma same_values_trans:
  assumes "same_values f g g1" "same_values f g1 g2"
  shows "same_values f g g2"
  unfolding same_values_def
proof (intro conjI allI impI)
  fix val assume "computes f g val"
  then obtain val1 where v1: "computes f g1 val1" "\<forall>n. om_has (df_nodes g) n \<longrightarrow> val1 n = val n"
    using assms(1) unfolding same_values_def by blast
  then obtain val2 where "computes f g2 val2" "\<forall>n. om_has (df_nodes g1) n \<longrightarrow> val2 n = val1 n"
    using assms(2) unfolding same_values_def by blast
  then show "\<exists>val'. computes f g2 val' \<and> (\<forall>n. om_has (df_nodes g) n \<longrightarrow> val' n = val n)"
    using v1(2) assms(1) unfolding same_values_def by metis
qed (use assms in \<open>auto simp: same_values_def\<close>)

section \<open>One PASS node\<close>

text \<open>What the operands of a node are after an edge is split.\<close>

lemma split_src:
  assumes sp: "split_edge g k e k1 k2 v nd g'"
  shows "in_src g' n p = (if n = v then if p = 0 then Some (ge_srcId e, ge_srcPortIdx e) else None
    else if n = ge_dstId e \<and> p = ge_dstPortIdx e then Some (v, 0) else in_src g n p)"
proof -
  obtain e1 e2 where abs: "dfg_abs g' = (dfg_abs g)(k := None, k1 \<mapsto> e1, k2 \<mapsto> e2)"
    and e1: "ge_srcId e1 = ge_srcId e" "ge_dstId e1 = v" "ge_dstPortIdx e1 = 0" "ge_srcPortIdx e1 = ge_srcPortIdx e"
    and e2: "ge_srcId e2 = v" "ge_dstId e2 = ge_dstId e" "ge_dstPortIdx e2 = ge_dstPortIdx e" "ge_srcPortIdx e2 = 0"
    using sp unfolding split_edge_def by blast
  have s: "dfg_wf g" "dfg_wf g'" "dfg_abs g k = Some e" "dfg_abs g k1 = None" "dfg_abs g k2 = None" "k1 \<noteq> k2"
    using sp unfolding split_edge_def dfg_sound_def by auto
  note ends = split_ends[OF sp]
  have k: "k \<noteq> k1" "k \<noteq> k2" using s(3-5) by auto
  have "in_src g' n p = Some (i, q) \<longleftrightarrow> (if n = v then if p = 0 then Some (ge_srcId e, ge_srcPortIdx e) else None
    else if n = ge_dstId e \<and> p = ge_dstPortIdx e then Some (v, 0) else in_src g n p) = Some (i, q)" for i q
  proof -
    have old: "(\<exists>j x. j \<noteq> k \<and> dfg_abs g j = Some x \<and> ge_dstId x = n \<and> ge_dstPortIdx x = p \<and> (i, q) = (ge_srcId x, ge_srcPortIdx x)) \<longleftrightarrow>
        \<not> (n = ge_dstId e \<and> p = ge_dstPortIdx e) \<and> in_src g n p = Some (i, q)"
      (is "?l \<longleftrightarrow> ?r")
    proof
      assume ?l
      then obtain j x where "j \<noteq> k" "dfg_abs g j = Some x" "ge_dstId x = n" "ge_dstPortIdx x = p" "(i, q) = (ge_srcId x, ge_srcPortIdx x)" by blast
      then show ?r using dfg_wf_unique_in[OF s(1) s(3)] unfolding dfg_wf_reads(2)[OF s(1)] by blast
    next
      assume ?r
      then obtain j x where "dfg_abs g j = Some x" "ge_dstId x = n" "ge_dstPortIdx x = p" "(i, q) = (ge_srcId x, ge_srcPortIdx x)"
        unfolding dfg_wf_reads(2)[OF s(1)] by blast
      moreover have "j \<noteq> k" using \<open>?r\<close> calculation s(3) by auto
      ultimately show ?l by blast
    qed
    have "in_src g' n p = Some (i, q) \<longleftrightarrow> (n = v \<and> p = 0 \<and> i = ge_srcId e \<and> q = ge_srcPortIdx e) \<or>
        (n = ge_dstId e \<and> p = ge_dstPortIdx e \<and> i = v \<and> q = 0) \<or>
        (\<exists>j x. j \<noteq> k \<and> dfg_abs g j = Some x \<and> ge_dstId x = n \<and> ge_dstPortIdx x = p \<and> (i, q) = (ge_srcId x, ge_srcPortIdx x))"
      (is "_ \<longleftrightarrow> ?a \<or> ?b \<or> ?c")
    proof
      assume "in_src g' n p = Some (i, q)"
      then obtain j x where "dfg_abs g' j = Some x" "ge_dstId x = n" "ge_dstPortIdx x = p" "i = ge_srcId x" "q = ge_srcPortIdx x"
        unfolding dfg_wf_reads(2)[OF s(2)] by auto
      then show "?a \<or> ?b \<or> ?c" using e1 e2 unfolding abs by (auto split: if_splits)
    next
      assume abc: "?a \<or> ?b \<or> ?c"
      have at: "dfg_abs g' k1 = Some e1" "dfg_abs g' k2 = Some e2" "j \<noteq> k \<Longrightarrow> dfg_abs g j = Some x \<Longrightarrow> dfg_abs g' j = Some x" for j x
        using s(6) ends(3,4) unfolding abs by auto
      from abc show "in_src g' n p = Some (i, q)"
      proof (elim disjE)
        assume ?a
        then have "ge_dstId e1 = n" "ge_dstPortIdx e1 = p" "(i, q) = (ge_srcId e1, ge_srcPortIdx e1)" using e1 by simp_all
        then show ?thesis using at(1) unfolding dfg_wf_reads(2)[OF s(2)] by blast
      next
        assume ?b
        then have "ge_dstId e2 = n" "ge_dstPortIdx e2 = p" "(i, q) = (ge_srcId e2, ge_srcPortIdx e2)" using e2 by simp_all
        then show ?thesis using at(2) unfolding dfg_wf_reads(2)[OF s(2)] by blast
      next
        assume ?c
        then show ?thesis using at(3) unfolding dfg_wf_reads(2)[OF s(2)] by blast
      qed
    qed
    moreover have "in_src g v p \<noteq> Some (i, q)" using ends(1) unfolding dfg_wf_reads(2)[OF s(1)] by blast
    moreover have "ge_dstId e \<noteq> v" using ends(1)[OF s(3)] .
    ultimately show ?thesis unfolding old by (cases "n = v"; cases "n = ge_dstId e \<and> p = ge_dstPortIdx e") auto
  qed
  then show ?thesis by (metis not_None_eq surj_pair)
qed

lemma split_node:
  assumes "split_edge g k e k1 k2 v nd g'"
  shows "map_option core (dfg_node g' n) = (if n = v then Some (core nd) else map_option core (dfg_node g n))"
  using assms unfolding split_edge_def by blast

lemma computes_core: "computes f g val \<longleftrightarrow> (\<forall>n c. map_option core (dfg_node g n) = Some c \<longrightarrow> (\<forall>q. val n q = f c (operands g val n) q))"
  by (auto simp: computes_def)

lemma split_values:
  assumes sp: "split_edge g k e k1 k2 v nd g'" and ps: "is_pass nd" and f: "pass_copies f"
  shows "same_values f g g'"
proof -
  let ?s = "ge_srcId e" and ?q = "ge_srcPortIdx e"
  have sound: "dfg_sound g" "dfg_abs g k = Some e" and nv: "\<not> om_has (df_nodes g) v" using sp by (simp_all add: split_edge_def)
  have wf: "dfg_wf g" using sound(1) by (simp add: dfg_sound_def)
  have sv: "?s \<noteq> v" "ge_dstId e \<noteq> v" using split_ends[OF sp sound(2)] by blast+
  have e: "in_src g (ge_dstId e) (ge_dstPortIdx e) = Some (?s, ?q)" using sound(2) unfolding dfg_wf_reads(2)[OF wf] by blast
  have src_v: "in_src g n p = Some (i, q) \<Longrightarrow> i \<noteq> v" for n p i q
    using split_ends(2)[OF sp] unfolding dfg_wf_reads(2)[OF wf] by auto
  have op: "dn_operation (core nd) = ''PASS''" using ps by (simp add: is_pass_def)
  have at_v: "operands g' val v = [0 \<mapsto> val ?s ?q]" for val :: "'a vals"
    by (auto simp: operands_def split_src[OF sp] fun_eq_iff)
  have other: "operands g' val n p = (if n = ge_dstId e \<and> p = ge_dstPortIdx e then Some (val v 0) else operands g val n p)" if "n \<noteq> v" for val :: "'a vals" and n p
    using that by (simp add: operands_def split_src[OF sp])
  have keep: "operands g' val n = operands g val n" if "n \<noteq> v" "val v 0 = val ?s ?q" for val :: "'a vals" and n
  proof
    fix p show "operands g' val n p = operands g val n p" using other[OF that(1), of val p] that(2) e by (auto simp: operands_def)
  qed
  have copy: "f (core nd) (operands g' val v) 0 = val ?s ?q" for val using f op at_v unfolding pass_copies_def by simp
  have down: "computes f g val" if c: "computes f g' val" for val
  proof -
    have "val v 0 = f (core nd) (operands g' val v) 0" using c split_node[OF sp, of v] unfolding computes_core by simp
    then have "val v 0 = val ?s ?q" using copy by simp
    moreover have "dfg_node g v = None" using nv by (simp add: dfg_node_def om_has_def split: option.splits)
    ultimately show ?thesis using c keep split_node[OF sp] unfolding computes_core by (metis option.distinct(1) option.map(1))
  qed
  have up: "\<exists>val'. computes f g' val' \<and> (\<forall>n. om_has (df_nodes g) n \<longrightarrow> val' n = val n)" if c: "computes f g val" for val
  proof -
    let ?val = "val(v := \<lambda>q. f (core nd) [0 \<mapsto> val ?s ?q] q)"
    have vv: "?val v 0 = ?val ?s ?q" using f op sv(1) unfolding pass_copies_def by simp
    have same: "operands g ?val n = operands g val n" for n
    proof
      fix p show "operands g ?val n p = operands g val n p"
        using src_v[of n p] by (cases "in_src g n p") (auto simp: operands_def)
    qed
    have "?val n q = f c (operands g' ?val n) q" if n: "map_option core (dfg_node g' n) = Some c" for n c q
    proof (cases "n = v")
      case True
      then have "c = core nd" using n split_node[OF sp, of n] by (simp del: map_option_eq_Some)
      then show ?thesis using True at_v[of ?val] sv(1) by simp
    next
      case False
      then have "map_option core (dfg_node g n) = Some c" using n split_node[OF sp, of n] by simp
      then have "val n q = f c (operands g val n) q" using c unfolding computes_core by blast
      moreover have "operands g' ?val n = operands g val n" by (rule trans[OF keep[OF False vv] same])
      ultimately show ?thesis using False by (simp only: fun_upd_apply if_False)
    qed
    then have "computes f g' ?val" unfolding computes_core by blast
    moreover have "\<forall>n. om_has (df_nodes g) n \<longrightarrow> ?val n = val n" using nv by auto
    ultimately show ?thesis by blast
  qed
  show ?thesis unfolding same_values_def using split_has[OF sp] down up by auto
qed

section \<open>All of them\<close>

lemma insert_passes_values:
  assumes po: "pass_ok E a" and f: "pass_copies f"
  shows "good a g \<Longrightarrow> bounded_ids g mN mE \<Longrightarrow> distinct ks \<Longrightarrow> \<forall>k \<in> set ks. dfg_abs g k \<noteq> None \<Longrightarrow>
    mfold (insert_pass (en_ops E)) (g, mN, mE) ks = Some (g', x, y) \<Longrightarrow> same_values f g g'"
proof (induction ks arbitrary: g mN mE)
  case (Cons k ks)
  then obtain e where e: "dfg_abs g k = Some e" by auto
  from insert_pass_ok[OF Cons.prems(1) po e Cons.prems(2)] obtain g1 nd where
    g1: "insert_pass (en_ops E) (g, mN, mE) k = Some (g1, mN + 1, mE + 2)" "good a g1" "bounded_ids g1 (mN + 1) (mE + 2)"
      "\<forall>j. j \<noteq> k \<longrightarrow> dfg_abs g j \<noteq> None \<longrightarrow> dfg_abs g1 j = dfg_abs g j"
      "split_edge g k e (mE + 1) (mE + 2) (mN + 1) nd g1" "is_pass nd" by blast
  have "\<forall>j \<in> set ks. dfg_abs g1 j \<noteq> None" using g1(4) Cons.prems(3,4) by (metis distinct.simps(2) list.set_intros(2))
  moreover have "mfold (insert_pass (en_ops E)) (g1, mN + 1, mE + 2) ks = Some (g', x, y)" using Cons.prems(5) g1(1) by simp
  ultimately have "same_values f g1 g'" using Cons.IH[OF g1(2,3)] Cons.prems(3) by simp
  then show ?case using same_values_trans[OF split_values[OF g1(5,6) f]] by blast
qed simp

lemma insertPass_values:
  assumes g: "good a g" and po: "pass_ok E a" and vl: "vio_list g m" and f: "pass_copies f"
    and run: "insertPassDfgNodes (en_sort_vio E) (en_ops E) g a new_DFG m = Some (True, g', m')"
  shows "same_values f g g'"
proof -
  have wf: "om_wf (df_nodes g)" "om_wf (df_edges g)" using g by (auto simp: good_def dfg_sound_def dfg_wf_def)
  have copy: "dfg_assign new_DFG g = Some g" using assign_copy[OF wf] g unfolding good_def node_good_def by blast
  let ?avail = "ag_numGpeNodes a - (int (length (df_nodes g)) - int (length (df_ioNodes g)))"
  define l where "l = (if ?avail < int (length (mp_vioDfgEdges m))
    then en_sort_vio E (map (\<lambda>k. (k, ea_vio (deattr m k))) (mp_vioDfgEdges m)) else mp_vioDfgEdges m)"
  define n where "n = nat ?avail"
  have l': "(if ?avail < int (length (mp_vioDfgEdges m))
      then m\<lparr>mp_vioDfgEdges := en_sort_vio E (map (\<lambda>k. (k, ea_vio (deattr m k))) (mp_vioDfgEdges m))\<rparr> else m) = m\<lparr>mp_vioDfgEdges := l\<rparr>"
    by (simp add: l_def)
  have pos: "\<not> ?avail \<le> 0" using run unfolding insertPassDfgNodes_def Let_def by (simp split: if_splits)
  obtain mN nv mE ev x y where last: "om_last (df_nodes g) = Some (mN, nv)" "om_last (df_edges g) = Some (mE, ev)"
      "mfold (insert_pass (en_ops E)) (g, mN, mE) (take n l) = Some (g', x, y)"
    using run copy pos unfolding insertPassDfgNodes_def Let_def l' n_def[symmetric]
    by (simp split: bind_splits prod.splits) (metis surj_pair)
  obtain n0 where n0: "om_has (df_nodes g) n0" using g unfolding good_def by blast
  have ne: "df_edges g \<noteq> []" using last(2) by (auto simp: om_last_def split: if_splits)
  then obtain j where j: "om_has (df_edges g) j" by (cases "df_edges g") (auto simp: om_has_set)
  have "bounded_ids g mN mE"
    using om_last_bound[OF wf(1) n0] om_last_bound[OF wf(2) j] last(1,2) by (auto simp: bounded_ids_def dfg_abs_def om_has_iff)
  moreover have "mset l = mset (mp_vioDfgEdges m)"
  proof -
    have "mset (en_sort_vio E x) = mset (map fst x)" for x using po unfolding pass_ok_def by blast
    then show ?thesis by (simp add: l_def comp_def del: mset_map) 
  qed
  then have "distinct l" "set l = set (mp_vioDfgEdges m)"
    using vl by (metis mset_eq_imp_distinct_iff vio_list_def, metis mset_eq_setD)
  then have "distinct (take n l)" "\<forall>k \<in> set (take n l). dfg_abs g k \<noteq> None"
    using vl in_set_takeD unfolding vio_list_def by fastforce+
  ultimately show ?thesis using insert_passes_values[OF po f g _ _ _ last(3)] by blast
qed

text \<open>C28: Inserting PASS nodes changes nothing a DFG computes: whatever the operations mean, as long as
  PASS copies its operand, every valuation of the new DFG is one of the old DFG, every valuation
  of the old DFG extends to the new one with the same value at every old node, and the new DFG
  is again one the mapper can work on.\<close>

theorem insertPass_keeps_values:
  assumes "good a g" "pass_ok E a" "vio_list g m" "dfg_abs g j \<noteq> None" "pass_copies f"
  shows "\<exists>b g' m'. insertPassDfgNodes (en_sort_vio E) (en_ops E) g a new_DFG m = Some (b, g', m') \<and>
    (b \<longrightarrow> good a g' \<and> same_values f g g')"
proof -
  from insertPass_ok[OF assms(1-4)] obtain b g' l where
    r: "insertPassDfgNodes (en_sort_vio E) (en_ops E) g a new_DFG m = Some (b, g', m\<lparr>mp_vioDfgEdges := l\<rparr>)" "b \<longrightarrow> good a g'" by blast
  then show ?thesis using insertPass_values[OF assms(1-3,5)] by (cases b) auto
qed

end
