(* ===== verification/ConfigExamples.thy ===== *)
theory ConfigExamples
  imports MapperExamples ConfigCorrect PassValues
begin

text \<open>
  The configuration of the small mapping, with the properties of the configuration generator and
  of the PASS nodes applied to it.
\<close>

section \<open>The configuration\<close>

definition ex_conf :: configuration where
  "ex_conf = \<lparr>cf_ops = ex_ops, cf_adg = ex_adg, cf_dfg = ex_dfg, cf_mapping = Witnesses.ex_sched,
     cf_spadAddrs = [(1, 0), (2, 256), (3, 512)]\<rparr>"

text \<open>The fields of an I/O block behind its multiplexer and its delay unit.\<close>

definition ex_io_fields :: "32 word \<Rightarrow> 32 word \<Rightarrow> cfg_map" where
  "ex_io_fields addr st = [(5, cfg_word 11 addr), (16, cfg_word 8 0), (24, cfg_word 8 0), (32, cfg_word 8 0), (40, cfg_word 8 0),
     (48, cfg_word 8 0), (56, cfg_word 8 0), (64, cfg_word 4 1), (68, cfg_word 8 st), (76, cfg_word 1 st)]"

lemma ex_node_cfg:
  "node_cfg ex_conf (ex_iob 1 0) = Some (ex_io_fields 0 0)"
  "node_cfg ex_conf (ex_iob 2 1) = Some ((0, cfg_word 1 0) # (1, cfg_word 4 0) # ex_io_fields 256 1)"
  "node_cfg ex_conf (ex_iob 3 2) = Some ((0, cfg_word 1 0) # (1, cfg_word 4 0) # ex_io_fields 512 1)"
  "node_cfg ex_conf ex_gib = Some [(1, cfg_word 1 0), (2, cfg_word 1 0)]"
  by code_simp+

lemma field_okI:
  assumes "0 \<le> l" "1 \<le> n" "n \<le> 32" "take_bit (nat n) d = d"
  shows "field_ok (l, cfg_word n d)"
proof -
  have "\<not> bit d j" if "n \<le> int j" for j
    using assms(4) that by (metis bit_take_bit_iff nat_less_iff not_less of_nat_less_0_iff assms(2) nat_int zless_nat_eq_int_zless)
  then show ?thesis using assms(1-3) by (simp add: field_ok_def cfg_word_def)
qed

lemma ex_fits:
  "block_fits 32 2 (ex_io_fields 0 0)"
  "block_fits 32 2 ((0, cfg_word 1 0) # (1, cfg_word 4 0) # ex_io_fields 256 1)"
  "block_fits 32 2 ((0, cfg_word 1 0) # (1, cfg_word 4 0) # ex_io_fields 512 1)"
  "block_fits 32 2 [(1, cfg_word 1 0), (2, cfg_word 1 0)]"
  unfolding block_fits_def bus_ok_def cfg_fields_def ex_io_fields_def cfg_end_def
  by (auto intro!: field_okI simp: cfg_word_def[THEN arg_cong[of _ _ cd_len]])

lemma ex_blocks: "blocks_ok ex_conf"
proof -
  have v: "cf_adg ex_conf = ex_adg" "ag_cfgDataWidth ex_adg = 32" "ag_cfgBlkOffset ex_adg = 2" "om_wf (ag_nodes ex_adg)"
    by (simp_all add: ex_conf_def ex_adg_def om_wf_def)
  have b: "an_cfgBlkIdx (ex_iob n p) = n" "an_cfgBlkIdx ex_gib = 4" for n p by (simp_all add: ex_iob_def ex_gib_def)
  show ?thesis unfolding blocks_ok_def Let_def v ex_adg_node using ex_node_cfg ex_fits b v(4) by auto
qed

theorem getCfgData_roundtrip_witness:
  "\<exists>pks. getCfgData ex_conf = Some pks \<and> (loaded 32 pks (blk_word 2 (ex_iob 2 1)) 13 \<longleftrightarrow> bit (256 :: 32 word) 8)"
proof -
  have v: "adg_node (cf_adg ex_conf) 2 = Some (ex_iob 2 1)" "ag_cfgDataWidth (cf_adg ex_conf) = 32" "ag_cfgBlkOffset (cf_adg ex_conf) = 2"
    by (simp_all add: ex_conf_def ex_adg_def adg_node_def)
  show ?thesis
    using getCfgData_roundtrip[OF ex_blocks v(1) ex_node_cfg(2), of "(5, cfg_word 11 256)" 8] v(2,3)
    by (simp add: ex_io_fields_def cfg_word_def)
qed

lemma ex_layout: "gib_layout ex_gib ex_gib_sub"
proof -
  have mux: "out_mux ex_gib_sub q = Some k \<longleftrightarrow> (q = 0 \<and> k = 1) \<or> (q = 1 \<and> k = 2) \<or> (q = 2 \<and> k = 3)" for q k
    by (auto simp: out_mux_def graph_output_def ex_gib_sub_def ex_sub_def om_at_def Let_def split: if_splits)
  have ins: "p \<in> set (gib_out2ins ex_gib q) \<longleftrightarrow> (q = 0 \<and> (p = 1 \<or> p = 2)) \<or> (q = 1 \<and> (p = 0 \<or> p = 2)) \<or> (q = 2 \<and> (p = 0 \<or> p = 1))" for p q
    by (auto simp: gib_out2ins_def ex_gib_def om_at_def split: if_splits)
  have muxes: "out_mux ex_gib_sub 0 = Some 1" "out_mux ex_gib_sub 1 = Some 2" "out_mux ex_gib_sub 2 = Some 3" by (simp_all add: mux)
  have loc: "anode_configInfo ex_gib k = Some l \<longleftrightarrow> (k = 1 \<and> l = ex_loc 0 0) \<or> (k = 2 \<and> l = ex_loc 1 1) \<or> (k = 3 \<and> l = ex_loc 2 2)" for k l
    by (auto simp: anode_configInfo_def ex_gib_def split: if_splits)
  have node: "adg_node ex_gib_sub 1 = Some (ex_module 1 ''Muxn'' [(0, (0, 1)), (1, (0, 2))] [(0, [(0, 0)])])"
    "adg_node ex_gib_sub 2 = Some (ex_module 2 ''Muxn'' [(0, (0, 0)), (1, (0, 2))] [(0, [(0, 1)])])"
    "adg_node ex_gib_sub 3 = Some (ex_module 3 ''Muxn'' [(0, (0, 0)), (1, (0, 1))] [(0, [(0, 2)])])" "g_id ex_gib_sub = 0"
    by (simp_all add: adg_node_def ex_gib_sub_def ex_sub_def)
  show ?thesis unfolding gib_layout_def ins loc mux
    by (auto simp: muxes node ex_module_def ex_loc_def)
qed

lemma ex_gib_at: "adg_node ex_adg 4 = Some ex_gib" "is_gib ex_gib" "an_subADG ex_gib = Some ex_gib_sub"
  by (simp_all add: ex_adg_def adg_node_def is_gib_def ex_gib_def ex_anode_def)

theorem getGibCfgData_realises_witness:
  "\<exists>cfg. getGibCfgData (ex_run 3) ex_gib = Some cfg \<and> selects ex_gib ex_gib_sub cfg 0 1 \<and> selects ex_gib ex_gib_sub cfg 0 2"
proof -
  have e: "dfg_edge ex_dfg 1 = Some (ex_edge 1 2)" "dfg_edge ex_dfg 2 = Some (ex_edge 2 3)" by (simp_all add: ex_dfg_edge)
  have l: "el_adgNode (mk_link 0 q 4) = 4" "el_srcPort (mk_link 0 q 4) = 0" "el_dstPort (mk_link 0 q 4) = q" for q by simp_all
  obtain cfg where c: "getGibCfgData (ex_run 3) ex_gib = Some cfg"
    "\<forall>k e l. dfg_edge ex_dfg k = Some e \<longrightarrow> l \<in> set (links (ex_run 3) k) \<longrightarrow> el_adgNode l = 4 \<longrightarrow> selects ex_gib ex_gib_sub cfg (el_srcPort l) (el_dstPort l)"
    using getGibCfgData_realises[OF ex_run_inv(4) ex_adg_ok ex_gib_at ex_layout] by blast
  have "selects ex_gib ex_gib_sub cfg 0 1" using c(2)[rule_format, OF e(1) ex_link1 l(1)] by simp
  moreover have "selects ex_gib ex_gib_sub cfg 0 2" using c(2)[rule_format, OF e(2) ex_link2 l(1)] by simp
  ultimately show ?thesis using c(1) by blast
qed

theorem delay_word_roundtrip_witness:
  "\<exists>w. delay_word 4 [(0, 3), (1, 5), (2, 0)] = Some w \<and> take_bit 4 (drop_bit 4 w) = 5"
  using delay_word_roundtrip[of 4 "[(0, 3), (1, 5), (2, 0)]" 1 5] by (simp add: om_wf_def)

section \<open>PASS nodes\<close>

text \<open>The same ADG with room for two more nodes, an addition of constants as the meaning of every node.\<close>

definition ex_room :: top_adg where
  "ex_room = ex_adg\<lparr>ag_numGpeNodes := 2\<rparr>"

definition ex_meaning :: "int meaning" where
  "ex_meaning nd ops q = (case ops 0 of Some v \<Rightarrow> if dn_operation nd = ''PASS'' then v else v + 1 | None \<Rightarrow> 7)"

definition ex_late :: mapping where
  "ex_late = new_Mapping\<lparr>mp_vioDfgEdges := [2]\<rparr>"

lemma ex_room_ok: "good ex_room ex_dfg" "pass_ok ex_env ex_room"
proof -
  have n: "adg_node ex_room = adg_node ex_adg" by (simp add: ex_room_def adg_node_def fun_eq_iff)
  have "node_good ex_room g k nd = node_good ex_adg g k nd" for g k nd
    by (simp add: node_good_def operands_fit_def io_only_def n)
  then show "good ex_room ex_dfg" using ex_good by (simp add: good_def)
  show "pass_ok ex_env ex_room" using ex_env_ok(2) by (simp add: pass_ok_def n)
qed

theorem insertPass_keeps_values_witness:
  "\<exists>g' m'. insertPassDfgNodes (en_sort_vio ex_env) (en_ops ex_env) ex_dfg ex_room new_DFG ex_late = Some (True, g', m') \<and>
    length (df_nodes g') = 4 \<and> same_values ex_meaning ex_dfg g'"
proof -
  have "vio_list ex_dfg ex_late" "dfg_abs ex_dfg 1 \<noteq> None" "pass_copies ex_meaning"
    by (auto simp: vio_list_def ex_late_def dfg_abs_def ex_dfg_def pass_copies_def ex_meaning_def)
  from insertPass_keeps_values[OF ex_room_ok this] obtain b g' m' where
    r: "insertPassDfgNodes (en_sort_vio ex_env) (en_ops ex_env) ex_dfg ex_room new_DFG ex_late = Some (b, g', m')"
    "b \<longrightarrow> same_values ex_meaning ex_dfg g'" by blast
  have "map_option (\<lambda>(b, g', m'). (b, length (df_nodes g'))) (insertPassDfgNodes (en_sort_vio ex_env) (en_ops ex_env) ex_dfg ex_room new_DFG ex_late) = Some (True, 4)"
    by code_simp
  then show ?thesis using r by auto
qed

end
