(* ===== verification/IoProgram.thy ===== *)
theory IoProgram
  imports IoScheduler Configuration
begin

text \<open>
  The program of a task (\<open>IOScheduler::genCfgData\<close>, \<open>genInstructions\<close> and \<open>execute\<close> in
  \<open>src/mapper/io_scheduler.cpp\<close>): where the configuration goes in the scratchpad, the commands
  that load, configure, execute and store, and the C text they are written as.

  A command is a value of \<open>instr\<close>; \<open>instr_text\<close> is the line written for it. A failed assertion,
  a missing node and a division by zero fail. The two sorts are parameters as before:
  \<open>psrt\<close> is \<open>std::sort\<close> on pairs, \<open>std::stable_sort\<close> is \<open>sort_key\<close>.
\<close>

section \<open>Numbers in the text\<close>

text \<open>\<open>std::hex\<close> writes an \<open>int\<close> as the 32-bit number with the same bits.\<close>

definition hex_int :: "int \<Rightarrow> string" where
  "hex_int x = hex_digits (unat (word_of_int x :: 32 word))"

definition line :: "string \<Rightarrow> string" where
  "line s = CHR 0x09 # s @ [CHR 0x0A]"

definition sep_by :: "string \<Rightarrow> string list \<Rightarrow> string" where
  "sep_by sep xs = (case xs of [] \<Rightarrow> [] | x # rest \<Rightarrow> x @ concat (map (\<lambda>y. sep @ y) rest))"

section \<open>The configuration data\<close>

definition align_width :: "top_adg \<Rightarrow> int" where
  "align_width a = (if ag_cfgAddrWidth a > 16 then 32 else 16)"

definition cfg_num :: "int \<Rightarrow> cfgPacket list \<Rightarrow> int" where
  "cfg_num W pks = foldl (\<lambda>num pk. num + int (length (cp_data pk)) * 32 sdiv W) 0 pks"

text \<open>One row of the array \<open>cin\<close>: the data in numbers of the aligned width, then the address.\<close>

definition cin_row :: "int \<Rightarrow> cfgPacket \<Rightarrow> 32 word list" where
  "cin_row aw pk = concat (map (\<lambda>d. if aw = 32 then [d] else [d AND 0xffff, drop_bit 16 d]) (cp_data pk)) @ [cp_addr pk]"

definition row_text :: "int \<Rightarrow> 32 word list \<Rightarrow> string" where
  "row_text aw ws = [CHR 0x09, CHR 0x09] @ ''{'' @ sep_by '', '' (map (\<lambda>w. ''0x'' @ hex_pad (aw sdiv 4) (unat w)) ws) @ ''},'' @ [CHR 0x0A]"

definition cin_text :: "top_adg \<Rightarrow> cfgPacket list \<Rightarrow> string" where
  "cin_text a pks = (let aw = align_width a; W = ag_cfgDataWidth a in
     CHR 0x09 # (if ag_cfgAddrWidth a > 16 then ''static unsigned int '' else ''static unsigned short '') @
     ''cin['' @ int_to_string (cfg_num W pks) @ '']['' @ int_to_string (1 + W sdiv aw) @ ''] __attribute__((aligned('' @
     int_to_string (ag_cfgSpadDataWidth a sdiv 8) @ ''))) = {'' @ [CHR 0x0A] @
     concat (map (\<lambda>pk. row_text aw (cin_row aw pk)) pks) @ line ''};'' @ [CHR 0x0A])"

text \<open>The base address of the configuration, and what loading it depends on.\<close>

definition cfg_place :: "int \<Rightarrow> int \<Rightarrow> cfgStatus \<Rightarrow> int \<times> int" where
  "cfg_place cfgSpadSize len old =
     (if len \<le> cfgSpadSize - cs_end old then (cs_end old, 0)
      else if len \<le> cs_start old then (0, 0)
      else (0, LD_DEP_EX_LAST_TASK))"

definition task_conf :: "op_table \<Rightarrow> top_adg \<Rightarrow> bmap \<Rightarrow> (int, ioInfo) omap \<Rightarrow> configuration" where
  "task_conf ops a bm infos = foldl (\<lambda>c elem. setDfgIoSpadAddr (fst elem) (ii_iobAddr (snd elem)) c)
     \<lparr>cf_ops = ops, cf_adg = a, cf_dfg = fst bm, cf_mapping = snd bm, cf_spadAddrs = []\<rparr> infos"

definition genCfgData :: "op_table \<Rightarrow> top_adg \<Rightarrow> bmap \<Rightarrow> scheduler \<Rightarrow> (string \<times> scheduler) option" where
  "genCfgData ops a bm sc = do {
     cfgData \<leftarrow> getCfgData (task_conf ops a bm (sc_infos sc));
     let byte = ag_cfgSpadDataWidth a sdiv 8;
     let W = ag_cfgDataWidth a;
     let aw = align_width a;
     (if ag_cfgAddrWidth a \<le> aw \<and> aw \<le> W then Some () else None);
     let num = cfg_num W cfgData;
     let len = num * (aw + W) sdiv 8;
     let (base, dep) = cfg_place (ag_cfgSpadSize a) len (sc_oldCfg sc);
     (if byte = 0 then None else Some ());
     Some (cin_text a cfgData,
       sc\<lparr>sc_cfgNum := num, sc_cfgLen := len, sc_ldCfgDep := dep,
          sc_oldCfg := \<lparr>cs_start = base, cs_end = min (base + align_up byte len) (ag_cfgSpadSize a)\<rparr>\<rparr>) }"

section \<open>Commands\<close>

datatype instr =
    Load_cfg int int int int
  | Load_data int int int int int int
  | Config int int int
  | Execute "64 word" int int
  | Store int int int int

definition instr_text :: "instr \<Rightarrow> string" where
  "instr_text i = (case i of
     Load_cfg addr len task dep \<Rightarrow> line (''load_cfg((void*)cin, 0x'' @ hex_int addr @ '', '' @
       sep_by '', '' (map int_to_string [len, task, dep]) @ '');'')
   | Load_data idx addr len fused task dep \<Rightarrow> line (''load_data(din_addr['' @ int_to_string idx @ ''], 0x'' @ hex_int addr @ '', '' @
       sep_by '', '' (map int_to_string [len, fused, task, dep]) @ '');'')
   | Config addr num task \<Rightarrow> line (''config(0x'' @ hex_int addr @ '', '' @ sep_by '', '' (map int_to_string [num, task, 0]) @ '');'')
   | Execute ens task dep \<Rightarrow> line (''execute(0x'' @ hex_digits (unat ens) @ '', '' @ sep_by '', '' (map int_to_string [task, dep]) @ '');'')
   | Store idx addr len task \<Rightarrow> line (''store(dout_addr['' @ int_to_string idx @ ''], 0x'' @ hex_int addr @ '', '' @
       sep_by '', '' (map int_to_string [len, task, 0]) @ '');''))"

text \<open>The order of dependences in the sort, from the weakest to the strongest.\<close>

definition sort_dep :: "int \<Rightarrow> int" where
  "sort_dep dep = (if dep = LD_DEP_ST_LAST_SEC_TASK then 1 else if dep = LD_DEP_EX_LAST_TASK then 2
     else if dep = LD_DEP_ST_LAST_TASK then 3 else 0)"

text \<open>Loads with their dependence, stores, and the strongest dependence of every array.\<close>

type_synonym load_store = "(int \<times> int) list \<times> int list \<times> (string, int) omap"

definition split_io :: "dfg \<Rightarrow> load_store \<Rightarrow> int \<times> ioInfo \<Rightarrow> load_store option" where
  "split_io g s elem = (case (s, elem) of ((lds, sts, deps), (n, info)) \<Rightarrow>
     if ii_isStore info then Some (lds, sts @ [n], deps)
     else do {
       io \<leftarrow> io_node g n;
       let d = sort_dep (ii_dep info);
       let name = io_memRefName io;
       Some (lds @ [(n, d)], sts,
         if \<not> om_has deps name then om_put deps name d
         else if om_at 0 deps name < d then om_put deps name d else deps) })"

definition mem_name :: "dfg \<Rightarrow> int \<Rightarrow> string" where
  "mem_name g n = (case io_node g n of None \<Rightarrow> [] | Some io \<Rightarrow> io_memRefName io)"

definition load_before :: "dfg \<Rightarrow> int \<times> int \<Rightarrow> int \<times> int \<Rightarrow> bool" where
  "load_before g x y \<longleftrightarrow> mem_name g (fst x) < mem_name g (fst y) \<or> (mem_name g (fst x) = mem_name g (fst y) \<and> snd x < snd y)"

definition sorted_loads ::
    "(((int \<times> int) \<Rightarrow> (int \<times> int) \<Rightarrow> bool) \<Rightarrow> (int \<times> int) list \<Rightarrow> (int \<times> int) list) \<Rightarrow> dfg \<Rightarrow> (string, int) omap \<Rightarrow> (int \<times> int) list \<Rightarrow> (int \<times> int) list" where
  "sorted_loads psrt g deps lds = sort_key (\<lambda>x. om_at 0 deps (mem_name g (fst x))) (psrt (load_before g) lds)"

definition array_ref :: "ioAttr \<Rightarrow> string" where
  "array_ref io = (if io_memOffset io > 0
     then ''(void*)'' @ io_memRefName io @ ''+'' @ int_to_string (io_memOffset io) else io_memRefName io)"

definition same_data :: "ioAttr \<Rightarrow> ioAttr \<Rightarrow> bool" where
  "same_data x y \<longleftrightarrow> io_memRefName x = io_memRefName y \<and> io_memSize x = io_memSize y \<and> io_memOffset x = io_memOffset y"

text \<open>A load is fused with the next one when both load the same bytes of memory.\<close>

fun gen_loads :: "dfg \<Rightarrow> (int, ioInfo) omap \<Rightarrow> int \<Rightarrow> int \<Rightarrow> (int \<times> int) list \<Rightarrow> (instr \<times> string) list option" where
  "gen_loads g infos task i [] = Some []"
| "gen_loads g infos task i (x # xs) = do {
     io \<leftarrow> io_node g (fst x);
     fused \<leftarrow> (case xs of [] \<Rightarrow> Some 0 | y # _ \<Rightarrow> do { io' \<leftarrow> io_node g (fst y); Some (if same_data io io' then 1 else 0) });
     info \<leftarrow> om_get infos (fst x);
     rest \<leftarrow> gen_loads g infos task (i + 1) xs;
     Some ((Load_data i (ii_addr info) (io_memSize io) fused task (ii_dep info), array_ref io) # rest) }"

fun gen_stores :: "dfg \<Rightarrow> (int, ioInfo) omap \<Rightarrow> int \<Rightarrow> int \<Rightarrow> int list \<Rightarrow> (instr \<times> string) list option" where
  "gen_stores g infos task i [] = Some []"
| "gen_stores g infos task i (n # ns) = do {
     io \<leftarrow> io_node g n;
     info \<leftarrow> om_get infos n;
     rest \<leftarrow> gen_stores g infos task (i + 1) ns;
     Some ((Store i (ii_addr info) (io_memSize io) task, array_ref io) # rest) }"

record program =
  pg_instrs :: "instr list"
  pg_loads :: "string list"
  pg_stores :: "string list"

definition genInstructions ::
    "(((int \<times> int) \<Rightarrow> (int \<times> int) \<Rightarrow> bool) \<Rightarrow> (int \<times> int) list \<Rightarrow> (int \<times> int) list) \<Rightarrow> top_adg \<Rightarrow> dfg \<Rightarrow> scheduler \<Rightarrow> program option" where
  "genInstructions psrt a g sc = do {
     let byte = ag_cfgSpadDataWidth a sdiv 8;
     (if byte = 0 then None else Some ());
     let start = cs_start (sc_oldCfg sc);
     let task = sc_taskId sc;
     (lds, sts, deps) \<leftarrow> mfold (split_io g) ([], [], []) (sc_infos sc);
     loads \<leftarrow> gen_loads g (sc_infos sc) task 0 (sorted_loads psrt g deps lds);
     stores \<leftarrow> gen_stores g (sc_infos sc) task 0 sts;
     Some \<lparr>pg_instrs = Load_cfg (start + ag_numIobNodes a * ag_iobSpadBankSize a) (sc_cfgLen sc) task (sc_ldCfgDep sc) #
             map fst loads @ [Config (start sdiv byte) (sc_cfgNum sc) task, Execute (sc_iobEns sc) task (sc_exDep sc)] @ map fst stores,
           pg_loads = map snd loads, pg_stores = map snd stores\<rparr> }"

section \<open>A task\<close>

text \<open>\<open>_older_bank_status[i] = _old_bank_status[i]; _old_bank_status[i] = _cur_bank_status[i]\<close>.\<close>

definition shift_bank :: "scheduler \<Rightarrow> int \<Rightarrow> scheduler option" where
  "shift_bank sc i = do {
     older \<leftarrow> bank_at (sc_older sc) i;
     old \<leftarrow> bank_at (sc_old sc) i;
     cur \<leftarrow> bank_at (sc_cur sc) i;
     Some (sc\<lparr>sc_older := (sc_older sc)[nat i := old], sc_old := (sc_old sc)[nat i := cur]\<rparr>) }"

definition shift_banks :: "int \<Rightarrow> scheduler \<Rightarrow> scheduler option" where
  "shift_banks n sc = mfold shift_bank sc (map int [0..<nat n])"

definition addrs_text :: "string \<Rightarrow> string list \<Rightarrow> string" where
  "addrs_text name xs = (if xs = [] then []
     else ''void* '' @ name @ ''['' @ int_to_string (int (length xs)) @ ''] = {'' @ sep_by '', '' xs @ ''};'' @ [CHR 0x0A])"

definition func_text :: "string \<Rightarrow> program \<Rightarrow> string" where
  "func_text cin p = ''void cgra_execute(void** din_addr, void** dout_addr)'' @ [CHR 0x0A] @ ''{'' @ [CHR 0x0A] @
     cin @ concat (map instr_text (pg_instrs p)) @ ''}'' @ [CHR 0x0A]"

definition call_text :: "program \<Rightarrow> string" where
  "call_text p = addrs_text ''cgra_din_addr'' (pg_loads p) @ addrs_text ''cgra_dout_addr'' (pg_stores p) @
     ''cgra_execute(cgra_din_addr, cgra_dout_addr);'' @ [CHR 0x0A]"

record task_files =
  tf_program :: program
  tf_func :: string
  tf_call :: string

definition io_execute ::
    "((int \<Rightarrow> int \<Rightarrow> bool) \<Rightarrow> int list \<Rightarrow> int list) \<Rightarrow>
     (((int \<times> int) \<Rightarrow> (int \<times> int) \<Rightarrow> bool) \<Rightarrow> (int \<times> int) list \<Rightarrow> (int \<times> int) list) \<Rightarrow>
     op_table \<Rightarrow> top_adg \<Rightarrow> bmap \<Rightarrow> scheduler \<Rightarrow> (task_files \<times> scheduler) option" where
  "io_execute srt psrt ops a bm sc = do {
     sc1 \<leftarrow> ioSchedule srt a bm sc;
     sc2 \<leftarrow> shift_banks (ag_numIobNodes a) sc1;
     (cin, sc3) \<leftarrow> genCfgData ops a bm sc2;
     p \<leftarrow> genInstructions psrt a (fst bm) sc3;
     Some (\<lparr>tf_program = p, tf_func = func_text cin p, tf_call = call_text p\<rparr>, sc3\<lparr>sc_taskId := sc_taskId sc3 + 1\<rparr>) }"

end
