(* ===== verification/IoTasks.thy ===== *)
theory IoTasks
  imports IoCorrect IoProgram
begin

text \<open>
  What the program of a task does: every input is loaded and every output stored exactly once, in
  an order that keeps the loads of one array together, and between two consecutive tasks no
  command touches scratchpad memory that a command of the task before may still need, unless it
  waits for that command.
\<close>

section \<open>The commands of a task\<close>

definition the_io :: "dfg \<Rightarrow> int \<Rightarrow> ioAttr" where
  "the_io g n = the (io_node g n)"

definition is_load :: "int \<times> ioInfo \<Rightarrow> bool" where
  "is_load elem \<longleftrightarrow> \<not> ii_isStore (snd elem)"

definition load_key :: "int \<times> ioInfo \<Rightarrow> int \<times> int" where
  "load_key elem = (fst elem, sort_dep (ii_dep (snd elem)))"

text \<open>The strongest dependence of the loads of an array.\<close>

definition array_dep :: "dfg \<Rightarrow> (int \<times> ioInfo) list \<Rightarrow> string \<Rightarrow> int" where
  "array_dep g infos name = Max (insert 0 (snd ` {x \<in> load_key ` set (filter is_load infos). mem_name g (fst x) = name}))"

lemma sort_dep_nonneg: "0 \<le> sort_dep d"
  by (simp add: sort_dep_def)

lemma array_dep_snoc:
  "array_dep g (us @ [e]) name =
     (if is_load e \<and> mem_name g (fst e) = name then max (array_dep g us name) (sort_dep (ii_dep (snd e))) else array_dep g us name)"
proof (cases "is_load e \<and> mem_name g (fst e) = name")
  case True
  let ?T = "insert 0 (snd ` {x \<in> load_key ` set (filter is_load us). mem_name g (fst x) = name})"
  have "insert 0 (snd ` {x \<in> load_key ` set (filter is_load (us @ [e])). mem_name g (fst x) = name}) =
      insert (sort_dep (ii_dep (snd e))) ?T"
    using True by (force simp: load_key_def)
  moreover have "Max (insert (sort_dep (ii_dep (snd e))) ?T) = max (sort_dep (ii_dep (snd e))) (Max ?T)"
    by (rule Max_insert) auto
  ultimately show ?thesis using True by (simp only: array_dep_def if_True simp_thms max.commute)
next
  case False
  then have "{x \<in> load_key ` set (filter is_load (us @ [e])). mem_name g (fst x) = name} =
      {x \<in> load_key ` set (filter is_load us). mem_name g (fst x) = name}"
    by (auto simp: load_key_def)
  then show ?thesis using False by (simp only: array_dep_def if_False)
qed

lemma array_dep_nonneg: "0 \<le> array_dep g infos name"
  by (simp add: array_dep_def)

lemma split_io_run:
  assumes nodes: "\<forall>e \<in> set infos. is_load e \<longrightarrow> io_node g (fst e) \<noteq> None"
  shows "\<exists>deps. mfold (split_io g) ([], [], []) infos =
      Some (map load_key (filter is_load infos), map fst (filter (\<lambda>e. \<not> is_load e) infos), deps) \<and>
    (\<forall>name. om_at 0 deps name = array_dep g infos name)"
proof -
  let ?J = "\<lambda>us s. \<exists>deps. s = (map load_key (filter is_load us), map fst (filter (\<lambda>e. \<not> is_load e) us), deps) \<and>
    (\<forall>name. om_at 0 deps name = array_dep g us name)"
  have "\<exists>s. mfold (split_io g) ([], [], []) infos = Some s \<and> ?J infos s"
  proof (rule mfold_prefix[where J = ?J])
    show "?J [] ([], [], [])" by (simp add: array_dep_def om_at_def)
    fix us e vs s assume us: "infos = us @ e # vs" and J: "?J us s"
    obtain n info where e: "e = (n, info)" by (cases e)
    obtain deps where s: "s = (map load_key (filter is_load us), map fst (filter (\<lambda>e. \<not> is_load e) us), deps)"
      "\<And>name. om_at 0 deps name = array_dep g us name" using J by blast
    show "\<exists>s'. split_io g s e = Some s' \<and> ?J (us @ [e]) s'"
    proof (cases "is_load e")
      case False
      then show ?thesis using s array_dep_snoc[of g us e] by (auto simp: split_io_def is_load_def e)
    next
      case True
      then obtain io where io: "io_node g n = Some io" using nodes us e by fastforce
      then have name: "mem_name g n = io_memRefName io" by (simp add: mem_name_def)
      let ?d = "sort_dep (ii_dep info)" and ?nm = "io_memRefName io"
      let ?deps = "if \<not> om_has deps ?nm then om_put deps ?nm ?d else if om_at 0 deps ?nm < ?d then om_put deps ?nm ?d else deps"
      have run: "split_io g s e = Some (map load_key (filter is_load us) @ [(n, ?d)], map fst (filter (\<lambda>e. \<not> is_load e) us), ?deps)"
        using True io s(1) by (simp add: split_io_def is_load_def e Let_def)
      have "om_at 0 deps ?nm = 0" if "\<not> om_has deps ?nm" using that by (simp add: om_at_def om_has_def split: option.splits)
      then have "om_at 0 ?deps nm = array_dep g (us @ [e]) nm" for nm
        using s(2)[of nm] s(2)[of ?nm] sort_dep_nonneg[of "ii_dep info"] array_dep_nonneg[of g us ?nm] True name
        unfolding array_dep_snoc e fst_conv snd_conv by (auto simp: max_def)
      then show ?thesis using run True by (auto simp: e load_key_def)
    qed
  qed
  then show ?thesis by blast
qed

text \<open>What the two loops write.\<close>

definition load_cmd :: "dfg \<Rightarrow> (int, ioInfo) omap \<Rightarrow> int \<Rightarrow> int list \<Rightarrow> nat \<Rightarrow> instr" where
  "load_cmd g infos task ids k = (let info = the (om_get infos (ids ! k)); io = the_io g (ids ! k) in
     Load_data (int k) (ii_addr info) (io_memSize io)
       (if Suc k < length ids \<and> same_data io (the_io g (ids ! Suc k)) then 1 else 0) task (ii_dep info))"

definition store_cmd :: "dfg \<Rightarrow> (int, ioInfo) omap \<Rightarrow> int \<Rightarrow> int list \<Rightarrow> nat \<Rightarrow> instr" where
  "store_cmd g infos task ids k = (let info = the (om_get infos (ids ! k)) in
     Store (int k) (ii_addr info) (io_memSize (the_io g (ids ! k))) task)"

lemma gen_loads_from:
  assumes "\<forall>x \<in> set xs. (\<exists>io. io_node g (fst x) = Some io) \<and> (\<exists>info. om_get infos (fst x) = Some info)"
  shows "gen_loads g infos task i xs = Some (map (\<lambda>k. (let info = the (om_get infos (fst (xs ! k))); io = the_io g (fst (xs ! k)) in
     Load_data (i + int k) (ii_addr info) (io_memSize io)
       (if Suc k < length xs \<and> same_data io (the_io g (fst (xs ! Suc k))) then 1 else 0) task (ii_dep info), array_ref (the_io g (fst (xs ! k))))) [0..<length xs])"
  using assms
proof (induction xs arbitrary: i)
  case (Cons x xs)
  then obtain io info where x: "io_node g (fst x) = Some io" "om_get infos (fst x) = Some info" by auto
  note IH = Cons.IH[of "i + 1"]
  have up: "map f [0..<length (x # xs)] = f 0 # map (\<lambda>k. f (Suc k)) [0..<length xs]" for f :: "nat \<Rightarrow> instr \<times> string"
    by (simp add: map_upt_Suc del: upt_Suc)
  show ?case
  proof (cases xs)
    case Nil
    then show ?thesis using x by (simp add: the_io_def)
  next
    case (Cons y ys)
    then obtain io' where y: "io_node g (fst y) = Some io'" using Cons.prems by auto
    show ?thesis unfolding up using x y Cons.prems IH Cons by (simp add: the_io_def algebra_simps del: upt_Suc)
  qed
qed simp

lemma gen_stores_from:
  assumes "\<forall>n \<in> set ns. (\<exists>io. io_node g n = Some io) \<and> (\<exists>info. om_get infos n = Some info)"
  shows "gen_stores g infos task i ns = Some (map (\<lambda>k. (let info = the (om_get infos (ns ! k)) in
     Store (i + int k) (ii_addr info) (io_memSize (the_io g (ns ! k))) task, array_ref (the_io g (ns ! k)))) [0..<length ns])"
  using assms
proof (induction ns arbitrary: i)
  case (Cons n ns)
  then obtain io info where x: "io_node g n = Some io" "om_get infos n = Some info" by auto
  have up: "map f [0..<length (n # ns)] = f 0 # map (\<lambda>k. f (Suc k)) [0..<length ns]" for f :: "nat \<Rightarrow> instr \<times> string"
    by (simp add: map_upt_Suc del: upt_Suc)
  show ?case unfolding up using x Cons.prems Cons.IH[of "i + 1"] by (simp add: the_io_def algebra_simps del: upt_Suc)
qed simp

section \<open>The order of the loads\<close>

text \<open>\<open>std::sort\<close> sorts when the comparison is a strict weak order.\<close>

definition strict_weak :: "('a \<Rightarrow> 'a \<Rightarrow> bool) \<Rightarrow> bool" where
  "strict_weak c \<longleftrightarrow> (\<forall>x y. c x y \<longrightarrow> \<not> c y x) \<and> (\<forall>x y z. c x z \<longrightarrow> c x y \<or> c y z)"

definition sort_ok :: "(('a \<Rightarrow> 'a \<Rightarrow> bool) \<Rightarrow> 'a list \<Rightarrow> 'a list) \<Rightarrow> bool" where
  "sort_ok srt \<longleftrightarrow> (\<forall>c xs. mset (srt c xs) = mset xs) \<and> (\<forall>c xs. strict_weak c \<longrightarrow> sorted_wrt (\<lambda>x y. \<not> c y x) (srt c xs))"

lemma load_before_weak: "strict_weak (load_before g)"
  by (auto simp: strict_weak_def load_before_def not_less)

lemma sorted_lex:
  fixes f :: "'a \<Rightarrow> int" and h :: "'a \<Rightarrow> string"
  assumes "sorted_wrt (\<lambda>x y. f x \<le> f y) xs" "\<And>c. sorted_wrt (\<lambda>x y. h x \<le> h y) (filter (\<lambda>x. f x = c) xs)"
  shows "sorted_wrt (\<lambda>x y. f x < f y \<or> (f x = f y \<and> h x \<le> h y)) xs"
  using assms
proof (induction xs)
  case (Cons x xs)
  have "sorted_wrt (\<lambda>x y. h x \<le> h y) (filter (\<lambda>y. f y = c) xs)" for c
    using Cons.prems(2)[of c] by (auto split: if_splits)
  then have "sorted_wrt (\<lambda>x y. f x < f y \<or> (f x = f y \<and> h x \<le> h y)) xs" using Cons by simp
  moreover have "f x < f y \<or> (f x = f y \<and> h x \<le> h y)" if "y \<in> set xs" for y
    using Cons.prems(1) Cons.prems(2)[of "f x"] that by (cases "f x = f y") auto
  ultimately show ?case by simp
qed simp

lemma sorted_wrt_filter_mono:
  assumes "sorted_wrt P xs" "\<And>x y. P x y \<Longrightarrow> Q x y"
  shows "sorted_wrt Q (filter p xs)"
  using assms by (induction xs) auto

lemma sorted_loads_lex:
  assumes "sort_ok psrt"
  shows "mset (sorted_loads psrt g deps lds) = mset lds"
    "sorted_wrt (\<lambda>x y. om_at 0 deps (mem_name g (fst x)) < om_at 0 deps (mem_name g (fst y)) \<or>
       (om_at 0 deps (mem_name g (fst x)) = om_at 0 deps (mem_name g (fst y)) \<and> mem_name g (fst x) \<le> mem_name g (fst y)))
     (sorted_loads psrt g deps lds)"
proof -
  let ?f = "\<lambda>x. om_at 0 deps (mem_name g (fst x))"
  let ?ys = "psrt (load_before g) lds"
  have srt: "sorted_wrt (\<lambda>x y. \<not> load_before g y x) ?ys" using assms load_before_weak unfolding sort_ok_def by blast
  show "mset (sorted_loads psrt g deps lds) = mset lds" using assms by (simp add: sorted_loads_def sort_ok_def)
  have "sorted_wrt (\<lambda>x y. mem_name g (fst x) \<le> mem_name g (fst y)) (filter (\<lambda>x. ?f x = c) ?ys)" for c
    by (rule sorted_wrt_filter_mono[OF srt]) (auto simp: load_before_def not_less)
  then have "sorted_wrt (\<lambda>x y. mem_name g (fst x) \<le> mem_name g (fst y)) (filter (\<lambda>x. ?f x = c) (sorted_loads psrt g deps lds))" for c
    by (simp add: sorted_loads_def sort_key_stable)
  moreover have "sorted_wrt (\<lambda>x y. ?f x \<le> ?f y) (sorted_loads psrt g deps lds)"
    using sorted_sort_key[of ?f ?ys] by (simp add: sorted_loads_def sorted_map)
  ultimately show "sorted_wrt (\<lambda>x y. ?f x < ?f y \<or> (?f x = ?f y \<and> mem_name g (fst x) \<le> mem_name g (fst y))) (sorted_loads psrt g deps lds)"
    by (rule sorted_lex[rotated])
qed

section \<open>All commands\<close>

lemma map_snd_upt: "map snd (map (\<lambda>k. (c k, h (xs ! k))) [0..<length xs]) = map h xs"
  by (rule nth_equalityI) auto

lemma map_snd_upt_fst: "map snd (map (\<lambda>k. (c k, h (fst (xs ! k)))) [0..<length xs]) = map h (map fst xs)"
  by (rule nth_equalityI) auto

lemma genInstructions_ok:
  assumes byte: "ag_cfgSpadDataWidth a sdiv 8 \<noteq> 0" and wf: "om_wf (sc_infos sc)" and srt: "sort_ok psrt"
    and nodes: "\<forall>n. om_has (sc_infos sc) n \<longrightarrow> (\<exists>io. io_node g n = Some io)"
  shows "\<exists>p ids outs. genInstructions psrt a g sc = Some p \<and>
    distinct ids \<and> set ids = {n. \<exists>info. om_get (sc_infos sc) n = Some info \<and> \<not> ii_isStore info} \<and>
    distinct outs \<and> set outs = {n. \<exists>info. om_get (sc_infos sc) n = Some info \<and> ii_isStore info} \<and>
    pg_instrs p = Load_cfg (cs_start (sc_oldCfg sc) + ag_numIobNodes a * ag_iobSpadBankSize a) (sc_cfgLen sc) (sc_taskId sc) (sc_ldCfgDep sc) #
      map (load_cmd g (sc_infos sc) (sc_taskId sc) ids) [0..<length ids] @
      [Config (cs_start (sc_oldCfg sc) sdiv (ag_cfgSpadDataWidth a sdiv 8)) (sc_cfgNum sc) (sc_taskId sc),
       Execute (sc_iobEns sc) (sc_taskId sc) (sc_exDep sc)] @
      map (store_cmd g (sc_infos sc) (sc_taskId sc) outs) [0..<length outs] \<and>
    pg_loads p = map (\<lambda>n. array_ref (the_io g n)) ids \<and> pg_stores p = map (\<lambda>n. array_ref (the_io g n)) outs \<and>
    (let dep = \<lambda>n. array_dep g (sc_infos sc) (mem_name g n) in
       sorted_wrt (\<lambda>n k. dep n < dep k \<or> (dep n = dep k \<and> mem_name g n \<le> mem_name g k)) ids)"
proof -
  let ?infos = "sc_infos sc"
  have mem: "(n, i) \<in> set ?infos \<longleftrightarrow> om_get ?infos n = Some i" for n i using om_get_mem[OF wf] .
  have nd: "\<forall>e \<in> set ?infos. is_load e \<longrightarrow> io_node g (fst e) \<noteq> None" using nodes by (force simp: om_has_set)
  from split_io_run[OF nd] obtain deps where sp: "mfold (split_io g) ([], [], []) ?infos =
      Some (map load_key (filter is_load ?infos), map fst (filter (\<lambda>e. \<not> is_load e) ?infos), deps)"
    "\<And>name. om_at 0 deps name = array_dep g ?infos name" by blast
  let ?lds = "map load_key (filter is_load ?infos)" and ?outs = "map fst (filter (\<lambda>e. \<not> is_load e) ?infos)"
  let ?xs = "sorted_loads psrt g deps ?lds"
  let ?ids = "map fst ?xs"
  note lex = sorted_loads_lex[OF srt, where g = g and deps = deps and lds = ?lds]
  have keys: "map fst ?lds = map fst (filter is_load ?infos)" by (simp add: load_key_def)
  have d: "distinct (map fst (filter P ?infos))" for P using om_wf_distinct[OF wf] by (rule distinct_map_filter)
  have ms: "mset ?ids = mset (map fst ?lds)" using lex(1) by (metis mset_map)
  have ids: "distinct ?ids" "set ?ids = fst ` set (filter is_load ?infos)"
    using ms d[of is_load] keys by (metis mset_eq_imp_distinct_iff, metis mset_eq_setD list.set_map)
  have sl: "fst ` set (filter is_load ?infos) = {n. \<exists>info. om_get ?infos n = Some info \<and> \<not> ii_isStore info}"
    "fst ` set (filter (\<lambda>e. \<not> is_load e) ?infos) = {n. \<exists>info. om_get ?infos n = Some info \<and> ii_isStore info}"
    by (auto simp: is_load_def mem[symmetric] image_iff; force)+
  have "\<forall>x \<in> set ?xs. (\<exists>io. io_node g (fst x) = Some io) \<and> (\<exists>info. om_get ?infos (fst x) = Some info)"
  proof
    fix x assume "x \<in> set ?xs"
    then have "fst x \<in> set ?ids" by auto
    then show "(\<exists>io. io_node g (fst x) = Some io) \<and> (\<exists>info. om_get ?infos (fst x) = Some info)"
      using nodes unfolding ids(2) sl(1) om_has_iff by blast
  qed
  note gl = gen_loads_from[OF this, of "sc_taskId sc" 0]
  obtain L where L: "gen_loads g ?infos (sc_taskId sc) 0 ?xs = Some L" "map fst L = map (load_cmd g ?infos (sc_taskId sc) ?ids) [0..<length ?ids]"
    "map snd L = map (\<lambda>n. array_ref (the_io g n)) ?ids"
  proof (rule that[OF gl])
    show "map fst (map (\<lambda>k. (let info = the (om_get ?infos (fst (?xs ! k))); io = the_io g (fst (?xs ! k)) in
     Load_data (0 + int k) (ii_addr info) (io_memSize io)
       (if Suc k < length ?xs \<and> same_data io (the_io g (fst (?xs ! Suc k))) then 1 else 0) (sc_taskId sc) (ii_dep info), array_ref (the_io g (fst (?xs ! k))))) [0..<length ?xs])
      = map (load_cmd g ?infos (sc_taskId sc) ?ids) [0..<length ?ids]"
      by (auto simp: load_cmd_def Let_def)
  qed (rule map_snd_upt_fst)
  have "\<forall>n \<in> set ?outs. (\<exists>io. io_node g n = Some io) \<and> (\<exists>info. om_get ?infos n = Some info)"
    using nodes sl(2) unfolding om_has_iff by (simp only: set_map) blast
  note gs = gen_stores_from[OF this, of "sc_taskId sc" 0]
  obtain S where S: "gen_stores g ?infos (sc_taskId sc) 0 ?outs = Some S" "map fst S = map (store_cmd g ?infos (sc_taskId sc) ?outs) [0..<length ?outs]"
    "map snd S = map (\<lambda>n. array_ref (the_io g n)) ?outs"
  proof (rule that[OF gs])
    show "map fst (map (\<lambda>k. (let info = the (om_get ?infos (?outs ! k)) in
     Store (0 + int k) (ii_addr info) (io_memSize (the_io g (?outs ! k))) (sc_taskId sc), array_ref (the_io g (?outs ! k)))) [0..<length ?outs])
      = map (store_cmd g ?infos (sc_taskId sc) ?outs) [0..<length ?outs]"
      by (simp add: store_cmd_def Let_def)
  qed (rule map_snd_upt)
  let ?p = "\<lparr>pg_instrs = Load_cfg (cs_start (sc_oldCfg sc) + ag_numIobNodes a * ag_iobSpadBankSize a) (sc_cfgLen sc) (sc_taskId sc) (sc_ldCfgDep sc) #
      map fst L @ [Config (cs_start (sc_oldCfg sc) sdiv (ag_cfgSpadDataWidth a sdiv 8)) (sc_cfgNum sc) (sc_taskId sc),
       Execute (sc_iobEns sc) (sc_taskId sc) (sc_exDep sc)] @ map fst S,
    pg_loads = map snd L, pg_stores = map snd S\<rparr>"
  have run: "genInstructions psrt a g sc = Some ?p"
    using byte sp(1) L(1) S(1) by (simp add: genInstructions_def Let_def)
  have srtd: "let dep = \<lambda>n. array_dep g ?infos (mem_name g n) in
       sorted_wrt (\<lambda>n k. dep n < dep k \<or> (dep n = dep k \<and> mem_name g n \<le> mem_name g k)) ?ids"
    using lex(2) unfolding sp(2) by (simp add: Let_def sorted_wrt_map)
  show ?thesis
    by (rule exI[of _ ?p], rule exI[of _ ?ids], rule exI[of _ ?outs]) (use run ids sl d srtd in \<open>simp add: Let_def L(2,3) S(2,3)\<close>)
qed

section \<open>The configuration in the scratchpad\<close>

definition spad_byte :: "top_adg \<Rightarrow> int" where
  "spad_byte a = ag_cfgSpadDataWidth a sdiv 8"

definition cfg_region_ok :: "top_adg \<Rightarrow> cfgStatus \<Rightarrow> bool" where
  "cfg_region_ok a cs \<longleftrightarrow> 0 \<le> cs_start cs \<and> cs_start cs \<le> cs_end cs \<and> cs_end cs \<le> ag_cfgSpadSize a \<and>
     spad_byte a dvd cs_start cs \<and> spad_byte a dvd cs_end cs"

lemma align_up_ok:
  assumes "0 < b" "0 \<le> x"
  shows "x \<le> align_up b x" "b dvd align_up b x" "b dvd y \<Longrightarrow> x \<le> y \<Longrightarrow> align_up b x \<le> y"
proof -
  have al: "align_up b x = (x + b - 1) div b * b" using assms by (simp add: align_up_def signed_divide_int_def sgn_if)
  have m: "(x + b - 1) div b * b = x + b - 1 - (x + b - 1) mod b" by (simp add: minus_mod_eq_div_mult)
  have r: "(x + b - 1) mod b < b" using assms by simp
  show "x \<le> align_up b x" unfolding al m using r by simp
  show "b dvd align_up b x" unfolding al by simp
  show "align_up b x \<le> y" if y: "b dvd y" "x \<le> y"
  proof -
    obtain k where k: "y = b * k" using y(1) by blast
    have "(x + b - 1) div b \<le> (b * k + (b - 1)) div b" by (rule zdiv_mono1) (use assms y(2) k in auto)
    also have "\<dots> = k" using assms(1) by (simp add: div_add1_eq)
    finally have "(x + b - 1) div b \<le> k" .
    then show ?thesis unfolding al k using assms(1) by (simp add: mult.commute mult_left_mono)
  qed
qed

text \<open>The new region holds the configuration, is aligned and in bounds, and overlaps the region of the
  last task only if loading waits for its execution.\<close>

lemma cfg_place_ok:
  assumes byte: "0 < spad_byte a" "spad_byte a dvd ag_cfgSpadSize a" and old: "cfg_region_ok a old" and len: "0 \<le> len" "len \<le> ag_cfgSpadSize a"
    and r: "cfg_place (ag_cfgSpadSize a) len old = (base, dep)"
  defines "new \<equiv> \<lparr>cs_start = base, cs_end = min (base + align_up (spad_byte a) len) (ag_cfgSpadSize a)\<rparr>"
  shows "cfg_region_ok a new" "base + len \<le> cs_end new" "dep = 0 \<or> dep = LD_DEP_EX_LAST_TASK"
    "dep = 0 \<Longrightarrow> cs_end new \<le> cs_start old \<or> cs_end old \<le> cs_start new"
proof -
  note al = align_up_ok[OF byte(1) len(1)]
  have base: "base = cs_end old \<and> len \<le> ag_cfgSpadSize a - base \<or> base = 0 \<and> (dep = 0 \<longrightarrow> len \<le> cs_start old)"
    using r by (auto simp: cfg_place_def LD_DEP_EX_LAST_TASK_def split: if_splits)
  have fit: "base + align_up (spad_byte a) len \<le> ag_cfgSpadSize a"
    using base al(3)[of "ag_cfgSpadSize a"] al(3)[of "ag_cfgSpadSize a - base"] byte(2) len(2) old
    by (auto simp: cfg_region_ok_def dvd_diff)
  then have new: "new = \<lparr>cs_start = base, cs_end = base + align_up (spad_byte a) len\<rparr>" by (simp add: new_def)
  show "cfg_region_ok a new" using base old fit al(1,2) len(1) unfolding new by (auto simp: cfg_region_ok_def)
  show "base + len \<le> cs_end new" using al(1) by (simp add: new)
  show "dep = 0 \<or> dep = LD_DEP_EX_LAST_TASK" using r by (auto simp: cfg_place_def split: if_splits)
  show "cs_end new \<le> cs_start old \<or> cs_end old \<le> cs_start new" if "dep = 0"
    using base that al(3)[of "cs_start old"] old by (auto simp: new cfg_region_ok_def)
qed

text \<open>On a bus of at least a word, every packet is one row of the array and every row has the declared
  number of entries.\<close>

lemma node_packet_length:
  assumes "32 \<le> W" "node_packet W vec high addr = Some pk"
  shows "length (cp_data pk) = nat (W sdiv 32)"
proof -
  obtain ds where ds: "mfold (\<lambda>ds i. do { d \<leftarrow> wide_word vec (addr * word_of_int (W sdiv 32) + word_of_nat i); Some (ds @ [d]) }) [] [0..<nat (W sdiv 32)] = Some ds"
    "pk = \<lparr>cp_addr = high OR addr, cp_data = ds\<rparr>" using assms by (auto simp: node_packet_def split: bind_splits)
  have "mfold (\<lambda>ds i. do { d \<leftarrow> h i; Some (ds @ [d]) }) (ds0 :: 32 word list) xs = Some ds \<Longrightarrow> length ds = length ds0 + length xs"
    for h :: "nat \<Rightarrow> 32 word option" and ds0 ds xs
    by (induction xs arbitrary: ds0) (auto split: bind_splits)
  from this[OF ds(1)] show ?thesis by (simp add: ds(2))
qed

definition wide_packets :: "int \<Rightarrow> cfgPacket list \<Rightarrow> bool" where
  "wide_packets W pks \<longleftrightarrow> (\<forall>pk \<in> set pks. length (cp_data pk) = nat (W sdiv 32) \<and> W smod 32 = 0)"

lemma getCfgData_wide:
  assumes W: "32 \<le> ag_cfgDataWidth (cf_adg c)" and r: "getCfgData c = Some pks"
  shows "wide_packets (ag_cfgDataWidth (cf_adg c)) pks"
  using r unfolding getCfgData_def
proof (rule mfold_inv)
  show "wide_packets (ag_cfgDataWidth (cf_adg c)) []" by (simp add: wide_packets_def)
  fix x us vs assume u: "wide_packets (ag_cfgDataWidth (cf_adg c)) us" and s: "getNodeCfgData c (snd x) us = Some vs"
  show "wide_packets (ag_cfgDataWidth (cf_adg c)) vs"
  proof (cases "vs = us")
    case False
    then obtain cm pks' where n: "node_packets (ag_cfgDataWidth (cf_adg c)) (ag_cfgBlkOffset (cf_adg c)) (an_cfgBlkIdx (snd x)) cm = Some pks'" "vs = us @ pks'"
      using s by (auto simp: getNodeCfgData_def split: bind_splits if_splits)
    let ?W = "ag_cfgDataWidth (cf_adg c)"
    obtain vec high addrs where p: "mfold (\<lambda>pks addr. do { pk \<leftarrow> node_packet ?W vec high addr; Some (pks @ [pk]) }) [] addrs = Some pks'" "?W smod 32 = 0"
      using n(1) W by (auto simp: node_packets_def Let_def split: bind_splits if_splits prod.splits)
    have "wide_packets ?W pks'"
      using p(1) by (rule mfold_inv) (use p(2) node_packet_length[OF W] in \<open>auto simp: wide_packets_def split: bind_splits\<close>)
    then show ?thesis using u n(2) by (auto simp: wide_packets_def)
  qed (use u in simp)
qed

lemma cin_shape:
  assumes W: "32 \<le> W" and pks: "wide_packets W pks" and aw: "aw = 16 \<or> aw = 32"
  shows "cfg_num W pks = int (length pks)" "\<forall>pk \<in> set pks. int (length (cin_row aw pk)) = 1 + W sdiv aw"
proof -
  have sd: "W sdiv k = W div k" if "0 < k" for k using that W by (simp add: signed_divide_int_def sgn_if)
  have m: "W mod 32 = 0" if "pk \<in> set pks" for pk using pks that W by (auto simp: wide_packets_def signed_modulo_int_def sgn_if)
  have one: "int (length (cp_data pk)) * 32 sdiv W = 1" if "pk \<in> set pks" for pk
  proof -
    have "int (length (cp_data pk)) * 32 = W" using pks that m[OF that] W sd[of 32] by (auto simp: wide_packets_def)
    then show ?thesis using W sd[of W] by simp
  qed
  have "\<forall>pk \<in> set qs. int (length (cp_data pk)) * 32 sdiv W = 1 \<Longrightarrow>
      foldl (\<lambda>num pk. num + int (length (cp_data pk)) * 32 sdiv W) n qs = n + int (length qs)" for n qs
    by (induction qs arbitrary: n) auto
  from this[of pks 0] show "cfg_num W pks = int (length pks)" using one by (simp add: cfg_num_def)
  have len: "length (concat (map (\<lambda>d. if aw = 32 then [d] else [d AND 0xffff, drop_bit 16 d]) ds)) = length ds * (if aw = 32 then 1 else 2)" for ds :: "32 word list"
    by (induction ds) auto
  show "\<forall>pk \<in> set pks. int (length (cin_row aw pk)) = 1 + W sdiv aw"
  proof
    fix pk assume pk: "pk \<in> set pks"
    have w: "length (cp_data pk) = nat (W div 32)" using pks pk sd[of 32] by (simp add: wide_packets_def)
    obtain k where "W = 32 * k" using m[OF pk] by (metis mod_0_imp_dvd dvdE)
    then have "W div 16 = W div 32 * 2" by simp
    moreover have "int (length (cin_row aw pk)) = W div 32 * (if aw = 32 then 1 else 2) + 1"
      using w W by (simp add: cin_row_def len)
    ultimately show "int (length (cin_row aw pk)) = 1 + W sdiv aw" using aw sd[of aw] by (elim disjE) simp_all
  qed
qed

section \<open>The history of the banks\<close>

lemma shift_banks_ok:
  assumes "length (sc_cur sc) = n" "length (sc_old sc) = n" "length (sc_older sc) = n"
  shows "shift_banks (int n) sc = Some (sc\<lparr>sc_older := sc_old sc, sc_old := sc_cur sc\<rparr>)"
proof -
  have mix: "(take k xs @ drop k ys)[k := xs ! k] = take (Suc k) xs @ drop (Suc k) ys" if "k < length xs" "k < length ys" for k and xs ys :: "bankStatus list"
    using that by (simp add: list_update_append take_Suc_conv_app_nth Cons_nth_drop_Suc[symmetric])
  have "k \<le> n \<Longrightarrow> mfold shift_bank sc (map int [0..<k]) =
      Some (sc\<lparr>sc_older := take k (sc_old sc) @ drop k (sc_older sc), sc_old := take k (sc_cur sc) @ drop k (sc_old sc)\<rparr>)" for k
  proof (induction k)
    case (Suc k)
    have "bank_at (take k xs @ drop k ys) (int k) = Some (ys ! k)" if "length xs = n" "length ys = n" for xs ys
      using Suc.prems that by (simp add: bank_at_def nth_append)
    moreover have "bank_at xs (int k) = Some (xs ! k)" if "length xs = n" for xs
      using Suc.prems that by (simp add: bank_at_def)
    ultimately have "shift_bank (sc\<lparr>sc_older := take k (sc_old sc) @ drop k (sc_older sc), sc_old := take k (sc_cur sc) @ drop k (sc_old sc)\<rparr>) (int k) =
        Some (sc\<lparr>sc_older := take (Suc k) (sc_old sc) @ drop (Suc k) (sc_older sc), sc_old := take (Suc k) (sc_cur sc) @ drop (Suc k) (sc_old sc)\<rparr>)"
      using assms mix[of k "sc_old sc" "sc_older sc"] mix[of k "sc_cur sc" "sc_old sc"] Suc.prems by (simp add: shift_bank_def)
    moreover have "map int [0..<Suc k] = map int [0..<k] @ [int k]" by simp
    ultimately show ?case using Suc by (simp only: mfold_append) simp
  qed simp
  from this[of n] show ?thesis using assms by (simp add: shift_banks_def)
qed

lemma genCfgData_infos:
  "genCfgData ops a bm sc = Some (cin, sc') \<Longrightarrow> \<exists>n l d c. sc' = sc\<lparr>sc_cfgNum := n, sc_cfgLen := l, sc_ldCfgDep := d, sc_oldCfg := c\<rparr>"
  by (auto simp: genCfgData_def Let_def split: bind_splits if_splits prod.splits)

text \<open>What a command of a task says of the nodes of its DFG.\<close>

definition explained :: "top_adg \<Rightarrow> dfg \<Rightarrow> scheduler \<Rightarrow> scheduler \<Rightarrow> instr \<Rightarrow> bool" where
  "explained a g sc sc' i = (case i of
     Load_cfg addr len _ dep \<Rightarrow> addr = cs_start (sc_oldCfg sc') + ag_numIobNodes a * ag_iobSpadBankSize a \<and> len = sc_cfgLen sc' \<and> dep = sc_ldCfgDep sc'
   | Load_data _ addr len _ _ dep \<Rightarrow> \<exists>n info. om_get (sc_infos sc) n = Some info \<and> \<not> ii_isStore info \<and>
       addr = ii_addr info \<and> len = io_memSize (the_io g n) \<and> dep = ii_dep info
   | Store _ addr len _ \<Rightarrow> \<exists>n info. om_get (sc_infos sc) n = Some info \<and> ii_isStore info \<and>
       addr = ii_addr info \<and> len = io_memSize (the_io g n)
   | Execute _ _ dep \<Rightarrow> dep = sc_exDep sc
   | _ \<Rightarrow> True)"

definition task_hw :: "top_adg \<Rightarrow> bool" where
  "task_hw a \<longleftrightarrow> banks_ok a \<and> 0 < spad_byte a \<and> 0 \<le> ag_iobSpadBankSize a"

definition task_fits :: "top_adg \<Rightarrow> bmap \<Rightarrow> bool" where
  "task_fits a bm \<longleftrightarrow> ios_placed a (fst bm) (snd bm) \<and>
     (\<forall>n \<in> set (df_ioNodes (fst bm)). 0 \<le> io_memSize (the_io (fst bm) n) \<and> io_size a (fst bm) n \<le> ag_iobSpadBankSize a)"

definition sorts_ok :: "((int \<Rightarrow> int \<Rightarrow> bool) \<Rightarrow> int list \<Rightarrow> int list) \<Rightarrow>
    (((int \<times> int) \<Rightarrow> (int \<times> int) \<Rightarrow> bool) \<Rightarrow> (int \<times> int) list \<Rightarrow> (int \<times> int) list) \<Rightarrow> bool" where
  "sorts_ok srt psrt \<longleftrightarrow> sort_ok srt \<and> sort_ok psrt"

lemma execute_run:
  assumes hw: "task_hw a" and fit: "task_fits a (g, m)" and so: "sorts_ok srt psrt" and old: "old_ok a sc"
    and run: "io_execute srt psrt ops a (g, m) sc = Some (f, sc')"
  shows "\<exists>outs bk sc1. (\<forall>n \<in> set (df_ioNodes g). region_ok a g m outs sc1 n (bk n)) \<and> inj_on bk (set (df_ioNodes g)) \<and>
    io_inv a g m outs sc (set (df_ioNodes g)) sc1 \<and> sc_old sc' = sc_cur sc1 \<and> sc_older sc' = sc_old sc \<and> sc_old sc1 = sc_old sc \<and>
    sc_older sc1 = sc_older sc \<and> sc_infos sc' = sc_infos sc1 \<and> (\<forall>i \<in> set (pg_instrs (tf_program f)). explained a g sc1 sc' i)"
proof -
  have pl: "ios_placed a g m" and hb: "banks_ok a" using fit hw by (simp_all add: task_fits_def task_hw_def)
  have srt: "\<And>c xs. mset (srt c xs) = mset xs" and psrt: "sort_ok psrt" using so by (auto simp: sorts_ok_def sort_ok_def)
  from ioSchedule_ok[where srt = srt, OF hb pl old srt] obtain sc1 outs where
    s: "ioSchedule srt a (g, m) sc = Some sc1" "io_inv a g m outs sc (set (df_ioNodes g)) sc1" by blast
  let ?n = "nat (ag_numIobNodes a)"
  have len: "length (sc_cur sc1) = ?n" "length (sc_old sc1) = ?n" "length (sc_older sc1) = ?n" and same: "sc_old sc1 = sc_old sc" "sc_older sc1 = sc_older sc"
    and wf: "om_wf (sc_infos sc1)" and dom: "\<And>n. om_has (sc_infos sc1) n \<longleftrightarrow> n \<in> set (df_ioNodes g)"
    using s(2) old by (auto simp: io_inv_def old_ok_def)
  let ?sc2 = "sc1\<lparr>sc_older := sc_old sc1, sc_old := sc_cur sc1\<rparr>"
  have "int ?n = ag_numIobNodes a" using hb by (simp add: banks_ok_def)
  then have sh: "shift_banks (ag_numIobNodes a) sc1 = Some ?sc2" using shift_banks_ok[OF len] by simp
  obtain cin sc3 p where r: "genCfgData ops a (g, m) ?sc2 = Some (cin, sc3)" "genInstructions psrt a g sc3 = Some p"
    "tf_program f = p" "sc' = sc3\<lparr>sc_taskId := sc_taskId sc3 + 1\<rparr>"
    using run s(1) sh by (auto simp: io_execute_def split: bind_splits)
  obtain cn cl cd cc where sc3: "sc3 = ?sc2\<lparr>sc_cfgNum := cn, sc_cfgLen := cl, sc_ldCfgDep := cd, sc_oldCfg := cc\<rparr>"
    using genCfgData_infos[OF r(1)] by blast
  have v: "sc_infos sc3 = sc_infos sc1" "sc_exDep sc3 = sc_exDep sc1" "sc_old sc' = sc_cur sc1" "sc_older sc' = sc_old sc" "sc_infos sc' = sc_infos sc1"
    "sc_oldCfg sc' = sc_oldCfg sc3" "sc_cfgLen sc' = sc_cfgLen sc3" "sc_ldCfgDep sc' = sc_ldCfgDep sc3"
    using sc3 r(4) same by simp_all
  have byte: "ag_cfgSpadDataWidth a sdiv 8 \<noteq> 0" using hw by (simp add: task_hw_def spad_byte_def)
  have nodes: "\<forall>n. om_has (sc_infos sc3) n \<longrightarrow> (\<exists>io. io_node g n = Some io)" using dom pl v(1) by (auto simp: ios_placed_def)
  have "om_wf (sc_infos sc3)" using wf v(1) by simp
  from genInstructions_ok[OF byte this psrt nodes] r(2) obtain ids os where
    p: "set ids = {n. \<exists>info. om_get (sc_infos sc1) n = Some info \<and> \<not> ii_isStore info}"
      "set os = {n. \<exists>info. om_get (sc_infos sc1) n = Some info \<and> ii_isStore info}"
      "pg_instrs p = Load_cfg (cs_start (sc_oldCfg sc3) + ag_numIobNodes a * ag_iobSpadBankSize a) (sc_cfgLen sc3) (sc_taskId sc3) (sc_ldCfgDep sc3) #
      map (load_cmd g (sc_infos sc1) (sc_taskId sc3) ids) [0..<length ids] @
      [Config (cs_start (sc_oldCfg sc3) sdiv (ag_cfgSpadDataWidth a sdiv 8)) (sc_cfgNum sc3) (sc_taskId sc3),
       Execute (sc_iobEns sc3) (sc_taskId sc3) (sc_exDep sc1)] @
      map (store_cmd g (sc_infos sc1) (sc_taskId sc3) os) [0..<length os]" unfolding v(1,2) by auto
  have "explained a g sc1 sc' (load_cmd g (sc_infos sc1) t ids k)" if k: "k < length ids" for t k
  proof -
    have "ids ! k \<in> set ids" using k by simp
    then obtain info where "om_get (sc_infos sc1) (ids ! k) = Some info" "\<not> ii_isStore info" unfolding p(1) by blast
    then show ?thesis by (auto simp: explained_def load_cmd_def Let_def)
  qed
  moreover have "explained a g sc1 sc' (store_cmd g (sc_infos sc1) t os k)" if k: "k < length os" for t k
  proof -
    have "os ! k \<in> set os" using k by simp
    then obtain info where "om_get (sc_infos sc1) (os ! k) = Some info" "ii_isStore info" unfolding p(2) by blast
    then show ?thesis by (auto simp: explained_def store_cmd_def Let_def)
  qed
  moreover have "explained a g sc1 sc' (Load_cfg (cs_start (sc_oldCfg sc3) + ag_numIobNodes a * ag_iobSpadBankSize a) (sc_cfgLen sc3) t (sc_ldCfgDep sc3))"
    "explained a g sc1 sc' (Config x y t)" "explained a g sc1 sc' (Execute en t (sc_exDep sc1))" for x y en t
    using v(6-8) by (simp_all add: explained_def)
  ultimately have "\<forall>i \<in> set (pg_instrs p). explained a g sc1 sc' i" unfolding p(3) by auto
  moreover obtain bk where "inj_on bk (set (df_ioNodes g))" "\<forall>n \<in> set (df_ioNodes g). region_ok a g m outs sc1 n (bk n)"
    using s(2) unfolding io_inv_def by blast
  ultimately show ?thesis using s(2) v(3-5) same r(3) by blast
qed

lemma io_size_ok:
  assumes hw: "task_hw a" and fit: "task_fits a (g, m)" and n: "n \<in> set (df_ioNodes g)"
  shows "0 \<le> io_memSize (the_io g n)" "io_memSize (the_io g n) \<le> io_size a g n" "io_size a g n \<le> ag_iobSpadBankSize a"
proof -
  obtain io where io: "io_node g n = Some io" using fit n by (auto simp: task_fits_def ios_placed_def)
  show p: "0 \<le> io_memSize (the_io g n)" "io_size a g n \<le> ag_iobSpadBankSize a" using fit n by (simp_all add: task_fits_def)
  have "0 < ag_cfgSpadDataWidth a sdiv 8" using hw by (simp add: task_hw_def spad_byte_def)
  then show "io_memSize (the_io g n) \<le> io_size a g n"
    using align_up_ok(1) p(1) io by (simp add: io_size_def the_io_def)
qed

lemma execute_old_ok:
  assumes hw: "task_hw a" and fit: "task_fits a (g, m)" and so: "sorts_ok srt psrt" and old: "old_ok a sc"
    and run: "io_execute srt psrt ops a (g, m) sc = Some (f, sc')"
  shows "old_ok a sc'"
proof -
  let ?S = "ag_iobSpadBankSize a" and ?ios = "set (df_ioNodes g)"
  obtain outs bk sc1 where r: "\<forall>n \<in> ?ios. region_ok a g m outs sc1 n (bk n)" "io_inv a g m outs sc ?ios sc1" "sc_old sc' = sc_cur sc1" "sc_older sc' = sc_old sc"
    using execute_run[OF assms] by blast
  obtain bk' where bk': "\<forall>n \<in> ?ios. region_ok a g m outs sc1 n (bk' n)"
    "\<forall>b cur. bank_at (sc_cur sc1) b = Some cur \<longrightarrow> bs_used cur \<noteq> 0 \<longrightarrow> b \<in> bk' ` ?ios" using r(2) unfolding io_inv_def by blast
  have free: "\<forall>b cur. bank_at (sc_cur sc1) b = Some cur \<longrightarrow> bs_used cur = 0 \<longrightarrow> cur = free_bank" and len: "length (sc_cur sc1) = nat (ag_numIobNodes a)"
    using r(2) by (auto simp: io_inv_def)
  have S: "0 \<le> ?S" using hw by (simp add: task_hw_def)
  have "bank_wf ?S cur" if b: "bank_at (sc_cur sc1) b = Some cur" for b cur
  proof (cases "bs_used cur = 0")
    case True
    then show ?thesis using free b free_bank_wf[OF S] by blast
  next
    case False
    then obtain n where n: "n \<in> ?ios" "b = bk' n" using bk'(2) b by blast
    have "region_ok a g m outs sc1 n b" using bk'(1) n by blast
    then show ?thesis using b io_size_ok[OF hw fit n(1)] by (auto simp: region_ok_def bank_wf_def)
  qed
  then show ?thesis using old len r(3,4) by (auto simp: old_ok_def)
qed

section \<open>Consecutive tasks\<close>

text \<open>The scratchpad bytes a command moves.\<close>

definition moves :: "instr \<Rightarrow> (int \<times> int) option" where
  "moves i = (case i of Load_data _ addr len _ _ _ \<Rightarrow> Some (addr, len) | Store _ addr len _ \<Rightarrow> Some (addr, len) | _ \<Rightarrow> None)"

definition overlap :: "instr \<Rightarrow> instr \<Rightarrow> bool" where
  "overlap i j \<longleftrightarrow> (\<exists>x u y v. moves i = Some (x, u) \<and> moves j = Some (y, v) \<and> x < y + v \<and> y < x + u)"

definition is_load_cmd :: "instr \<Rightarrow> bool" where
  "is_load_cmd i \<longleftrightarrow> (case i of Load_data _ _ _ _ _ _ \<Rightarrow> True | _ \<Rightarrow> False)"

definition is_store_cmd :: "instr \<Rightarrow> bool" where
  "is_store_cmd i \<longleftrightarrow> (case i of Store _ _ _ _ \<Rightarrow> True | _ \<Rightarrow> False)"

definition cmd_dep :: "instr \<Rightarrow> int" where
  "cmd_dep i = (case i of Load_data _ _ _ _ _ dep \<Rightarrow> dep | Execute _ _ dep \<Rightarrow> dep | _ \<Rightarrow> 0)"

text \<open>A command \<open>i\<close> that moves \<open>u\<close> bytes at \<open>x\<close> does so for node \<open>n\<close>, in the region of its bank.\<close>

definition moved_for :: "top_adg \<Rightarrow> dfg \<Rightarrow> scheduler \<Rightarrow> instr \<Rightarrow> int \<Rightarrow> int \<Rightarrow> int \<Rightarrow> int \<Rightarrow> ioInfo \<Rightarrow> bankStatus \<Rightarrow> bool" where
  "moved_for a g sc1 i x u b n info cur \<longleftrightarrow> n \<in> set (df_ioNodes g) \<and> om_get (sc_infos sc1) n = Some info \<and> bank_at (sc_cur sc1) b = Some cur \<and>
    is_store_cmd i = ii_isStore info \<and> is_load_cmd i = (\<not> ii_isStore info) \<and> (is_load_cmd i \<longrightarrow> cmd_dep i = ii_dep info) \<and>
    x = b * ag_iobSpadBankSize a + bs_start cur \<and> u \<le> io_size a g n \<and> bs_end cur = bs_start cur + io_size a g n \<and> 0 \<le> bs_start cur \<and>
    bs_end cur \<le> ag_iobSpadBankSize a \<and> bs_used cur = (if ii_isStore info then 2 else 1)"

lemma moved_region:
  assumes ex: "explained a g sc1 sc' i" and mv: "moves i = Some (x, u)" and hw: "task_hw a" and fit: "task_fits a (g, m)"
    and inv: "io_inv a g m os sc0 (set (df_ioNodes g)) sc1"
    and reg: "\<forall>n \<in> set (df_ioNodes g). region_ok a g m os sc1 n (bk n)"
  shows "\<exists>n info cur. moved_for a g sc1 i x u (bk n) n info cur"
proof -
  obtain n info where n: "om_get (sc_infos sc1) n = Some info" "x = ii_addr info" "u = io_memSize (the_io g n)"
    "is_store_cmd i = ii_isStore info" "is_load_cmd i = (\<not> ii_isStore info)" "is_load_cmd i \<longrightarrow> cmd_dep i = ii_dep info"
    using ex mv by (cases i) (auto simp: explained_def moves_def is_store_cmd_def is_load_cmd_def cmd_dep_def)
  have ni: "n \<in> set (df_ioNodes g)" using inv n(1) by (auto simp: io_inv_def om_has_iff)
  have "region_ok a g m os sc1 n (bk n)" using reg ni by blast
  then show ?thesis using n ni io_size_ok[OF hw fit ni] unfolding region_ok_def moved_for_def
    by - (rule exI[of _ n], rule exI[of _ info], auto)
qed

lemma bank_apart:
  fixes S :: int
  assumes "0 \<le> S" "0 \<le> s" "s + z \<le> S" "0 \<le> t" "t + w \<le> S" "b * S + s < c * S + t + w" "c * S + t < b * S + s + z"
  shows "b = c"
proof -
  have step: "(i + 1) * S \<le> j * S" if "i < j" for i j using that assms(1) by (intro mult_right_mono) auto
  show ?thesis using step[of b c] step[of c b] assms by (cases "b < c"; cases "c < b") (auto simp: algebra_simps)
qed

lemma dep_names: "LD_DEP_ST_LAST_TASK = 1" "LD_DEP_EX_LAST_TASK = 2" "LD_DEP_ST_LAST_SEC_TASK = 3" "EX_DEP_ST_LAST_TASK = 1"
  by (simp_all add: LD_DEP_ST_LAST_TASK_def LD_DEP_EX_LAST_TASK_def LD_DEP_ST_LAST_SEC_TASK_def EX_DEP_ST_LAST_TASK_def)

text \<open>Between two tasks the mapper only plans, which leaves the history as it is.\<close>

definition same_history :: "scheduler \<Rightarrow> scheduler \<Rightarrow> bool" where
  "same_history s t \<longleftrightarrow> sc_old t = sc_old s \<and> sc_older t = sc_older s \<and> sc_oldCfg t = sc_oldCfg s \<and> sc_taskId t = sc_taskId s"

lemma tasks_wait_ok:
  assumes hw: "task_hw a" and so: "sorts_ok srt psrt" and old: "old_ok a sc0"
    and fit: "task_fits a (g1, m1)" "task_fits a (g2, m2)" and hist: "same_history sc1 sc1'"
    and r1: "io_execute srt psrt ops a (g1, m1) sc0 = Some (f1, sc1)" and r2: "io_execute srt psrt ops a (g2, m2) sc1' = Some (f2, sc2)"
    and i: "i \<in> set (pg_instrs (tf_program f1))" and j: "j \<in> set (pg_instrs (tf_program f2))" and ov: "overlap i j"
  shows "is_store_cmd i \<and> is_load_cmd j \<longrightarrow> cmd_dep j = LD_DEP_ST_LAST_TASK"
    "is_load_cmd i \<and> is_load_cmd j \<longrightarrow> cmd_dep j = LD_DEP_EX_LAST_TASK \<or> cmd_dep j = LD_DEP_ST_LAST_TASK"
    "is_store_cmd i \<and> is_store_cmd j \<longrightarrow> (\<forall>ens t dep. Execute ens t dep \<in> set (pg_instrs (tf_program f2)) \<longrightarrow> dep = EX_DEP_ST_LAST_TASK)"
proof -
  obtain outs1 bk1 s1 where a1: "\<forall>n \<in> set (df_ioNodes g1). region_ok a g1 m1 outs1 s1 n (bk1 n)" "io_inv a g1 m1 outs1 sc0 (set (df_ioNodes g1)) s1"
    "sc_old sc1 = sc_cur s1" "explained a g1 s1 sc1 i" using execute_run[OF hw fit(1) so old r1] i by blast
  have old1: "old_ok a sc1'" using execute_old_ok[OF hw fit(1) so old r1] hist by (simp add: old_ok_def same_history_def)
  obtain outs2 bk2 s2 where a2: "\<forall>n \<in> set (df_ioNodes g2). region_ok a g2 m2 outs2 s2 n (bk2 n)" "io_inv a g2 m2 outs2 sc1' (set (df_ioNodes g2)) s2"
    "sc_old s2 = sc_old sc1" "\<forall>j \<in> set (pg_instrs (tf_program f2)). explained a g2 s2 sc2 j"
    using execute_run[OF hw fit(2) so old1 r2] hist unfolding same_history_def by metis
  obtain x u y v where mv: "moves i = Some (x, u)" "moves j = Some (y, v)" "x < y + v" "y < x + u" using ov by (auto simp: overlap_def)
  obtain n1 info1 cur1 where e1': "moved_for a g1 s1 i x u (bk1 n1) n1 info1 cur1" using moved_region[OF a1(4) mv(1) hw fit(1) a1(2,1)] by blast
  obtain n2 info2 cur2 where e2': "moved_for a g2 s2 j y v (bk2 n2) n2 info2 cur2"
    using moved_region[OF a2(4)[rule_format, OF j] mv(2) hw fit(2) a2(2,1)] by blast
  define z1 z2 where "z1 = io_size a g1 n1" and "z2 = io_size a g2 n2"
  have e1: "bank_at (sc_cur s1) (bk1 n1) = Some cur1" "is_store_cmd i = ii_isStore info1" "is_load_cmd i = (\<not> ii_isStore info1)"
    "x = bk1 n1 * ag_iobSpadBankSize a + bs_start cur1" "u \<le> z1" "bs_end cur1 = bs_start cur1 + z1" "0 \<le> bs_start cur1" "bs_end cur1 \<le> ag_iobSpadBankSize a"
    "bs_used cur1 = (if ii_isStore info1 then 2 else 1)"
    using e1' by (simp_all add: moved_for_def z1_def)
  have e2: "n2 \<in> set (df_ioNodes g2)" "om_get (sc_infos s2) n2 = Some info2" "bank_at (sc_cur s2) (bk2 n2) = Some cur2"
    "is_store_cmd j = ii_isStore info2" "is_load_cmd j = (\<not> ii_isStore info2)" "is_load_cmd j \<longrightarrow> cmd_dep j = ii_dep info2"
    "y = bk2 n2 * ag_iobSpadBankSize a + bs_start cur2" "v \<le> z2" "bs_end cur2 = bs_start cur2 + z2" "0 \<le> bs_start cur2" "bs_end cur2 \<le> ag_iobSpadBankSize a"
    "z2 = io_size a g2 n2"
    using e2' by (simp_all add: moved_for_def z2_def)
  have S: "0 \<le> ag_iobSpadBankSize a" using hw by (simp add: task_hw_def)
  have bb: "bk1 n1 = bk2 n2"
    by (rule bank_apart[OF S e1(7) _ e2(10), of z1 z2]) (use e1(4-6,8) e2(7-9,11) mv(3,4) in auto)
  have "region_ok a g2 m2 outs2 s2 n2 (bk2 n2)" using a2(1) e2(1) by blast
  then have reg: "ii_isStore info2 = (n2 \<in> set outs2)" "honest (sc_cur s1) (ii_isStore info2) (bk2 n2) (ii_dep info2)"
    "ii_dep info2 = 0 \<or> ii_dep info2 = LD_DEP_ST_LAST_SEC_TASK \<Longrightarrow> no_old_conflict (ii_isStore info2) (bs_start cur2) (io_size a g2 n2) cur1"
    using e2(2,3) e1(1) bb a2(3) a1(3) by (auto simp: region_ok_def)
  have meet: "bs_start cur1 < bs_start cur2 + z2" "bs_start cur2 < bs_end cur1"
    using mv(3,4) e1(4-6) e2(7,8) bb by auto
  have ho: "ii_dep info2 = LD_DEP_EX_LAST_TASK \<Longrightarrow> \<not> ii_isStore info2 \<and> bs_used cur1 = 1" "ii_isStore info2 \<Longrightarrow> ii_dep info2 = 0 \<or> ii_dep info2 = LD_DEP_ST_LAST_TASK"
    "ii_dep info2 \<in> {0, LD_DEP_ST_LAST_TASK, LD_DEP_EX_LAST_TASK, LD_DEP_ST_LAST_SEC_TASK}"
    using reg(2) e1(1) bb by (auto simp: honest_def dep_names)
  have clash: "ii_dep info2 \<noteq> 0 \<and> ii_dep info2 \<noteq> LD_DEP_ST_LAST_SEC_TASK" if "\<not> (ii_isStore info2 \<and> \<not> ii_isStore info1)"
    using reg(3) meet e1(9) e2(12) that by (auto simp: no_old_conflict_def split: if_splits)
  show "is_store_cmd i \<and> is_load_cmd j \<longrightarrow> cmd_dep j = LD_DEP_ST_LAST_TASK"
    using clash ho e1(2,9) e2(5,6) by auto
  show "is_load_cmd i \<and> is_load_cmd j \<longrightarrow> cmd_dep j = LD_DEP_EX_LAST_TASK \<or> cmd_dep j = LD_DEP_ST_LAST_TASK"
    using clash ho(3) e2(5,6) by auto
  show "is_store_cmd i \<and> is_store_cmd j \<longrightarrow> (\<forall>ens t dep. Execute ens t dep \<in> set (pg_instrs (tf_program f2)) \<longrightarrow> dep = EX_DEP_ST_LAST_TASK)"
  proof (intro impI allI)
    fix ens t dep assume s: "is_store_cmd i \<and> is_store_cmd j" and e: "Execute ens t dep \<in> set (pg_instrs (tf_program f2))"
    have "ii_isStore info2" "ii_dep info2 \<noteq> 0" using s clash e1(2) e2(4) by auto
    then have "sc_exDep s2 = EX_DEP_ST_LAST_TASK" using a2(2) e2(2) unfolding io_inv_def by blast
    then show "dep = EX_DEP_ST_LAST_TASK" using a2(4)[rule_format, OF e] by (simp add: explained_def)
  qed
qed

lemma second_wait_ok:
  assumes hw: "task_hw a" and so: "sorts_ok srt psrt" and old: "old_ok a sc0"
    and fit: "task_fits a (g1, m1)" "task_fits a (g2, m2)" "task_fits a (g3, m3)" and hist: "same_history sc1 sc1'" "same_history sc2 sc2'"
    and r1: "io_execute srt psrt ops a (g1, m1) sc0 = Some (f1, sc1)" and r2: "io_execute srt psrt ops a (g2, m2) sc1' = Some (f2, sc2)"
    and r3: "io_execute srt psrt ops a (g3, m3) sc2' = Some (f3, sc3)"
    and i: "i \<in> set (pg_instrs (tf_program f1))" "is_store_cmd i" and j: "j \<in> set (pg_instrs (tf_program f3))" "is_load_cmd j"
    and ov: "overlap i j"
  shows "cmd_dep j \<noteq> 0"
proof -
  obtain outs1 bk1 s1 where a1: "\<forall>n \<in> set (df_ioNodes g1). region_ok a g1 m1 outs1 s1 n (bk1 n)" "io_inv a g1 m1 outs1 sc0 (set (df_ioNodes g1)) s1"
    "sc_old sc1 = sc_cur s1" "explained a g1 s1 sc1 i" using execute_run[OF hw fit(1) so old r1] i by blast
  have old1: "old_ok a sc1'" using execute_old_ok[OF hw fit(1) so old r1] hist by (simp add: old_ok_def same_history_def)
  have older2: "sc_older sc2 = sc_cur s1" using execute_run[OF hw fit(2) so old1 r2] hist(1) a1(3) by (auto simp: same_history_def)
  have old2: "old_ok a sc2'" using execute_old_ok[OF hw fit(2) so old1 r2] hist by (simp add: old_ok_def same_history_def)
  obtain outs3 bk3 s3 where a3: "\<forall>n \<in> set (df_ioNodes g3). region_ok a g3 m3 outs3 s3 n (bk3 n)" "io_inv a g3 m3 outs3 sc2' (set (df_ioNodes g3)) s3"
    "sc_older s3 = sc_older sc2" "explained a g3 s3 sc3 j"
    using execute_run[OF hw fit(3) so old2 r3] hist(2) j(1) unfolding same_history_def by metis
  obtain x u y v where mv: "moves i = Some (x, u)" "moves j = Some (y, v)" "x < y + v" "y < x + u" using ov by (auto simp: overlap_def)
  obtain n1 info1 cur1 where e1: "moved_for a g1 s1 i x u (bk1 n1) n1 info1 cur1" using moved_region[OF a1(4) mv(1) hw fit(1) a1(2,1)] by blast
  obtain n3 info3 cur3 where e3: "moved_for a g3 s3 j y v (bk3 n3) n3 info3 cur3" using moved_region[OF a3(4) mv(2) hw fit(3) a3(2,1)] by blast
  have S: "0 \<le> ag_iobSpadBankSize a" using hw by (simp add: task_hw_def)
  have bb: "bk1 n1 = bk3 n3"
    by (rule bank_apart[OF S, of "bs_start cur1" "io_size a g1 n1" "bs_start cur3" "io_size a g3 n3"])
      (use e1 e3 mv(3,4) in \<open>auto simp: moved_for_def\<close>)
  have "region_ok a g3 m3 outs3 s3 n3 (bk3 n3)" using a3(1) e3 by (simp add: moved_for_def)
  then have "ii_dep info3 = 0 \<longrightarrow> no_older_conflict (ii_isStore info3) cur1"
    using e1 e3 bb a3(3) older2 by (auto simp: region_ok_def moved_for_def)
  then show ?thesis using e1 e3 i(2) j(2) by (auto simp: moved_for_def no_older_conflict_def)
qed

section \<open>Where the configuration goes\<close>

lemma genCfgData_region:
  assumes hw: "0 < spad_byte a" "spad_byte a dvd ag_cfgSpadSize a" and old: "cfg_region_ok a (sc_oldCfg sc)"
    and r: "genCfgData ops a bm sc = Some (cin, sc')" and len: "sc_cfgLen sc' \<le> ag_cfgSpadSize a"
  shows "cfg_region_ok a (sc_oldCfg sc')" "cs_start (sc_oldCfg sc') + sc_cfgLen sc' \<le> cs_end (sc_oldCfg sc')" "0 \<le> sc_cfgLen sc'"
    "sc_ldCfgDep sc' = 0 \<or> sc_ldCfgDep sc' = LD_DEP_EX_LAST_TASK"
    "sc_ldCfgDep sc' = 0 \<Longrightarrow> cs_end (sc_oldCfg sc') \<le> cs_start (sc_oldCfg sc) \<or> cs_end (sc_oldCfg sc) \<le> cs_start (sc_oldCfg sc')"
proof -
  let ?aw = "align_width a" and ?W = "ag_cfgDataWidth a"
  obtain pks base dep where p: "?aw \<le> ?W" "cfg_place (ag_cfgSpadSize a) (cfg_num ?W pks * (?aw + ?W) sdiv 8) (sc_oldCfg sc) = (base, dep)"
    "sc' = sc\<lparr>sc_cfgNum := cfg_num ?W pks, sc_cfgLen := cfg_num ?W pks * (?aw + ?W) sdiv 8, sc_ldCfgDep := dep,
      sc_oldCfg := \<lparr>cs_start = base, cs_end = min (base + align_up (spad_byte a) (cfg_num ?W pks * (?aw + ?W) sdiv 8)) (ag_cfgSpadSize a)\<rparr>\<rparr>"
    using r by (auto simp: genCfgData_def Let_def spad_byte_def split: bind_splits if_splits prod.splits)
  have aw: "0 < ?aw" by (simp add: align_width_def)
  have sd: "0 \<le> x sdiv y" if "0 \<le> x" "0 < y" for x y :: int using that by (auto simp: signed_divide_int_def sgn_if pos_imp_zdiv_nonneg_iff)
  have "0 \<le> n \<Longrightarrow> 0 \<le> foldl (\<lambda>num pk. num + int (length (cp_data pk)) * 32 sdiv ?W) n pks" for n
    by (rule foldl_inv) (use sd aw p(1) in auto)
  then have "0 \<le> cfg_num ?W pks" by (simp add: cfg_num_def)
  then have len0: "0 \<le> cfg_num ?W pks * (?aw + ?W) sdiv 8" using aw p(1) by (intro sd) auto
  have len1: "cfg_num ?W pks * (?aw + ?W) sdiv 8 \<le> ag_cfgSpadSize a" using len p(3) by simp
  note pl = cfg_place_ok[OF hw old len0 len1 p(2)]
  show "cfg_region_ok a (sc_oldCfg sc')" "cs_start (sc_oldCfg sc') + sc_cfgLen sc' \<le> cs_end (sc_oldCfg sc')" "0 \<le> sc_cfgLen sc'"
    "sc_ldCfgDep sc' = 0 \<or> sc_ldCfgDep sc' = LD_DEP_EX_LAST_TASK"
    "sc_ldCfgDep sc' = 0 \<Longrightarrow> cs_end (sc_oldCfg sc') \<le> cs_start (sc_oldCfg sc) \<or> cs_end (sc_oldCfg sc) \<le> cs_start (sc_oldCfg sc')"
    using pl len0 unfolding p(3) by simp_all
qed

lemma io_step_history: "io_step a g m os inNum st n = Some st' \<Longrightarrow> same_history (fst st) (fst st')"
  by (auto simp: io_step_def io_prep_def io_place_def take_bank_def same_history_def Let_def
      split: bind_splits if_splits sum.splits prod.splits)

lemma ioSchedule_history:
  assumes "ioSchedule srt a bm sc = Some sc'"
  shows "same_history sc sc'"
proof -
  obtain g m where bm: "bm = (g, m)" by (cases bm)
  let ?sc1 = "\<lambda>cur. sc\<lparr>sc_infos := [], sc_exDep := 0, sc_iobEns := 0, sc_depCost := 0, sc_cur := cur\<rparr>"
  obtain cur outs inNum ios sc2 md where r: "mfold (io_step a g m outs inNum) (?sc1 cur, []) ios = Some (sc2, md)"
    "sc' = (if sc_exDep sc2 > 0 then sc2\<lparr>sc_depCost := sc_depCost sc2 + inNum * inNum\<rparr> else sc2)"
    using assms unfolding bm by (auto simp: ioSchedule_def Let_def split: bind_splits if_splits)
  have "same_history sc (fst (sc2, md))"
    using r(1)
  proof (rule mfold_inv)
    fix x u v assume "same_history sc (fst u)" "io_step a g m outs inNum u x = Some v"
    then show "same_history sc (fst v)" using io_step_history[of a g m outs inNum u x v] by (simp add: same_history_def)
  qed (simp add: same_history_def)
  then show ?thesis using r(2) by (auto simp: same_history_def)
qed

lemma execute_cfg:
  assumes "io_execute srt psrt ops a bm sc = Some (f, sc')"
  shows "\<exists>sc2 cin sc3. sc_oldCfg sc2 = sc_oldCfg sc \<and> genCfgData ops a bm sc2 = Some (cin, sc3) \<and>
    sc_oldCfg sc' = sc_oldCfg sc3 \<and> sc_cfgLen sc' = sc_cfgLen sc3 \<and> sc_ldCfgDep sc' = sc_ldCfgDep sc3 \<and> sc_taskId sc' = sc_taskId sc + 1"
proof -
  obtain sc1 sc2 cin sc3 where r: "ioSchedule srt a bm sc = Some sc1" "shift_banks (ag_numIobNodes a) sc1 = Some sc2"
    "genCfgData ops a bm sc2 = Some (cin, sc3)" "sc' = sc3\<lparr>sc_taskId := sc_taskId sc3 + 1\<rparr>"
    using assms by (auto simp: io_execute_def split: bind_splits)
  have "sc_oldCfg sc2 = sc_oldCfg sc1 \<and> sc_taskId sc2 = sc_taskId sc1"
    using r(2) unfolding shift_banks_def by (rule mfold_inv) (auto simp: shift_bank_def split: bind_splits)
  then show ?thesis using ioSchedule_history[OF r(1)] genCfgData_infos[OF r(3)] r(3,4) unfolding same_history_def
    by - (rule exI[of _ sc2], rule exI[of _ cin], rule exI[of _ sc3], auto)
qed

section \<open>Any sequence of tasks\<close>

text \<open>The states of the scheduler: the mapper plans a mapping as often as it likes, then a task is
  written; its configuration fits the configuration scratchpad.\<close>

inductive sched_step ::
    "((int \<Rightarrow> int \<Rightarrow> bool) \<Rightarrow> int list \<Rightarrow> int list) \<Rightarrow>
     (((int \<times> int) \<Rightarrow> (int \<times> int) \<Rightarrow> bool) \<Rightarrow> (int \<times> int) list \<Rightarrow> (int \<times> int) list) \<Rightarrow>
     op_table \<Rightarrow> top_adg \<Rightarrow> scheduler \<Rightarrow> scheduler \<Rightarrow> bool" for srt psrt ops a where
  plan: "ioSchedule srt a bm sc = Some sc' \<Longrightarrow> sched_step srt psrt ops a sc sc'"
| task: "task_fits a bm \<Longrightarrow> io_execute srt psrt ops a bm sc = Some (f, sc') \<Longrightarrow> sc_cfgLen sc' \<le> ag_cfgSpadSize a \<Longrightarrow>
    sched_step srt psrt ops a sc sc'"

inductive_cases sched_stepE: "sched_step srt psrt ops a sc sc'"

definition reached ::
    "((int \<Rightarrow> int \<Rightarrow> bool) \<Rightarrow> int list \<Rightarrow> int list) \<Rightarrow>
     (((int \<times> int) \<Rightarrow> (int \<times> int) \<Rightarrow> bool) \<Rightarrow> (int \<times> int) list \<Rightarrow> (int \<times> int) list) \<Rightarrow>
     op_table \<Rightarrow> top_adg \<Rightarrow> scheduler \<Rightarrow> bool" where
  "reached srt psrt ops a sc \<longleftrightarrow> (\<exists>sc0. new_IOScheduler a = Some sc0 \<and> (sched_step srt psrt ops a)\<^sup>*\<^sup>* sc0 sc)"

lemma reached_new: "new_IOScheduler a = Some sc \<Longrightarrow> reached srt psrt ops a sc"
  by (auto simp: reached_def)

lemma reached_task: "reached srt psrt ops a sc \<Longrightarrow> task_fits a bm \<Longrightarrow> io_execute srt psrt ops a bm sc = Some (f, sc') \<Longrightarrow>
    sc_cfgLen sc' \<le> ag_cfgSpadSize a \<Longrightarrow> reached srt psrt ops a sc'"
  unfolding reached_def by (blast intro: rtranclp.rtrancl_into_rtrancl sched_step.task)

definition spad_ok :: "top_adg \<Rightarrow> bool" where
  "spad_ok a \<longleftrightarrow> task_hw a \<and> spad_byte a dvd ag_cfgSpadSize a \<and> 0 \<le> ag_cfgSpadSize a"

definition sched_inv ::
    "((int \<Rightarrow> int \<Rightarrow> bool) \<Rightarrow> int list \<Rightarrow> int list) \<Rightarrow>
     (((int \<times> int) \<Rightarrow> (int \<times> int) \<Rightarrow> bool) \<Rightarrow> (int \<times> int) list \<Rightarrow> (int \<times> int) list) \<Rightarrow> top_adg \<Rightarrow> scheduler \<Rightarrow> bool" where
  "sched_inv srt psrt a sc \<longleftrightarrow> (spad_ok a \<longrightarrow> sorts_ok srt psrt \<longrightarrow> old_ok a sc \<and> cfg_region_ok a (sc_oldCfg sc))"

lemma sched_inv_new:
  assumes "new_IOScheduler a = Some sc"
  shows "sched_inv srt psrt a sc"
  unfolding sched_inv_def
proof (intro impI)
  assume hw: "spad_ok a"
  then have "0 \<le> ag_numIobNodes a" "0 \<le> ag_iobSpadBankSize a" by (auto simp: spad_ok_def task_hw_def banks_ok_def)
  from new_IOScheduler_ok[OF this] assms have "old_ok a sc" by auto
  moreover have "sc_oldCfg sc = \<lparr>cs_start = 0, cs_end = 0\<rparr>" using assms by (auto simp: new_IOScheduler_def split: bind_splits)
  ultimately show "old_ok a sc \<and> cfg_region_ok a (sc_oldCfg sc)" using hw by (simp add: cfg_region_ok_def spad_ok_def)
qed

lemma sched_inv_step:
  assumes inv: "sched_inv srt psrt a sc" and step: "sched_step srt psrt ops a sc sc'"
  shows "sched_inv srt psrt a sc'"
  unfolding sched_inv_def
proof (intro impI)
  assume hw: "spad_ok a" and so: "sorts_ok srt psrt"
  have th: "task_hw a" and byte: "0 < spad_byte a" "spad_byte a dvd ag_cfgSpadSize a" using hw by (simp_all add: spad_ok_def task_hw_def)
  have old: "old_ok a sc" "cfg_region_ok a (sc_oldCfg sc)" using inv hw so by (simp_all add: sched_inv_def)
  from step show "old_ok a sc' \<and> cfg_region_ok a (sc_oldCfg sc')"
  proof (rule sched_stepE)
    fix bm assume 1: "ioSchedule srt a bm sc = Some sc'"
    then show ?thesis using ioSchedule_history[OF 1] old by (simp add: same_history_def old_ok_def)
  next
    fix bm f assume 2: "task_fits a bm" "io_execute srt psrt ops a bm sc = Some (f, sc')" "sc_cfgLen sc' \<le> ag_cfgSpadSize a"
    obtain g m where bm: "bm = (g, m)" by (cases bm)
    have "old_ok a sc'" using execute_old_ok[OF th _ so old(1) 2(2)[unfolded bm]] 2(1) bm by blast
    moreover obtain sc2 cin sc3 where c: "sc_oldCfg sc2 = sc_oldCfg sc" "genCfgData ops a bm sc2 = Some (cin, sc3)" "sc_oldCfg sc' = sc_oldCfg sc3"
      "sc_cfgLen sc' = sc_cfgLen sc3" using execute_cfg[OF 2(2)] by blast
    moreover have "cfg_region_ok a (sc_oldCfg sc3)" by (rule genCfgData_region(1)[OF byte _ c(2)]) (use old 2(3) c in auto)
    ultimately show ?thesis by simp
  qed
qed

interpretation sched: step_system "\<lambda>sc. new_IOScheduler a = Some sc" "sched_step srt psrt ops a" "sched_inv srt psrt a" for srt psrt ops a
  by unfold_locales (rule sched_inv_new, assumption, rule sched_inv_step)

lemma reached_ok:
  assumes "reached srt psrt ops a sc" "spad_ok a" "sorts_ok srt psrt"
  shows "old_ok a sc" "cfg_region_ok a (sc_oldCfg sc)"
proof -
  have "sched_inv srt psrt a sc" using assms(1) sched.reachable_ok unfolding reached_def by blast
  then show "old_ok a sc" "cfg_region_ok a (sc_oldCfg sc)" using assms(2,3) by (simp_all add: sched_inv_def)
qed

section \<open>Properties\<close>

text \<open>C34: The state of the scheduler stays sound over any sequence of plans and tasks: every bank recorded
  for the last task has a region within its size and the configuration region is aligned and in
  bounds.\<close>

theorem scheduler_invariant:
  assumes "reached srt psrt ops a sc" "spad_ok a" "sorts_ok srt psrt"
  shows "(\<forall>b. 0 \<le> b \<and> b < ag_numIobNodes a \<longrightarrow> (\<exists>old. bank_at (sc_old sc) b = Some old \<and> bank_wf (ag_iobSpadBankSize a) old)) \<and>
    cfg_region_ok a (sc_oldCfg sc)"
proof -
  have "\<exists>old. bank_at (sc_old sc) b = Some old" if "0 \<le> b" "b < ag_numIobNodes a" for b
    using reached_ok(1)[OF assms] that by (simp add: old_ok_def bank_at_def)
  then show ?thesis using reached_ok[OF assms] unfolding old_ok_def by metis
qed

text \<open>C32: The program of a task is complete: every input of the DFG is loaded by exactly one command and
  every output stored by exactly one, from and to the address and with the size and dependence
  the scheduler computed, with the argument of the call in the same position; the configuration
  and the execution stand between them. The loads of one array follow each other and arrays
  with a stronger dependence come later; a load is fused with the next exactly when both move
  the same bytes of memory.\<close>

theorem genInstructions_complete:
  assumes "ag_cfgSpadDataWidth a sdiv 8 \<noteq> 0" "om_wf (sc_infos sc)" "sort_ok psrt"
    "\<forall>n. om_has (sc_infos sc) n \<longrightarrow> (\<exists>io. io_node g n = Some io)"
  shows "\<exists>p ids outs. genInstructions psrt a g sc = Some p \<and>
    distinct ids \<and> set ids = {n. \<exists>info. om_get (sc_infos sc) n = Some info \<and> \<not> ii_isStore info} \<and>
    distinct outs \<and> set outs = {n. \<exists>info. om_get (sc_infos sc) n = Some info \<and> ii_isStore info} \<and>
    pg_instrs p = Load_cfg (cs_start (sc_oldCfg sc) + ag_numIobNodes a * ag_iobSpadBankSize a) (sc_cfgLen sc) (sc_taskId sc) (sc_ldCfgDep sc) #
      map (load_cmd g (sc_infos sc) (sc_taskId sc) ids) [0..<length ids] @
      [Config (cs_start (sc_oldCfg sc) sdiv (ag_cfgSpadDataWidth a sdiv 8)) (sc_cfgNum sc) (sc_taskId sc),
       Execute (sc_iobEns sc) (sc_taskId sc) (sc_exDep sc)] @
      map (store_cmd g (sc_infos sc) (sc_taskId sc) outs) [0..<length outs] \<and>
    pg_loads p = map (\<lambda>n. array_ref (the_io g n)) ids \<and> pg_stores p = map (\<lambda>n. array_ref (the_io g n)) outs \<and>
    (let dep = \<lambda>n. array_dep g (sc_infos sc) (mem_name g n) in
       sorted_wrt (\<lambda>n k. dep n < dep k \<or> (dep n = dep k \<and> mem_name g n \<le> mem_name g k)) ids)"
  by (rule genInstructions_ok[OF assms])

text \<open>C30: Consecutive tasks do not clash in the scratchpad. When commands of two consecutive tasks move
  overlapping scratchpad bytes, the later one waits: a load for the stores of the last task if
  it overlaps one, for its execution or its stores if it overlaps one of its loads, and the
  execution of the task waits for the stores of the last task if one of its outputs goes to
  bytes still being stored.\<close>

theorem tasks_wait:
  assumes "reached srt psrt ops a sc0" "spad_ok a" "sorts_ok srt psrt" "task_fits a bm1" "task_fits a bm2"
    "io_execute srt psrt ops a bm1 sc0 = Some (f1, sc1)" "same_history sc1 sc1'" "io_execute srt psrt ops a bm2 sc1' = Some (f2, sc2)"
    "i \<in> set (pg_instrs (tf_program f1))" "j \<in> set (pg_instrs (tf_program f2))" "overlap i j"
  shows "(is_store_cmd i \<and> is_load_cmd j \<longrightarrow> cmd_dep j = LD_DEP_ST_LAST_TASK) \<and>
    (is_load_cmd i \<and> is_load_cmd j \<longrightarrow> cmd_dep j = LD_DEP_EX_LAST_TASK \<or> cmd_dep j = LD_DEP_ST_LAST_TASK) \<and>
    (is_store_cmd i \<and> is_store_cmd j \<longrightarrow> (\<forall>ens t dep. Execute ens t dep \<in> set (pg_instrs (tf_program f2)) \<longrightarrow> dep = EX_DEP_ST_LAST_TASK))"
proof -
  obtain g1 m1 g2 m2 where bm: "bm1 = (g1, m1)" "bm2 = (g2, m2)" by (cases bm1; cases bm2)
  have hw: "task_hw a" using assms(2) by (simp add: spad_ok_def)
  show ?thesis
    using tasks_wait_ok[OF hw assms(3) reached_ok(1)[OF assms(1-3)] assms(4,5)[unfolded bm] assms(7) assms(6,8)[unfolded bm] assms(9-11)] by blast
qed

text \<open>C31: Nor do tasks with one task between them: a load that overlaps a store of the task before the
  last has a dependence.\<close>

theorem second_task_wait:
  assumes "reached srt psrt ops a sc0" "spad_ok a" "sorts_ok srt psrt" "task_fits a bm1" "task_fits a bm2" "task_fits a bm3"
    "io_execute srt psrt ops a bm1 sc0 = Some (f1, sc1)" "same_history sc1 sc1'" "io_execute srt psrt ops a bm2 sc1' = Some (f2, sc2)"
    "same_history sc2 sc2'" "io_execute srt psrt ops a bm3 sc2' = Some (f3, sc3)"
    "i \<in> set (pg_instrs (tf_program f1))" "is_store_cmd i" "j \<in> set (pg_instrs (tf_program f3))" "is_load_cmd j" "overlap i j"
  shows "cmd_dep j \<noteq> 0"
proof -
  obtain g1 m1 g2 m2 g3 m3 where bm: "bm1 = (g1, m1)" "bm2 = (g2, m2)" "bm3 = (g3, m3)" by (cases bm1; cases bm2; cases bm3)
  have hw: "task_hw a" using assms(2) by (simp add: spad_ok_def)
  show ?thesis
    by (rule second_wait_ok[OF hw assms(3) reached_ok(1)[OF assms(1-3)] assms(4-6)[unfolded bm] assms(8,10) assms(7,9,11)[unfolded bm] assms(12-16)])
qed

text \<open>C33: The configuration of a task goes to a region of the configuration scratchpad that holds all of
  it, above the banks of the data, and that overlaps the configuration of the last task only
  when loading it waits for the execution of that task.\<close>

theorem config_region:
  assumes "reached srt psrt ops a sc0" "spad_ok a" "sorts_ok srt psrt" "task_fits a bm1"
    "io_execute srt psrt ops a bm1 sc0 = Some (f1, sc1)" "sc_cfgLen sc1 \<le> ag_cfgSpadSize a" "same_history sc1 sc1'"
    "task_fits a bm2" "io_execute srt psrt ops a bm2 sc1' = Some (f2, sc2)" "sc_cfgLen sc2 \<le> ag_cfgSpadSize a"
    "Load_cfg addr1 len1 t1 dep1 \<in> set (pg_instrs (tf_program f1))" "Load_cfg addr2 len2 t2 dep2 \<in> set (pg_instrs (tf_program f2))"
  shows "ag_numIobNodes a * ag_iobSpadBankSize a \<le> addr2 \<and> addr2 + len2 \<le> ag_numIobNodes a * ag_iobSpadBankSize a + ag_cfgSpadSize a \<and>
    (addr1 + len1 \<le> addr2 \<or> addr2 + len2 \<le> addr1 \<or> dep2 = LD_DEP_EX_LAST_TASK)"
proof -
  have hw: "task_hw a" and byte: "0 < spad_byte a" "spad_byte a dvd ag_cfgSpadSize a" using assms(2) by (simp_all add: spad_ok_def task_hw_def)
  obtain g1 m1 g2 m2 where bm: "bm1 = (g1, m1)" "bm2 = (g2, m2)" by (cases bm1; cases bm2)
  note ok0 = reached_ok[OF assms(1-3)]
  have reach1: "reached srt psrt ops a sc1" by (rule reached_task[OF assms(1,4,5,6)])
  note ok1 = reached_ok[OF reach1 assms(2,3)]
  have old1: "old_ok a sc1'" and cfg1: "cfg_region_ok a (sc_oldCfg sc1')" using ok1 assms(7) by (simp_all add: same_history_def old_ok_def)
  obtain s1 where "\<forall>i \<in> set (pg_instrs (tf_program f1)). explained a g1 s1 sc1 i"
    using execute_run[OF hw assms(4)[unfolded bm] assms(3) ok0(1) assms(5)[unfolded bm]] by blast
  then have l1: "addr1 = cs_start (sc_oldCfg sc1) + ag_numIobNodes a * ag_iobSpadBankSize a" "len1 = sc_cfgLen sc1"
    using assms(11) by (auto simp: explained_def)
  obtain s2 where "\<forall>i \<in> set (pg_instrs (tf_program f2)). explained a g2 s2 sc2 i"
    using execute_run[OF hw assms(8)[unfolded bm] assms(3) old1 assms(9)[unfolded bm]] by blast
  then have l2: "addr2 = cs_start (sc_oldCfg sc2) + ag_numIobNodes a * ag_iobSpadBankSize a" "len2 = sc_cfgLen sc2" "dep2 = sc_ldCfgDep sc2"
    using assms(12) by (auto simp: explained_def)
  obtain x cin y where x: "sc_oldCfg x = sc_oldCfg sc0" "genCfgData ops a bm1 x = Some (cin, y)" "sc_oldCfg sc1 = sc_oldCfg y" "sc_cfgLen sc1 = sc_cfgLen y"
    using execute_cfg[OF assms(5)] by blast
  have c1: "cs_start (sc_oldCfg sc1) + sc_cfgLen sc1 \<le> cs_end (sc_oldCfg sc1)"
    using genCfgData_region(2)[OF byte _ x(2)] ok0(2) assms(6) x by simp
  obtain u cin' v where u: "sc_oldCfg u = sc_oldCfg sc1'" "genCfgData ops a bm2 u = Some (cin', v)" "sc_oldCfg sc2 = sc_oldCfg v" "sc_cfgLen sc2 = sc_cfgLen v"
    "sc_ldCfgDep sc2 = sc_ldCfgDep v" using execute_cfg[OF assms(9)] by blast
  have fits: "sc_cfgLen v \<le> ag_cfgSpadSize a" and old: "cfg_region_ok a (sc_oldCfg u)" using assms(10) u cfg1 by simp_all
  note c2 = genCfgData_region[OF byte old u(2) fits]
  have h: "sc_oldCfg u = sc_oldCfg sc1" using u(1) assms(7) by (simp add: same_history_def)
  show ?thesis
    using c1 c2 unfolding h l1 l2 u(3-5) by (auto simp: cfg_region_ok_def)
qed

text \<open>C35: On a configuration bus of at least a word, the C array of the configuration is as declared: one
  row for each packet, each with the declared number of entries.\<close>

theorem config_array_shape:
  assumes "32 \<le> ag_cfgDataWidth a" "cf_adg c = a" "getCfgData c = Some pks"
  shows "cfg_num (ag_cfgDataWidth a) pks = int (length pks) \<and>
    (\<forall>pk \<in> set pks. int (length (cin_row (align_width a) pk)) = 1 + ag_cfgDataWidth a sdiv align_width a)"
proof -
  have w: "wide_packets (ag_cfgDataWidth a) pks" using getCfgData_wide[of c pks] assms by simp
  have "align_width a = 16 \<or> align_width a = 32" by (simp add: align_width_def)
  then show ?thesis using cin_shape[OF assms(1) w] by blast
qed

text \<open>On a bus of 16 bits it is not: a packet has one word, written as two numbers and the address in a
  row declared with two entries.\<close>

lemma narrow_rows:
  assumes "length (cp_data pk) = 1"
  shows "length (cin_row 16 pk) = 3" "1 + 16 sdiv (16 :: int) = 2"
  using assms by (cases "cp_data pk"; simp add: cin_row_def)+

end
