(* ===== verification/IoExamples.thy ===== *)
theory IoExamples
  imports ConfigExamples IoTasks
begin

text \<open>
  Three tasks on the small ADG, one after the other: the second and third load their input into
  the bank the first stored an output to.
\<close>

section \<open>A sort\<close>

fun ins_by :: "('a \<Rightarrow> 'a \<Rightarrow> bool) \<Rightarrow> 'a \<Rightarrow> 'a list \<Rightarrow> 'a list" where
  "ins_by c x [] = [x]"
| "ins_by c x (y # ys) = (if c y x then y # ins_by c x ys else x # y # ys)"

definition ins_sort :: "('a \<Rightarrow> 'a \<Rightarrow> bool) \<Rightarrow> 'a list \<Rightarrow> 'a list" where
  "ins_sort c xs = foldr (ins_by c) xs []"

lemma ins_by_mset: "mset (ins_by c x ys) = add_mset x (mset ys)"
  by (induction ys) auto

lemma ins_by_sorted:
  assumes "strict_weak c" "sorted_wrt (\<lambda>x y. \<not> c y x) ys"
  shows "sorted_wrt (\<lambda>x y. \<not> c y x) (ins_by c x ys)"
  using assms(2)
proof (induction ys)
  case (Cons y ys)
  have set: "set (ins_by c x ys) = insert x (set ys)" using ins_by_mset[of c x ys] by (metis set_mset_mset set_mset_add_mset_insert)
  show ?case
  proof (cases "c y x")
    case True
    then have "\<not> c x y" using assms(1) unfolding strict_weak_def by blast
    then show ?thesis using Cons True set by auto
  next
    case False
    have "\<not> c z x" if "z \<in> set ys" for z
    proof -
      have "\<not> c z y" using Cons.prems that by simp
      then show ?thesis using False assms(1) unfolding strict_weak_def by blast
    qed
    then show ?thesis using Cons.prems False by auto
  qed
qed simp

lemma ins_sort_ok: "sort_ok ins_sort"
proof -
  have "mset (ins_sort c xs) = mset xs" for c :: "'a \<Rightarrow> 'a \<Rightarrow> bool" and xs
    unfolding ins_sort_def by (induction xs) (auto simp: ins_by_mset)
  moreover have "sorted_wrt (\<lambda>x y. \<not> c y x) (ins_sort c xs)" if "strict_weak c" for c :: "'a \<Rightarrow> 'a \<Rightarrow> bool" and xs
    unfolding ins_sort_def by (induction xs) (auto intro: ins_by_sorted[OF that])
  ultimately show ?thesis unfolding sort_ok_def by blast
qed

section \<open>The tasks\<close>

text \<open>The same DFG with the input and one output in each other's place.\<close>

definition ex_turned :: mapping where
  "ex_turned = the (latencySchedule ex_dfg ex_adg 0
     (foldl (\<lambda>m k. snd (the (mapDfgNode ex_dfg ex_adg k (4 - k) m))) new_Mapping [1, 2, 3]))"

definition ex_task :: "mapping \<Rightarrow> scheduler \<Rightarrow> (task_files \<times> scheduler) option" where
  "ex_task m sc = io_execute ins_sort ins_sort ex_ops ex_adg (ex_dfg, m) sc"

definition ex_plan :: "mapping \<Rightarrow> scheduler \<Rightarrow> scheduler option" where
  "ex_plan m sc = Option.bind (ioSchedule ins_sort ex_adg (ex_dfg, m) sc) (shift_banks 3)"

definition ex_conf_num :: "mapping \<Rightarrow> scheduler \<Rightarrow> int option" where
  "ex_conf_num m sc = map_option (cfg_num 32) (getCfgData (task_conf ex_ops ex_adg (ex_dfg, m) (sc_infos sc)))"

definition ex_after :: "int \<Rightarrow> scheduler \<Rightarrow> scheduler" where
  "ex_after c sc = sc\<lparr>sc_cfgNum := 10, sc_cfgLen := 60, sc_ldCfgDep := 0, sc_oldCfg := \<lparr>cs_start = c, cs_end = c + 64\<rparr>\<rparr>"

lemma ex_task_run:
  assumes "ex_plan m sc = Some s2" "ex_conf_num m s2 = Some 10" "cfg_place 1024 60 (sc_oldCfg s2) = (c, 0)" "c \<le> 960"
    and p: "genInstructions ins_sort ex_adg ex_dfg (ex_after c s2) = Some p"
  shows "\<exists>f. ex_task m sc = Some (f, (ex_after c s2)\<lparr>sc_taskId := sc_taskId s2 + 1\<rparr>) \<and> tf_program f = p"
proof -
  have v: "ag_numIobNodes ex_adg = 3" "ag_cfgSpadDataWidth ex_adg = 64" "ag_cfgSpadSize ex_adg = 1024" "ag_cfgDataWidth ex_adg = 32" "ag_cfgAddrWidth ex_adg = 8"
    by (simp_all add: ex_adg_def)
  obtain s1 where s1: "ioSchedule ins_sort ex_adg (ex_dfg, m) sc = Some s1" "shift_banks 3 s1 = Some s2"
    using assms(1) by (auto simp: ex_plan_def split: bind_splits)
  obtain pks where pks: "getCfgData (task_conf ex_ops ex_adg (ex_dfg, m) (sc_infos s2)) = Some pks" "cfg_num 32 pks = 10"
    using assms(2) by (auto simp: ex_conf_num_def)
  have "align_width ex_adg = 16" "align_up 8 60 = 64" "480 sdiv (8 :: int) = 60" "64 sdiv (8 :: int) = 8"
    by (simp_all add: align_width_def align_up_def v)
  then have "genCfgData ex_ops ex_adg (ex_dfg, m) s2 = Some (cin_text ex_adg pks, ex_after c s2)"
    using pks assms(3,4) by (simp add: genCfgData_def v Let_def ex_after_def)
  moreover have "sc_taskId (ex_after c s2) = sc_taskId s2" by (simp add: ex_after_def)
  ultimately show ?thesis using s1 p v(1) by (simp add: ex_task_def io_execute_def)
qed

definition ex_banks :: "(int \<times> int \<times> int) list \<Rightarrow> bankStatus list" where
  "ex_banks xs = map (\<lambda>(i, u, s). \<lparr>bs_iob = i, bs_used = u, bs_start = s, bs_end = s + (if u = 0 then 0 else 64)\<rparr>) xs"

text \<open>The state after planning a task and shifting the banks.\<close>

definition ex_state :: "int \<Rightarrow> bankStatus list \<Rightarrow> bankStatus list \<Rightarrow> (int \<times> int \<times> int) list \<Rightarrow> int \<Rightarrow> int \<Rightarrow> scheduler \<Rightarrow> scheduler" where
  "ex_state task new old infos ex cost sc = sc\<lparr>sc_taskId := task, sc_cur := new, sc_old := new, sc_older := old,
     sc_infos := map (\<lambda>(n, ad, dep). (n, \<lparr>ii_addr = ad, ii_iobAddr = (if ad < 2048 then ad else ad - 2048) sdiv 4, ii_dep = dep, ii_isStore = (n \<noteq> 1)\<rparr>)) infos,
     sc_exDep := ex, sc_iobEns := 7, sc_depCost := cost\<rparr>"

definition ex_first :: "bankStatus list" where "ex_first = ex_banks [(0, 1, 0), (1, 2, 0), (2, 2, 0)]"
definition ex_second :: "bankStatus list" where "ex_second = ex_banks [(0, 1, 64), (1, 2, 64), (2, 2, 64)]"

definition ex_s1 :: scheduler where
  "ex_s1 = ex_state 0 ex_first (ex_banks [(0, 0, 0), (0, 0, 0), (0, 0, 0)]) [(1, 0, 0), (2, 1024, 0), (3, 2048, 0)] 0 0 MapperExamples.ex_sched"

definition ex_s2 :: scheduler where
  "ex_s2 = ex_state 1 ex_second ex_first [(1, 64, 0), (2, 1088, 0), (3, 2112, 0)] 0 0 (ex_after 0 ex_s1)"

lemma ex_first_plan: "ex_plan Witnesses.ex_sched MapperExamples.ex_sched = Some ex_s1"
  by code_simp

lemma ex_second_plan: "ex_plan Witnesses.ex_sched ((ex_after 0 ex_s1)\<lparr>sc_taskId := 1\<rparr>) = Some ex_s2"
  by code_simp

definition ex_turned_banks :: "int \<Rightarrow> bankStatus list" where
  "ex_turned_banks s = ex_banks [(1, 2, 0), (0, 2, s), (2, 1, 0)]"

definition ex_s3 :: scheduler where
  "ex_s3 = ex_state 1 (ex_turned_banks 64) ex_first [(1, 2048, 1), (2, 0, 0), (3, 1088, 0)] 0 1 (ex_after 0 ex_s1)"

definition ex_s4 :: scheduler where
  "ex_s4 = ex_state 2 (ex_turned_banks 128) ex_second [(1, 2048, 1), (2, 0, 0), (3, 1152, 0)] 0 1 (ex_after 64 ex_s2)"

lemma ex_turned_plan:
  "ex_plan ex_turned ((ex_after 0 ex_s1)\<lparr>sc_taskId := 1\<rparr>) = Some ex_s3"
  "ex_plan ex_turned ((ex_after 64 ex_s2)\<lparr>sc_taskId := 2\<rparr>) = Some ex_s4"
  by code_simp+

lemma ex_conf_nums:
  "ex_conf_num Witnesses.ex_sched ex_s1 = Some 10" "ex_conf_num Witnesses.ex_sched ex_s2 = Some 10"
  "ex_conf_num ex_turned ex_s3 = Some 10" "ex_conf_num ex_turned ex_s4 = Some 10"
  by code_simp+

definition ex_prog :: "int \<Rightarrow> int \<Rightarrow> int \<Rightarrow> int \<Rightarrow> int \<Rightarrow> int \<Rightarrow> int \<Rightarrow> program" where
  "ex_prog t cfg ld dep st2 st3 ctl = \<lparr>pg_instrs = [Load_cfg cfg 60 t 0, Load_data 0 ld 60 0 t dep, Config ctl 10 t, Execute 7 t 0,
     Store 0 st2 60 t, Store 1 st3 60 t], pg_loads = [[]], pg_stores = [[], []]\<rparr>"

lemma ex_programs:
  "genInstructions ins_sort ex_adg ex_dfg (ex_after 0 ex_s1) = Some (ex_prog 0 3072 0 0 1024 2048 0)"
  "genInstructions ins_sort ex_adg ex_dfg (ex_after 64 ex_s2) = Some (ex_prog 1 3136 64 0 1088 2112 8)"
  "genInstructions ins_sort ex_adg ex_dfg (ex_after 64 ex_s3) = Some (ex_prog 1 3136 2048 1 0 1088 8)"
  "genInstructions ins_sort ex_adg ex_dfg (ex_after 128 ex_s4) = Some (ex_prog 2 3200 2048 1 0 1152 16)"
  by code_simp+

lemma ex_places:
  "cfg_place 1024 60 (sc_oldCfg ex_s1) = (0, 0)" "cfg_place 1024 60 (sc_oldCfg ex_s2) = (64, 0)"
  "cfg_place 1024 60 (sc_oldCfg ex_s3) = (64, 0)" "cfg_place 1024 60 (sc_oldCfg ex_s4) = (128, 0)"
  by code_simp+

definition ex_e1 :: scheduler where "ex_e1 = (ex_after 0 ex_s1)\<lparr>sc_taskId := 1\<rparr>"
definition ex_e2 :: scheduler where "ex_e2 = (ex_after 64 ex_s2)\<lparr>sc_taskId := 2\<rparr>"
definition ex_e3 :: scheduler where "ex_e3 = (ex_after 64 ex_s3)\<lparr>sc_taskId := 2\<rparr>"
definition ex_e4 :: scheduler where "ex_e4 = (ex_after 128 ex_s4)\<lparr>sc_taskId := 3\<rparr>"

lemma ex_ids: "sc_taskId ex_s1 = 0" "sc_taskId ex_s2 = 1" "sc_taskId ex_s3 = 1" "sc_taskId ex_s4 = 2"
  by (simp_all add: ex_s1_def ex_s2_def ex_s3_def ex_s4_def ex_state_def)

lemma ex_runs:
  "\<exists>f. ex_task Witnesses.ex_sched MapperExamples.ex_sched = Some (f, ex_e1) \<and> tf_program f = ex_prog 0 3072 0 0 1024 2048 0"
  "\<exists>f. ex_task Witnesses.ex_sched ex_e1 = Some (f, ex_e2) \<and> tf_program f = ex_prog 1 3136 64 0 1088 2112 8"
  "\<exists>f. ex_task ex_turned ex_e1 = Some (f, ex_e3) \<and> tf_program f = ex_prog 1 3136 2048 1 0 1088 8"
  "\<exists>f. ex_task ex_turned ex_e2 = Some (f, ex_e4) \<and> tf_program f = ex_prog 2 3200 2048 1 0 1152 16"
proof -
  have le: "(0 :: int) \<le> 960" "(64 :: int) \<le> 960" "(128 :: int) \<le> 960" by simp_all
  show "\<exists>f. ex_task Witnesses.ex_sched MapperExamples.ex_sched = Some (f, ex_e1) \<and> tf_program f = ex_prog 0 3072 0 0 1024 2048 0"
    using ex_task_run[OF ex_first_plan ex_conf_nums(1) ex_places(1) le(1) ex_programs(1)] by (simp add: ex_e1_def ex_ids)
  show "\<exists>f. ex_task Witnesses.ex_sched ex_e1 = Some (f, ex_e2) \<and> tf_program f = ex_prog 1 3136 64 0 1088 2112 8"
    using ex_task_run[OF ex_second_plan ex_conf_nums(2) ex_places(2) le(2) ex_programs(2)] by (simp add: ex_e1_def ex_e2_def ex_ids)
  show "\<exists>f. ex_task ex_turned ex_e1 = Some (f, ex_e3) \<and> tf_program f = ex_prog 1 3136 2048 1 0 1088 8"
    using ex_task_run[OF ex_turned_plan(1) ex_conf_nums(3) ex_places(3) le(2) ex_programs(3)] by (simp add: ex_e1_def ex_e3_def ex_ids)
  show "\<exists>f. ex_task ex_turned ex_e2 = Some (f, ex_e4) \<and> tf_program f = ex_prog 2 3200 2048 1 0 1152 16"
    using ex_task_run[OF ex_turned_plan(2) ex_conf_nums(4) ex_places(4) le(3) ex_programs(4)] by (simp add: ex_e2_def ex_e4_def ex_ids)
qed

section \<open>The properties\<close>

lemma ex_sorts: "sorts_ok ins_sort ins_sort"
  by (simp add: sorts_ok_def ins_sort_ok)

lemma ex_spad: "spad_ok ex_adg"
proof -
  have "spad_byte ex_adg = 8" "ag_iobSpadBankSize ex_adg = 1024" "ag_cfgSpadSize ex_adg = 1024"
    by (simp_all add: spad_byte_def ex_adg_def signed_divide_int_def)
  then show ?thesis using ex_banks by (simp add: spad_ok_def task_hw_def)
qed

lemma ex_fits_task:
  assumes "\<forall>n. mappedAdg m n = (if n = 1 \<or> n = 2 \<or> n = 3 then Some (f n) else None)" "inj_on f {1, 2, 3}"
    "\<forall>n \<in> {1, 2, 3}. mapped_iob ex_adg m n \<noteq> None"
  shows "task_fits ex_adg (ex_dfg, m)"
proof -
  have "io_node ex_dfg 1 \<noteq> None" "io_node ex_dfg 2 \<noteq> None" "io_node ex_dfg 3 \<noteq> None" by code_simp+
  then have "ios_placed ex_adg ex_dfg m" using assms by (auto simp: ios_placed_def ex_ios inj_on_def split: if_splits)
  moreover have "io_memSize (the_io ex_dfg 1) = 60" "io_memSize (the_io ex_dfg 2) = 60" "io_memSize (the_io ex_dfg 3) = 60"
    "io_size ex_adg ex_dfg 1 = 64" "io_size ex_adg ex_dfg 2 = 64" "io_size ex_adg ex_dfg 3 = 64" "ag_iobSpadBankSize ex_adg = 1024"
    by code_simp+
  ultimately show ?thesis by (simp add: task_fits_def ex_ios)
qed

lemma ex_placed:
  assumes "fst ` set (mp_dfgNodeAttr m) \<subseteq> {1, 2, 3}" "mappedAdg m 1 = Some i" "mappedAdg m 2 = Some j" "mappedAdg m 3 = Some k"
  shows "mappedAdg m n = (if n = 1 \<or> n = 2 \<or> n = 3 then Some (if n = 1 then i else if n = 2 then j else k) else None)"
proof -
  have "mappedAdg m n = None" if "n \<notin> {1, 2, 3}" using that assms(1) placed_subset[of m] unfolding placed_def by blast
  then show ?thesis using assms(2-4) by auto
qed

lemma ex_task_fits: "task_fits ex_adg (ex_dfg, Witnesses.ex_sched)" "task_fits ex_adg (ex_dfg, ex_turned)"
proof -
  have "fst ` set (mp_dfgNodeAttr Witnesses.ex_sched) \<subseteq> {1, 2, 3}" "mappedAdg Witnesses.ex_sched 1 = Some 1"
    "mappedAdg Witnesses.ex_sched 2 = Some 2" "mappedAdg Witnesses.ex_sched 3 = Some 3"
    "\<forall>n \<in> {1, 2, 3}. mapped_iob ex_adg Witnesses.ex_sched n \<noteq> None" by code_simp+
  then show "task_fits ex_adg (ex_dfg, Witnesses.ex_sched)"
    by (intro ex_fits_task[where f = "\<lambda>n. if n = 1 then 1 else if n = 2 then 2 else 3"]) (simp_all add: ex_placed inj_on_def)
  have "fst ` set (mp_dfgNodeAttr ex_turned) \<subseteq> {1, 2, 3}" "mappedAdg ex_turned 1 = Some 3"
    "mappedAdg ex_turned 2 = Some 2" "mappedAdg ex_turned 3 = Some 1"
    "\<forall>n \<in> {1, 2, 3}. mapped_iob ex_adg ex_turned n \<noteq> None" by code_simp+
  then show "task_fits ex_adg (ex_dfg, ex_turned)"
    by (intro ex_fits_task[where f = "\<lambda>n. if n = 1 then 3 else if n = 2 then 2 else 1"]) (simp_all add: ex_placed inj_on_def)
qed

lemma ex_reached: "reached ins_sort ins_sort ex_ops ex_adg MapperExamples.ex_sched" "reached ins_sort ins_sort ex_ops ex_adg ex_e1"
proof -
  have "new_IOScheduler ex_adg = Some MapperExamples.ex_sched"
    unfolding MapperExamples.ex_sched_def by (simp add: new_IOScheduler_def free_banks_def ex_adg_def)
  then show r: "reached ins_sort ins_sort ex_ops ex_adg MapperExamples.ex_sched" by (rule reached_new)
  obtain f where "ex_task Witnesses.ex_sched MapperExamples.ex_sched = Some (f, ex_e1)" using ex_runs(1) by blast
  moreover have "sc_cfgLen ex_e1 \<le> ag_cfgSpadSize ex_adg" by (simp add: ex_e1_def ex_after_def ex_adg_def)
  ultimately show "reached ins_sort ins_sort ex_ops ex_adg ex_e1"
    using reached_task[OF r ex_task_fits(1)] unfolding ex_task_def by blast
qed

theorem scheduler_invariant_witness:
  "\<exists>old. bank_at (sc_old ex_e1) 1 = Some old \<and> bank_wf 1024 old"
  using scheduler_invariant[OF ex_reached(2) ex_spad ex_sorts] by (simp add: ex_adg_def)

lemma ex_shape: "ag_cfgSpadDataWidth ex_adg sdiv 8 \<noteq> 0" "om_wf (sc_infos (ex_after 0 ex_s1))"
    "\<forall>n. om_has (sc_infos (ex_after 0 ex_s1)) n \<longrightarrow> (\<exists>io. io_node ex_dfg n = Some io)"
proof -
  show "ag_cfgSpadDataWidth ex_adg sdiv 8 \<noteq> 0" "om_wf (sc_infos (ex_after 0 ex_s1))" by code_simp+
  have "io_node ex_dfg 1 \<noteq> None" "io_node ex_dfg 2 \<noteq> None" "io_node ex_dfg 3 \<noteq> None" by code_simp+
  then show "\<forall>n. om_has (sc_infos (ex_after 0 ex_s1)) n \<longrightarrow> (\<exists>io. io_node ex_dfg n = Some io)"
    by (auto simp: ex_after_def ex_s1_def ex_state_def om_has_set)
qed

theorem genInstructions_complete_witness:
  "\<exists>p ids. genInstructions ins_sort ex_adg ex_dfg (ex_after 0 ex_s1) = Some p \<and> distinct ids \<and> set ids = {1} \<and>
    pg_loads p = map (\<lambda>n. array_ref (the_io ex_dfg n)) ids"
proof -
  have "{n. \<exists>info. om_get (sc_infos (ex_after 0 ex_s1)) n = Some info \<and> \<not> ii_isStore info} = {1}"
    by (auto simp: ex_after_def ex_s1_def ex_state_def split: if_splits)
  then show ?thesis using genInstructions_complete[OF ex_shape(1,2) ins_sort_ok ex_shape(3)] by auto
qed

lemma ex_same: "same_history sc sc"
  by (simp add: same_history_def)

theorem tasks_wait_witness:
  "\<exists>f1 f2 sc2. ex_task Witnesses.ex_sched MapperExamples.ex_sched = Some (f1, ex_e1) \<and> ex_task ex_turned ex_e1 = Some (f2, sc2) \<and>
    Store 1 2048 60 0 \<in> set (pg_instrs (tf_program f1)) \<and> Load_data 0 2048 60 0 1 1 \<in> set (pg_instrs (tf_program f2)) \<and>
    cmd_dep (Load_data 0 2048 60 0 1 1) = LD_DEP_ST_LAST_TASK"
proof -
  let ?i = "Store 1 2048 60 0" and ?j = "Load_data 0 2048 60 0 1 1"
  obtain f1 f2 where r: "ex_task Witnesses.ex_sched MapperExamples.ex_sched = Some (f1, ex_e1)" "ex_task ex_turned ex_e1 = Some (f2, ex_e3)"
    and p: "tf_program f1 = ex_prog 0 3072 0 0 1024 2048 0" "tf_program f2 = ex_prog 1 3136 2048 1 0 1088 8" using ex_runs(1,3) by blast
  have m: "?i \<in> set (pg_instrs (tf_program f1))" "?j \<in> set (pg_instrs (tf_program f2))" by (simp_all add: p ex_prog_def)
  have c: "overlap ?i ?j" "is_store_cmd ?i" "is_load_cmd ?j" by (simp_all add: overlap_def moves_def is_store_cmd_def is_load_cmd_def)
  show ?thesis
    using tasks_wait[OF ex_reached(1) ex_spad ex_sorts ex_task_fits r(1)[unfolded ex_task_def] ex_same r(2)[unfolded ex_task_def] m c(1)] r m c(2,3)
    by blast
qed

theorem second_task_wait_witness:
  "\<exists>f1 f2 f3 sc3. ex_task Witnesses.ex_sched MapperExamples.ex_sched = Some (f1, ex_e1) \<and> ex_task Witnesses.ex_sched ex_e1 = Some (f2, ex_e2) \<and>
    ex_task ex_turned ex_e2 = Some (f3, sc3) \<and> Store 1 2048 60 0 \<in> set (pg_instrs (tf_program f1)) \<and>
    Load_data 0 2048 60 0 2 1 \<in> set (pg_instrs (tf_program f3)) \<and> cmd_dep (Load_data 0 2048 60 0 2 1) \<noteq> 0"
proof -
  let ?i = "Store 1 2048 60 0" and ?j = "Load_data 0 2048 60 0 2 1"
  obtain f1 f2 f3 where r: "ex_task Witnesses.ex_sched MapperExamples.ex_sched = Some (f1, ex_e1)" "ex_task Witnesses.ex_sched ex_e1 = Some (f2, ex_e2)"
      "ex_task ex_turned ex_e2 = Some (f3, ex_e4)"
    and p: "tf_program f1 = ex_prog 0 3072 0 0 1024 2048 0" "tf_program f3 = ex_prog 2 3200 2048 1 0 1152 16" using ex_runs(1,2,4) by blast
  have m: "?i \<in> set (pg_instrs (tf_program f1))" "?j \<in> set (pg_instrs (tf_program f3))" by (simp_all add: p ex_prog_def)
  have c: "is_store_cmd ?i" "is_load_cmd ?j" "overlap ?i ?j" by (simp_all add: overlap_def moves_def is_store_cmd_def is_load_cmd_def)
  have "cmd_dep ?j \<noteq> 0"
    by (rule second_task_wait[OF ex_reached(1) ex_spad ex_sorts ex_task_fits(1,1,2) r(1)[unfolded ex_task_def] ex_same r(2)[unfolded ex_task_def]
        ex_same r(3)[unfolded ex_task_def] m(1) c(1) m(2) c(2,3)])
  then show ?thesis using r m by blast
qed

theorem config_region_witness:
  "\<exists>f1 f2. ex_task Witnesses.ex_sched MapperExamples.ex_sched = Some (f1, ex_e1) \<and> ex_task ex_turned ex_e1 = Some (f2, ex_e3) \<and>
    (3072 + 60 \<le> (3136 :: int) \<or> 3136 + 60 \<le> (3072 :: int) \<or> 0 = LD_DEP_EX_LAST_TASK) \<and> Load_cfg 3136 60 1 0 \<in> set (pg_instrs (tf_program f2))"
proof -
  obtain f1 f2 where r: "ex_task Witnesses.ex_sched MapperExamples.ex_sched = Some (f1, ex_e1)" "ex_task ex_turned ex_e1 = Some (f2, ex_e3)"
    and p: "tf_program f1 = ex_prog 0 3072 0 0 1024 2048 0" "tf_program f2 = ex_prog 1 3136 2048 1 0 1088 8" using ex_runs(1,3) by blast
  have l: "sc_cfgLen ex_e1 \<le> ag_cfgSpadSize ex_adg" "sc_cfgLen ex_e3 \<le> ag_cfgSpadSize ex_adg" by (simp_all add: ex_e1_def ex_e3_def ex_after_def ex_adg_def)
  have m: "Load_cfg 3072 60 0 0 \<in> set (pg_instrs (tf_program f1))" "Load_cfg 3136 60 1 0 \<in> set (pg_instrs (tf_program f2))" by (simp_all add: p ex_prog_def)
  show ?thesis
    using config_region[OF ex_reached(1) ex_spad ex_sorts ex_task_fits(1) r(1)[unfolded ex_task_def] l(1) ex_same ex_task_fits(2) r(2)[unfolded ex_task_def] l(2) m] r m
    by blast
qed

theorem config_array_shape_witness:
  "\<exists>pks. getCfgData ex_conf = Some pks \<and> cfg_num 32 pks = int (length pks) \<and> (\<forall>pk \<in> set pks. length (cin_row 16 pk) = 3)"
proof -
  obtain pks where p: "getCfgData ex_conf = Some pks" using getCfgData_ok[OF ex_blocks] by blast
  have v: "32 \<le> ag_cfgDataWidth ex_adg" "cf_adg ex_conf = ex_adg" by (simp_all add: ex_adg_def ex_conf_def)
  have "align_width ex_adg = 16" "ag_cfgDataWidth ex_adg = 32" "32 sdiv (16 :: int) = 2" by (simp_all add: ex_adg_def align_width_def)
  then show ?thesis using config_array_shape[OF v p] p by auto
qed

end
