(* ===== verification/DfgReader.thy ===== *)
theory DfgReader
  imports Dfg
begin

text \<open>
  The DFG reader (\<open>include/ir/dfg_ir.h\<close>, \<open>src/ir/dfg_ir.cpp\<close>): the JSON value of a DFG file
  becomes a DFG. Constants are not nodes: a constant becomes the immediate of the node it feeds.

  Opening the file and reading the text into a JSON value are not modelled. An exception of the
  number conversions or of the JSON library, a failed assertion, an index out of range and a null
  node fail. The port of an edge that names none is indeterminate: the parameter \<open>junk\<close>.
\<close>

section \<open>Numbers\<close>

definition is_space :: "char \<Rightarrow> bool" where
  "is_space c \<longleftrightarrow> (let n = of_char c :: nat in n = 32 \<or> 9 \<le> n \<and> n \<le> 13)"

definition is_digit :: "char \<Rightarrow> bool" where
  "is_digit c \<longleftrightarrow> (let n = of_char c :: nat in 48 \<le> n \<and> n \<le> 57)"

definition digits_val :: "string \<Rightarrow> int" where
  "digits_val s = foldl (\<lambda>v c. 10 * v + (int (of_char c) - 48)) 0 s"

text \<open>Spaces, a sign and the digits that follow; what comes after is ignored, no digit throws.\<close>

definition sto_number :: "string \<Rightarrow> (bool \<times> int) option" where
  "sto_number str = (let s = dropWhile is_space str;
     (neg, ds) = (case s of [] \<Rightarrow> (False, []) | c # t \<Rightarrow> if c = CHR ''-'' then (True, t) else if c = CHR ''+'' then (False, t) else (False, s));
     d = takeWhile is_digit ds in if d = [] then None else Some (neg, digits_val d))"

definition stoi :: "string \<Rightarrow> int option" where
  "stoi s = do {
     (neg, n) \<leftarrow> sto_number s;
     let v = (if neg then - n else n);
     (if - (2 ^ 31) \<le> v \<and> v < 2 ^ 31 then Some v else None) }"

text \<open>\<open>std::stoull\<close> accepts a sign and negates modulo 2 to the 64.\<close>

definition stoull :: "string \<Rightarrow> 64 word option" where
  "stoull s = do {
     (neg, n) \<leftarrow> sto_number s;
     (if n < 2 ^ 64 then Some (if neg then - word_of_int n else word_of_int n) else None) }"

function split_conv :: "(string \<Rightarrow> 'a option) \<Rightarrow> char \<Rightarrow> string \<Rightarrow> 'a list option" where
  "split_conv conv c s =
     (if c \<notin> set s then Some []
      else do {
        v \<leftarrow> conv (takeWhile (\<lambda>x. x \<noteq> c) s);
        vs \<leftarrow> split_conv conv c (tl (dropWhile (\<lambda>x. x \<noteq> c) s));
        Some (v # vs) })"
  by pat_completeness auto
termination
proof (relation "measure (\<lambda>(conv, c, s). length s)")
  fix conv :: "string \<Rightarrow> 'a option" and c s assume "\<not> c \<notin> set s"
  then have "dropWhile (\<lambda>x. x \<noteq> c) s \<noteq> []" by auto
  then have "length (tl (dropWhile (\<lambda>x. x \<noteq> c) s)) < length (dropWhile (\<lambda>x. x \<noteq> c) s)" by simp
  then show "((conv, c, tl (dropWhile (\<lambda>x. x \<noteq> c) s)), (conv, c, s)) \<in> measure (\<lambda>(conv, c, s). length s)"
    using length_dropWhile_le[of "\<lambda>x. x \<noteq> c" s] by simp
qed simp

declare split_conv.simps [simp del]

definition strSplit2Int :: "string \<Rightarrow> char \<Rightarrow> int list option" where
  "strSplit2Int str c = split_conv stoi c (str @ [c])"

text \<open>Each value goes through an \<open>int\<close>.\<close>

definition strSplit2Uint64 :: "string \<Rightarrow> char \<Rightarrow> 64 word list option" where
  "strSplit2Uint64 str c = split_conv (\<lambda>s. map_option (\<lambda>w. scast (ucast w :: 32 word)) (stoull s)) c (str @ [c])"

section \<open>The tables of the reader\<close>

record dfgIR =
  ir_nodeName2id :: "(string, int) omap"
  ir_name2Consts :: "(string, 64 word) omap"
  ir_id2Consts :: "(int, 64 word) omap"

definition new_DFGIR :: dfgIR where
  "new_DFGIR = \<lparr>ir_nodeName2id = [], ir_name2Consts = [], ir_id2Consts = []\<rparr>"

definition ir_nodeId :: "dfgIR \<Rightarrow> string \<Rightarrow> int" where
  "ir_nodeId ir name = (case om_get (ir_nodeName2id ir) name of Some i \<Rightarrow> i | None \<Rightarrow> -1)"

definition ir_setNodeId :: "string \<Rightarrow> int \<Rightarrow> dfgIR \<Rightarrow> dfgIR" where
  "ir_setNodeId name i ir = ir\<lparr>ir_nodeName2id := om_put (ir_nodeName2id ir) name i\<rparr>"

definition ir_constValue_name :: "dfgIR \<Rightarrow> string \<Rightarrow> 64 word" where
  "ir_constValue_name ir name = om_at 0 (ir_name2Consts ir) name"

definition ir_isConst_name :: "dfgIR \<Rightarrow> string \<Rightarrow> bool" where
  "ir_isConst_name ir name = om_has (ir_name2Consts ir) name"

definition ir_setConst_name :: "string \<Rightarrow> 64 word \<Rightarrow> dfgIR \<Rightarrow> dfgIR" where
  "ir_setConst_name name v ir = ir\<lparr>ir_name2Consts := om_put (ir_name2Consts ir) name v\<rparr>"

definition ir_constValue :: "dfgIR \<Rightarrow> int \<Rightarrow> 64 word" where
  "ir_constValue ir i = om_at 0 (ir_id2Consts ir) i"

definition ir_isConst :: "dfgIR \<Rightarrow> int \<Rightarrow> bool" where
  "ir_isConst ir i = om_has (ir_id2Consts ir) i"

definition ir_setConst :: "int \<Rightarrow> 64 word \<Rightarrow> dfgIR \<Rightarrow> dfgIR" where
  "ir_setConst i v ir = ir\<lparr>ir_id2Consts := om_put (ir_id2Consts ir) i v\<rparr>"

section \<open>Nodes\<close>

definition to_upper :: "char \<Rightarrow> char" where
  "to_upper c = (let n = of_char c :: nat in if 97 \<le> n \<and> n \<le> 122 then char_of (n - 32) else c)"

definition is_io_op :: "string \<Rightarrow> bool" where
  "is_io_op op \<longleftrightarrow> op = ''INPUT'' \<or> op = ''OUTPUT'' \<or> op = ''LOAD'' \<or> op = ''STORE''"

text \<open>Pairs of stride and cycles; an odd number of values reads past the end.\<close>

fun add_levels :: "int list \<Rightarrow> ioAttr \<Rightarrow> ioAttr option" where
  "add_levels [] a = Some a"
| "add_levels [v] a = None"
| "add_levels (s # c # vs) a = add_levels vs (io_addPatternLevel s c a)"

definition with_key :: "json \<Rightarrow> string \<Rightarrow> (string \<Rightarrow> 'a \<Rightarrow> 'a option) \<Rightarrow> 'a \<Rightarrow> 'a option" where
  "with_key j k f a = (if j_contains j k then do { s \<leftarrow> j_str_at j k; f s a } else Some a)"

definition parse_offset :: "json \<Rightarrow> ioAttr \<Rightarrow> ioAttr option" where
  "parse_offset j a =
     (if j_contains j ''offset''
      then do {
        s \<leftarrow> j_str_at j ''offset'';
        _ \<leftarrow> stoi s;
        values \<leftarrow> strSplit2Int s (CHR '','');
        (case values of [] \<Rightarrow> None
         | v # vs \<Rightarrow> Some (a\<lparr>io_memOffset := v, io_reducedMemOffset := (case vs of [] \<Rightarrow> 0 | r # _ \<Rightarrow> r)\<rparr>)) }
      else Some (a\<lparr>io_memOffset := 0, io_reducedMemOffset := 0\<rparr>))"

definition parse_ioAttr :: "json \<Rightarrow> ioAttr option" where
  "parse_ioAttr j = do {
     a1 \<leftarrow> with_key j ''ref_name'' (\<lambda>s a. Some (a\<lparr>io_memRefName := s\<rparr>)) new_ioAttr;
     a2 \<leftarrow> parse_offset j a1;
     a3 \<leftarrow> with_key j ''size'' (\<lambda>s a. map_option (\<lambda>v. a\<lparr>io_memSize := v\<rparr>) (stoi s)) a2;
     a4 \<leftarrow> with_key j ''pattern'' (\<lambda>s a. do { vs \<leftarrow> strSplit2Int s (CHR '',''); add_levels vs a }) a3;
     with_key j ''cycles'' (\<lambda>s a. map_option (\<lambda>v. io_addPatternLevel 0 v a) (stoi s)) a4 }"

text \<open>\<open>(int)values[1]\<close>: the low 32 bits. A fourth value is read but not asserted.\<close>

definition parse_acc :: "json \<Rightarrow> dnode \<Rightarrow> dnode option" where
  "parse_acc j nd = with_key j ''acc_params'' (\<lambda>s nd. do {
     values \<leftarrow> strSplit2Uint64 s (CHR '','');
     (if length values < 4 then None
      else do {
        f \<leftarrow> j_str_at j ''acc_first'';
        first \<leftarrow> stoi f;
        let low = (\<lambda>k. sint (ucast (values ! k) :: 32 word));
        Some (nd\<lparr>dn_initVal := values ! 0, dn_cycles := low 1, dn_interval := low 2, dn_repeats := low 3,
                 dn_isAccFirst := (first \<noteq> 0)\<rparr>) }) }) nd"

text \<open>The name, the operation and the id of an object; a constant; the node of any other object.\<close>

definition object_head :: "json \<Rightarrow> (string \<times> string \<times> int) option" where
  "object_head j = do {
     name \<leftarrow> j_str_at j ''name'';
     opcode \<leftarrow> j_str_at j ''opcode'';
     gvid \<leftarrow> j_int_at j ''_gvid'';
     Some (name, map to_upper opcode, gvid + 1) }"

definition const_of :: "json \<Rightarrow> 64 word option" where
  "const_of j = with_key j ''value'' (\<lambda>s _. stoull s) 0"

definition object_node :: "op_table \<Rightarrow> json \<Rightarrow> string \<Rightarrow> string \<Rightarrow> int \<Rightarrow> dnode option" where
  "object_node ops j name opName i = do {
     nd \<leftarrow> (if is_io_op opName
            then do { a \<leftarrow> parse_ioAttr j; Some (new_DFGIONode\<lparr>dn_io := Some a\<rparr>) }
            else parse_acc j new_DFGNode);
     dnode_setOperation ops opName (nd\<lparr>gn_id := i, gn_name := name\<rparr>) }"

definition parse_object :: "op_table \<Rightarrow> dfgIR \<times> dfg \<Rightarrow> json \<Rightarrow> (dfgIR \<times> dfg) option" where
  "parse_object ops s j = (case s of (ir, g) \<Rightarrow> do {
     (name, opName, i) \<leftarrow> object_head j;
     (if opName = ''CONST'' then do { v \<leftarrow> const_of j; Some (ir_setConst i v ir, g) }
      else do {
        nd \<leftarrow> object_node ops j name opName i;
        Some (ir, dfg_addNode nd (if is_io_op opName then dfg_addIONode i g else g)) }) })"

section \<open>Edges\<close>

text \<open>\<open>str.substr(pos, 1)\<close> throws past the end.\<close>

definition port_at :: "nat \<Rightarrow> string \<Rightarrow> int option" where
  "port_at pos s = (if length s < pos then None else stoi (take 1 (drop pos s)))"

definition edge_ends :: "int \<Rightarrow> json \<Rightarrow> (int \<times> int \<times> int \<times> int) option" where
  "edge_ends junk j = do {
     tail \<leftarrow> j_int_at j ''tail'';
     head \<leftarrow> j_int_at j ''head'';
     dstPort \<leftarrow> (if j_contains j ''operand'' then do { s \<leftarrow> j_str_at j ''operand''; stoi s }
                 else if j_contains j ''headport'' then do { s \<leftarrow> j_str_at j ''headport''; port_at 2 s }
                 else Some junk);
     srcPort \<leftarrow> (if j_contains j ''tailport'' then do { s \<leftarrow> j_str_at j ''tailport''; port_at 3 s } else Some 0);
     Some (tail + 1, srcPort, head + 1, dstPort) }"

definition parse_edge :: "int \<Rightarrow> dfgIR \<Rightarrow> dfg \<Rightarrow> json \<Rightarrow> dfg option" where
  "parse_edge junk ir g j = do {
     (srcId, srcPort, dstId, dstPort) \<leftarrow> edge_ends junk j;
     (if ir_isConst ir srcId
      then dfg_updNode dstId (\<lambda>nd. nd\<lparr>dn_imm := ir_constValue ir srcId, dn_immIdx := dstPort\<rparr>) g
      else do {
        edgeId \<leftarrow> j_int_at j ''_gvid'';
        dfg_addEdge \<lparr>ge_id = edgeId, ge_srcPortIdx = srcPort, ge_dstPortIdx = dstPort, ge_srcId = srcId, ge_dstId = dstId\<rparr> g }) }"

definition parseDFGJson :: "op_table \<Rightarrow> int \<Rightarrow> json \<Rightarrow> (dfgIR \<times> dfg) option" where
  "parseDFGJson ops junk j = do {
     objects \<leftarrow> j_at j ''objects'';
     (ir, g) \<leftarrow> mfold (parse_object ops) (new_DFGIR, new_DFG) (j_elems objects);
     edges \<leftarrow> j_at j ''edges'';
     g' \<leftarrow> mfold (parse_edge junk ir) g (j_elems edges);
     Some (ir, g') }"

end
