(* ===== verification/DfgReaderCorrect.thy ===== *)
theory DfgReaderCorrect
  imports DfgReader PassInsert
begin

text \<open>
  What reading a DFG file gives: numbers and lists of numbers are read back as they are written,
  and a file whose objects have different ids and whose edges have different ids and inputs
  becomes exactly the DFG it describes, well formed.
\<close>

section \<open>Numbers\<close>

lemma digit_facts:
  assumes "d < 10"
  shows "is_digit (char_of (48 + d))" "\<not> is_space (char_of (48 + d))" "int (of_char (char_of (48 + d))) - 48 = int d"
  using assms by (simp_all add: is_digit_def is_space_def Let_def)

lemma nat_digits_ok: "digits_val (nat_digits n) = int n \<and> (\<forall>c \<in> set (nat_digits n). is_digit c) \<and> nat_digits n \<noteq> []"
proof (induction n rule: nat_digits.induct)
  case (1 n)
  show ?case
  proof (cases "n < 10")
    case True
    then show ?thesis using digit_facts[OF True] by (subst (1 2 3) nat_digits.simps) (simp add: digits_val_def)
  next
    case False
    have d: "n mod 10 < 10" by simp
    have "int n = 10 * int (n div 10) + int (n mod 10)" by (simp add: zdiv_int zmod_int)
    then show ?thesis using 1[OF False] digit_facts[OF d] False
      by (subst (1 2 3) nat_digits.simps) (simp add: digits_val_def)
  qed
qed

lemma takeWhile_digits: "\<forall>c \<in> set s. is_digit c \<Longrightarrow> takeWhile is_digit s = s"
  by (simp add: takeWhile_eq_all_conv)

lemma digit_first:
  assumes "is_digit c"
  shows "\<not> is_space c" "c \<noteq> CHR ''-''" "c \<noteq> CHR ''+''"
  using assms by (auto simp: is_digit_def is_space_def Let_def)

lemma sto_number_nat: "sto_number (nat_digits n) = Some (False, int n)"
proof -
  obtain c t where ct: "nat_digits n = c # t" using nat_digits_ok by (cases "nat_digits n") blast+
  then have "is_digit c" using nat_digits_ok[of n] by simp
  moreover have "takeWhile is_digit (c # t) = c # t" using nat_digits_ok[of n] ct by (intro takeWhile_digits) simp
  moreover have "digits_val (c # t) = int n" using nat_digits_ok[of n] ct by simp
  ultimately show ?thesis using ct digit_first[of c] by (simp add: sto_number_def Let_def takeWhile_digits)
qed

lemma sto_number_neg: "sto_number (CHR ''-'' # nat_digits n) = Some (True, int n)"
proof -
  have "\<not> is_space (CHR ''-'')" by (simp add: is_space_def Let_def)
  moreover have "takeWhile is_digit (nat_digits n) = nat_digits n" using nat_digits_ok[of n] by (intro takeWhile_digits) simp
  ultimately show ?thesis using nat_digits_ok[of n] by (simp add: sto_number_def Let_def takeWhile_digits)
qed

lemma stoi_ok: "- (2 ^ 31) \<le> i \<Longrightarrow> i < 2 ^ 31 \<Longrightarrow> stoi (int_to_string i) = Some i"
  by (simp add: stoi_def int_to_string_def sto_number_nat sto_number_neg)

section \<open>Lists of values\<close>

fun joined :: "('a \<Rightarrow> string) \<Rightarrow> char \<Rightarrow> 'a list \<Rightarrow> string" where
  "joined shw c [] = []"
| "joined shw c [x] = shw x"
| "joined shw c (x # y # zs) = shw x @ c # joined shw c (y # zs)"

lemma up_to_sep: "c \<notin> set s \<Longrightarrow> takeWhile (\<lambda>x. x \<noteq> c) (s @ c # t) = s" "c \<notin> set s \<Longrightarrow> dropWhile (\<lambda>x. x \<noteq> c) (s @ c # t) = c # t"
  by (induction s) auto

text \<open>The contract of a conversion: it reads back what is written, which has no separator in it.\<close>

locale value_codec =
  fixes conv :: "string \<Rightarrow> 'a option"
    and shw :: "'a \<Rightarrow> string"
    and ok :: "'a \<Rightarrow> bool"
    and c :: char
  assumes conv_show: "ok x \<Longrightarrow> conv (shw x) = Some x"
    and no_sep: "c \<notin> set (shw x)"
begin

lemma split_first:
  assumes "ok x"
  shows "split_conv conv c (shw x @ c # t) = map_option ((#) x) (split_conv conv c t)"
  using conv_show[OF assms] up_to_sep[OF no_sep]
  by (subst split_conv.simps) (simp split: option.splits bind_splits)

lemma split_joined: "xs \<noteq> [] \<Longrightarrow> \<forall>x \<in> set xs. ok x \<Longrightarrow> split_conv conv c (joined shw c xs @ [c]) = Some xs"
proof (induction xs rule: induct_list012)
  case (2 x)
  then show ?case using split_first[of x "[]"] by (simp add: split_conv.simps[of _ _ "[]"])
next
  case (3 x y zs)
  then show ?case using split_first[of x] by simp
qed simp

end

lemma no_comma: "CHR '','' \<notin> set (int_to_string x)"
proof -
  have "\<not> is_digit (CHR '','')" by (simp add: is_digit_def Let_def)
  then show ?thesis using nat_digits_ok by (auto simp: int_to_string_def)
qed

interpretation ints: value_codec stoi int_to_string "\<lambda>x. - (2 ^ 31) \<le> x \<and> x < 2 ^ 31" "CHR '',''"
  by unfold_locales (simp add: stoi_ok, rule no_comma)

text \<open>\<open>strSplit2Uint64\<close> keeps every value in an \<open>int\<close>, so only the values below \<open>2 ^ 31\<close> come back.\<close>

lemma uint64_ok:
  fixes w :: "64 word"
  assumes "uint w < 2 ^ 31"
  shows "map_option (\<lambda>w. scast (ucast w :: 32 word)) (stoull (int_to_string (uint w))) = Some w"
proof -
  have "stoull (int_to_string (uint w)) = Some w"
    using assms by (simp add: stoull_def int_to_string_def sto_number_nat)
  moreover have "scast (ucast w :: 32 word) = w"
  proof -
    have "sint (ucast w :: 32 word) = sint (word_of_int (uint w) :: 32 word)" by (simp only: ucast_eq)
    also have "\<dots> = signed_take_bit 31 (uint w)" by (simp only: sint_sbintrunc') simp
    also have "\<dots> = uint w" using assms by (intro signed_take_bit_int_eq_self) (simp_all add: order_trans[OF _ uint_ge_0])
    finally have "sint (ucast w :: 32 word) = uint w" .
    then show ?thesis by (simp add: scast_eq)
  qed
  ultimately show ?thesis by simp
qed

interpretation uints: value_codec "\<lambda>s. map_option (\<lambda>w. scast (ucast w :: 32 word)) (stoull s)" "\<lambda>w :: 64 word. int_to_string (uint w)"
  "\<lambda>w. uint w < 2 ^ 31" "CHR '',''"
  by unfold_locales (rule uint64_ok, assumption, rule no_comma)

definition csv :: "int list \<Rightarrow> string" where
  "csv = joined int_to_string (CHR '','')"

lemma strSplit2Int_ok:
  "xs \<noteq> [] \<Longrightarrow> \<forall>x \<in> set xs. - (2 ^ 31) \<le> x \<and> x < 2 ^ 31 \<Longrightarrow> strSplit2Int (csv xs) (CHR '','') = Some xs"
  unfolding strSplit2Int_def csv_def by (rule ints.split_joined)

lemma strSplit2Uint64_ok:
  fixes ws :: "64 word list"
  assumes "ws \<noteq> []" "\<forall>w \<in> set ws. uint w < 2 ^ 31"
  shows "strSplit2Uint64 (joined (\<lambda>w. int_to_string (uint w)) (CHR '','') ws) (CHR '','') = Some ws"
  unfolding strSplit2Uint64_def using assms by (rule uints.split_joined)

text \<open>Larger ones do not: \<open>2 ^ 31\<close> is read as a negative number.\<close>

lemma strSplit2Uint64_truncates:
  "map_option (\<lambda>w. scast (ucast w :: 32 word) :: 64 word) (stoull (int_to_string (2 ^ 31))) = Some (- (2 ^ 31))"
  by (simp add: stoull_def int_to_string_def sto_number_nat)

text \<open>C40: Lists of numbers are read back as written: a list of integers, joined by commas, is split and
  converted by \<open>strSplit2Int\<close> into the same list.\<close>

theorem strSplit2Int_roundtrip:
  assumes "xs \<noteq> []" "\<forall>x \<in> set xs. - (2 ^ 31) \<le> x \<and> x < 2 ^ 31"
  shows "strSplit2Int (csv xs) (CHR '','') = Some xs"
  by (rule strSplit2Int_ok[OF assms])

section \<open>Objects\<close>

text \<open>An object is readable: a constant has a value, any other a node.\<close>

definition object_ok :: "op_table \<Rightarrow> json \<Rightarrow> bool" where
  "object_ok ops j \<longleftrightarrow> (case object_head j of None \<Rightarrow> False | Some (name, op, i) \<Rightarrow> 0 < i \<and>
     (if op = ''CONST'' then const_of j \<noteq> None else object_node ops j name op i \<noteq> None))"

definition object_id :: "json \<Rightarrow> int" where
  "object_id j = (case object_head j of Some (_, _, i) \<Rightarrow> i | None \<Rightarrow> 0)"

definition object_op :: "json \<Rightarrow> string" where
  "object_op j = (case object_head j of Some (_, op, _) \<Rightarrow> op | None \<Rightarrow> [])"

definition const_value :: "json \<Rightarrow> 64 word option" where
  "const_value j = (if object_op j = ''CONST'' then const_of j else None)"

definition node_of :: "op_table \<Rightarrow> json \<Rightarrow> dnode option" where
  "node_of ops j = (case object_head j of None \<Rightarrow> None
     | Some (name, op, i) \<Rightarrow> if op = ''CONST'' then None else object_node ops j name op i)"

lemma object_node_fresh:
  assumes "object_node ops j name op i = Some nd"
  shows "gn_id nd = i" "gn_inputs nd = []" "gn_outputs nd = []" "gn_inputEdges nd = []" "gn_outputEdges nd = []" "dn_operation nd = op"
    "dn_io nd \<noteq> None \<longleftrightarrow> is_io_op op"
  using assms by (auto simp: object_node_def dnode_setOperation_def parse_acc_def with_key_def new_DFGIONode_def new_DFGNode_def Let_def
      split: bind_splits if_splits)

lemma new_dfg_sound: "dfg_sound new_DFG" "dfg_abs new_DFG = Map.empty"
proof -
  have "dfg_wf new_DFG"
    by (rule dfg_wf_edgeless) (auto simp: new_DFG_def)
  then show "dfg_sound new_DFG" by (auto simp: dfg_sound_def nodes_ok_def dfg_node_def dfg_abs_def new_DFG_def om_has_def)
  show "dfg_abs new_DFG = Map.empty" by (auto simp: dfg_abs_def new_DFG_def)
qed

lemma addIONode_sound: "dfg_sound (dfg_addIONode i g) = dfg_sound g" "dfg_abs (dfg_addIONode i g) = dfg_abs g"
proof -
  let ?g = "dfg_addIONode i g"
  have v: "in_edge ?g = in_edge g" "in_src ?g = in_src g" "out_edges ?g = out_edges g" "out_dsts ?g = out_dsts g"
    "has_node ?g = has_node g" "dfg_abs ?g = dfg_abs g" "dfg_node ?g = dfg_node g" "df_nodes ?g = df_nodes g" "df_edges ?g = df_edges g" "g_id ?g = g_id g"
    by (simp_all add: dfg_views dfg_node_def fun_eq_iff dfg_addIONode_def)
  show "dfg_abs ?g = dfg_abs g" by (rule v(6))
  show "dfg_sound ?g = dfg_sound g" by (simp add: dfg_sound_def dfg_wf_def nodes_ok_def v)
qed

text \<open>What has been read after some objects.\<close>

definition read_objects :: "op_table \<Rightarrow> json list \<Rightarrow> dfgIR \<Rightarrow> dfg \<Rightarrow> bool" where
  "read_objects ops us ir g \<longleftrightarrow> dfg_sound g \<and> dfg_abs g = Map.empty \<and> g_id g = 0 \<and> os_wf (df_ioNodes g) \<and>
     (\<forall>i nd. dfg_node g i = Some nd \<longleftrightarrow> (\<exists>j \<in> set us. object_id j = i \<and> node_of ops j = Some nd)) \<and>
     (\<forall>i v. om_get (ir_id2Consts ir) i = Some v \<longleftrightarrow> (\<exists>j \<in> set us. object_id j = i \<and> const_value j = Some v)) \<and>
     set (df_ioNodes g) = {object_id j | j. j \<in> set us \<and> is_io_op (object_op j)}"

lemma parse_object_step:
  assumes J: "read_objects ops us ir g" and ok: "object_ok ops j" and new: "object_id j \<notin> object_id ` set us"
  shows "\<exists>ir' g'. parse_object ops (ir, g) j = Some (ir', g') \<and> read_objects ops (us @ [j]) ir' g'"
proof -
  obtain name op i where h: "object_head j = Some (name, op, i)" "0 < i" and
    val: "if op = ''CONST'' then const_of j \<noteq> None else object_node ops j name op i \<noteq> None" using ok by (auto simp: object_ok_def split: option.splits)
  have d: "object_id j = i" "object_op j = op" using h by (simp_all add: object_id_def object_op_def)
  have g: "dfg_sound g" "dfg_abs g = Map.empty" "g_id g = 0" "os_wf (df_ioNodes g)"
    "\<And>i nd. dfg_node g i = Some nd \<longleftrightarrow> (\<exists>j \<in> set us. object_id j = i \<and> node_of ops j = Some nd)"
    "\<And>i v. om_get (ir_id2Consts ir) i = Some v \<longleftrightarrow> (\<exists>j \<in> set us. object_id j = i \<and> const_value j = Some v)"
    "set (df_ioNodes g) = {object_id j | j. j \<in> set us \<and> is_io_op (object_op j)}"
    using J unfolding read_objects_def by blast+
  have ni: "i \<noteq> object_id k" if "k \<in> set us" for k using new d(1) that by auto
  have none: "\<not> (k \<in> set us \<and> object_id k = i)" for k using ni by blast
  show ?thesis
  proof (cases "op = ''CONST''")
    case True
    then obtain v where v: "const_of j = Some v" using val by auto
    have run: "parse_object ops (ir, g) j = Some (ir_setConst i v ir, g)" using h True v by (simp add: parse_object_def)
    have no: "node_of ops j = None" "const_value j = Some v" "\<not> is_io_op op" using h True v d by (simp_all add: node_of_def const_value_def is_io_op_def)
    have "read_objects ops (us @ [j]) (ir_setConst i v ir) g"
      unfolding read_objects_def
    proof (intro conjI allI)
      show "om_get (ir_id2Consts (ir_setConst i v ir)) k = Some w \<longleftrightarrow> (\<exists>j \<in> set (us @ [j]). object_id j = k \<and> const_value j = Some w)" for k w
        using g(6)[of k w] no d none by (cases "k = i") (auto simp: ir_setConst_def)
      show "set (df_ioNodes g) = {object_id j' | j'. j' \<in> set (us @ [j]) \<and> is_io_op (object_op j')}" using g(7) no d by auto
    qed (use g no in auto)
    then show ?thesis using run by blast
  next
    case False
    then obtain nd where nd: "object_node ops j name op i = Some nd" using val by auto
    note fr = object_node_fresh[OF nd]
    let ?g1 = "if is_io_op op then dfg_addIONode i g else g"
    let ?g = "dfg_addNode nd ?g1"
    have run: "parse_object ops (ir, g) j = Some (ir, ?g)" using h False nd by (simp add: parse_object_def)
    have no: "node_of ops j = Some nd" "const_value j = None" using h False nd d by (simp_all add: node_of_def const_value_def)
    have g1: "dfg_sound ?g1" "dfg_abs ?g1 = Map.empty" "g_id ?g1 = 0" "df_nodes ?g1 = df_nodes g"
      using g addIONode_sound by (auto simp: dfg_addIONode_def)
    have fresh: "\<not> om_has (df_nodes ?g1) (gn_id nd)" "gn_id nd \<noteq> g_id ?g1"
    proof -
      have "dfg_node g i = None" using g(5)[of i] none by (cases "dfg_node g i") auto
      then show "\<not> om_has (df_nodes ?g1) (gn_id nd)" unfolding g1(4) fr(1) by (simp add: om_has_def dfg_node_def)
      show "gn_id nd \<noteq> g_id ?g1" using h(2) g1(3) fr(1) by simp
    qed
    have "read_objects ops (us @ [j]) ir ?g"
      unfolding read_objects_def
    proof (intro conjI allI)
      show "dfg_sound ?g" "dfg_abs ?g = Map.empty" using addNode_sound[OF g1(1) fresh fr(2-5)] g1(2) by simp_all
      show "g_id ?g = 0" "os_wf (df_ioNodes ?g)" using g(3,4) by (simp_all add: dfg_addNode_def dfg_addIONode_def)
      show "dfg_node ?g k = Some nd' \<longleftrightarrow> (\<exists>j \<in> set (us @ [j]). object_id j = k \<and> node_of ops j = Some nd')" for k nd'
        using g(5)[of k nd'] no d none fr(1) g1(4) by (cases "k = i") (auto simp: dfg_node_def dfg_addNode_def)
      show "om_get (ir_id2Consts ir) k = Some w \<longleftrightarrow> (\<exists>j \<in> set (us @ [j]). object_id j = k \<and> const_value j = Some w)" for k w
        using g(6) no by auto
      show "set (df_ioNodes ?g) = {object_id j' | j'. j' \<in> set (us @ [j]) \<and> is_io_op (object_op j')}"
        using g(7) d by (auto simp: dfg_addNode_def dfg_addIONode_def)
    qed
    then show ?thesis using run by blast
  qed
qed

lemma parse_objects_ok:
  assumes "\<forall>j \<in> set objs. object_ok ops j" "distinct (map object_id objs)"
  shows "\<exists>ir g. mfold (parse_object ops) (new_DFGIR, new_DFG) objs = Some (ir, g) \<and> read_objects ops objs ir g"
proof -
  have "\<exists>s. mfold (parse_object ops) (new_DFGIR, new_DFG) objs = Some s \<and> (case s of (ir, g) \<Rightarrow> read_objects ops objs ir g)"
  proof (rule mfold_prefix[where J = "\<lambda>us s. case s of (ir, g) \<Rightarrow> read_objects ops us ir g"])
    show "case (new_DFGIR, new_DFG) of (ir, g) \<Rightarrow> read_objects ops [] ir g"
      using new_dfg_sound by (simp add: read_objects_def dfg_node_def) (simp add: new_DFG_def new_DFGIR_def os_wf_def)
    fix us j vs s assume us: "objs = us @ j # vs" and J: "case s of (ir, g) \<Rightarrow> read_objects ops us ir g"
    obtain ir g where s: "s = (ir, g)" by (cases s)
    have "object_id j \<notin> object_id ` set us" using assms(2) us by auto
    from parse_object_step[OF _ _ this, of ops ir g] J assms(1) us s
    show "\<exists>s'. parse_object ops s j = Some s' \<and> (case s' of (ir, g) \<Rightarrow> read_objects ops (us @ [j]) ir g)" by auto
  qed
  then show ?thesis by auto
qed

section \<open>Edges\<close>

text \<open>What the file says of an id: the object that has it, the value of a constant, the node of any
  other object.\<close>

definition object_at :: "json list \<Rightarrow> int \<Rightarrow> json option" where
  "object_at objs i = find (\<lambda>j. object_id j = i) objs"

definition const_at :: "json list \<Rightarrow> int \<Rightarrow> 64 word option" where
  "const_at objs i = Option.bind (object_at objs i) const_value"

definition node_at :: "op_table \<Rightarrow> json list \<Rightarrow> int \<Rightarrow> dnode option" where
  "node_at ops objs i = Option.bind (object_at objs i) (node_of ops)"

text \<open>The edge that an entry describes when its source is no constant, and the immediate it gives to
  its destination when it is one.\<close>

definition file_edge :: "int \<Rightarrow> json list \<Rightarrow> json \<Rightarrow> gedge option" where
  "file_edge junk objs j = do {
     (s, sp, d, dp) \<leftarrow> edge_ends junk j;
     (if const_at objs s \<noteq> None then None
      else do {
        k \<leftarrow> j_int_at j ''_gvid'';
        Some \<lparr>ge_id = k, ge_srcPortIdx = sp, ge_dstPortIdx = dp, ge_srcId = s, ge_dstId = d\<rparr> }) }"

definition add_imm :: "int \<Rightarrow> json list \<Rightarrow> int \<Rightarrow> dnode \<Rightarrow> json \<Rightarrow> dnode" where
  "add_imm junk objs i nd j =
     (case edge_ends junk j of None \<Rightarrow> nd
      | Some (s, _, d, dp) \<Rightarrow> (case const_at objs s of None \<Rightarrow> nd
          | Some v \<Rightarrow> if d = i then nd\<lparr>dn_imm := v, dn_immIdx := dp\<rparr> else nd))"

definition entry_ok :: "op_table \<Rightarrow> int \<Rightarrow> json list \<Rightarrow> json \<Rightarrow> bool" where
  "entry_ok ops junk objs j \<longleftrightarrow> (case edge_ends junk j of None \<Rightarrow> False | Some (s, sp, d, dp) \<Rightarrow> node_at ops objs d \<noteq> None \<and>
     (if const_at objs s \<noteq> None then True else node_at ops objs s \<noteq> None \<and> j_int_at j ''_gvid'' \<noteq> None))"

lemma object_at_iff:
  assumes "distinct (map object_id objs)"
  shows "object_at objs i = Some j \<longleftrightarrow> j \<in> set objs \<and> object_id j = i"
proof
  assume "object_at objs i = Some j"
  then show "j \<in> set objs \<and> object_id j = i" by (auto simp: object_at_def find_Some_iff)
next
  assume j: "j \<in> set objs \<and> object_id j = i"
  then obtain k where k: "object_at objs i = Some k"
    unfolding object_at_def by (cases "find (\<lambda>j. object_id j = i) objs") (auto simp: find_None_iff)
  then have "k \<in> set objs" "object_id k = i" by (auto simp: object_at_def find_Some_iff)
  then have "k = j" using assms j inj_onD[of object_id "set objs" k j] by (simp add: distinct_map)
  then show "object_at objs i = Some j" using k by simp
qed

lemma read_objects_at:
  assumes "read_objects ops objs ir g" "distinct (map object_id objs)"
  shows "dfg_node g = node_at ops objs" "om_get (ir_id2Consts ir) = const_at objs"
proof -
  have n: "dfg_node g i = Some nd \<longleftrightarrow> node_at ops objs i = Some nd" for i nd
    using assms(1) unfolding read_objects_def node_at_def bind_eq_Some_conv object_at_iff[OF assms(2)] by blast
  have c: "om_get (ir_id2Consts ir) i = Some v \<longleftrightarrow> const_at objs i = Some v" for i v
    using assms(1) unfolding read_objects_def const_at_def bind_eq_Some_conv object_at_iff[OF assms(2)] by blast
  show "dfg_node g = node_at ops objs" by (rule ext) (use n in \<open>metis not_None_eq\<close>)
  show "om_get (ir_id2Consts ir) = const_at objs" by (rule ext) (use c in \<open>metis not_None_eq\<close>)
qed

lemma imm_sound:
  assumes sound: "dfg_sound g" and nd: "dfg_node g d = Some nd"
  shows "\<exists>g'. dfg_updNode d (\<lambda>nd. nd\<lparr>dn_imm := v, dn_immIdx := p\<rparr>) g = Some g' \<and> dfg_sound g' \<and> dfg_abs g' = dfg_abs g \<and>
    df_ioNodes g' = df_ioNodes g \<and> dfg_node g' = (dfg_node g)(d \<mapsto> nd\<lparr>dn_imm := v, dn_immIdx := p\<rparr>)"
proof -
  let ?nd = "nd\<lparr>dn_imm := v, dn_immIdx := p\<rparr>"
  let ?g = "g\<lparr>df_nodes := om_put (df_nodes g) d ?nd\<rparr>"
  have get: "om_get (df_nodes g) d = Some nd" using nd by (simp add: dfg_node_def)
  have v: "in_edge ?g = in_edge g" "in_src ?g = in_src g" "out_edges ?g = out_edges g" "out_dsts ?g = out_dsts g" "dfg_abs ?g = dfg_abs g"
    using get by (simp_all add: dfg_views fun_eq_iff)
  have has: "om_has (df_nodes ?g) n = om_has (df_nodes g) n" for n using get by (auto simp: om_has_def)
  have hn: "has_node ?g = has_node g" unfolding fun_eq_iff has_node_def has by simp
  have wf: "dfg_wf g" "nodes_ok g" using sound by (simp_all add: dfg_sound_def)
  have nodes: "om_wf (df_nodes ?g)" "\<forall>k n. om_get (df_nodes ?g) k = Some n \<longrightarrow> gn_id n = k"
  proof -
    have o: "om_wf (df_nodes g)" using wf(1)[unfolded dfg_wf_def] by (rule conjunct1)
    have ids: "\<forall>k n. om_get (df_nodes g) k = Some n \<longrightarrow> gn_id n = k"
      using wf(1)[unfolded dfg_wf_def] by (elim conjE)
    have own: "gn_id nd = d" using ids[rule_format, OF get] .
    show "om_wf (df_nodes ?g)" using o by simp
    show "\<forall>k n. om_get (df_nodes ?g) k = Some n \<longrightarrow> gn_id n = k"
    proof (intro allI impI)
      fix k n assume n: "om_get (df_nodes ?g) k = Some n"
      show "gn_id n = k"
      proof (cases "k = d")
        case True
        then have "n = ?nd" using n by simp
        then show ?thesis using own True by simp
      next
        case False
        then have "om_get (df_nodes g) k = Some n" using n by simp
        then show ?thesis by (rule ids[rule_format])
      qed
    qed
  qed
  have edges: "df_edges ?g = df_edges g" by simp
  have "dfg_wf ?g"
    unfolding dfg_wf_def v hn edges
    using wf(1)[unfolded dfg_wf_def] by (elim conjE) (intro conjI; (rule nodes | assumption))
  moreover have "nodes_ok ?g" using wf(2) nd by (auto simp: nodes_ok_def tables_ok_def dfg_node_def)
  moreover have "g_id ?g = g_id g" by simp
  ultimately have "dfg_sound ?g" using sound unfolding dfg_sound_def v has by simp
  then show ?thesis using get v by (auto simp: dfg_updNode_def dfg_node_def)
qed

text \<open>What has been read after some entries of the edge list.\<close>

definition read_edges :: "op_table \<Rightarrow> int \<Rightarrow> json list \<Rightarrow> int oset \<Rightarrow> json list \<Rightarrow> dfg \<Rightarrow> bool" where
  "read_edges ops junk objs ios us g \<longleftrightarrow> dfg_sound g \<and> df_ioNodes g = ios \<and>
     (\<forall>k e. dfg_abs g k = Some e \<longleftrightarrow> ge_id e = k \<and> e \<in> set (List.map_filter (file_edge junk objs) us)) \<and>
     (\<forall>i. map_option core (dfg_node g i) =
        map_option (\<lambda>nd. core (foldl (add_imm junk objs i) nd us)) (node_at ops objs i))"

lemma read_nodes:
  assumes "read_edges ops junk objs ios us g"
  shows "om_has (df_nodes g) i \<longleftrightarrow> node_at ops objs i \<noteq> None"
proof -
  have "map_option core (dfg_node g i) = map_option (\<lambda>nd. core (foldl (add_imm junk objs i) nd us)) (node_at ops objs i)"
    using assms unfolding read_edges_def by blast
  then show ?thesis by (cases "node_at ops objs i") (auto simp: om_has_iff dfg_node_def)
qed

lemma parse_edge_step:
  assumes J: "read_edges ops junk objs ios us g" and ok: "entry_ok ops junk objs j"
    and cst: "om_get (ir_id2Consts ir) = const_at objs"
    and fresh: "\<And>e e'. file_edge junk objs j = Some e \<Longrightarrow> e' \<in> set (List.map_filter (file_edge junk objs) us) \<Longrightarrow>
      ge_id e' \<noteq> ge_id e \<and> (ge_dstId e', ge_dstPortIdx e') \<noteq> (ge_dstId e, ge_dstPortIdx e)"
  shows "\<exists>g'. parse_edge junk ir g j = Some g' \<and> read_edges ops junk objs ios (us @ [j]) g'"
proof -
  obtain s sp d dp where ends: "edge_ends junk j = Some (s, sp, d, dp)" and d: "node_at ops objs d \<noteq> None" and
    src: "if const_at objs s \<noteq> None then True else node_at ops objs s \<noteq> None \<and> j_int_at j ''_gvid'' \<noteq> None"
    using ok unfolding entry_ok_def by (auto split: option.splits)
  have g: "dfg_sound g" "df_ioNodes g = ios"
    "\<And>k e. dfg_abs g k = Some e \<longleftrightarrow> ge_id e = k \<and> e \<in> set (List.map_filter (file_edge junk objs) us)"
    "\<And>i. map_option core (dfg_node g i) = map_option (\<lambda>nd. core (foldl (add_imm junk objs i) nd us)) (node_at ops objs i)"
    using J unfolding read_edges_def by blast+
  show ?thesis
  proof (cases "const_at objs s")
    case (Some v)
    have step: "file_edge junk objs j = None" "add_imm junk objs i nd j = (if d = i then nd\<lparr>dn_imm := v, dn_immIdx := dp\<rparr> else nd)" for i nd
      using ends Some by (simp_all add: file_edge_def add_imm_def)
    obtain nd where nd: "dfg_node g d = Some nd" using read_nodes[OF J, of d] d by (auto simp: om_has_iff dfg_node_def)
    obtain g' where g': "dfg_updNode d (\<lambda>nd. nd\<lparr>dn_imm := v, dn_immIdx := dp\<rparr>) g = Some g'" "dfg_sound g'" "dfg_abs g' = dfg_abs g"
      "df_ioNodes g' = df_ioNodes g" "dfg_node g' = (dfg_node g)(d \<mapsto> nd\<lparr>dn_imm := v, dn_immIdx := dp\<rparr>)" using imm_sound[OF g(1) nd, where v = v and p = dp] by blast
    have core_imm: "core (x\<lparr>dn_imm := v, dn_immIdx := dp\<rparr>) = (core x)\<lparr>dn_imm := v, dn_immIdx := dp\<rparr>" for x by (simp add: core_def)
    have "read_edges ops junk objs ios (us @ [j]) g'"
      unfolding read_edges_def
    proof (intro conjI allI)
      show "map_option core (dfg_node g' i) = map_option (\<lambda>nd. core (foldl (add_imm junk objs i) nd (us @ [j]))) (node_at ops objs i)" for i
      proof (cases "i = d")
        case True
        then show ?thesis using g(4)[of d] nd g'(5) step(2) by (cases "node_at ops objs d") (auto simp: core_imm)
      next
        case False
        then show ?thesis using g(4)[of i] g'(5) step(2) by simp
      qed
    qed (use g g' step(1) in \<open>simp_all add: List.map_filter_def\<close>)
    moreover have "parse_edge junk ir g j = Some g'"
      using ends Some cst g'(1) by (simp add: parse_edge_def ir_isConst_def ir_constValue_def om_has_def om_at_def)
    ultimately show ?thesis by blast
  next
    case None
    then obtain k where k: "j_int_at j ''_gvid'' = Some k" "node_at ops objs s \<noteq> None" using src by auto
    let ?e = "\<lparr>ge_id = k, ge_srcPortIdx = sp, ge_dstPortIdx = dp, ge_srcId = s, ge_dstId = d\<rparr>"
    have step: "file_edge junk objs j = Some ?e" "add_imm junk objs i nd j = nd" for i nd
      using ends None k by (simp_all add: file_edge_def add_imm_def)
    note fr = fresh[OF step(1)]
    have "dfg_abs g k = None" using g(3)[of k] fr by (cases "dfg_abs g k") auto
    moreover have "dp \<notin> in_ports g d" using g(3) fr by (auto simp: in_ports_def)
    moreover have "om_has (df_nodes g) s" "om_has (df_nodes g) d" using read_nodes[OF J] k(2) d by blast+
    ultimately obtain g' where g': "dfg_addEdge ?e g = Some g'" "dfg_sound g'" "dfg_abs g' = (dfg_abs g)(k \<mapsto> ?e)" "same_core g g'"
      using addEdge_sound[OF g(1), of ?e] by auto
    have "read_edges ops junk objs ios (us @ [j]) g'"
      unfolding read_edges_def
    proof (intro conjI allI)
      show "dfg_abs g' k' = Some e \<longleftrightarrow> ge_id e = k' \<and> e \<in> set (List.map_filter (file_edge junk objs) (us @ [j]))" for k' e
        using g(3)[of k' e] g'(3) step(1) fr by (cases "k' = k") (auto simp: List.map_filter_def)
    qed (use g g'(2,4) step(2) in \<open>simp_all add: same_core_def\<close>)
    moreover have "parse_edge junk ir g j = Some g'"
      using ends None cst g'(1) k(1) by (simp add: parse_edge_def ir_isConst_def om_has_def)
    ultimately show ?thesis by blast
  qed
qed

text \<open>The edges a file describes.\<close>

definition file_edges :: "int \<Rightarrow> json list \<Rightarrow> json list \<Rightarrow> gedge list" where
  "file_edges junk objs es = List.map_filter (file_edge junk objs) es"

text \<open>A file the reader accepts: different ids, readable objects, edges between objects with
  different ids and inputs.\<close>

definition dfg_file_ok :: "op_table \<Rightarrow> int \<Rightarrow> json list \<Rightarrow> json list \<Rightarrow> bool" where
  "dfg_file_ok ops junk objs es \<longleftrightarrow> (\<forall>j \<in> set objs. object_ok ops j) \<and> distinct (map object_id objs) \<and>
     (\<forall>j \<in> set es. entry_ok ops junk objs j) \<and> distinct (map ge_id (file_edges junk objs es)) \<and>
     distinct (map (\<lambda>e. (ge_dstId e, ge_dstPortIdx e)) (file_edges junk objs es))"

lemma parse_edges_ok:
  assumes ok: "dfg_file_ok ops junk objs es" and R: "read_objects ops objs ir g"
  shows "\<exists>g'. mfold (parse_edge junk ir) g es = Some g' \<and> read_edges ops junk objs (df_ioNodes g) es g'"
proof (rule mfold_prefix[where J = "read_edges ops junk objs (df_ioNodes g)"])
  have ids: "distinct (map object_id objs)" using ok by (simp add: dfg_file_ok_def)
  note at = read_objects_at[OF R ids]
  show "read_edges ops junk objs (df_ioNodes g) [] g"
    using R at(1) unfolding read_edges_def read_objects_def by (simp add: List.map_filter_def option.map_comp comp_def)
  fix us j vs s assume us: "es = us @ j # vs" and J: "read_edges ops junk objs (df_ioNodes g) us s"
  have d: "distinct (map ge_id (file_edges junk objs es))" "distinct (map (\<lambda>e. (ge_dstId e, ge_dstPortIdx e)) (file_edges junk objs es))"
    "entry_ok ops junk objs j" using ok us by (auto simp: dfg_file_ok_def)
  have fresh: "ge_id e' \<noteq> ge_id e \<and> (ge_dstId e', ge_dstPortIdx e') \<noteq> (ge_dstId e, ge_dstPortIdx e)"
    if "file_edge junk objs j = Some e" "e' \<in> set (List.map_filter (file_edge junk objs) us)" for e e'
  proof -
    have "file_edges junk objs es = file_edges junk objs us @ e # file_edges junk objs vs" using us that(1)
      by (simp add: file_edges_def List.map_filter_def)
    then have "ge_id e \<notin> ge_id ` set (file_edges junk objs us)"
      "(ge_dstId e, ge_dstPortIdx e) \<notin> (\<lambda>e. (ge_dstId e, ge_dstPortIdx e)) ` set (file_edges junk objs us)"
      using d(1,2) by simp_all
    then show ?thesis using that(2) unfolding file_edges_def by (metis (no_types, lifting) image_eqI)
  qed
  show "\<exists>s'. parse_edge junk ir s j = Some s' \<and> read_edges ops junk objs (df_ioNodes g) (us @ [j]) s'"
    by (rule parse_edge_step[OF J d(3) at(2) fresh])
qed

lemma parseDFGJson_ok:
  assumes ok: "dfg_file_ok ops junk (j_elems objs) (j_elems es)" and j: "j_at j ''objects'' = Some objs" "j_at j ''edges'' = Some es"
  shows "\<exists>ir g. parseDFGJson ops junk j = Some (ir, g) \<and> read_edges ops junk (j_elems objs) (df_ioNodes g) (j_elems es) g \<and>
    set (df_ioNodes g) = {object_id o' | o'. o' \<in> set (j_elems objs) \<and> is_io_op (object_op o')}"
proof -
  obtain ir g where g: "mfold (parse_object ops) (new_DFGIR, new_DFG) (j_elems objs) = Some (ir, g)" "read_objects ops (j_elems objs) ir g"
    using parse_objects_ok[of "j_elems objs" ops] ok by (auto simp: dfg_file_ok_def)
  obtain g' where g': "mfold (parse_edge junk ir) g (j_elems es) = Some g'" "read_edges ops junk (j_elems objs) (df_ioNodes g) (j_elems es) g'"
    using parse_edges_ok[OF ok g(2)] by blast
  have "df_ioNodes g' = df_ioNodes g" using g'(2) by (simp add: read_edges_def)
  moreover have "set (df_ioNodes g) = {object_id o' | o'. o' \<in> set (j_elems objs) \<and> is_io_op (object_op o')}"
    using g(2) by (simp add: read_objects_def)
  moreover have "parseDFGJson ops junk j = Some (ir, g')" using j g(1) g'(1) by (simp add: parseDFGJson_def)
  ultimately show ?thesis using g'(2) by auto
qed


end
