(* ===== verification/AdgReader.thy ===== *)
theory AdgReader
  imports Adg DfgReader
begin

text \<open>
  The ADG reader (\<open>include/ir/adg_ir.h\<close>, \<open>src/ir/adg_ir.cpp\<close>): the JSON value of an architecture
  becomes an ADG. A file lists module kinds once and instances of them; the first instance of a
  module takes the module's own object and the others copy it. A functional node holds a sub-ADG,
  read by the same code from its attributes. After the edges, the inside of every node is analysed:
  which input port reaches which operand, which input of an interconnect block can reach which
  output.

  Opening the file and reading the text into a JSON value are not modelled. An exception, a null
  node and an empty set that is dereferenced fail; a search for the ALU that never ends is
  undefined as well. A sub-ADG whose modules have sub-ADGs again fails: the code would read it, no
  architecture has it. What C++ leaves indeterminate (the id of a graph without \<open>This\<close>, the place of
  an instance that sets none) is zero.
\<close>

section \<open>The graph's own attributes\<close>

type_synonym mode_names = "(int, string) omap"

definition new_ADG :: "'n adg" where
  "new_ADG = \<lparr>g_id = 0, g_bitWidth = 0, g_inputNames = [], g_outputNames = [], g_inputs = [], g_outputs = [],
     g_inputEdges = [], g_outputEdges = [], ag_numGpeNodes = 0, ag_numIobNodes = 0, ag_cfgDataWidth = 0,
     ag_cfgAddrWidth = 0, ag_cfgBlkOffset = 0, ag_cfgSpadDataWidth = 0, ag_cfgSpadSize = 0,
     ag_iobAgNestLevels = 0, ag_iobSpadBankSize = 0, ag_iobToSpadBanks = [], ag_nodes = [], ag_edges = []\<rparr>"

text \<open>\<open>if(j.contains(k)) set(j[k].get<int>())\<close>.\<close>

definition opt_set :: "json \<Rightarrow> string \<Rightarrow> (int \<Rightarrow> 'a \<Rightarrow> 'a) \<Rightarrow> 'a \<Rightarrow> 'a option" where
  "opt_set j k f a = (if j_contains j k then do { v \<leftarrow> j_int_at j k; Some (f v a) } else Some a)"

definition read_widths :: "json \<Rightarrow> 'n adg \<Rightarrow> 'n adg option" where
  "read_widths j a =
     (if j_contains j ''cfg_data_width''
      then do {
        w \<leftarrow> j_int_at j ''cfg_data_width'';
        aw \<leftarrow> j_int_at j ''cfg_addr_width'';
        off \<leftarrow> j_int_at j ''cfg_blk_offset'';
        Some (a\<lparr>ag_cfgDataWidth := w, ag_cfgAddrWidth := aw, ag_cfgBlkOffset := off\<rparr>) }
      else Some a)"

definition read_modes :: "json \<Rightarrow> mode_names \<Rightarrow> mode_names option" where
  "read_modes j ms =
     (if j_contains j ''iob_mode_names''
      then do {
        names \<leftarrow> j_at j ''iob_mode_names'';
        mfold (\<lambda>ms (key, v). do { mode \<leftarrow> stoi key; name \<leftarrow> j_str v; Some (om_put ms mode name) }) ms (j_items names) }
      else Some ms)"

definition read_banks :: "json \<Rightarrow> 'n adg \<Rightarrow> 'n adg option" where
  "read_banks j a =
     (if j_contains j ''iob_to_spad_banks''
      then do {
        tab \<leftarrow> j_at j ''iob_to_spad_banks'';
        mfold (\<lambda>a (key, v). do {
          iobId \<leftarrow> stoi key;
          banks \<leftarrow> those (map j_int (j_elems v));
          Some (a\<lparr>ag_iobToSpadBanks := om_put (ag_iobToSpadBanks a) iobId banks\<rparr>) }) a (j_items tab) }
      else Some a)"

definition read_head :: "json \<Rightarrow> mode_names \<Rightarrow> (mode_names \<times> 'n adg) option" where
  "read_head j ms = do {
     w \<leftarrow> j_int_at j ''data_width'';
     a1 \<leftarrow> opt_set j ''cfg_spad_data_width'' (\<lambda>v a. a\<lparr>ag_cfgSpadDataWidth := v\<rparr>) (new_ADG\<lparr>g_bitWidth := w\<rparr>);
     a2 \<leftarrow> read_widths j a1;
     a3 \<leftarrow> opt_set j ''iob_ag_nest_levels'' (\<lambda>v a. a\<lparr>ag_iobAgNestLevels := v\<rparr>) a2;
     ms' \<leftarrow> read_modes j ms;
     a4 \<leftarrow> read_banks j a3;
     a5 \<leftarrow> opt_set j ''iob_spad_bank_size'' (\<lambda>v a. a\<lparr>ag_iobSpadBankSize := v\<rparr>) a4;
     a6 \<leftarrow> opt_set j ''cfg_spad_size'' (\<lambda>v a. a\<lparr>ag_cfgSpadSize := v\<rparr>) a5;
     Some (ms', a6) }"

section \<open>Edges\<close>

definition j_int_nth :: "json \<Rightarrow> nat \<Rightarrow> int option" where
  "j_int_nth j i = Option.bind (j_nth j i) j_int"

definition read_edge :: "string \<Rightarrow> json \<Rightarrow> gedge option" where
  "read_edge key edge = do {
     edgeId \<leftarrow> stoi key;
     srcId \<leftarrow> j_int_nth edge 0;
     srcPort \<leftarrow> j_int_nth edge 2;
     dstId \<leftarrow> j_int_nth edge 3;
     dstPort \<leftarrow> j_int_nth edge 5;
     Some \<lparr>ge_id = edgeId, ge_srcPortIdx = srcPort, ge_dstPortIdx = dstPort, ge_srcId = srcId, ge_dstId = dstId\<rparr> }"

definition parseADGEdges :: "json \<Rightarrow> ('b gnode_scheme) adg \<Rightarrow> ('b gnode_scheme) adg option" where
  "parseADGEdges edges a = mfold (\<lambda>a (key, edge). do { e \<leftarrow> read_edge key edge; adg_addEdge (ge_id e) e a }) a (j_items edges)"

section \<open>Modules and instances\<close>

text \<open>A module and whether an instance has taken its object.\<close>

type_synonym 'n modules = "(int, 'n \<times> bool) omap"

text \<open>The body of \<open>parseADG\<close> for any way of reading a module, an instance and of post-processing.\<close>

definition read_instance :: "('n modules \<Rightarrow> json \<Rightarrow> ('n option \<times> 'n modules) option) \<Rightarrow> 'n modules \<times> 'n adg \<Rightarrow> json \<Rightarrow>
    ('n modules \<times> 'n adg) option" where
  "read_instance inst s j = (case s of (mods, a) \<Rightarrow> do {
     (node, mods') \<leftarrow> inst mods j;
     nodeId \<leftarrow> j_int_at j ''id'';
     Some (mods', case node of Some n \<Rightarrow> adg_addNode nodeId n a | None \<Rightarrow> a\<lparr>g_id := nodeId\<rparr>) })"

definition parse_graph :: "(mode_names \<Rightarrow> json \<Rightarrow> (mode_names \<times> 'b gnode_scheme) option) \<Rightarrow>
    (('b gnode_scheme) modules \<Rightarrow> json \<Rightarrow> (('b gnode_scheme) option \<times> ('b gnode_scheme) modules) option) \<Rightarrow>
    (('b gnode_scheme) adg \<Rightarrow> ('b gnode_scheme) adg option) \<Rightarrow> mode_names \<Rightarrow> json \<Rightarrow> (mode_names \<times> ('b gnode_scheme) adg) option" where
  "parse_graph modl inst post ms j = do {
     (ms1, a1) \<leftarrow> read_head j ms;
     subs \<leftarrow> j_at j ''sub_modules'';
     (ms2, mods) \<leftarrow> mfold (\<lambda>(ms, mods) k. do { (ms', n) \<leftarrow> modl ms k; Some (ms', om_put mods (gn_id n) (n, False)) }) (ms1, []) (j_elems subs);
     insts \<leftarrow> j_at j ''instances'';
     (mods', a2) \<leftarrow> mfold (read_instance inst) (mods, a1) (j_elems insts);
     edges \<leftarrow> j_at j ''connections'';
     a3 \<leftarrow> parseADGEdges edges a2;
     a4 \<leftarrow> post a3;
     Some (ms2, a4) }"

definition is_functional :: "string \<Rightarrow> bool" where
  "is_functional ty \<longleftrightarrow> ty = ''GPE'' \<or> ty = ''GIB'' \<or> ty = ''IOB''"

definition set_name :: "string \<Rightarrow> int \<Rightarrow> 'a gnode_scheme \<Rightarrow> 'a gnode_scheme" where
  "set_name ty i n = n\<lparr>gn_id := i, gn_name := ty @ int_to_string i\<rparr>"

section \<open>Sub-ADGs\<close>

definition plain_module :: "mode_names \<Rightarrow> json \<Rightarrow> (mode_names \<times> gnode) option" where
  "plain_module ms j = do {
     ty \<leftarrow> j_str_at j ''type'';
     nodeId \<leftarrow> j_int_at j ''id'';
     (if is_functional ty then None
      else Some (ms, \<lparr>gn_id = nodeId, gn_name = [], gn_type = ty, gn_bitWidth = 0, gn_inputs = [], gn_outputs = [],
        gn_inputEdges = [], gn_outputEdges = []\<rparr>)) }"

definition plain_instance :: "gnode modules \<Rightarrow> json \<Rightarrow> (gnode option \<times> gnode modules) option" where
  "plain_instance mods j = do {
     ty \<leftarrow> j_str_at j ''type'';
     (if ty = ''This'' then Some (None, mods)
      else if is_functional ty then None
      else do {
        nodeId \<leftarrow> j_int_at j ''id'';
        moduleId \<leftarrow> j_int_at j ''module_id'';
        (modl, used) \<leftarrow> om_get mods moduleId;
        let n = set_name ty nodeId modl;
        Some (Some n, if used then mods else om_put mods moduleId (n, True)) }) }"

text \<open>A plain graph has no functional node: \<open>postProcess\<close> only sets the counters.\<close>

definition parse_sub :: "mode_names \<Rightarrow> json \<Rightarrow> (mode_names \<times> sub_adg) option" where
  "parse_sub = parse_graph plain_module plain_instance (\<lambda>a. Some (a\<lparr>ag_numGpeNodes := 0, ag_numIobNodes := 0\<rparr>))"

section \<open>Functional modules\<close>

definition new_ADGNode :: "int \<Rightarrow> string \<Rightarrow> anode" where
  "new_ADGNode i ty = \<lparr>gn_id = i, gn_name = [], gn_type = ty, gn_bitWidth = 0, gn_inputs = [], gn_outputs = [],
     gn_inputEdges = [], gn_outputEdges = [], an_cfgBlkIdx = 0, an_x = 0, an_y = 0, an_configInfo = [],
     an_subADG = None, an_maxDelay = 0, an_numOperands = 0, an_operations = [], an_operandInputs = [],
     an_cfgIdMap = [], an_index = 0, an_trackReged = False, an_outReged = [], an_out2ins = [], an_in2outs = []\<rparr>"

definition read_ids :: "json \<Rightarrow> string list \<Rightarrow> anode \<Rightarrow> anode option" where
  "read_ids j ks n = mfold (\<lambda>n k. do { v \<leftarrow> j_int_at j k; Some (n\<lparr>an_cfgIdMap := om_put (an_cfgIdMap n) k v\<rparr>) }) n ks"

definition gpe_attrs :: "json \<Rightarrow> anode \<Rightarrow> anode option" where
  "gpe_attrs attrs n = do {
     ops \<leftarrow> j_at attrs ''operations'';
     n1 \<leftarrow> mfold (\<lambda>n op. do { s \<leftarrow> j_str op; Some (fu_addOperation s n) }) n (j_elems ops);
     (if j_contains attrs ''affine_ctrl_reg_cfg_id''
      then do {
        ids \<leftarrow> j_at attrs ''affine_ctrl_reg_cfg_id'';
        read_ids ids [''InitVal'', ''Cycles'', ''WI'', ''Latency'', ''Repeats'', ''SkipFirst''] n1 }
      else Some n1) }"

text \<open>The lookup of an unknown mode inserts an empty name.\<close>

definition iob_attrs :: "mode_names \<Rightarrow> json \<Rightarrow> anode \<Rightarrow> (mode_names \<times> anode) option" where
  "iob_attrs ms attrs n = do {
     ids \<leftarrow> j_at attrs ''io_controller_cfg_id'';
     n1 \<leftarrow> read_ids ids [''BaseAddr'', ''II'', ''Latency'', ''IsStore''] n;
     n2 \<leftarrow> (if j_contains ids ''UseAddr'' then read_ids ids [''UseAddr''] n1 else Some n1);
     levels \<leftarrow> j_int_at attrs ''ag_nest_levels'';
     n3 \<leftarrow> read_ids ids (concat (map (\<lambda>i. [''Stride'' @ int_to_string (int i), ''Cycles'' @ int_to_string (int i)]) [0..<nat levels])) n2;
     mode \<leftarrow> j_int_at attrs ''iob_mode'';
     let ms' = (if om_has ms mode then ms else om_put ms mode []);
     let ops = (if om_at [] ms' mode = ''FIFO_MODE'' then [''INPUT'', ''OUTPUT''] else [''INPUT'', ''OUTPUT'', ''LOAD'', ''STORE'']);
     Some (ms', foldl (\<lambda>n op. fu_addOperation op n) n3 ops) }"

definition fu_attrs :: "json \<Rightarrow> anode \<Rightarrow> anode option" where
  "fu_attrs attrs n = do {
     d \<leftarrow> (if j_contains attrs ''max_delay'' then j_int_at attrs ''max_delay'' else Some 0);
     k \<leftarrow> j_int_at attrs ''num_operands'';
     fu_setNumOperands k (n\<lparr>an_maxDelay := d\<rparr>) }"

definition read_config :: "json \<Rightarrow> anode \<Rightarrow> anode option" where
  "read_config attrs n =
     (if j_contains attrs ''configuration''
      then do {
        tab \<leftarrow> j_at attrs ''configuration'';
        mfold (\<lambda>n (key, info). do {
          subModuleId \<leftarrow> stoi key;
          high \<leftarrow> j_int_nth info 1;
          low \<leftarrow> j_int_nth info 2;
          Some (anode_addConfigInfo subModuleId \<lparr>cl_low = low, cl_high = high\<rparr> n) }) n (j_items tab) }
      else Some n)"

definition functional_module :: "mode_names \<Rightarrow> string \<Rightarrow> int \<Rightarrow> json \<Rightarrow> (mode_names \<times> anode) option" where
  "functional_module ms ty nodeId attrs = do {
     let n = new_ADGNode nodeId ty;
     (ms1, n1) \<leftarrow> (if ty = ''GPE'' then do { n' \<leftarrow> gpe_attrs attrs n; n'' \<leftarrow> fu_attrs attrs n'; Some (ms, n'') }
       else if ty = ''IOB'' then do { (ms', n') \<leftarrow> iob_attrs ms attrs n; n'' \<leftarrow> fu_attrs attrs n'; Some (ms', n'') }
       else Some (ms, n));
     idx \<leftarrow> j_int_at attrs ''cfg_blk_index'';
     (ms2, sub) \<leftarrow> parse_sub ms1 attrs;
     n2 \<leftarrow> read_config attrs (n1\<lparr>an_cfgBlkIdx := idx, an_subADG := Some sub\<rparr>);
     Some (ms2, n2) }"

definition parse_module :: "mode_names \<Rightarrow> json \<Rightarrow> (mode_names \<times> anode) option" where
  "parse_module ms j = do {
     ty \<leftarrow> j_str_at j ''type'';
     nodeId \<leftarrow> j_int_at j ''id'';
     (if is_functional ty then do { attrs \<leftarrow> j_at j ''attributes''; functional_module ms ty nodeId attrs }
      else Some (ms, new_ADGNode nodeId ty)) }"

section \<open>Functional instances\<close>

text \<open>A copy of a functional node, with a copy of its sub-ADG.\<close>

definition copy_node :: "anode \<Rightarrow> anode option" where
  "copy_node modl = do { sub \<leftarrow> an_subADG modl; Some (modl\<lparr>an_subADG := Some (adg_assign new_ADG sub)\<rparr>) }"

definition instance_attrs :: "string \<Rightarrow> json \<Rightarrow> anode \<Rightarrow> anode option" where
  "instance_attrs ty j n = do {
     n1 \<leftarrow> (if ty = ''GPE'' then do { d \<leftarrow> j_int_at j ''max_delay''; Some (n\<lparr>an_maxDelay := d\<rparr>) }
       else if ty = ''IOB'' then do {
         k \<leftarrow> j_int_at j ''iob_index''; d \<leftarrow> j_int_at j ''max_delay''; Some (n\<lparr>an_index := k, an_maxDelay := d\<rparr>) }
       else do { v \<leftarrow> j_at j ''track_reged''; r \<leftarrow> j_bool v; Some (n\<lparr>an_trackReged := r\<rparr>) });
     idx \<leftarrow> j_int_at j ''cfg_blk_index'';
     x \<leftarrow> j_int_at j ''x'';
     y \<leftarrow> j_int_at j ''y'';
     Some (n1\<lparr>an_cfgBlkIdx := idx, an_x := x, an_y := y\<rparr>) }"

text \<open>A functional instance whose module has another class is a null \<open>dynamic_cast\<close>; a plain copy of
  a functional module would be one in \<open>postProcess\<close>.\<close>

definition instance_object :: "string \<Rightarrow> json \<Rightarrow> anode \<Rightarrow> bool \<Rightarrow> anode option" where
  "instance_object ty j modl used =
     (if is_functional ty
      then (if gn_type modl \<noteq> ty then None
            else do { n \<leftarrow> (if used then copy_node modl else Some modl); instance_attrs ty j n })
      else if used \<and> is_functional (gn_type modl) then None
      else Some modl)"

definition parse_instance :: "anode modules \<Rightarrow> json \<Rightarrow> (anode option \<times> anode modules) option" where
  "parse_instance mods j = do {
     ty \<leftarrow> j_str_at j ''type'';
     (if ty = ''This'' then Some (None, mods)
      else do {
        nodeId \<leftarrow> j_int_at j ''id'';
        moduleId \<leftarrow> j_int_at j ''module_id'';
        (modl, used) \<leftarrow> om_get mods moduleId;
        n \<leftarrow> instance_object ty j modl used;
        let n' = set_name ty nodeId n;
        Some (Some n', if used then mods else om_put mods moduleId (n', True)) }) }"

section \<open>Analysis\<close>

text \<open>From an input of the sub-ADG to the unit of the given type: through the only output of every
  sub-module, or the one with the number of the input it came in.\<close>

partial_function (option) walk_to :: "string \<Rightarrow> sub_adg \<Rightarrow> int \<Rightarrow> int \<Rightarrow> int option" where
  "walk_to ty sub n opeIdx = (case adg_node sub n of None \<Rightarrow> None
     | Some nd \<Rightarrow>
        if gn_type nd = ty then Some opeIdx
        else (case gnode_output nd (if length (gn_outputs nd) = 1 then 0 else opeIdx) of
            [] \<Rightarrow> None
          | d # _ \<Rightarrow> walk_to ty sub (fst d) (snd d)))"

declare walk_to.simps [code]

definition analyze_fu :: "string \<Rightarrow> anode \<Rightarrow> anode option" where
  "analyze_fu ty n = do {
     sub \<leftarrow> an_subADG n;
     mfold (\<lambda>n (port, dsts). (case dsts of [] \<Rightarrow> None
       | d # _ \<Rightarrow> do { opeIdx \<leftarrow> walk_to ty sub (fst d) (snd d); fu_addOperandInput opeIdx port n })) n (g_inputs sub) }"

text \<open>Where an input port of an interconnect block leads: a wire, or the output of the first
  multiplexer.\<close>

definition out_port :: "sub_adg \<Rightarrow> int \<times> int \<Rightarrow> int option" where
  "out_port sub d =
     (if fst d = g_id sub then Some (snd d)
      else do {
        nd \<leftarrow> adg_node sub (fst d);
        (case gnode_output nd 0 of [] \<Rightarrow> None | o' # _ \<Rightarrow> Some (snd o')) })"

definition analyze_gib :: "anode \<Rightarrow> anode option" where
  "analyze_gib n = do {
     sub \<leftarrow> an_subADG n;
     mfold (\<lambda>n (inPort, dsts). mfold (\<lambda>n d. do {
         outPort \<leftarrow> out_port sub d;
         Some (gib_addOut2ins outPort inPort (gib_addIn2outs inPort outPort n)) }) n dsts) n (g_inputs sub) }"

definition analyzeOutReg :: "top_adg \<Rightarrow> anode \<Rightarrow> anode option" where
  "analyzeOutReg a n = mfold (\<lambda>n (port, dsts). (case dsts of [] \<Rightarrow> None
     | d # _ \<Rightarrow> do {
         r \<leftarrow> (if an_trackReged n then do { nd \<leftarrow> adg_node a (fst d); Some (gn_type nd = ''GIB'') } else Some False);
         Some (gib_setOutReged port r n) })) n (gn_outputs n)"

definition analyze_node :: "top_adg \<Rightarrow> anode \<Rightarrow> anode option" where
  "analyze_node a n =
     (if gn_type n = ''GPE'' then analyze_fu ''ALU'' n
      else if gn_type n = ''IOB'' then analyze_fu ''IOController'' n
      else if gn_type n = ''GIB'' then Option.bind (analyze_gib n) (analyzeOutReg a)
      else Some n)"

definition count_type :: "string \<Rightarrow> top_adg \<Rightarrow> int" where
  "count_type ty a = int (length (filter (\<lambda>(k, n). gn_type n = ty) (ag_nodes a)))"

definition postProcess :: "top_adg \<Rightarrow> top_adg option" where
  "postProcess a = do {
     a' \<leftarrow> mfold (\<lambda>a (k, n). do { n' \<leftarrow> analyze_node a n; Some (adg_addNode k n' a) }) a (ag_nodes a);
     Some (a'\<lparr>ag_numGpeNodes := count_type ''GPE'' a, ag_numIobNodes := count_type ''IOB'' a\<rparr>) }"

definition parseADG :: "mode_names \<Rightarrow> json \<Rightarrow> (mode_names \<times> top_adg) option" where
  "parseADG = parse_graph parse_module parse_instance postProcess"

end
