(* ===== verification/AdgReaderCorrect.thy ===== *)
theory AdgReaderCorrect
  imports AdgReader SaCorrect
begin

text \<open>
  What reading an architecture gives: the ports of every node are exactly the connections of the
  file, its operands and its crossbar are exactly what the inside of the node connects, and the
  ADG is one on which the mapper's theorems hold.
\<close>

section \<open>Modules and instances\<close>

lemma mfold_seen:
  assumes "mfold f s xs = Some t" and "J [] s"
    and "\<And>us x vs u v. xs = us @ x # vs \<Longrightarrow> J us u \<Longrightarrow> f u x = Some v \<Longrightarrow> J (us @ [x]) v"
  shows "J xs t"
proof -
  have "xs = us @ vs \<Longrightarrow> J us s \<Longrightarrow> mfold f s vs = Some t \<Longrightarrow> J xs t" for us vs s
  proof (induction vs arbitrary: us s)
    case (Cons x vs)
    obtain s1 where s1: "f s x = Some s1" "mfold f s1 vs = Some t" using Cons.prems(3) by (auto split: bind_splits)
    have "J (us @ [x]) s1" using assms(3)[OF Cons.prems(1,2) s1(1)] .
    with Cons.IH[of "us @ [x]"] s1(2) Cons.prems(1) show ?case by simp
  qed simp
  from this[of "[]" xs s] show ?thesis using assms(1,2) by simp
qed

text \<open>A node that nothing has been connected to.\<close>

definition fresh_node :: "anode \<Rightarrow> bool" where
  "fresh_node n \<longleftrightarrow> gn_inputs n = [] \<and> gn_outputs n = [] \<and> an_out2ins n = [] \<and> an_in2outs n = [] \<and>
     (\<forall>s \<in> set (an_operandInputs n). s = [])"

lemma fresh_read_ids: "read_ids j ks n = Some n' \<Longrightarrow> fresh_node n \<Longrightarrow> fresh_node n' \<and> gn_type n' = gn_type n \<and> gn_id n' = gn_id n"
  unfolding read_ids_def
  by (erule mfold_inv[where P = "\<lambda>m. fresh_node m \<and> gn_type m = gn_type n \<and> gn_id m = gn_id n"]) (auto simp: fresh_node_def split: bind_splits)

lemma fresh_gpe: "gpe_attrs attrs n = Some n' \<Longrightarrow> fresh_node n \<Longrightarrow> fresh_node n' \<and> gn_type n' = gn_type n \<and> gn_id n' = gn_id n"
proof -
  assume a: "gpe_attrs attrs n = Some n'" "fresh_node n"
  then obtain ops n1 where o: "mfold (\<lambda>n op. do { s \<leftarrow> j_str op; Some (fu_addOperation s n) }) n (j_elems ops) = Some n1"
    and r: "n' = n1 \<or> (\<exists>ids ks. read_ids ids ks n1 = Some n')" by (auto simp: gpe_attrs_def split: bind_splits if_splits)
  have "fresh_node n1 \<and> gn_type n1 = gn_type n \<and> gn_id n1 = gn_id n"
    using o a(2) by (elim mfold_inv[where P = "\<lambda>m. fresh_node m \<and> gn_type m = gn_type n \<and> gn_id m = gn_id n"])
      (auto simp: fresh_node_def fu_addOperation_def split: bind_splits)
  then show ?thesis using r fresh_read_ids by fastforce
qed

lemma fresh_op: "fresh_node (fu_addOperation op n) = fresh_node n" "gn_type (fu_addOperation op n) = gn_type n" "gn_id (fu_addOperation op n) = gn_id n"
  by (simp_all add: fresh_node_def fu_addOperation_def)

lemma fresh_iob: "iob_attrs ms attrs n = Some (ms', n') \<Longrightarrow> fresh_node n \<Longrightarrow> fresh_node n' \<and> gn_type n' = gn_type n \<and> gn_id n' = gn_id n"
  unfolding iob_attrs_def Let_def by (auto simp: fresh_op dest!: fresh_read_ids split: bind_splits if_splits)

lemma fresh_fu: "fu_attrs attrs n = Some n' \<Longrightarrow> fresh_node n \<Longrightarrow> fresh_node n' \<and> gn_type n' = gn_type n \<and> gn_id n' = gn_id n"
  by (auto simp: fu_attrs_def fu_setNumOperands_def fresh_node_def dest!: in_set_takeD split: bind_splits if_splits)

lemma fresh_config: "read_config attrs n = Some n' \<Longrightarrow> fresh_node n \<Longrightarrow> fresh_node n' \<and> gn_type n' = gn_type n \<and> gn_id n' = gn_id n"
proof -
  assume a: "read_config attrs n = Some n'" "fresh_node n"
  let ?step = "\<lambda>n (key, info). do { subModuleId \<leftarrow> stoi key; high \<leftarrow> j_int_nth info 1; low \<leftarrow> j_int_nth info 2;
    Some (anode_addConfigInfo subModuleId \<lparr>cl_low = low, cl_high = high\<rparr> n) }"
  have "n' = n \<or> (\<exists>tab. mfold ?step n (j_items tab) = Some n')" using a(1) by (auto simp: read_config_def split: bind_splits if_splits)
  then show ?thesis
  proof (elim disjE exE)
    fix tab assume "mfold ?step n (j_items tab) = Some n'"
    then show ?thesis using a(2)
      by (elim mfold_inv[where P = "\<lambda>m. fresh_node m \<and> gn_type m = gn_type n \<and> gn_id m = gn_id n"])
        (auto simp: fresh_node_def anode_addConfigInfo_def split: bind_splits)
  qed (use a in simp)
qed

lemma fresh_new: "fresh_node (new_ADGNode i ty)" "gn_type (new_ADGNode i ty) = ty" "gn_id (new_ADGNode i ty) = i"
  by (simp_all add: fresh_node_def new_ADGNode_def)

lemma fresh_module:
  assumes "parse_module ms j = Some (ms', n)"
  shows "fresh_node n"
proof -
  have "(\<exists>ty i attrs. functional_module ms ty i attrs = Some (ms', n)) \<or> (\<exists>ty i. n = new_ADGNode i ty)"
    using assms by (auto simp: parse_module_def split: bind_splits if_splits)
  then show ?thesis
  proof (elim disjE exE)
    fix ty i attrs assume f: "functional_module ms ty i attrs = Some (ms', n)"
    then obtain ms1 n1 idx sub where p: "(if ty = ''GPE'' then do { n' \<leftarrow> gpe_attrs attrs (new_ADGNode i ty); n'' \<leftarrow> fu_attrs attrs n'; Some (ms, n'') }
       else if ty = ''IOB'' then do { (ms', n') \<leftarrow> iob_attrs ms attrs (new_ADGNode i ty); n'' \<leftarrow> fu_attrs attrs n'; Some (ms', n'') }
       else Some (ms, new_ADGNode i ty)) = Some (ms1, n1)"
      and r: "read_config attrs (n1\<lparr>an_cfgBlkIdx := idx, an_subADG := Some sub\<rparr>) = Some n"
      unfolding functional_module_def Let_def by (auto split: bind_splits)
    have n1: "fresh_node n1" using p fresh_gpe fresh_iob fresh_fu fresh_new(1) by (auto split: if_splits bind_splits)
    have "fresh_node (n1\<lparr>an_cfgBlkIdx := idx, an_subADG := Some sub\<rparr>)" using n1 by (simp add: fresh_node_def)
    then show "fresh_node n" using fresh_config[OF r] by simp
  qed (simp add: fresh_new)
qed

definition fresh_modules :: "anode modules \<Rightarrow> bool" where
  "fresh_modules mods \<longleftrightarrow> (\<forall>i m u. om_get mods i = Some (m, u) \<longrightarrow> fresh_node m)"

text \<open>Instances of the architectures the mapper is for: functional ones with no negative delay.\<close>

definition instance_ok :: "json \<Rightarrow> bool" where
  "instance_ok j \<longleftrightarrow> (case j_str_at j ''type'' of None \<Rightarrow> False
     | Some ty \<Rightarrow> ty = ''This'' \<or> is_functional ty \<and> (case j_int_at j ''max_delay'' of None \<Rightarrow> True | Some d \<Rightarrow> 0 \<le> d))"

definition unit_ok :: "anode \<Rightarrow> bool" where
  "unit_ok n \<longleftrightarrow> (is_fu n \<or> is_gib n) \<and> (is_fu n \<longrightarrow> 0 \<le> an_maxDelay n)"

lemma fresh_modules_put: "fresh_modules mods \<Longrightarrow> fresh_node m \<Longrightarrow> fresh_modules (om_put mods i (m, u))"
  unfolding fresh_modules_def by auto

lemma fresh_attrs:
  assumes "instance_attrs ty j n = Some n'" "fresh_node n"
  shows "fresh_node n'" "gn_type n' = gn_type n" "ty = ''GPE'' \<or> ty = ''IOB'' \<Longrightarrow> j_int_at j ''max_delay'' = Some (an_maxDelay n')"
  using assms by (auto simp: instance_attrs_def fresh_node_def split: bind_splits if_splits)

lemma fresh_copy: "copy_node m = Some n \<Longrightarrow> fresh_node m \<Longrightarrow> fresh_node n \<and> gn_type n = gn_type m"
  by (auto simp: copy_node_def fresh_node_def split: bind_splits)

lemma fresh_name [simp]: "fresh_node (set_name ty i n) = fresh_node n" "gn_type (set_name ty i n) = gn_type n" "gn_id (set_name ty i n) = i"
  "unit_ok (set_name ty i n) = unit_ok n"
  by (simp_all add: fresh_node_def set_name_def unit_ok_def is_fu_def is_gib_def)

lemma instance_This: "parse_instance mods j = Some (None, mods') \<Longrightarrow> j_str_at j ''type'' = Some ''This'' \<and> mods' = mods"
  by (auto simp: parse_instance_def Let_def split: bind_splits if_splits)

lemma instance_node:
  assumes p: "parse_instance mods j = Some (Some n, mods')" and mods: "fresh_modules mods"
  shows "fresh_node n" "fresh_modules mods'" "j_int_at j ''id'' = Some (gn_id n)" "instance_ok j \<Longrightarrow> unit_ok n"
proof -
  obtain ty where ty: "j_str_at j ''type'' = Some ty" using p by (cases "j_str_at j ''type''") (simp_all add: parse_instance_def)
  have nt: "ty \<noteq> ''This''" using p ty by (auto simp: parse_instance_def)
  have p1: "do { nodeId \<leftarrow> j_int_at j ''id''; moduleId \<leftarrow> j_int_at j ''module_id''; (modl, used) \<leftarrow> om_get mods moduleId;
        n \<leftarrow> instance_object ty j modl used;
        Some (Some (set_name ty nodeId n), if used then mods else om_put mods moduleId (set_name ty nodeId n, True)) } = Some (Some n, mods')"
    using p ty nt by (simp add: parse_instance_def Let_def)
  obtain nodeId where id: "j_int_at j ''id'' = Some nodeId" using p1 by (cases "j_int_at j ''id''") simp_all
  obtain moduleId where mid: "j_int_at j ''module_id'' = Some moduleId" using p1 id by (cases "j_int_at j ''module_id''") simp_all
  obtain modl used where m: "om_get mods moduleId = Some (modl, used)" using p1 id mid by (cases "om_get mods moduleId") auto
  obtain n0 where n0: "instance_object ty j modl used = Some n0" using p1 id mid m by (cases "instance_object ty j modl used") simp_all
  have n: "n = set_name ty nodeId n0" and mods': "mods' = (if used then mods else om_put mods moduleId (n, True))"
    using p1 id mid m n0 by auto
  note j = ty nt id
  have fm: "fresh_node modl" using mods m unfolding fresh_modules_def by blast
  have cp: "x = modl \<or> copy_node modl = Some x \<Longrightarrow> fresh_node x \<and> gn_type x = gn_type modl" for x using fm fresh_copy by blast
  have f: "fresh_node n0 \<and> (is_functional ty \<longrightarrow> gn_type n0 = ty \<and> (ty = ''GPE'' \<or> ty = ''IOB'' \<longrightarrow> j_int_at j ''max_delay'' = Some (an_maxDelay n0)))"
  proof (cases "is_functional ty")
    case True
    then obtain x where x: "x = modl \<or> copy_node modl = Some x" "instance_attrs ty j x = Some n0" "gn_type modl = ty"
      using n0 by (auto simp: instance_object_def split: bind_splits if_splits)
    have "fresh_node x" "gn_type x = ty" using cp[OF x(1)] x(3) by auto
    then show ?thesis using fresh_attrs[OF x(2)] by simp
  qed (use n0 fm in \<open>auto simp: instance_object_def split: if_splits\<close>)
  show "fresh_node n" using f n by simp
  then show "fresh_modules mods'" using mods mods' by (auto simp: fresh_modules_def)
  show "j_int_at j ''id'' = Some (gn_id n)" using j(3) n by simp
  assume "instance_ok j"
  then have "is_functional ty" "\<forall>d. j_int_at j ''max_delay'' = Some d \<longrightarrow> 0 \<le> d" using j(1,2) by (auto simp: instance_ok_def split: option.splits)
  then show "unit_ok n" using f n by (auto simp: unit_ok_def is_fu_def is_gib_def is_functional_def set_name_def)
qed

text \<open>The nodes when all instances have been read.\<close>

definition read_nodes_ok :: "json list \<Rightarrow> top_adg \<Rightarrow> bool" where
  "read_nodes_ok us a \<longleftrightarrow> om_wf (ag_nodes a) \<and>
     (\<forall>k n. adg_node a k = Some n \<longrightarrow> fresh_node n \<and> gn_id n = k \<and> ((\<forall>j \<in> set us. instance_ok j) \<longrightarrow> unit_ok n)) \<and>
     (\<forall>j \<in> set us. j_str_at j ''type'' = Some ''This'' \<longrightarrow> (\<exists>i \<in> set us. j_str_at i ''type'' = Some ''This'' \<and> j_int_at i ''id'' = Some (g_id a)))"

lemma read_instances:
  assumes "mfold (read_instance parse_instance) (mods, a0) js = Some (mods', a)" "fresh_modules mods" "ag_nodes a0 = []"
  shows "read_nodes_ok js a"
proof -
  have "case (mods', a) of (mods, a) \<Rightarrow> fresh_modules mods \<and> read_nodes_ok js a"
  proof (rule mfold_seen[OF assms(1), where J = "\<lambda>us s. case s of (mods, a) \<Rightarrow> fresh_modules mods \<and> read_nodes_ok us a"])
    show "case (mods, a0) of (mods, a) \<Rightarrow> fresh_modules mods \<and> read_nodes_ok [] a"
      using assms(2,3) by (simp add: read_nodes_ok_def adg_node_def)
    fix us j vs s t assume J: "case s of (mods, a) \<Rightarrow> fresh_modules mods \<and> read_nodes_ok us a"
      and st: "read_instance parse_instance s j = Some t"
    obtain m1 a1 where s: "s = (m1, a1)" by (cases s)
    obtain node m2 i where r: "parse_instance m1 j = Some (node, m2)" "j_int_at j ''id'' = Some i"
      "t = (m2, case node of Some n \<Rightarrow> adg_addNode i n a1 | None \<Rightarrow> a1\<lparr>g_id := i\<rparr>)"
      using st s by (auto simp: read_instance_def split: bind_splits)
    show "case t of (mods, a) \<Rightarrow> fresh_modules mods \<and> read_nodes_ok (us @ [j]) a"
    proof (cases node)
      case None
      then show ?thesis using instance_This[of m1 j m2] r J s by (auto simp: read_nodes_ok_def adg_node_def)
    next
      case (Some n)
      have m: "fresh_modules m1" and a1: "read_nodes_ok us a1" using J s by auto
      have p: "parse_instance m1 j = Some (Some n, m2)" using r(1) Some by simp
      note f = instance_node[OF p m]
      have i: "gn_id n = i" using f(3) r(2) by simp
      have nt: "j_str_at j ''type'' \<noteq> Some ''This''" using p by (auto simp: parse_instance_def)
      have "read_nodes_ok (us @ [j]) (adg_addNode i n a1)"
        using a1 f(1,4) i nt by (auto simp: read_nodes_ok_def adg_node_def adg_addNode_def)
      then show ?thesis using f(2) r(3) Some by simp
    qed
  qed
  then show ?thesis by simp
qed

section \<open>Connections\<close>

text \<open>What a connection does to the node with id \<open>k\<close> in a graph with id \<open>i\<close>.\<close>

definition wire :: "int \<Rightarrow> int \<Rightarrow> anode \<Rightarrow> gedge \<Rightarrow> anode" where
  "wire i k n e =
     (let n1 = (if ge_srcId e = k \<and> k \<noteq> i then gnode_addOutput (ge_srcPortIdx e) (ge_dstId e, ge_dstPortIdx e) n else n)
      in if ge_dstId e = k \<and> k \<noteq> i then gnode_addInput (ge_dstPortIdx e) (ge_srcId e, ge_srcPortIdx e) n1 else n1)"

definition wired :: "int \<Rightarrow> int \<Rightarrow> anode \<Rightarrow> gedge list \<Rightarrow> anode" where
  "wired i k n es = foldl (wire i k) n es"

lemma addEdge_wire:
  assumes "adg_addEdge eid e a = Some (a' :: top_adg)" "om_wf (ag_nodes a)"
  shows "g_id a' = g_id a" "om_wf (ag_nodes a')" "adg_node a' k = map_option (\<lambda>n. wire (g_id a) k n e) (adg_node a k)"
    "ge_srcId e = g_id a \<or> om_has (ag_nodes a) (ge_srcId e)"
proof -
  let ?a = "a\<lparr>ag_edges := om_put (ag_edges a) eid e\<rparr>"
  obtain a1 where a1: "(if ge_srcId e = g_id a then Some (graph_addInput (ge_srcPortIdx e) (ge_dstId e, ge_dstPortIdx e) ?a)
      else adg_updNode (ge_srcId e) (gnode_addOutput (ge_srcPortIdx e) (ge_dstId e, ge_dstPortIdx e)) ?a) = Some a1"
    and a2: "(if ge_dstId e = g_id a then Some (graph_addOutput (ge_dstPortIdx e) (ge_srcId e, ge_srcPortIdx e) a1)
      else adg_updNode (ge_dstId e) (gnode_addInput (ge_dstPortIdx e) (ge_srcId e, ge_srcPortIdx e)) a1) = Some a'"
    using assms(1) unfolding adg_addEdge_def Let_def by (auto split: bind_splits)
  have s1: "g_id a1 = g_id a" "om_wf (ag_nodes a1)"
    "adg_node a1 k = (if ge_srcId e = k \<and> k \<noteq> g_id a then map_option (gnode_addOutput (ge_srcPortIdx e) (ge_dstId e, ge_dstPortIdx e)) (adg_node a k) else adg_node a k)"
    for k using a1 assms(2) by (auto simp: adg_updNode_def graph_addInput_def adg_node_def split: if_splits option.splits)
  have s2: "g_id a' = g_id a1" "om_wf (ag_nodes a')"
    "adg_node a' k = (if ge_dstId e = k \<and> k \<noteq> g_id a then map_option (gnode_addInput (ge_dstPortIdx e) (ge_srcId e, ge_srcPortIdx e)) (adg_node a1 k) else adg_node a1 k)"
    for k using a2 s1(1,2) by (auto simp: adg_updNode_def graph_addOutput_def adg_node_def split: if_splits option.splits)
  show "g_id a' = g_id a" "om_wf (ag_nodes a')" using s1(1) s2(1,2) by simp_all
  show "adg_node a' k = map_option (\<lambda>n. wire (g_id a) k n e) (adg_node a k)"
    unfolding s2(3) s1(3) by (cases "adg_node a k") (simp_all add: wire_def Let_def)
  show "ge_srcId e = g_id a \<or> om_has (ag_nodes a) (ge_srcId e)"
    using a1 by (auto simp: adg_updNode_def om_has_def split: if_splits option.splits)
qed

definition conns :: "json \<Rightarrow> gedge list" where
  "conns edges = List.map_filter (\<lambda>(key, e). read_edge key e) (j_items edges)"

lemma parseEdges_wired:
  assumes "parseADGEdges edges a = Some (a' :: top_adg)" "om_wf (ag_nodes a)"
  shows "g_id a' = g_id a" "om_wf (ag_nodes a')" "adg_node a' k = map_option (\<lambda>n. wired (g_id a) k n (conns edges)) (adg_node a k)"
    "e \<in> set (conns edges) \<Longrightarrow> ge_srcId e = g_id a \<or> om_has (ag_nodes a) (ge_srcId e)"
proof -
  let ?f = "\<lambda>(key, e). read_edge key e"
  define J where "J us s \<longleftrightarrow> g_id s = g_id a \<and> om_wf (ag_nodes s) \<and>
      (\<forall>k. adg_node s k = map_option (\<lambda>n. wired (g_id a) k n (List.map_filter ?f us)) (adg_node a k)) \<and>
      (\<forall>e \<in> set (List.map_filter ?f us). ge_srcId e = g_id a \<or> om_has (ag_nodes a) (ge_srcId e))" for us and s :: top_adg
  have "J (j_items edges) a'"
  proof (rule mfold_seen[OF assms(1)[unfolded parseADGEdges_def]])
    show "J [] a" using assms(2) by (simp add: J_def wired_def List.map_filter_def option.map_ident)
    fix us x vs s t assume J: "J us s" and st: "(case x of (key, edge) \<Rightarrow> Option.bind (read_edge key edge) (\<lambda>e. adg_addEdge (ge_id e) e s)) = Some t"
    obtain key edge where x: "x = (key, edge)" by (cases x)
    obtain e where e: "read_edge key edge = Some e" "adg_addEdge (ge_id e) e s = Some t" using st x by (auto split: bind_splits)
    have s: "g_id s = g_id a" "om_wf (ag_nodes s)"
      "\<And>k. adg_node s k = map_option (\<lambda>n. wired (g_id a) k n (List.map_filter ?f us)) (adg_node a k)"
      "\<forall>e \<in> set (List.map_filter ?f us). ge_srcId e = g_id a \<or> om_has (ag_nodes a) (ge_srcId e)" using J unfolding J_def by auto
    note w = addEdge_wire[OF e(2) s(2)]
    have mf: "List.map_filter ?f (us @ [x]) = List.map_filter ?f us @ [e]" using e(1) x by (simp add: List.map_filter_def)
    have "om_has (ag_nodes s) k = om_has (ag_nodes a) k" for k using s(3)[of k] by (auto simp: om_has_def adg_node_def split: option.splits)
    then have "ge_srcId e = g_id a \<or> om_has (ag_nodes a) (ge_srcId e)" using w(4) s(1) by simp
    moreover have "adg_node t k = map_option (\<lambda>n. wired (g_id a) k n (List.map_filter ?f (us @ [x]))) (adg_node a k)" for k
      unfolding w(3) s(1,3) mf by (simp add: wired_def option.map_comp comp_def)
    ultimately show "J (us @ [x]) t" using w(1,2) s(1,4) unfolding J_def mf by auto
  qed
  then show "g_id a' = g_id a" "om_wf (ag_nodes a')" "adg_node a' k = map_option (\<lambda>n. wired (g_id a) k n (conns edges)) (adg_node a k)"
    "e \<in> set (conns edges) \<Longrightarrow> ge_srcId e = g_id a \<or> om_has (ag_nodes a) (ge_srcId e)" unfolding J_def conns_def by blast+
qed

text \<open>The ports of a node after the connections.\<close>

lemma wired_snoc: "wired i k n (es @ [e]) = wire i k (wired i k n es) e"
  by (simp add: wired_def)

lemma wire_ports:
  "om_get (gn_inputs (wire i k n e)) p = (if ge_dstId e = k \<and> k \<noteq> i \<and> p = ge_dstPortIdx e then Some (ge_srcId e, ge_srcPortIdx e) else om_get (gn_inputs n) p)"
  "set (gnode_output (wire i k n e) p) = (if ge_srcId e = k \<and> k \<noteq> i \<and> p = ge_srcPortIdx e then insert (ge_dstId e, ge_dstPortIdx e) (set (gnode_output n p)) else set (gnode_output n p))"
  by (auto simp: wire_def Let_def gnode_addInput_def gnode_addOutput_def gnode_output_def)

lemma wired_ports:
  assumes "gn_inputs n = []" "gn_outputs n = []"
  shows "om_get (gn_inputs (wired i k n es)) p = Some d \<Longrightarrow> k \<noteq> i \<and> (\<exists>e \<in> set es. ge_dstId e = k \<and> ge_dstPortIdx e = p \<and> d = (ge_srcId e, ge_srcPortIdx e))"
    and "k \<noteq> i \<Longrightarrow> e \<in> set es \<Longrightarrow> ge_dstId e = k \<Longrightarrow> om_has (gn_inputs (wired i k n es)) (ge_dstPortIdx e)"
    and "k \<noteq> i \<Longrightarrow> d \<in> set (gnode_output (wired i k n es) p) \<longleftrightarrow> (\<exists>e \<in> set es. ge_srcId e = k \<and> ge_srcPortIdx e = p \<and> d = (ge_dstId e, ge_dstPortIdx e))"
proof (induction es rule: rev_induct)
  case Nil
  { case 1 then show ?case using assms by (simp add: wired_def) }
  { case 2 then show ?case by simp }
  { case 3 then show ?case using assms by (simp add: wired_def gnode_output_def om_at_def) }
next
  case (snoc x es)
  { case 1 then show ?case using snoc(1) by (auto simp: wired_snoc wire_ports split: if_splits) }
  { case 2 then show ?case using snoc(2) by (auto simp: wired_snoc om_has_def wire_ports) }
  { case 3 then show ?case using snoc(3) by (auto simp: wired_snoc wire_ports) }
qed

text \<open>What the connections leave alone.\<close>

definition unwired :: "anode \<Rightarrow> anode" where
  "unwired n = n\<lparr>gn_inputs := [], gn_outputs := []\<rparr>"

lemma wired_frame: "unwired (wired i k n es) = unwired n"
  by (induction es rule: rev_induct) (auto simp: wired_snoc wired_def wire_def Let_def unwired_def gnode_addInput_def gnode_addOutput_def)

section \<open>The inside of a node\<close>

text \<open>What the analysis leaves alone.\<close>

definition same_shell :: "anode \<Rightarrow> anode \<Rightarrow> bool" where
  "same_shell n n' \<longleftrightarrow> gn_id n' = gn_id n \<and> gn_type n' = gn_type n \<and> gn_inputs n' = gn_inputs n \<and> gn_outputs n' = gn_outputs n \<and>
     an_maxDelay n' = an_maxDelay n \<and> an_trackReged n' = an_trackReged n \<and> an_subADG n' = an_subADG n \<and>
     length (an_operandInputs n') = length (an_operandInputs n)"

text \<open>The crossbar that the inside of an interconnect block gives.\<close>

definition gib_link :: "sub_adg \<Rightarrow> (int \<times> (int \<times> int) oset) list \<Rightarrow> int \<Rightarrow> int \<Rightarrow> bool" where
  "gib_link sub tab i q \<longleftrightarrow> (\<exists>ds d. (i, ds) \<in> set tab \<and> d \<in> set ds \<and> out_port sub d = Some q)"

definition gib_state :: "anode \<Rightarrow> (int \<Rightarrow> int \<Rightarrow> bool) \<Rightarrow> anode \<Rightarrow> bool" where
  "gib_state n0 R n \<longleftrightarrow> same_shell n0 n \<and> an_operandInputs n = an_operandInputs n0 \<and>
     (\<forall>i q. i \<in> set (gib_out2ins n q) \<longleftrightarrow> om_has (gn_inputs n0) i \<and> om_has (gn_outputs n0) q \<and> R i q) \<and>
     (\<forall>i q. q \<in> set (gib_in2outs n i) \<longleftrightarrow> om_has (gn_inputs n0) i \<and> om_has (gn_outputs n0) q \<and> R i q)"

lemma gib_state_add:
  assumes "gib_state n0 R n" "\<And>i q. R' i q \<longleftrightarrow> R i q \<or> i = p \<and> q = o'"
  shows "gib_state n0 R' (gib_addOut2ins o' p (gib_addIn2outs p o' n))"
  using assms by (auto simp: gib_state_def same_shell_def gib_addOut2ins_def gib_addIn2outs_def gib_out2ins_def gib_in2outs_def)

lemma analyze_gib_exact:
  assumes run: "analyze_gib n = Some n'" and sub: "an_subADG n = Some sub" and fresh: "an_out2ins n = []" "an_in2outs n = []"
  shows "gib_state n (gib_link sub (g_inputs sub)) n'"
proof -
  let ?in = "\<lambda>p n d. do { o' \<leftarrow> out_port sub d; Some (gib_addOut2ins o' p (gib_addIn2outs p o' n)) }"
  have run': "mfold (\<lambda>n (p, dsts). mfold (?in p) n dsts) n (g_inputs sub) = Some n'" using run sub by (simp add: analyze_gib_def)
  show ?thesis
  proof (rule mfold_seen[OF run', where J = "\<lambda>us. gib_state n (gib_link sub us)"])
    show "gib_state n (gib_link sub []) n"
      using fresh by (simp add: gib_state_def gib_link_def same_shell_def gib_out2ins_def gib_in2outs_def om_at_def)
    fix us x vs u v assume J: "gib_state n (gib_link sub us) u" and st: "(case x of (p, dsts) \<Rightarrow> mfold (?in p) u dsts) = Some v"
    obtain p dsts where x: "x = (p, dsts)" by (cases x)
    have "gib_state n (\<lambda>i q. gib_link sub us i q \<or> i = p \<and> (\<exists>d \<in> set dsts. out_port sub d = Some q)) v"
    proof (rule mfold_seen[where J = "\<lambda>ds. gib_state n (\<lambda>i q. gib_link sub us i q \<or> i = p \<and> (\<exists>d \<in> set ds. out_port sub d = Some q))"])
      show "mfold (?in p) u dsts = Some v" using st x by simp
      show "gib_state n (\<lambda>i q. gib_link sub us i q \<or> i = p \<and> (\<exists>d \<in> set []. out_port sub d = Some q)) u" using J by simp
      fix ds d ds' m m' assume m: "gib_state n (\<lambda>i q. gib_link sub us i q \<or> i = p \<and> (\<exists>d \<in> set ds. out_port sub d = Some q)) m"
        and st': "?in p m d = Some m'"
      obtain o' where o': "out_port sub d = Some o'" "m' = gib_addOut2ins o' p (gib_addIn2outs p o' m)" using st' by (auto split: bind_splits)
      show "gib_state n (\<lambda>i q. gib_link sub us i q \<or> i = p \<and> (\<exists>d \<in> set (ds @ [d]). out_port sub d = Some q)) m'"
        unfolding o'(2) by (rule gib_state_add[OF m]) (use o'(1) in auto)
    qed
    moreover have "(\<lambda>i q. gib_link sub us i q \<or> i = p \<and> (\<exists>d \<in> set dsts. out_port sub d = Some q)) = gib_link sub (us @ [x])"
      unfolding gib_link_def x fun_eq_iff by auto
    ultimately show "gib_state n (gib_link sub (us @ [x])) v" by simp
  qed
qed

lemma analyzeOutReg_exact:
  assumes "analyzeOutReg a n = Some n'"
  shows "same_shell n n' \<and> gib_out2ins n' = gib_out2ins n \<and> gib_in2outs n' = gib_in2outs n \<and> an_operandInputs n' = an_operandInputs n"
  using assms unfolding analyzeOutReg_def
  by (rule mfold_inv[where P = "\<lambda>m. same_shell n m \<and> gib_out2ins m = gib_out2ins n \<and> gib_in2outs m = gib_in2outs n \<and> an_operandInputs m = an_operandInputs n"])
    (auto simp: same_shell_def gib_setOutReged_def gib_out2ins_def gib_in2outs_def fun_eq_iff split: list.splits bind_splits if_splits)

text \<open>The operands that the inside of a functional unit gives.\<close>

definition fu_link :: "string \<Rightarrow> sub_adg \<Rightarrow> (int \<times> (int \<times> int) oset) list \<Rightarrow> int \<Rightarrow> nat \<Rightarrow> bool" where
  "fu_link ty sub tab i k \<longleftrightarrow> (\<exists>d ds. (i, d # ds) \<in> set tab \<and> walk_to ty sub (fst d) (snd d) = Some (int k))"

definition fu_state :: "anode \<Rightarrow> (int \<Rightarrow> nat \<Rightarrow> bool) \<Rightarrow> anode \<Rightarrow> bool" where
  "fu_state n0 R n \<longleftrightarrow> same_shell n0 n \<and> an_out2ins n = an_out2ins n0 \<and> an_in2outs n = an_in2outs n0 \<and>
     (\<forall>i k. k < length (an_operandInputs n0) \<longrightarrow> (i \<in> set (an_operandInputs n ! k) \<longleftrightarrow> om_has (gn_inputs n0) i \<and> R i k))"

lemma analyze_fu_exact:
  assumes run: "analyze_fu ty n = Some n'" and sub: "an_subADG n = Some sub" and fresh: "\<forall>s \<in> set (an_operandInputs n). s = []"
  shows "fu_state n (fu_link ty sub (g_inputs sub)) n'"
proof -
  let ?f = "\<lambda>n (port, dsts). (case dsts of [] \<Rightarrow> None
       | d # _ \<Rightarrow> do { opeIdx \<leftarrow> walk_to ty sub (fst d) (snd d); fu_addOperandInput opeIdx port n })"
  have run': "mfold ?f n (g_inputs sub) = Some n'" using run sub by (simp add: analyze_fu_def)
  have empty: "an_operandInputs n ! k = []" if "k < length (an_operandInputs n)" for k using fresh nth_mem[OF that] by blast
  show ?thesis
  proof (rule mfold_seen[OF run', where J = "\<lambda>us. fu_state n (fu_link ty sub us)"])
    show "fu_state n (fu_link ty sub []) n" using empty by (simp add: fu_state_def fu_link_def same_shell_def)
    fix us x vs u v assume J: "fu_state n (fu_link ty sub us) u" and st: "?f u x = Some v"
    obtain p d ds where x: "x = (p, d # ds)" using st by (cases x) (auto split: list.splits)
    obtain k where k: "walk_to ty sub (fst d) (snd d) = Some k" "fu_addOperandInput k p u = Some v" using st x by (auto split: bind_splits)
    have len: "length (an_operandInputs u) = length (an_operandInputs n)" "gn_inputs u = gn_inputs n" using J by (simp_all add: fu_state_def same_shell_def)
    have rng: "0 \<le> k" "k < int (length (an_operandInputs u))" using k(2) by (auto simp: fu_addOperandInput_def fu_operandInputs_def split: bind_splits if_splits)
    have v: "v = (if om_has (gn_inputs u) p then u\<lparr>an_operandInputs := (an_operandInputs u)[nat k := os_ins (an_operandInputs u ! nat k) p]\<rparr> else u)"
      using k(2) rng by (simp add: fu_addOperandInput_def fu_operandInputs_def)
    have "fu_link ty sub (us @ [x]) i j \<longleftrightarrow> fu_link ty sub us i j \<or> i = p \<and> walk_to ty sub (fst d) (snd d) = Some (int j)" for i j
      unfolding fu_link_def x by auto (metis prod.collapse)
    then have link: "fu_link ty sub (us @ [x]) i j \<longleftrightarrow> fu_link ty sub us i j \<or> i = p \<and> j = nat k" for i j
      using k(1) rng(1) by auto
    show "fu_state n (fu_link ty sub (us @ [x])) v"
      using J len rng unfolding fu_state_def link v by (auto simp: same_shell_def nth_list_update split: if_splits)
  qed
qed

definition unit_of :: "anode \<Rightarrow> string" where
  "unit_of n = (if gn_type n = ''GPE'' then ''ALU'' else ''IOController'')"

text \<open>The inside of a node has been analysed.\<close>

definition analyzed :: "anode \<Rightarrow> anode \<Rightarrow> bool" where
  "analyzed n n' \<longleftrightarrow> same_shell n n' \<and>
     (is_gib n \<longrightarrow> (\<exists>sub. an_subADG n = Some sub \<and> gib_state n (gib_link sub (g_inputs sub)) n')) \<and>
     (is_fu n \<longrightarrow> (\<exists>sub. an_subADG n = Some sub \<and> fu_state n (fu_link (unit_of n) sub (g_inputs sub)) n')) \<and>
     (\<not> is_gib n \<longrightarrow> an_out2ins n' = an_out2ins n \<and> an_in2outs n' = an_in2outs n)"

lemma analyze_node_exact:
  assumes "analyze_node a n = Some n'" "an_out2ins n = []" "an_in2outs n = []" "\<forall>s \<in> set (an_operandInputs n). s = []"
  shows "analyzed n n'"
proof -
  have fu: ?thesis if "analyze_fu (unit_of n) n = Some n'" "is_fu n"
  proof -
    have "an_subADG n \<noteq> None" using that(1) by (auto simp: analyze_fu_def bind_eq_Some_conv)
    then obtain sub where sub: "an_subADG n = Some sub" by blast
    show ?thesis using analyze_fu_exact[OF that(1) sub assms(4)] that(2) fu_not_gib[OF that(2)] sub by (auto simp: analyzed_def fu_state_def)
  qed
  have gib: ?thesis if "analyze_gib n = Some m" "analyzeOutReg a m = Some n'" "is_gib n" for m
  proof -
    have "an_subADG n \<noteq> None" using that(1) by (auto simp: analyze_gib_def bind_eq_Some_conv)
    then obtain sub where sub: "an_subADG n = Some sub" by blast
    have "gib_state n (gib_link sub (g_inputs sub)) n'"
      using analyze_gib_exact[OF that(1) sub assms(2,3)] analyzeOutReg_exact[OF that(2)] by (auto simp: gib_state_def same_shell_def)
    then show ?thesis using sub that(3) fu_not_gib[of n] by (auto simp: analyzed_def gib_state_def)
  qed
  have other: ?thesis if "n' = n" "\<not> is_fu n" "\<not> is_gib n"
    using that by (simp add: analyzed_def same_shell_def)
  show ?thesis using assms(1) fu gib other
    by (auto simp: analyze_node_def unit_of_def is_fu_def is_gib_def split: if_splits bind_splits)
qed

section \<open>The whole file\<close>

lemma analyze_node_types:
  assumes "\<And>i. map_option gn_type (adg_node a i) = map_option gn_type (adg_node b i)"
  shows "analyze_node a n = analyze_node b n"
proof -
  have "Option.bind (adg_node a i) (\<lambda>nd. Some (gn_type nd = ''GIB'')) = Option.bind (adg_node b i) (\<lambda>nd. Some (gn_type nd = ''GIB''))" for i
    using assms[of i] by (cases "adg_node a i"; cases "adg_node b i") simp_all
  then have "analyzeOutReg a = analyzeOutReg b" unfolding analyzeOutReg_def fun_eq_iff by presburger
  then show ?thesis by (simp add: analyze_node_def)
qed

lemma same_type: "analyzed n n' \<Longrightarrow> gn_type n' = gn_type n"
  by (simp add: analyzed_def same_shell_def)

text \<open>Nodes before the analysis: ports only.\<close>

definition unanalyzed :: "anode \<Rightarrow> bool" where
  "unanalyzed n \<longleftrightarrow> an_out2ins n = [] \<and> an_in2outs n = [] \<and> (\<forall>s \<in> set (an_operandInputs n). s = [])"

lemma postProcess_analyzed:
  assumes run: "postProcess a = Some a'" and wf: "om_wf (ag_nodes a)" and un: "\<forall>k n. adg_node a k = Some n \<longrightarrow> unanalyzed n"
  shows "om_wf (ag_nodes a')" "g_id a' = g_id a" "adg_node a k = None \<Longrightarrow> adg_node a' k = None"
    "adg_node a k = Some n \<Longrightarrow> \<exists>n'. adg_node a' k = Some n' \<and> analyzed n n'"
proof -
  let ?f = "\<lambda>b (k, n). do { n' \<leftarrow> analyze_node b n; Some (adg_addNode k n' b) }"
  obtain b where b: "mfold ?f a (ag_nodes a) = Some b" "ag_nodes a' = ag_nodes b" "g_id a' = g_id b"
    using run by (auto simp: postProcess_def Let_def split: bind_splits)
  define J where "J us s \<longleftrightarrow> om_wf (ag_nodes s) \<and> g_id s = g_id a \<and> (\<forall>k. if k \<in> fst ` set us
      then \<exists>n n'. adg_node a k = Some n \<and> adg_node s k = Some n' \<and> analyzed n n' else adg_node s k = adg_node a k)" for us :: "(int \<times> anode) list" and s :: top_adg
  have "J (ag_nodes a) b"
  proof (rule mfold_seen[OF b(1)])
    show "J [] a" using wf by (simp add: J_def)
    fix us x vs s t assume us: "ag_nodes a = us @ x # vs" and J: "J us s" and st: "?f s x = Some t"
    obtain k n where x: "x = (k, n)" by (cases x)
    have n: "adg_node a k = Some n" using us x wf om_get_mem[OF wf, of k n] by (simp add: adg_node_def)
    have types: "map_option gn_type (adg_node s i) = map_option gn_type (adg_node a i)" for i
    proof -
      have "if i \<in> fst ` set us then \<exists>n n'. adg_node a i = Some n \<and> adg_node s i = Some n' \<and> analyzed n n' else adg_node s i = adg_node a i"
        using J unfolding J_def by blast
      then show ?thesis using same_type by (auto split: if_splits)
    qed
    obtain n' where n': "analyze_node a n = Some n'" "t = adg_addNode k n' s"
      using st x analyze_node_types[OF types] by (auto split: bind_splits)
    have "analyzed n n'" using analyze_node_exact[OF n'(1)] un n by (auto simp: unanalyzed_def)
    moreover have t: "adg_node t i = (if i = k then Some n' else adg_node s i)" for i by (simp add: n'(2) adg_addNode_def adg_node_def)
    moreover have "om_wf (ag_nodes t)" "g_id t = g_id a" using J by (simp_all add: n'(2) adg_addNode_def J_def)
    moreover have old: "if i \<in> fst ` set us then \<exists>n n'. adg_node a i = Some n \<and> adg_node s i = Some n' \<and> analyzed n n' else adg_node s i = adg_node a i" for i
      using J unfolding J_def by blast
    moreover have "if i \<in> fst ` set (us @ [x]) then \<exists>n n'. adg_node a i = Some n \<and> adg_node t i = Some n' \<and> analyzed n n' else adg_node t i = adg_node a i" for i
    proof (cases "i = k")
      case True
      then show ?thesis using n t \<open>analyzed n n'\<close> x by simp
    next
      case False
      then have e: "(i \<in> fst ` set (us @ [x])) = (i \<in> fst ` set us)" "adg_node t i = adg_node s i" using x t by auto
      show ?thesis using old[of i] unfolding e .
    qed
    ultimately show "J (us @ [x]) t" unfolding J_def by blast
  qed
  then have Jb: "om_wf (ag_nodes b)" "g_id b = g_id a" and each: "if i \<in> fst ` set (ag_nodes a)
      then \<exists>n n'. adg_node a i = Some n \<and> adg_node b i = Some n' \<and> analyzed n n' else adg_node b i = adg_node a i" for i
    unfolding J_def by blast+
  have keys: "i \<in> fst ` set (ag_nodes a) \<longleftrightarrow> adg_node a i \<noteq> None" for i
    using om_has_set[of "ag_nodes a" i] by (auto simp: om_has_iff adg_node_def)
  have b': "adg_node a' i = adg_node b i" for i by (simp add: adg_node_def b(2))
  show "om_wf (ag_nodes a')" "g_id a' = g_id a" using Jb b(2,3) by simp_all
  show "adg_node a' k = None" if "adg_node a k = None" using each[of k] keys[of k] that unfolding b' by simp
  show "\<exists>n'. adg_node a' k = Some n' \<and> analyzed n n'" if "adg_node a k = Some n" using each[of k] keys[of k] that unfolding b' by auto
qed

text \<open>An architecture file whose ADG the mapper's theorems are about: functional instances without
  negative delays, a \<open>This\<close> instance, connections that do not start at its id, with ports that
  are not negative and one driver for every input port.\<close>

definition this_ids :: "json list \<Rightarrow> int option list" where
  "this_ids is = map (\<lambda>j. j_int_at j ''id'') (filter (\<lambda>j. j_str_at j ''type'' = Some ''This'') is)"

definition adg_file_ok :: "json list \<Rightarrow> gedge list \<Rightarrow> bool" where
  "adg_file_ok is es \<longleftrightarrow> (\<forall>j \<in> set is. instance_ok j) \<and> this_ids is \<noteq> [] \<and>
     (\<forall>e \<in> set es. Some (ge_srcId e) \<notin> set (this_ids is) \<and> 0 \<le> ge_srcPortIdx e \<and> 0 \<le> ge_dstPortIdx e) \<and>
     distinct (map (\<lambda>e. (ge_dstId e, ge_dstPortIdx e)) es)"

lemma read_head_nodes: "read_head j ms = Some (ms', a) \<Longrightarrow> ag_nodes a = []"
proof -
  assume run: "read_head j ms = Some (ms', a)"
  have o: "opt_set j k f b = Some b' \<Longrightarrow> (\<And>v b. ag_nodes (f v b) = ag_nodes b) \<Longrightarrow> ag_nodes b' = ag_nodes b" for k f and b b' :: "'a adg"
    by (auto simp: opt_set_def split: bind_splits if_splits)
  have w: "read_widths j b = Some b' \<Longrightarrow> ag_nodes b' = ag_nodes b" for b b' :: "'a adg"
    by (auto simp: read_widths_def split: bind_splits if_splits)
  have k: "read_banks j b = Some b' \<Longrightarrow> ag_nodes b' = ag_nodes b" for b b' :: "'a adg"
    by (auto simp: read_banks_def split: bind_splits if_splits elim!: mfold_inv[where P = "\<lambda>c. ag_nodes c = ag_nodes b"])
  obtain w a1 a2 a3 a4 a5 where r: "opt_set j ''cfg_spad_data_width'' (\<lambda>v a. a\<lparr>ag_cfgSpadDataWidth := v\<rparr>) (new_ADG\<lparr>g_bitWidth := w\<rparr>) = Some a1"
    "read_widths j a1 = Some a2" "opt_set j ''iob_ag_nest_levels'' (\<lambda>v a. a\<lparr>ag_iobAgNestLevels := v\<rparr>) a2 = Some a3"
    "read_banks j a3 = Some a4" "opt_set j ''iob_spad_bank_size'' (\<lambda>v a. a\<lparr>ag_iobSpadBankSize := v\<rparr>) a4 = Some a5"
    "opt_set j ''cfg_spad_size'' (\<lambda>v a. a\<lparr>ag_cfgSpadSize := v\<rparr>) a5 = Some a"
    using run by (auto simp: read_head_def split: bind_splits)
  show ?thesis using o[OF r(1)] w[OF r(2)] o[OF r(3)] k[OF r(4)] o[OF r(5)] o[OF r(6)] by (simp add: new_ADG_def)
qed

text \<open>How the parts of \<open>parseADG\<close> fit together.\<close>

lemma parseADG_steps:
  assumes "parseADG ms j = Some (ms', a)"
  obtains insts edges a0 a1 where "j_at j ''instances'' = Some insts" "j_at j ''connections'' = Some edges"
    "read_nodes_ok (j_elems insts) a0" "parseADGEdges edges a0 = Some a1" "postProcess a1 = Some a"
proof -
  obtain ms1 h subs ms2 mods insts mods' a0 edges a1 where r: "read_head j ms = Some (ms1, h)"
    "mfold (\<lambda>(ms, mods) k. do { (ms', n) \<leftarrow> parse_module ms k; Some (ms', om_put mods (gn_id n) (n, False)) }) (ms1, []) (j_elems subs) = Some (ms2, mods)"
    "j_at j ''instances'' = Some insts" "mfold (read_instance parse_instance) (mods, h) (j_elems insts) = Some (mods', a0)"
    "j_at j ''connections'' = Some edges" "parseADGEdges edges a0 = Some a1" "postProcess a1 = Some a"
    using assms by (auto simp: parseADG_def parse_graph_def split: bind_splits)
  have "case (ms2, mods) of (_, mods) \<Rightarrow> fresh_modules mods"
    using r(2) by (rule mfold_inv[where P = "\<lambda>(_, mods). fresh_modules mods"])
      (auto simp: fresh_modules_def[of "[]"] intro!: fresh_modules_put dest: fresh_module split: bind_splits)
  then have "read_nodes_ok (j_elems insts) a0" using read_instances[OF r(4)] read_head_nodes[OF r(1)] by simp
  then show thesis using that r by blast
qed

lemma connected_unanalyzed:
  assumes r: "read_nodes_ok is a0" "parseADGEdges edges a0 = Some a1"
  shows "\<forall>i m. adg_node a1 i = Some m \<longrightarrow> unanalyzed m"
proof (intro allI impI)
  have wf: "om_wf (ag_nodes a0)" using r(1) by (simp add: read_nodes_ok_def)
  fix i m assume "adg_node a1 i = Some m"
  then obtain m0 where m0: "adg_node a0 i = Some m0" "m = wired (g_id a0) i m0 (conns edges)"
    unfolding parseEdges_wired(3)[OF r(2) wf] by auto
  have u: "unwired m = unwired m0" unfolding m0(2) by (rule wired_frame)
  have "fresh_node m0" using r(1) m0(1) by (auto simp: read_nodes_ok_def)
  then show "unanalyzed m" using arg_cong[OF u, of an_out2ins] arg_cong[OF u, of an_in2outs] arg_cong[OF u, of an_operandInputs]
    by (simp add: unwired_def unanalyzed_def fresh_node_def)
qed

lemma parseADG_node:
  assumes r: "read_nodes_ok is a0" "parseADGEdges edges a0 = Some a1" "postProcess a1 = Some a" and n: "adg_node a k = Some n"
  obtains n0 where "adg_node a0 k = Some n0" "fresh_node n0" "analyzed (wired (g_id a0) k n0 (conns edges)) n"
proof -
  have wf: "om_wf (ag_nodes a0)" using r(1) by (simp add: read_nodes_ok_def)
  note w = parseEdges_wired[OF r(2) wf]
  have f: "fresh_node n0" if "adg_node a0 i = Some n0" for i n0 using r(1) that by (auto simp: read_nodes_ok_def)
  note p = postProcess_analyzed[OF r(3) w(2) connected_unanalyzed[OF r(1,2)]]
  have "adg_node a1 k \<noteq> None" using p(3)[where k = k] n by auto
  then obtain m where m: "adg_node a1 k = Some m" by blast
  then obtain n0 where n0: "adg_node a0 k = Some n0" "m = wired (g_id a0) k n0 (conns edges)" unfolding w(3) by auto
  have "analyzed m n" using p(4)[OF m] n by auto
  then show thesis using that n0 f by blast
qed

text \<open>The path from a sub-module to the functional unit. The search returns exactly when there is one.\<close>

inductive leads :: "string \<Rightarrow> sub_adg \<Rightarrow> int \<Rightarrow> int \<Rightarrow> int \<Rightarrow> bool" for ty sub where
  leads_here: "adg_node sub n = Some nd \<Longrightarrow> gn_type nd = ty \<Longrightarrow> leads ty sub n q q"
| leads_next: "adg_node sub n = Some nd \<Longrightarrow> gn_type nd \<noteq> ty \<Longrightarrow>
    gnode_output nd (if length (gn_outputs nd) = 1 then 0 else q) = d # ds \<Longrightarrow> leads ty sub (fst d) (snd d) k \<Longrightarrow> leads ty sub n q k"

lemma walk_to_leads: "walk_to ty sub n q = Some k \<longleftrightarrow> leads ty sub n q k"
proof
  show "leads ty sub n q k" if "walk_to ty sub n q = Some k"
    using that
  proof (induction rule: walk_to.raw_induct[rotated 1, consumes 1])
    case (1 walk_to ty sub n q k)
    show ?case
    proof (cases "adg_node sub n")
      case (Some nd)
      then show ?thesis using 1 by (auto split: if_splits list.splits intro: leads.intros simp del: fst_conv snd_conv)
    qed (use 1 in simp)
  qed
  show "walk_to ty sub n q = Some k" if "leads ty sub n q k"
    using that by (induction rule: leads.induct) (subst walk_to.simps, simp)+
qed

text \<open>The ports of a node of the result, and what the analysis has found in it.\<close>

lemma parsed_node:
  assumes r: "read_nodes_ok is a0" "parseADGEdges edges a0 = Some a1" "postProcess a1 = Some a" and n: "adg_node a k = Some n"
  shows "\<exists>n0. adg_node a0 k = Some n0 \<and> gn_id n = gn_id n0 \<and> gn_type n = gn_type n0 \<and> an_maxDelay n = an_maxDelay n0 \<and> an_subADG n = an_subADG n0 \<and>
      gn_inputs n = gn_inputs (wired (g_id a0) k n0 (conns edges)) \<and> gn_outputs n = gn_outputs (wired (g_id a0) k n0 (conns edges))"
    and "\<exists>m. analyzed m n \<and> unanalyzed m \<and> gn_inputs m = gn_inputs n \<and> gn_outputs m = gn_outputs n \<and> gn_type m = gn_type n \<and> an_subADG m = an_subADG n"
    and "g_id a = g_id a0" "om_wf (ag_nodes a)"
proof -
  have wf: "om_wf (ag_nodes a0)" using r(1) by (simp add: read_nodes_ok_def)
  obtain n0 where n0: "adg_node a0 k = Some n0" "fresh_node n0" "analyzed (wired (g_id a0) k n0 (conns edges)) n"
    using parseADG_node[OF r n] by blast
  let ?m = "wired (g_id a0) k n0 (conns edges)"
  have u: "unwired ?m = unwired n0" by (rule wired_frame)
  have eq: "gn_id ?m = gn_id n0" "gn_type ?m = gn_type n0" "an_maxDelay ?m = an_maxDelay n0" "an_subADG ?m = an_subADG n0"
    "an_out2ins ?m = an_out2ins n0" "an_in2outs ?m = an_in2outs n0" "an_operandInputs ?m = an_operandInputs n0"
    using arg_cong[OF u, of gn_id] arg_cong[OF u, of gn_type] arg_cong[OF u, of an_maxDelay] arg_cong[OF u, of an_subADG]
      arg_cong[OF u, of an_out2ins] arg_cong[OF u, of an_in2outs] arg_cong[OF u, of an_operandInputs] by (simp_all add: unwired_def)
  have sh: "same_shell ?m n" using n0(3) by (simp add: analyzed_def)
  show "\<exists>n0. adg_node a0 k = Some n0 \<and> gn_id n = gn_id n0 \<and> gn_type n = gn_type n0 \<and> an_maxDelay n = an_maxDelay n0 \<and> an_subADG n = an_subADG n0 \<and>
      gn_inputs n = gn_inputs (wired (g_id a0) k n0 (conns edges)) \<and> gn_outputs n = gn_outputs (wired (g_id a0) k n0 (conns edges))"
    using n0(1) sh eq by (auto simp: same_shell_def)
  have "unanalyzed ?m" using n0(2) eq by (simp add: unanalyzed_def fresh_node_def)
  then show "\<exists>m. analyzed m n \<and> unanalyzed m \<and> gn_inputs m = gn_inputs n \<and> gn_outputs m = gn_outputs n \<and> gn_type m = gn_type n \<and> an_subADG m = an_subADG n"
    using n0(3) sh by (intro exI[of _ ?m]) (simp add: same_shell_def)
  note w = parseEdges_wired[OF r(2) wf]
  show "g_id a = g_id a0" "om_wf (ag_nodes a)" using postProcess_analyzed(1,2)[OF r(3) w(2) connected_unanalyzed[OF r(1,2)]] w(1) by simp_all
qed

lemma parsed_has:
  assumes r: "read_nodes_ok is a0" "parseADGEdges edges a0 = Some a1" "postProcess a1 = Some a" and k: "om_has (ag_nodes a0) k"
  shows "om_has (ag_nodes a) k"
proof -
  have wf: "om_wf (ag_nodes a0)" using r(1) by (simp add: read_nodes_ok_def)
  note w = parseEdges_wired[OF r(2) wf]
  obtain n0 where "adg_node a0 k = Some n0" using k by (auto simp: om_has_iff adg_node_def)
  then have "adg_node a1 k = Some (wired (g_id a0) k n0 (conns edges))" by (simp add: w(3))
  then show ?thesis using postProcess_analyzed(4)[OF r(3) w(2) connected_unanalyzed[OF r(1,2)]] by (fastforce simp: om_has_iff adg_node_def)
qed

text \<open>The ports that the analysis mentions are connected.\<close>

lemma analyzed_ports:
  assumes "analyzed m n" "unanalyzed m" "is_fu m \<or> is_gib m"
  shows "p \<in> set (gib_out2ins n q) \<Longrightarrow> om_has (gn_inputs n) p" "s \<in> set (an_operandInputs n) \<Longrightarrow> p \<in> set s \<Longrightarrow> om_has (gn_inputs n) p"
proof -
  have ins: "gn_inputs n = gn_inputs m" and len: "length (an_operandInputs n) = length (an_operandInputs m)"
    using assms(1) by (simp_all add: analyzed_def same_shell_def)
  show "om_has (gn_inputs n) p" if "p \<in> set (gib_out2ins n q)"
  proof (cases "is_gib m")
    case True
    then show ?thesis using assms(1) that ins by (auto simp: analyzed_def gib_state_def)
  next
    case False
    then show ?thesis using assms(1,2) that by (simp add: analyzed_def unanalyzed_def gib_out2ins_def om_at_def)
  qed
  show "om_has (gn_inputs n) p" if s: "s \<in> set (an_operandInputs n)" "p \<in> set s"
  proof (cases "is_fu m")
    case True
    then obtain sub where st: "fu_state m (fu_link (unit_of m) sub (g_inputs sub)) n" using assms(1) by (auto simp: analyzed_def)
    obtain k where k: "k < length (an_operandInputs n)" "s = an_operandInputs n ! k" using s(1) by (metis in_set_conv_nth)
    have "p \<in> set (an_operandInputs n ! k) \<longleftrightarrow> om_has (gn_inputs m) p \<and> fu_link (unit_of m) sub (g_inputs sub) p k"
      using st k(1) len by (simp add: fu_state_def)
    then show ?thesis using s(2) k(2) ins by simp
  next
    case False
    then have "an_operandInputs n = an_operandInputs m" using assms(1,3) by (auto simp: analyzed_def gib_state_def)
    then show ?thesis using s assms(2) by (auto simp: unanalyzed_def)
  qed
qed

lemma parseADG_arch_ok:
  assumes run: "parseADG ms j = Some (ms', a)" and j: "j_at j ''instances'' = Some insts" "j_at j ''connections'' = Some edges"
    and ok: "adg_file_ok (j_elems insts) (conns edges)"
  shows "arch_ok a" and "\<forall>k n. adg_node a k = Some n \<longrightarrow> (\<forall>p d. om_get (gn_inputs n) p = Some d \<longleftrightarrow>
      k \<noteq> g_id a \<and> (\<exists>e \<in> set (conns edges). ge_dstId e = k \<and> ge_dstPortIdx e = p \<and> d = (ge_srcId e, ge_srcPortIdx e)))"
proof -
  obtain a0 a1 where r: "read_nodes_ok (j_elems insts) a0" "parseADGEdges edges a0 = Some a1" "postProcess a1 = Some a"
    using parseADG_steps[OF run] j by (metis option.inject)
  have wf: "om_wf (ag_nodes a0)" using r(1) by (simp add: read_nodes_ok_def)
  note w = parseEdges_wired[OF r(2) wf]
  let ?es = "conns edges"
  have n0: "fresh_node n0" "gn_id n0 = k" "unit_ok n0" if "adg_node a0 k = Some n0" for k n0
    using r(1) ok that by (simp_all add: read_nodes_ok_def adg_file_ok_def)
  have ports: "om_get (gn_inputs n) p = Some d \<longleftrightarrow>
      k \<noteq> g_id a \<and> (\<exists>e \<in> set ?es. ge_dstId e = k \<and> ge_dstPortIdx e = p \<and> d = (ge_srcId e, ge_srcPortIdx e))" if n: "adg_node a k = Some n" for k n p d
  proof -
    note P = parsed_node[OF r n]
    obtain n0' where m: "adg_node a0 k = Some n0'" "gn_inputs n = gn_inputs (wired (g_id a0) k n0' ?es)" using P(1) by blast
    have emp: "gn_inputs n0' = []" "gn_outputs n0' = []" using n0(1)[OF m(1)] by (simp_all add: fresh_node_def)
    note wp = wired_ports[where i = "g_id a0" and k = k and es = ?es, OF emp]
    have uniq: "e = e'" if "e \<in> set ?es" "e' \<in> set ?es" "ge_dstId e = ge_dstId e'" "ge_dstPortIdx e = ge_dstPortIdx e'" for e e'
      using ok that unfolding adg_file_ok_def distinct_map inj_on_def by simp
    show ?thesis
    proof
      assume "om_get (gn_inputs n) p = Some d"
      then show "k \<noteq> g_id a \<and> (\<exists>e \<in> set ?es. ge_dstId e = k \<and> ge_dstPortIdx e = p \<and> d = (ge_srcId e, ge_srcPortIdx e))"
        using wp(1) unfolding m(2) P(3) by blast
    next
      assume R: "k \<noteq> g_id a \<and> (\<exists>e \<in> set ?es. ge_dstId e = k \<and> ge_dstPortIdx e = p \<and> d = (ge_srcId e, ge_srcPortIdx e))"
      then obtain e where e: "e \<in> set ?es" "ge_dstId e = k" "ge_dstPortIdx e = p" "d = (ge_srcId e, ge_srcPortIdx e)" by blast
      have "om_has (gn_inputs n) p" using wp(2)[OF _ e(1,2)] R e(3) unfolding m(2) P(3) by simp
      then obtain d' where d': "om_get (gn_inputs n) p = Some d'" by (auto simp: om_has_iff)
      then obtain e' where "e' \<in> set ?es" "ge_dstId e' = k" "ge_dstPortIdx e' = p" "d' = (ge_srcId e', ge_srcPortIdx e')"
        using wp(1) unfolding m(2) by blast
      then show "om_get (gn_inputs n) p = Some d" using uniq[of e e'] e d' by simp
    qed
  qed
  show "\<forall>k n. adg_node a k = Some n \<longrightarrow> (\<forall>p d. om_get (gn_inputs n) p = Some d \<longleftrightarrow>
      k \<noteq> g_id a \<and> (\<exists>e \<in> set ?es. ge_dstId e = k \<and> ge_dstPortIdx e = p \<and> d = (ge_srcId e, ge_srcPortIdx e)))" using ports by blast
  have src: "om_has (ag_nodes a) (ge_srcId e)" if e: "e \<in> set ?es" for e
  proof -
    have "this_ids (j_elems insts) \<noteq> []" "Some (ge_srcId e) \<notin> set (this_ids (j_elems insts))" using ok e by (simp_all add: adg_file_ok_def)
    moreover obtain x where "x \<in> set (j_elems insts)" "j_str_at x ''type'' = Some ''This''"
      using \<open>this_ids (j_elems insts) \<noteq> []\<close> by (auto simp: this_ids_def filter_empty_conv)
    then obtain y where "y \<in> set (j_elems insts)" "j_str_at y ''type'' = Some ''This''" "j_int_at y ''id'' = Some (g_id a0)"
      using r(1) unfolding read_nodes_ok_def by blast
    then have "Some (g_id a0) \<in> set (this_ids (j_elems insts))" unfolding this_ids_def by (auto intro!: image_eqI[of _ _ y])
    ultimately have "ge_srcId e \<noteq> g_id a0" by auto
    then show ?thesis using w(4)[OF e] parsed_has[OF r] by blast
  qed
  have node: "gn_id n = k \<and> anode_ok a n \<and> (is_fu n \<longrightarrow> 0 \<le> an_maxDelay n)" if n: "adg_node a k = Some n" for k n
  proof -
    note P = parsed_node[OF r n]
    obtain n0' where m0: "adg_node a0 k = Some n0'" "gn_id n = gn_id n0'" "gn_type n = gn_type n0'" "an_maxDelay n = an_maxDelay n0'" using P(1) by blast
    have cls: "is_fu n \<or> is_gib n" "is_fu n \<longrightarrow> 0 \<le> an_maxDelay n" using n0(3)[OF m0(1)] m0(3,4) by (simp_all add: unit_ok_def is_fu_def is_gib_def)
    obtain m where m: "analyzed m n" "unanalyzed m" "gn_type m = gn_type n" using P(2) by blast
    have "is_fu m \<or> is_gib m" using cls(1) m(3) by (simp add: is_fu_def is_gib_def)
    note ap = analyzed_ports[OF m(1,2) this]
    have "0 \<le> p \<and> om_has (ag_nodes a) (fst d) \<and> 0 \<le> snd d" if "om_get (gn_inputs n) p = Some d" for p d
      using ports[OF n, of p d] that src ok by (auto simp: adg_file_ok_def)
    then show ?thesis using ap cls n0(2)[OF m0(1)] m0(2) by (auto simp: anode_ok_def)
  qed
  have "om_wf (ag_nodes a)" using postProcess_analyzed(1)[OF r(3) w(2) connected_unanalyzed[OF r(1,2)]] .
  then show "arch_ok a" using node unfolding arch_ok_def adg_ok_def by blast
qed

text \<open>C38: An architecture file with functional instances, one driver for every input port and no
  connection from outside gives an ADG that satisfies everything the mapper relies on (every node
  knows its id and has one of the three classes, drivers exist, crossbars and operands only
  mention connected ports, delays are not negative), and the input ports of every node are exactly
  the connections of the file.\<close>

theorem parseADG_architecture:
  assumes "parseADG ms j = Some (ms', a)" "j_at j ''instances'' = Some insts" "j_at j ''connections'' = Some edges"
    and "adg_file_ok (j_elems insts) (conns edges)"
  shows "arch_ok a \<and> (\<forall>k n. adg_node a k = Some n \<longrightarrow> (\<forall>p d. om_get (gn_inputs n) p = Some d \<longleftrightarrow>
      k \<noteq> g_id a \<and> (\<exists>e \<in> set (conns edges). ge_dstId e = k \<and> ge_dstPortIdx e = p \<and> d = (ge_srcId e, ge_srcPortIdx e))))"
  using parseADG_arch_ok[OF assms] by blast

lemma parsed_inside:
  assumes run: "parseADG ms j = Some (ms', a)" and n: "adg_node a k = Some n"
  shows "is_gib n \<Longrightarrow> \<exists>sub. an_subADG n = Some sub \<and> (\<forall>i q. (i \<in> set (gib_out2ins n q) \<longleftrightarrow>
      om_has (gn_inputs n) i \<and> om_has (gn_outputs n) q \<and> gib_link sub (g_inputs sub) i q)) \<and> gib_consistent n"
    and "is_fu n \<Longrightarrow> \<exists>sub. an_subADG n = Some sub \<and> (\<forall>o' i. o' < length (an_operandInputs n) \<longrightarrow> (i \<in> set (an_operandInputs n ! o') \<longleftrightarrow>
      om_has (gn_inputs n) i \<and> (\<exists>d ds. (i, d # ds) \<in> set (g_inputs sub) \<and> leads (unit_of n) sub (fst d) (snd d) (int o'))))"
proof -
  obtain insts edges a0 a1 where r: "read_nodes_ok (j_elems insts) a0" "parseADGEdges edges a0 = Some a1" "postProcess a1 = Some a"
    by (rule parseADG_steps[OF run])
  obtain m where m: "analyzed m n" "gn_inputs m = gn_inputs n" "gn_outputs m = gn_outputs n" "gn_type m = gn_type n" "an_subADG m = an_subADG n"
    using parsed_node(2)[OF r n] by blast
  show "\<exists>sub. an_subADG n = Some sub \<and> (\<forall>i q. (i \<in> set (gib_out2ins n q) \<longleftrightarrow>
      om_has (gn_inputs n) i \<and> om_has (gn_outputs n) q \<and> gib_link sub (g_inputs sub) i q)) \<and> gib_consistent n" if "is_gib n"
  proof -
    have "is_gib m" using that m(4) by (simp add: is_gib_def)
    then obtain sub where sub: "an_subADG n = Some sub" "gib_state m (gib_link sub (g_inputs sub)) n" using m(1,5) by (auto simp: analyzed_def)
    then have c: "(i \<in> set (gib_out2ins n q)) = (om_has (gn_inputs n) i \<and> om_has (gn_outputs n) q \<and> gib_link sub (g_inputs sub) i q)"
      "(q \<in> set (gib_in2outs n i)) = (om_has (gn_inputs n) i \<and> om_has (gn_outputs n) q \<and> gib_link sub (g_inputs sub) i q)" for i q
      unfolding gib_state_def m(2,3) by blast+
    have "gib_consistent n" unfolding gib_consistent_def c by blast
    then show ?thesis using sub(1) c(1) by blast
  qed
  show "\<exists>sub. an_subADG n = Some sub \<and> (\<forall>o' i. o' < length (an_operandInputs n) \<longrightarrow> (i \<in> set (an_operandInputs n ! o') \<longleftrightarrow>
      om_has (gn_inputs n) i \<and> (\<exists>d ds. (i, d # ds) \<in> set (g_inputs sub) \<and> leads (unit_of n) sub (fst d) (snd d) (int o'))))" if "is_fu n"
  proof -
    have "is_fu m" "unit_of m = unit_of n" using that m(4) by (simp_all add: is_fu_def unit_of_def)
    then obtain sub where sub: "an_subADG n = Some sub" "fu_state m (fu_link (unit_of n) sub (g_inputs sub)) n" using m(1,5) by (auto simp: analyzed_def)
    have "length (an_operandInputs n) = length (an_operandInputs m)" using m(1) by (simp add: analyzed_def same_shell_def)
    then show ?thesis using sub m(2) unfolding fu_state_def fu_link_def walk_to_leads by simp
  qed
qed

text \<open>C39: After reading an architecture, the crossbar of every interconnect block is exactly what its inside
  connects, by a wire or through a multiplexer, seen alike from its inputs and its outputs; and the
  input ports of every operand of a functional unit are exactly those from which the inside leads
  to that operand of its ALU or I/O controller.\<close>

theorem parseADG_inside:
  assumes "parseADG ms j = Some (ms', a)" "adg_node a k = Some n"
  shows "(is_gib n \<longrightarrow> (\<exists>sub. an_subADG n = Some sub \<and> (\<forall>i q. (i \<in> set (gib_out2ins n q) \<longleftrightarrow>
        om_has (gn_inputs n) i \<and> om_has (gn_outputs n) q \<and> gib_link sub (g_inputs sub) i q)) \<and> gib_consistent n)) \<and>
    (is_fu n \<longrightarrow> (\<exists>sub. an_subADG n = Some sub \<and> (\<forall>o' i. o' < length (an_operandInputs n) \<longrightarrow> (i \<in> set (an_operandInputs n ! o') \<longleftrightarrow>
        om_has (gn_inputs n) i \<and> (\<exists>d ds. (i, d # ds) \<in> set (g_inputs sub) \<and> leads (unit_of n) sub (fst d) (snd d) (int o'))))))"
  using parsed_inside[OF assms] by blast

end
