(* ===== verification/ReaderExamples.thy ===== *)
theory ReaderExamples
  imports DfgReaderCorrect AdgReaderCorrect
begin

text \<open>
  A small DFG file: an input, a constant and their sum; and a small architecture file: three
  I/O blocks around an interconnect block with wires and a multiplexer. The properties of the readers
  hold on them, so that none of them is vacuous.
\<close>

section \<open>The DFG file\<close>

definition ex_file_ops :: op_table where
  "ex_file_ops = [
     (''ADD'', \<lparr>oi_OPC = 2, oi_numOperands = 2, oi_numRes = 1, oi_latency = 1, oi_bitWidth = 32, oi_commutative = True, oi_accumulative = False\<rparr>),
     (''INPUT'', \<lparr>oi_OPC = 0, oi_numOperands = 0, oi_numRes = 1, oi_latency = 1, oi_bitWidth = 32, oi_commutative = False, oi_accumulative = False\<rparr>)]"

definition ex_objs :: "json list" where
  "ex_objs = [
     JObj [(''_gvid'', JInt 0), (''name'', JStr ''a''), (''offset'', JStr ''8,4''), (''opcode'', JStr ''input''), (''pattern'', JStr ''4,16'')],
     JObj [(''_gvid'', JInt 1), (''name'', JStr ''c''), (''opcode'', JStr ''const''), (''value'', JStr ''7'')],
     JObj [(''_gvid'', JInt 2), (''name'', JStr ''s''), (''opcode'', JStr ''add'')]]"

definition ex_entries :: "json list" where
  "ex_entries = [
     JObj [(''_gvid'', JInt 0), (''head'', JInt 2), (''operand'', JStr ''0''), (''tail'', JInt 0)],
     JObj [(''_gvid'', JInt 1), (''head'', JInt 2), (''headport'', JStr ''in1''), (''tail'', JInt 1)]]"

definition ex_file :: json where
  "ex_file = JObj [(''edges'', JArr ex_entries), (''objects'', JArr ex_objs)]"

definition ex_file_edge :: gedge where
  "ex_file_edge = \<lparr>ge_id = 0, ge_srcPortIdx = 0, ge_dstPortIdx = 0, ge_srcId = 1, ge_dstId = 3\<rparr>"

lemma ex_file_ok: "dfg_file_ok ex_file_ops 9 (j_elems (JArr ex_objs)) (j_elems (JArr ex_entries))"
  by code_simp

lemma ex_file_edges: "file_edges 9 (j_elems (JArr ex_objs)) (j_elems (JArr ex_entries)) = [ex_file_edge]"
  by code_simp

lemma ex_file_sum:
  "map_option (\<lambda>nd. foldl (add_imm 9 (j_elems (JArr ex_objs)) 3) nd (j_elems (JArr ex_entries))) (node_at ex_file_ops (j_elems (JArr ex_objs)) 3) =
     Some (new_DFGNode\<lparr>gn_id := 3, gn_name := ''s'', dn_operation := ''ADD'', dn_opLatency := 1, dn_commutative := True, dn_imm := 7, dn_immIdx := 1\<rparr>)"
  by code_simp

lemma ex_file_const: "node_at ex_file_ops (j_elems (JArr ex_objs)) 2 = None"
  by code_simp


theorem strSplit2Int_roundtrip_witness: "strSplit2Int (csv [4, -16]) (CHR '','') = Some [4, -16]"
  by (rule strSplit2Int_roundtrip) simp_all

section \<open>The architecture file\<close>

definition ex_conn :: "string \<Rightarrow> int \<Rightarrow> int \<Rightarrow> int \<Rightarrow> int \<Rightarrow> string \<times> json" where
  "ex_conn key s sp d dp = (key, JArr [JInt s, JStr [], JInt sp, JInt d, JStr [], JInt dp])"

definition ex_inst :: "string \<Rightarrow> int \<Rightarrow> int \<Rightarrow> json" where
  "ex_inst ty i modl = JObj [(''cfg_blk_index'', JInt i), (''id'', JInt i), (''iob_index'', JInt (i - 1)), (''max_delay'', JInt 3),
     (''module_id'', JInt modl), (''track_reged'', JBool True), (''type'', JStr ty), (''x'', JInt 0), (''y'', JInt i)]"

definition ex_kind :: "string \<Rightarrow> int \<Rightarrow> (string \<times> json) list \<Rightarrow> json" where
  "ex_kind ty i attrs = JObj (attrs @ [(''id'', JInt i), (''type'', JStr ty)])"

text \<open>A controller behind a multiplexer.\<close>

definition ex_iob_attrs :: json where
  "ex_iob_attrs = JObj [(''ag_nest_levels'', JInt 1), (''cfg_blk_index'', JInt 1),
     (''connections'', JObj [ex_conn ''0'' 1 0 0 0, ex_conn ''1'' 0 0 2 0, ex_conn ''2'' 0 1 2 1, ex_conn ''3'' 2 0 1 0]),
     (''data_width'', JInt 32), (''instances'', JArr [ex_inst ''This'' 0 0, ex_inst ''IOController'' 1 1, ex_inst ''Muxn'' 2 2]),
     (''io_controller_cfg_id'', JObj [(''BaseAddr'', JInt 3), (''Cycles0'', JInt 5), (''II'', JInt 10), (''IsStore'', JInt 12),
        (''Latency'', JInt 11), (''Stride0'', JInt 4)]), (''iob_mode'', JInt 1), (''num_operands'', JInt 1),
     (''sub_modules'', JArr [ex_kind ''IOController'' 1 [], ex_kind ''Muxn'' 2 []])]"

text \<open>Input 0 reaches output 1 by a wire and output 2 through a multiplexer, as does input 1; input 2
  reaches output 0.\<close>

definition ex_gib_attrs :: json where
  "ex_gib_attrs = JObj [(''cfg_blk_index'', JInt 4),
     (''connections'', JObj [ex_conn ''0'' 0 0 0 1, ex_conn ''1'' 0 0 1 0, ex_conn ''2'' 0 1 1 1, ex_conn ''3'' 1 0 0 2, ex_conn ''4'' 0 2 0 0]),
     (''data_width'', JInt 32), (''instances'', JArr [ex_inst ''This'' 0 0, ex_inst ''Muxn'' 1 1]),
     (''sub_modules'', JArr [ex_kind ''Muxn'' 1 []])]"

definition ex_insts :: "json list" where
  "ex_insts = [ex_inst ''This'' 0 0, ex_inst ''IOB'' 1 1, ex_inst ''IOB'' 2 1, ex_inst ''IOB'' 3 1, ex_inst ''GIB'' 4 4]"

definition ex_conns :: json where
  "ex_conns = JObj [ex_conn ''0'' 1 0 4 0, ex_conn ''1'' 2 0 4 1, ex_conn ''2'' 3 0 4 2, ex_conn ''3'' 4 0 1 0, ex_conn ''4'' 4 1 2 0,
     ex_conn ''5'' 4 2 3 0]"

definition ex_adg_file :: json where
  "ex_adg_file = JObj [(''cfg_addr_width'', JInt 8), (''cfg_blk_offset'', JInt 2), (''cfg_data_width'', JInt 32), (''cfg_spad_data_width'', JInt 64),
     (''connections'', ex_conns), (''data_width'', JInt 32), (''instances'', JArr ex_insts), (''iob_mode_names'', JObj [(''1'', JStr ''SRAM_MODE'')]),
     (''iob_spad_bank_size'', JInt 1024), (''iob_to_spad_banks'', JObj [(''0'', JArr [JInt 0, JInt 1]), (''1'', JArr [JInt 0, JInt 1]), (''2'', JArr [JInt 2])]),
     (''sub_modules'', JArr [ex_kind ''IOB'' 1 [(''attributes'', ex_iob_attrs)], ex_kind ''GIB'' 4 [(''attributes'', ex_gib_attrs)]])]"

definition ex_read :: "top_adg option" where
  "ex_read = map_option snd (parseADG [] ex_adg_file)"

lemma ex_read_facts:
  "map_option (\<lambda>a. map fst (ag_nodes a)) ex_read = Some [1, 2, 3, 4]"
  "map_option (\<lambda>a. map_option (\<lambda>n. (gn_name n, an_operandInputs n, an_operations n)) (adg_node a 2)) ex_read =
     Some (Some (''IOB2'', [[0]], [''INPUT'', ''LOAD'', ''OUTPUT'', ''STORE'']))"
  "map_option (\<lambda>a. map_option (\<lambda>n. (an_out2ins n, an_outReged n, gn_type n)) (adg_node a 4)) ex_read =
     Some (Some ([(0, [2]), (1, [0]), (2, [0, 1])], [(0, False), (1, False), (2, False)], ''GIB''))"
  by code_simp+

lemma ex_adg_read: obtains ms a where "parseADG [] ex_adg_file = Some (ms, a)" "ex_read = Some a"
  using ex_read_facts(1) by (auto simp: ex_read_def)

lemma ex_adg_file_ok: "adg_file_ok (j_elems (JArr ex_insts)) (conns ex_conns)"
  by code_simp

theorem parseADG_architecture_witness:
  "\<exists>ms a n. parseADG [] ex_adg_file = Some (ms, a) \<and> arch_ok a \<and> adg_node a 4 = Some n \<and> om_get (gn_inputs n) 1 = Some (2, 0)"
proof -
  obtain ms a where a: "parseADG [] ex_adg_file = Some (ms, a)" "ex_read = Some a" by (rule ex_adg_read)
  have j: "j_at ex_adg_file ''instances'' = Some (JArr ex_insts)" "j_at ex_adg_file ''connections'' = Some ex_conns" by code_simp+
  note P = parseADG_architecture[OF a(1) j ex_adg_file_ok]
  obtain n where n: "adg_node a 4 = Some n" using ex_read_facts(3)[unfolded a(2)] by auto
  have e: "\<exists>e \<in> set (conns ex_conns). ge_dstId e = 4 \<and> ge_dstPortIdx e = 1 \<and> (2, 0) = (ge_srcId e, ge_srcPortIdx e)" by code_simp
  have "map_option g_id ex_read = Some 0" by code_simp
  then have "g_id a = 0" unfolding a(2) by simp
  then have "om_get (gn_inputs n) 1 = Some (2, 0)" using P n e by simp
  then show ?thesis using a(1) n P by blast
qed

theorem parseADG_inside_witness:
  "\<exists>ms a n sub. parseADG [] ex_adg_file = Some (ms, a) \<and> adg_node a 4 = Some n \<and> an_subADG n = Some sub \<and> gib_consistent n \<and>
    1 \<in> set (gib_out2ins n 2) \<and> gib_link sub (g_inputs sub) 1 2 \<and> \<not> gib_link sub (g_inputs sub) 1 0"
proof -
  obtain ms a where a: "parseADG [] ex_adg_file = Some (ms, a)" "ex_read = Some a" by (rule ex_adg_read)
  obtain n where n: "adg_node a 4 = Some n" "an_out2ins n = [(0, [2]), (1, [0]), (2, [0, 1])]" "gn_type n = ''GIB''"
    using ex_read_facts(3)[unfolded a(2)] by auto
  have "is_gib n" using n(3) by (simp add: is_gib_def)
  then obtain sub where sub: "an_subADG n = Some sub" "gib_consistent n"
    "\<And>i q. i \<in> set (gib_out2ins n q) \<longleftrightarrow> om_has (gn_inputs n) i \<and> om_has (gn_outputs n) q \<and> gib_link sub (g_inputs sub) i q"
    using parseADG_inside[OF a(1) n(1)] by blast
  have x: "2 \<in> set (gib_out2ins n 0)" "1 \<in> set (gib_out2ins n 2)" "1 \<notin> set (gib_out2ins n 0)" by (simp_all add: gib_out2ins_def om_at_def n(2))
  then have "gib_link sub (g_inputs sub) 1 2" "\<not> gib_link sub (g_inputs sub) 1 0" using sub(3) by blast+
  then show ?thesis using a(1) n(1) sub(1,2) x(2) by blast
qed

end
