(* ===== verification/Driver.thy ===== *)
theory Driver
  imports MapperCheck MapperDist IoTasks AdgReaderCorrect DfgReaderCorrect
begin

text \<open>
  The program as a whole (\<open>src/main.cpp\<close>, \<open>Mapper::execute\<close>): read the operations, the architecture
  and one DFG after the other, map each DFG, write its task, and stop at the first DFG that cannot
  be mapped. The drawings and the messages are not modelled.
\<close>

section \<open>Setting up\<close>

text \<open>\<open>MapperSA(adg, timeout, maxIters, objOpt)\<close>: no DFG yet. The times and counters are set before
  they are read.\<close>

definition new_MapperSA :: "top_adg \<Rightarrow> int \<Rightarrow> bool \<Rightarrow> mapperSA option" where
  "new_MapperSA a maxIters objOpt =
     initializeAdg a \<lparr>mr_dfg = new_DFG, mr_dfgModified = None, mr_isDfgModified = False, mr_node2node = [],
       mr_mapping = (new_DFG, new_Mapping), mr_placeOrder = [], mr_adgOpCnt = [], mr_opLeft = [], sa_maxIters = maxIters,
       sa_objOpt = objOpt, sa_dfgLat = 0, sa_mappedAdgNodeNum = 0, sa_ioDeps = 0, sa_tick = 0\<rparr>"

section \<open>The loop over the DFGs\<close>

text \<open>The two sort functions of the I/O scheduler, from the one of the environment.\<close>

definition sort_by :: "'f sa_env \<Rightarrow> ('b \<Rightarrow> 'b \<Rightarrow> bool) \<Rightarrow> 'b list \<Rightarrow> 'b list" where
  "sort_by E c xs = map (\<lambda>i. xs ! i) (en_sort E (\<lambda>i j. c (xs ! i) (xs ! j)) [0..<length xs])"

definition mapper_execute :: "'f sa_env \<Rightarrow> top_adg \<Rightarrow> bool \<Rightarrow> opt_state \<Rightarrow> (bool \<times> task_files option \<times> opt_state) option" where
  "mapper_execute E a dumpCallFunc ss = do {
     (res, s, sc) \<leftarrow> mapperTimed E a ss;
     (if res \<and> dumpCallFunc
      then do {
        (f, sc') \<leftarrow> io_execute (sort_by E) (sort_by E) (en_ops E) a (mr_mapping s) sc;
        Some (res, Some f, s, sc') }
      else Some (res, None, s, sc)) }"

text \<open>What is left of a DFG that has been mapped.\<close>

record mapped_dfg =
  md_mapping :: bmap
  md_task :: "task_files option"

fun map_files :: "'f sa_env \<Rightarrow> top_adg \<Rightarrow> int \<Rightarrow> bool \<Rightarrow> json list \<Rightarrow> opt_state \<Rightarrow> (mapped_dfg list \<times> opt_state) option" where
  "map_files E a junk dumpCallFunc [] ss = Some ([], ss)"
| "map_files E a junk dumpCallFunc (j # js) ss = do {
     (ir, g) \<leftarrow> parseDFGJson (en_ops E) junk j;
     s1 \<leftarrow> setDFG a g False (fst ss);
     (succeed, task, ss1) \<leftarrow> mapper_execute E a dumpCallFunc (s1, snd ss);
     (if \<not> succeed then Some ([], ss1)
      else do {
        (mds, ss2) \<leftarrow> map_files E a junk dumpCallFunc js ss1;
        Some (\<lparr>md_mapping = mr_mapping (fst ss1), md_task = task\<rparr> # mds, ss2) }) }"

definition main_program :: "'f sa_env \<Rightarrow> int \<Rightarrow> int \<Rightarrow> bool \<Rightarrow> bool \<Rightarrow> json \<Rightarrow> json \<Rightarrow> json list \<Rightarrow> mapped_dfg list option" where
  "main_program E0 junk maxIters objOpt dumpCallFunc opFile adgFile dfgFiles = do {
     ops \<leftarrow> parse_operations opFile;
     (ms, a) \<leftarrow> parseADG [] adgFile;
     s \<leftarrow> new_MapperSA a maxIters objOpt;
     sc \<leftarrow> new_IOScheduler a;
     (mds, ss) \<leftarrow> map_files (E0\<lparr>en_ops := ops\<rparr>) a junk dumpCallFunc dfgFiles (s, sc);
     Some mds }"

section \<open>What the mapper leaves alone\<close>

text \<open>The operation counts of the architecture are computed once.\<close>

lemma cnt_find: "findCandidates E a g s m nd r k = Some (cs, s') \<Longrightarrow> mr_adgOpCnt s' = mr_adgOpCnt s"
  by (auto simp: findCandidates_def Let_def split: bind_splits)

lemma cnt_try: "try_from a g nd i cs (s, m) = Some (k, s', m') \<Longrightarrow> mr_adgOpCnt s' = mr_adgOpCnt s"
  by (induction cs arbitrary: i m) (auto split: bind_splits if_splits)

lemma cnt_incr: "incr_from E a g ns (s, m) = Some (ok, s', m') \<Longrightarrow> mr_adgOpCnt s' = mr_adgOpCnt s"
proof (induction ns arbitrary: s m)
  case (Cons n ns)
  then show ?case by (auto simp: tryCandidates_def dest!: cnt_find cnt_try split: bind_splits if_splits)
qed simp

lemma cnt_unmap: "unmapSA E a g t (s, m) = Some (s', m') \<Longrightarrow> mr_adgOpCnt s' = mr_adgOpCnt s"
proof -
  assume "unmapSA E a g t (s, m) = Some (s', m')"
  then have "mr_adgOpCnt (fst (s', m')) = mr_adgOpCnt s"
    unfolding unmapSA_def by (rule mfold_inv[where P = "\<lambda>u. mr_adgOpCnt (fst u) = mr_adgOpCnt s"])
      (auto simp: unmap_one_def Let_def split: bind_splits if_splits)
  then show ?thesis by simp
qed

lemma cnt_metropolis: "metropolis E d t s = (b, s') \<Longrightarrow> mr_adgOpCnt s' = mr_adgOpCnt s"
  by (auto simp: metropolis_def Let_def split: if_splits)

lemma cnt_judge: "sync_judge E i v (s, y) = (s', y') \<Longrightarrow> mr_adgOpCnt s' = mr_adgOpCnt s"
  by (auto simp: sync_judge_def Let_def dest!: cnt_metropolis split: prod.splits if_splits)

lemma setDFG_frame:
  assumes "setDFG a g b s = Some s'"
  shows "mr_adgOpCnt s' = mr_adgOpCnt s" "df_nodes (mr_dfg s') = df_nodes g" "df_ioNodes (mr_dfg s') = df_ioNodes g"
  using assms by (auto simp: setDFG_def initializeDfg_def dfg_topoSortNodes_def setDfgModified_def initOpLeftDfgAdgNum_def
      sortDfgNodeInPlaceOrder_def Let_def split: bind_splits if_splits)

lemma cnt_stuck: "sync_stuck E a r t md i (s, y) = Some (f, s', y') \<Longrightarrow> mr_adgOpCnt s' = mr_adgOpCnt s"
  by (auto simp: sync_stuck_def Let_def dest!: setDFG_frame(1) split: prod.splits bind_splits if_splits)

lemma cnt_iter: "sync_iter E a k r t md i (s, y) = Some (f, s', y') \<Longrightarrow> mr_adgOpCnt s' = mr_adgOpCnt s"
  by (auto simp: sync_iter_def incrPnR_def Let_def dest!: cnt_unmap cnt_incr cnt_judge cnt_stuck split: prod.splits bind_splits if_splits)

lemma cnt_loop:
  assumes "for_break (sync_iter E a k r t md) ks (s, y) = Some (s', y')"
  shows "mr_adgOpCnt s' = mr_adgOpCnt s"
proof -
  have "mr_adgOpCnt (fst (s', y')) = mr_adgOpCnt s"
    by (rule for_break_inv[where P = "\<lambda>sy. mr_adgOpCnt (fst sy) = mr_adgOpCnt s", OF _ assms]) (auto dest: cnt_iter)
  then show ?thesis by simp
qed

lemma cnt_pnrSync: "pnrSync E a n r t md s = Some (k, s') \<Longrightarrow> mr_adgOpCnt s' = mr_adgOpCnt s"
  by (auto simp: pnrSync_def Let_def dest!: cnt_loop split: bind_splits)

lemma cnt_obj: "objFunc E a bm b (s, sc) = Some (x, s', sc') \<Longrightarrow> mr_adgOpCnt s' = mr_adgOpCnt s"
  by (auto simp: objFunc_def Let_def split: bind_splits if_splits)

lemma cnt_opt_judge: "opt_judge E i x (s, p) = (s', p') \<Longrightarrow> mr_adgOpCnt s' = mr_adgOpCnt s"
  by (auto simp: opt_judge_def Let_def dest!: cnt_metropolis split: prod.splits if_splits)

lemma cnt_opt_iter: "opt_iter E a i ((s, sc), p) = Some (f, (s', sc'), p') \<Longrightarrow> mr_adgOpCnt s' = mr_adgOpCnt s"
  by (auto simp: opt_iter_def Let_def dest!: cnt_pnrSync cnt_obj cnt_opt_judge split: prod.splits bind_splits if_splits)

lemma cnt_opt_loop:
  assumes "for_break (opt_iter E a) ks ((s, sc), p) = Some ((s', sc'), p')"
  shows "mr_adgOpCnt s' = mr_adgOpCnt s"
proof -
  have "mr_adgOpCnt (fst (fst ((s', sc'), p'))) = mr_adgOpCnt s"
    by (rule for_break_inv[where P = "\<lambda>so. mr_adgOpCnt (fst (fst so)) = mr_adgOpCnt s", OF _ assms]) (auto dest: cnt_opt_iter)
  then show ?thesis by simp
qed

lemma cnt_mapperTimed: "mapperTimed E a (s, sc) = Some (ok, s', sc') \<Longrightarrow> mr_adgOpCnt s' = mr_adgOpCnt s"
  by (auto simp: mapperTimed_def run_mapper_def pnrSyncOpt_def Let_def dest!: cnt_opt_loop cnt_pnrSync split: bind_splits if_splits)

section \<open>The program returns\<close>

text \<open>A DFG file that the reader accepts and whose DFG is one for this architecture.\<close>

definition file_ready :: "op_table \<Rightarrow> int \<Rightarrow> top_adg \<Rightarrow> json \<Rightarrow> bool" where
  "file_ready ops junk a j \<longleftrightarrow> (case parseDFGJson ops junk j of None \<Rightarrow> False
     | Some (ir, g) \<Rightarrow> good a g \<and> small_counts a g \<and> named g)"

lemma map_files_ok:
  assumes E: "env_ok E" "arch_ok a" "pass_ok E a" "banks_ok a" "fp_ok (en_fp E)"
  shows "\<forall>j \<in> set js. file_ready (en_ops E) junk a j \<Longrightarrow> tally (mr_adgOpCnt s) (adg_ops a) \<Longrightarrow> old_ok a sc \<Longrightarrow>
    \<exists>mds ss. map_files E a junk False js (s, sc) = Some (mds, ss) \<and> length mds \<le> length js \<and>
      (\<forall>e \<in> set mds. mapped_in_sync a (fst (md_mapping e)) (snd (md_mapping e)))"
proof (induction js arbitrary: s sc)
  case (Cons j js)
  have "file_ready (en_ops E) junk a j" using Cons.prems(1) by simp
  then obtain ir g where g: "parseDFGJson (en_ops E) junk j = Some (ir, g)" "good a g" "small_counts a g" "named g"
    by (auto simp: file_ready_def split: option.splits)
  obtain s1 where s1: "setDFG a g False s = Some s1" "staged a (mr_dfg s1)" "mr_mapping s1 = (mr_dfg s1, new_Mapping)"
    "mr_placeOrder s1 = df_topoNodes (mr_dfg s1)" "left_ok (mr_dfg s1) (mr_opLeft s1)" using setDFG_ok[OF g(2) E(2)] by blast
  then have rdy: "sa_ready a s1" by (simp add: sa_ready_def)
  note fr = setDFG_frame[OF s1(1)]
  have pre: "small_counts a (mr_dfg s1)" "named (mr_dfg s1)" "tally (mr_adgOpCnt s1) (adg_ops a)"
    using g(3,4) fr Cons.prems(2) by (simp_all add: small_counts_def named_def dfg_node_def)
  obtain ok s2 sc2 where m: "mapperTimed E a (s1, sc) = Some (ok, s2, sc2)" "old_ok a sc2"
    "ok \<longrightarrow> sa_ready a s2 \<and> mapped_in_sync a (mr_dfg s2) (snd (mr_mapping s2))"
    using mapperTimed_ok[OF E rdy Cons.prems(3) pre] by blast
  have ex: "mapper_execute E a False (s1, sc) = Some (ok, None, s2, sc2)" using m(1) by (simp add: mapper_execute_def)
  show ?case
  proof (cases ok)
    case False
    then have "map_files E a junk False (j # js) (s, sc) = Some ([], s2, sc2)" using g(1) s1(1) ex by simp
    then show ?thesis by auto
  next
    case True
    have "tally (mr_adgOpCnt s2) (adg_ops a)" using cnt_mapperTimed[OF m(1)] pre(3) by simp
    then obtain mds ss where d: "map_files E a junk False js (s2, sc2) = Some (mds, ss)" "length mds \<le> length js"
      "\<forall>e \<in> set mds. mapped_in_sync a (fst (md_mapping e)) (snd (md_mapping e))" using Cons.IH[of s2 sc2] Cons.prems(1) m(2) by auto
    have "map_files E a junk False (j # js) (s, sc) = Some (\<lparr>md_mapping = mr_mapping s2, md_task = None\<rparr> # mds, ss)"
      using g(1) s1(1) ex True d(1) by simp
    moreover have "fst (mr_mapping s2) = mr_dfg s2" using m(3) True by (simp add: sa_ready_def)
    ultimately show ?thesis using d(2,3) m(3) True by auto
  qed
qed simp

lemma inputs_wf: "om_wf (gn_inputs n) \<Longrightarrow> om_wf (gn_inputs (wired i k n es))"
  by (induction es rule: rev_induct) (auto simp: wired_snoc wired_def wire_def Let_def gnode_addInput_def gnode_addOutput_def)

lemma parsed_linked:
  assumes run: "parseADG ms j = Some (ms', a)" and ar: "arch_ok a"
  shows "adg_linked a"
proof -
  obtain insts edges a0 a1 where r: "read_nodes_ok (j_elems insts) a0" "parseADGEdges edges a0 = Some a1" "postProcess a1 = Some a"
    by (rule parseADG_steps[OF run])
  have wf: "om_wf (gn_inputs n)" if n: "adg_node a k = Some n" for k n
  proof -
    obtain n0 where n0: "adg_node a0 k = Some n0" "gn_inputs n = gn_inputs (wired (g_id a0) k n0 (conns edges))"
      using parsed_node(1)[OF r n] by blast
    have "gn_inputs n0 = []" using r(1) n0(1) by (auto simp: read_nodes_ok_def fresh_node_def)
    then show ?thesis unfolding n0(2) by (intro inputs_wf) simp
  qed
  have "om_has (ag_nodes a) i" if "adg_node a k = Some n" "(p, (i, q)) \<in> set (gn_inputs n)" for k n p i q
    using ar that om_get_mem[OF wf[OF that(1)], of p "(i, q)"] by (fastforce simp: arch_ok_def adg_ok_def anode_ok_def)
  then show ?thesis using ar by (auto simp: adg_linked_def arch_ok_def)
qed

lemma new_MapperSA_ok:
  assumes "arch_ok a" "adg_linked a"
  shows "\<exists>s. new_MapperSA a n b = Some s \<and> tally (mr_adgOpCnt s) (adg_ops a)"
proof -
  obtain M where "dist_init a = Some M" using dist_init_ok[OF assms(2)] by blast
  then obtain s1 where s1: "calAdgNodeDist a \<lparr>mr_dfg = new_DFG, mr_dfgModified = None, mr_isDfgModified = False, mr_node2node = [],
       mr_mapping = (new_DFG, new_Mapping), mr_placeOrder = [], mr_adgOpCnt = [], mr_opLeft = [], sa_maxIters = n,
       sa_objOpt = b, sa_dfgLat = 0, sa_mappedAdgNodeNum = 0, sa_ioDeps = 0, sa_tick = 0\<rparr> = Some s1" "mr_adgOpCnt s1 = []"
    by (simp add: calAdgNodeDist_def)
  from calAdgOpCnt_ok[OF assms(1) s1(2)] s1(1) show ?thesis by (auto simp: new_MapperSA_def initializeAdg_def)
qed

lemma main_program_ok:
  assumes ops: "parse_operations opFile = Some ops" and adg: "parseADG [] adgFile = Some (ms, a)"
    and fl: "j_at adgFile ''instances'' = Some insts" "j_at adgFile ''connections'' = Some edges" "adg_file_ok (j_elems insts) (conns edges)"
    and E: "env_ok E" "fp_ok (en_fp E)" "pass_ok (E\<lparr>en_ops := ops\<rparr>) a" "banks_ok a" "0 \<le> ag_iobSpadBankSize a"
    and dfgs: "\<forall>j \<in> set dfgFiles. file_ready ops junk a j"
  shows "\<exists>mds. main_program E junk maxIters objOpt False opFile adgFile dfgFiles = Some mds \<and> length mds \<le> length dfgFiles \<and>
    (\<forall>e \<in> set mds. mapped_in_sync a (fst (md_mapping e)) (snd (md_mapping e)))"
proof -
  have ar: "arch_ok a" using parseADG_arch_ok(1)[OF adg fl] .
  obtain s where s: "new_MapperSA a maxIters objOpt = Some s" "tally (mr_adgOpCnt s) (adg_ops a)"
    using new_MapperSA_ok[OF ar parsed_linked[OF adg ar]] by blast
  have "0 \<le> ag_numIobNodes a" using E(4) by (simp add: banks_ok_def)
  then obtain sc where sc: "new_IOScheduler a = Some sc" "old_ok a sc" using new_IOScheduler_ok[of a] E(5) by blast
  let ?E = "E\<lparr>en_ops := ops\<rparr>"
  have e: "env_ok ?E" "fp_ok (en_fp ?E)" using E(1,2) by (simp_all add: env_ok_def)
  have d: "\<forall>j \<in> set dfgFiles. file_ready (en_ops ?E) junk a j" using dfgs by simp
  obtain mds ss where r: "map_files ?E a junk False dfgFiles (s, sc) = Some (mds, ss)" "length mds \<le> length dfgFiles"
      "\<forall>e \<in> set mds. mapped_in_sync a (fst (md_mapping e)) (snd (md_mapping e))"
    using map_files_ok[OF e(1) ar E(3,4) e(2) d s(2) sc(2)] by blast
  then show ?thesis using ops adg s(1) sc(1) by (auto simp: main_program_def)
qed


end
