(* ===== verification/DriverExamples.thy ===== *)
theory DriverExamples
  imports IoExamples ReaderExamples Driver
begin

text \<open>
  The whole program on three small files: the operations, the architecture of \<open>ReaderExamples\<close>, and a
  DFG file that describes the DFG of \<open>Examples\<close>.
\<close>

definition ex_op :: "string \<Rightarrow> json" where
  "ex_op name = JObj [(''OPC'', JInt 0), (''latency'', JInt 1), (''name'', JStr name)]"

definition ex_op_file :: json where
  "ex_op_file = JObj [(''Operations'', JArr [ex_op ''PASS'', ex_op ''INPUT'', ex_op ''OUTPUT''])]"

definition ex_io :: "string \<Rightarrow> int \<Rightarrow> json" where
  "ex_io op k = JObj [(''_gvid'', JInt k), (''name'', JStr []), (''opcode'', JStr op), (''size'', JStr ''60'')]"

definition ex_io_edge :: "int \<Rightarrow> int \<Rightarrow> json" where
  "ex_io_edge k dst = JObj [(''_gvid'', JInt k), (''head'', JInt dst), (''operand'', JStr ''0''), (''tail'', JInt 0)]"

definition ex_dfg_file :: json where
  "ex_dfg_file = JObj [(''edges'', JArr [ex_io_edge 1 1, ex_io_edge 2 2]), (''objects'', JArr [ex_io ''INPUT'' 0, ex_io ''OUTPUT'' 1, ex_io ''OUTPUT'' 2])]"

definition ex_parsed_ops :: op_table where
  "ex_parsed_ops = the (parse_operations ex_op_file)"

lemma ex_ops_read:
  "parse_operations ex_op_file = Some ex_parsed_ops" "op_opCapable ex_parsed_ops ''PASS''" "op_latency ex_parsed_ops ''PASS'' = 1"
  by code_simp+

lemma ex_dfg_read: "map_option snd (parseDFGJson ex_parsed_ops 0 ex_dfg_file) = Some (ex_dfg\<lparr>df_topoNodes := []\<rparr>)"
  by code_simp

definition ex_unit :: "int \<times> anode \<Rightarrow> bool" where
  "ex_unit p = (case p of (k, n) \<Rightarrow>
     gn_type n = ''IOB'' \<and> k \<in> {1, 2, 3} \<and> an_index n = k - 1 \<and> an_operandInputs n = [[0]] \<and>
       an_operations n = [''INPUT'', ''LOAD'', ''OUTPUT'', ''STORE'']
     \<or> gn_type n = ''GIB'')"

lemma ex_units: "map_option (\<lambda>a. list_all ex_unit (ag_nodes a)) ex_read = Some True"
  by code_simp

lemma ex_banks_read:
  "map_option (\<lambda>a. (ag_numIobNodes a, ag_numGpeNodes a, g_bitWidth a, ag_cfgSpadDataWidth a, ag_iobSpadBankSize a, ag_iobToSpadBanks a)) ex_read =
     Some (3, 0, 32, 64, 1024, [(0, [0, 1]), (1, [0, 1]), (2, [2])])"
  by code_simp

lemma ex_unit_node:
  assumes "ex_read = Some a" "adg_node a k = Some n"
  shows "ex_unit (k, n)"
proof -
  have "list_all ex_unit (ag_nodes a)" using ex_units unfolding assms(1) by simp
  moreover have "(k, n) \<in> set (ag_nodes a)" using assms(2) by (simp add: adg_node_def map_of_SomeD)
  ultimately show ?thesis by (auto simp: list_all_iff)
qed

lemma ex_iob_unit:
  assumes "ex_read = Some a" "adg_node a k = Some n" "gn_type n = ''IOB''"
  shows "k \<in> {1, 2, 3}" "an_index n = k - 1" "an_operandInputs n = [[0]]" "an_operations n = [''INPUT'', ''LOAD'', ''OUTPUT'', ''STORE'']"
  using ex_unit_node[OF assms(1,2)] assms(3) by (simp_all add: ex_unit_def)

lemma ex_fu_unit: "ex_read = Some a \<Longrightarrow> adg_node a k = Some n \<Longrightarrow> is_fu n \<Longrightarrow> gn_type n = ''IOB''"
  using ex_unit_node[of a k n] by (auto simp: ex_unit_def is_fu_def)

lemma ex_read_banks:
  assumes a: "ex_read = Some a"
  shows "banks_ok a" "0 \<le> ag_iobSpadBankSize a" "ag_numIobNodes a = 3" "ag_numGpeNodes a = 0"
proof -
  have b: "ag_numIobNodes a = 3" "ag_numGpeNodes a = 0" "g_bitWidth a = 32" "ag_cfgSpadDataWidth a = 64" "ag_iobSpadBankSize a = 1024"
    "ag_iobToSpadBanks a = [(0, [0, 1]), (1, [0, 1]), (2, [2])]" using ex_banks_read unfolding a by simp_all
  have i: "an_index n = k - 1 \<and> k \<in> {1, 2, 3}" if "adg_node a k = Some n" "gn_type n = ''IOB''" for k n
    using ex_iob_unit[OF a that] by simp
  have idx: "an_index n = 0 \<or> an_index n = 1 \<or> an_index n = 2" if "adg_node a k = Some n" "gn_type n = ''IOB''" for k n
    using i[OF that] by auto
  have "iob_sharing a [0, 1] \<subseteq> {0, 1}" "iob_sharing a [2] \<subseteq> {2}"
    unfolding iob_sharing_def using idx by (fastforce simp: b om_at_def)+
  then have d: "card (iob_sharing a [0, 1]) \<le> card (set [0, 1 :: int])" "card (iob_sharing a [2]) \<le> card (set [2 :: int])"
    by (intro card_mono; simp)+
  have e: "om_at [] (ag_iobToSpadBanks a) 0 = [0, 1]" "om_at [] (ag_iobToSpadBanks a) 1 = [0, 1]" "om_at [] (ag_iobToSpadBanks a) 2 = [2]"
    by (simp_all add: b om_at_def)
  have c: "card (iob_sharing a (om_at [] (ag_iobToSpadBanks a) x)) \<le> card (set (om_at [] (ag_iobToSpadBanks a) x))"
    "om_at [] (ag_iobToSpadBanks a) x \<noteq> []" "\<forall>y \<in> set (om_at [] (ag_iobToSpadBanks a) x). 0 \<le> y \<and> y < 3"
    if x: "x = 0 \<or> x = 1 \<or> x = 2" for x
  proof -
    consider "om_at [] (ag_iobToSpadBanks a) x = [0, 1]" | "om_at [] (ag_iobToSpadBanks a) x = [2]" using x e by auto
    then show "card (iob_sharing a (om_at [] (ag_iobToSpadBanks a) x)) \<le> card (set (om_at [] (ag_iobToSpadBanks a) x))"
      by cases (simp_all only: d)
    show "om_at [] (ag_iobToSpadBanks a) x \<noteq> []" "\<forall>y \<in> set (om_at [] (ag_iobToSpadBanks a) x). 0 \<le> y \<and> y < 3" using x e by auto
  qed
  show "banks_ok a"
    unfolding banks_ok_def Let_def b(1)
  proof (intro conjI allI impI)
    fix k n assume n: "adg_node a k = Some n" "gn_type n = ''IOB''"
    note x = idx[OF n]
    show "0 \<le> an_index n" "an_index n < 32" using x by auto
    show "om_at [] (ag_iobToSpadBanks a) (an_index n) \<noteq> []" by (rule c(2)[OF x])
    show "card (iob_sharing a (om_at [] (ag_iobToSpadBanks a) (an_index n))) \<le> card (set (om_at [] (ag_iobToSpadBanks a) (an_index n)))"
      by (rule c(1)[OF x])
    show "\<forall>y \<in> set (om_at [] (ag_iobToSpadBanks a) (an_index n)). 0 \<le> y \<and> y < 3" by (rule c(3)[OF x])
  next
    fix k k' x y assume n: "adg_node a k = Some x" "adg_node a k' = Some y" "gn_type x = ''IOB''" "gn_type y = ''IOB''" "an_index x = an_index y"
    show "k = k'" using i[OF n(1,3)] i[OF n(2,4)] n(5) by simp
  qed (simp_all add: b signed_divide_int_def)
  show "0 \<le> ag_iobSpadBankSize a" "ag_numIobNodes a = 3" "ag_numGpeNodes a = 0" by (simp_all add: b)
qed

lemma ex_read_good:
  assumes a: "ex_read = Some a"
  shows "good a ex_dfg"
proof -
  have p: "in_ports ex_dfg n \<subseteq> {0}" for n unfolding in_ports_def ex_abs by auto
  have "node_good a ex_dfg n nd" if "dfg_node ex_dfg n = Some nd" for n nd
  proof -
    have n: "dn_io nd \<noteq> None" "dn_opLatency nd = 1" "\<not> dn_commutative nd" "n \<in> {1, 2, 3}"
      using that unfolding ex_dfg_node by (auto simp: ex_n1_def ex_sink_def ex_node_def new_DFGNode_def)
    have "length (an_operandInputs fu) = 1" if "adg_node a k = Some fu" "is_fu fu" for k fu
      using ex_iob_unit(3)[OF a that(1) ex_fu_unit[OF a that]] by simp
    then have "operands_fit a nd (in_ports ex_dfg n)" using p[of n] n(3) unfolding operands_fit_def by fastforce
    then show ?thesis using n ex_fu_unit[OF a] by (auto simp: node_good_def io_only_def ex_ios)
  qed
  then show ?thesis using ex_sound ex_acyclic ex_alive by (auto simp: good_def ex_ios ex_dfg_has)
qed

lemma ex_file_ready:
  assumes a: "ex_read = Some a"
  shows "file_ready ex_parsed_ops 0 a ex_dfg_file"
proof -
  obtain ir where r: "parseDFGJson ex_parsed_ops 0 ex_dfg_file = Some (ir, ex_dfg\<lparr>df_topoNodes := []\<rparr>)" using ex_dfg_read by auto
  have "small_counts a (ex_dfg\<lparr>df_topoNodes := []\<rparr>)" using ex_read_banks[OF a] by (simp add: small_counts_def ex_dfg_def ex_nodes_def)
  moreover have "named (ex_dfg\<lparr>df_topoNodes := []\<rparr>)"
    by (auto simp: named_def dfg_node_def ex_dfg_def ex_nodes_def ex_n1_def ex_sink_def ex_node_def split: if_splits)
  ultimately show ?thesis using r ex_read_good[OF a] by (simp add: file_ready_def)
qed


end
