(* ===== verification/Spec2Isabelle.thy ===== *)
theory Spec2Isabelle
  imports DriverExamples
begin

text \<open>
  Verification of the CGRA compiler of FDRA (\<open>src/cgra-compiler\<close>): the C++ program that reads a
  data-flow graph (DFG) and the description of a coarse-grained reconfigurable array (ADG), places
  every DFG node on a functional unit, routes every edge over the interconnect, makes all operands
  arrive on time, and writes the commands and the configuration that run the kernel.

  \<^bold>\<open>How the parts interact.\<close> \<open>main\<close> reads the operation table, the ADG and, one after the other, the
  DFGs. For each DFG \<open>Mapper::setDFG\<close> sorts it topologically and counts the units left for each
  operation; \<open>mapperTimed\<close> checks the resources and runs the annealing mapper, which calls the router
  to place and remove nodes, the latency schedule to find the operands that come too early or too
  late, and \<open>insertPassDfgNodes\<close> when they cannot be fixed; its objective asks the I/O scheduler for a
  plan. A mapped DFG becomes a task: scratchpad banks for its inputs and outputs, the configuration
  packets, and the commands that wait for the tasks before.

  \<^bold>\<open>Theories and code.\<close> File names are those under \<open>src/cgra-compiler\<close>.

  \<^item> \<open>Prelude\<close>: ordered maps and sets (\<open>std::map\<close>, \<open>std::set\<close>), loops that can fail, and the general
    contracts \<open>map_api\<close>, \<open>ordered_map_api\<close>, \<open>set_api\<close>, \<open>loop_body\<close> and \<open>step_system\<close>.
  \<^item> \<open>Graph\<close>: \<open>graph/graph_edge\<close>, \<open>graph_node\<close>, \<open>graph\<close>; the base classes, as extensible records.
  \<^item> \<open>OpInfo\<close>: \<open>op/operations\<close>, and JSON values as the readers see them.
  \<^item> \<open>Dfg\<close>, \<open>DfgTopo\<close>: \<open>dfg/dfg_node\<close>, \<open>dfg/dfg\<close>; the graph, its edge operations, the topological order.
  \<^item> \<open>Adg\<close>: \<open>adg/adg_node\<close>, \<open>adg/adg\<close>; functional units, interconnect blocks and their graph.
  \<^item> \<open>MapState\<close>, \<open>Routing\<close>: placement and routing in \<open>mapper/mapping\<close>. The record \<open>mapping\<close> has the
    tables of the class \<open>Mapping\<close>; \<open>routeDfgEdgePass\<close>, \<open>routeDfgEdgeFromDst\<close>, \<open>routeDfgEdgeFromSrc\<close>,
    \<open>mapDfgNode\<close> and \<open>unmapDfgNode\<close> are its methods. Proofs: \<open>RouteViews\<close> (what the updates change),
    \<open>RouteSearch\<close> and \<open>RouteChain\<close> (the breadth-first search and the chain it leaves), \<open>RouteInv\<close>
    (the invariant), \<open>RouteEdge\<close> and \<open>RouteNode\<close> (one edge, one node).
  \<^item> \<open>Latency\<close>: the schedule in \<open>mapper/mapping\<close> (\<open>latencyBound\<close>, \<open>latencySchedule\<close>, \<open>calEdgeLatVio\<close>,
    \<open>insertPassDfgNodes\<close>). Proofs: \<open>Timing\<close>, \<open>Violation\<close>, \<open>PassInsert\<close>, \<open>PassValues\<close>.
  \<^item> \<open>Mapper\<close>: \<open>mapper/mapper\<close>; distances, operation counts, set-up, the check before mapping. Proofs:
    \<open>MapperDist\<close>, \<open>MapperCheck\<close>.
  \<^item> \<open>MapperSa\<close>, \<open>MapperOpt\<close>: \<open>mapper/mapper_sa\<close>; candidates, \<open>incrPnR\<close>, \<open>pnrSync\<close>, the objective,
    \<open>pnrSyncOpt\<close>. The variables of a loop are a record (\<open>sync\<close>, \<open>opt\<close>). Proofs: \<open>SaInv\<close>, \<open>SaCorrect\<close>,
    \<open>SaLoop\<close>, \<open>MapperCorrect\<close>.
  \<^item> \<open>IoScheduler\<close>, \<open>IoProgram\<close>: \<open>mapper/io_scheduler\<close>; banks and dependences, then the commands and
    their text. Proofs: \<open>IoCorrect\<close>, \<open>IoTasks\<close>.
  \<^item> \<open>Configuration\<close>, \<open>CfgPack\<close>: \<open>mapper/configuration\<close>; the fields of every node, their packing into
    packets. Proofs: also \<open>ConfigCorrect\<close>.
  \<^item> \<open>DfgReader\<close>, \<open>AdgReader\<close>: \<open>ir/dfg_ir\<close>, \<open>ir/adg_ir\<close>; from JSON values to graphs. Proofs:
    \<open>DfgReaderCorrect\<close>, \<open>AdgReaderCorrect\<close>.
  \<^item> \<open>Driver\<close>: \<open>main.cpp\<close> and \<open>Mapper::execute\<close>.
  \<^item> \<open>Examples\<close>, \<open>Witnesses\<close>, \<open>MapperExamples\<close>, \<open>ConfigExamples\<close>, \<open>IoExamples\<close>, \<open>ReaderExamples\<close>,
    \<open>DriverExamples\<close>: small graphs, files and tasks at which the hypotheses of every property hold.

  \<^bold>\<open>How state is modelled.\<close> A pointer to a node is its id, null is \<open>None\<close>; the objects are in the maps of
  their graph. A method that changes its object returns the changed record. A failed assertion, an
  exception, an index out of range, a null dereference and a division by zero are the value \<open>None\<close>,
  so a theorem that concludes \<open>Some\<close> excludes them. The order of iteration over containers is that of
  the code.

  \<^bold>\<open>Contracts between components.\<close> Each is a locale, interpreted on the model:

  \<^item> \<open>placer\<close> (\<open>MapState\<close>): placing and removing a node. It holds of the tables alone (\<open>spots\<close>), of
    placement with routing (\<open>router\<close> in \<open>RouteNode\<close>), and of what the annealing loop keeps (\<open>annealer\<close>
    in \<open>SaCorrect\<close>); the proofs of the loop use only the last.
  \<^item> \<open>loop_body\<close>: an iteration that may break. From it \<open>pnrSync\<close> (\<open>anneal\<close> in \<open>SaLoop\<close>) and
    \<open>pnrSyncOpt\<close> (\<open>optimise\<close> in \<open>MapperCorrect\<close>) return.
  \<^item> \<open>step_system\<close>: the states of the I/O scheduler over any sequence of plans and tasks (\<open>sched\<close> in
    \<open>IoTasks\<close>).
  \<^item> \<open>value_codec\<close>: a number conversion that reads back what is written (\<open>ints\<close>, \<open>uints\<close> in
    \<open>DfgReaderCorrect\<close>).

  \<^bold>\<open>What the theorems show.\<close>

  \<^item> Readers: a file whose ids and inputs are unique becomes exactly the graph it describes, and an
    architecture file gives an ADG on which the mapper's theorems hold.
  \<^item> Graphs: edge operations refine updates of a set of edges; the topological sort returns on
    every graph and is correct on acyclic ones; recorded distances are those of shortest walks.
  \<^item> Mapping: the operations of the router return, keep the invariant and are all or nothing; a
    reported success is a placement with legal routes that share no port wrongly. The latency
    schedule returns, its delays fit the delay units, its account of violations is exact, and
    without violation every operand arrives in the cycle in which it is needed. The insertion of PASS nodes
    changes no value the DFG computes.
  \<^item> Annealing: for all random numbers, clocks, shuffles, sorts and rounding, the loops return, and
    what they report as mapped is complete, routed and synchronised.
  \<^item> Tasks: regions are disjoint; commands of consecutive tasks that touch the same scratchpad bytes
    wait for each other; every input is loaded and every output stored once; the configuration
    fields can be read back from the packets and realise the routes.
  \<^item> The program returns on well-formed files, with such a mapping for every DFG up to the first
    that cannot be mapped.

  \<^bold>\<open>Bounds of recursions.\<close> Recursion that is not structural has a termination proof or a fuel that is
  proved to be enough: the depth-first search has one more than the number of nodes
  (\<open>topoSort_returns\<close>); the route search two more than the number of driven input ports
  (\<open>RouteSearch\<close>); the critical path and the scheduling loop one more than the nodes left
  (\<open>latencySchedule_returns\<close>). The iterations of the annealing loops are the list of their
  counters. The walk through a sub-ADG (\<open>walk_to\<close>) may not end on a cyclic one; it is a partial
  function, characterised by the inductive relation \<open>leads\<close>.

  \<^bold>\<open>Parameters.\<close> The record \<open>sa_env\<close> has what the environment decides: random numbers, the clock, the
  results of \<open>std::random_shuffle\<close> and \<open>std::sort\<close> (of which only that they permute is assumed,
  and for the I/O scheduler that they sort), the value of a variable the code leaves uninitialised, and
  floating-point arithmetic (\<open>fp\<close>), of which only that the first objective is below the start value
  is used. The integers of the mapper are unbounded; configuration words, immediates and packets are
  machine words.

  \<^bold>\<open>Not modelled.\<close> The JSON text parser and the logging library (third-party code), opening and writing
  files, the command line and its help text, the Graphviz drawings (\<open>mapper/visualize\<close>), usage
  statistics and messages: no result depends on them. \<open>Mapper::genSoCApp\<close>, which splices text into a
  C file by stream positions and is not called. The LLVM pass of \<open>src/app-compiler\<close>, which works
  on the intermediate representation through the LLVM library; the Chisel generator is another
  program. A sub-ADG inside the modules of a sub-ADG fails in the model. The overflow of an \<open>int\<close>
  in distances and in the product of violations is a limit of the model. The theorem on the
  whole program is for runs that write no call functions; the theorems on tasks cover those for any
  mapping whose configuration is generated, which is not shown to succeed for every mapping.
\<close>

end
